(* ===== verification/Prelude.thy ===== *)
theory Prelude
  imports Main "HOL-Library.Word" "HOL-Library.State_Monad"
begin

text \<open>
  Shared vocabulary of the development: the machine integers the sources use (uint8_t to
  uint64_t), byte buffers (\<^verbatim>\<open>std::vector<uint8_t>\<close>), \<^verbatim>\<open>std::string\<close> as a list of
  characters and its bytes, little-endian splitting and joining of words, and the lemma
  collections the component theories add to. Nothing here models a component of its own.
\<close>

unbundle bit_operations_syntax

named_theorems reads_intros \<open>rules deriving that a decoder inverts an encoder\<close>
named_theorems emits_intros \<open>rules deriving that a decoder accepts only what the encoder writes\<close>
named_theorems sticky_intros \<open>rules deriving that a failed reader stays failed\<close>

section \<open>Machine integers, bytes and strings\<close>

type_synonym u8 = "8 word"
type_synonym u16 = "16 word"
type_synonym u32 = "32 word"
type_synonym u64 = "64 word"
type_synonym byte = u8

text \<open>A \<^verbatim>\<open>float\<close> is its IEEE 754 binary32 bit pattern, a \<^verbatim>\<open>double\<close> its binary64 one.\<close>

type_synonym f32 = "32 word"
type_synonym f64 = "64 word"
type_synonym bytes = "byte list"

definition byte_of_char :: "char \<Rightarrow> byte" where
  "byte_of_char c = word_of_nat (of_char c)"

definition char_of_byte :: "byte \<Rightarrow> char" where
  "char_of_byte b = char_of (unat b)"

text \<open>The bytes of a \<^verbatim>\<open>std::string\<close>, and the string a run of bytes makes.\<close>

definition string_bytes :: "string \<Rightarrow> bytes" where
  "string_bytes s = map byte_of_char s"

definition bytes_string :: "bytes \<Rightarrow> string" where
  "bytes_string bs = map char_of_byte bs"

text \<open>\<^verbatim>\<open>c_str()\<close> as a C function reads it: up to the first NUL.\<close>

definition c_str :: "string \<Rightarrow> string" where
  "c_str s = takeWhile (\<lambda>c. c \<noteq> CHR 0x00) s"

lemma char_of_byte_of_char [simp]: "char_of_byte (byte_of_char c) = c"
proof -
  have "unat (word_of_nat (of_char c) :: byte) = of_char c"
    using nat_of_char_less_256 [of c] by (simp add: unat_of_nat)
  then show ?thesis by (simp add: char_of_byte_def byte_of_char_def)
qed

lemma byte_of_char_of_byte [simp]: "byte_of_char (char_of_byte b) = b"
proof -
  have "unat b < 2 ^ LENGTH(8)"
    by (rule unsigned_less)
  then have "(of_char (char_of (unat b)) :: nat) = unat b"
    by simp
  then show ?thesis by (simp add: char_of_byte_def byte_of_char_def)
qed

lemma bytes_string_inverse [simp]: "bytes_string (string_bytes s) = s"
  by (induction s) (simp_all add: bytes_string_def string_bytes_def)

lemma string_bytes_inverse [simp]: "string_bytes (bytes_string bs) = bs"
  by (induction bs) (simp_all add: bytes_string_def string_bytes_def)

lemma length_string_bytes [simp]: "length (string_bytes s) = length s"
  by (simp add: string_bytes_def)

lemma length_bytes_string [simp]: "length (bytes_string bs) = length bs"
  by (simp add: bytes_string_def)

lemma take_string_bytes: "take n (string_bytes s) = string_bytes (take n s)"
  by (simp add: string_bytes_def take_map)

section \<open>Little-endian words\<close>

text \<open>
  \<open>little_bytes n v\<close> lists the low \<open>n\<close> bytes of \<open>v\<close>, least significant first;
  \<open>little_join n f\<close> is the loop that ORs byte \<open>f i\<close> in at bit \<open>8 * i\<close>.
\<close>

definition little_bytes :: "nat \<Rightarrow> 'a::len word \<Rightarrow> bytes" where
  "little_bytes n v = map (\<lambda>i. ucast (drop_bit (8 * i) v)) [0..<n]"

fun little_join :: "nat \<Rightarrow> (nat \<Rightarrow> byte) \<Rightarrow> 'a::len word" where
  "little_join 0 f = 0"
| "little_join (Suc n) f = little_join n f OR push_bit (8 * n) (ucast (f n))"

lemma length_little_bytes [simp]: "length (little_bytes n v) = n"
  by (simp add: little_bytes_def)

lemma nth_little_bytes: "i < n \<Longrightarrow> little_bytes n v ! i = ucast (drop_bit (8 * i) v)"
  by (simp add: little_bytes_def)

lemma bit_little_join:
  fixes f :: "nat \<Rightarrow> byte"
  shows "bit (little_join n f :: 'a::len word) k \<longleftrightarrow>
     k < LENGTH('a) \<and> k < 8 * n \<and> bit (f (k div 8)) (k mod 8)"
proof (induction n)
  case 0
  then show ?case by simp
next
  case (Suc n)
  have top: "bit (push_bit (8 * n) (ucast (f n)) :: 'a word) k \<longleftrightarrow>
      k < LENGTH('a) \<and> 8 * n \<le> k \<and> bit (f n) (k - 8 * n)"
    by (auto simp: bit_push_bit_iff bit_ucast_iff)
  show ?case
  proof (cases "8 * n \<le> k \<and> k < 8 * Suc n")
    case True
    then have "k div 8 = n"
      by (simp add: div_nat_eqI)
    then have "k mod 8 = k - 8 * n"
      by (simp add: modulo_nat_def mult.commute)
    with True \<open>k div 8 = n\<close> show ?thesis
      by (simp add: Suc.IH bit_or_iff top)
  next
    case False
    have "\<not> bit (f n) (k - 8 * n)" if "8 * Suc n \<le> k"
      using that by (auto dest: bit_imp_le_length)
    with False show ?thesis
      by (auto simp: Suc.IH bit_or_iff top)
  qed
qed

lemma little_join_cong:
  "(\<And>i. i < n \<Longrightarrow> f i = g i) \<Longrightarrow> little_join n f = little_join n g"
  by (induction n) auto

lemma little_join_bytes:
  fixes v :: "'a::len word"
  assumes "LENGTH('a) \<le> 8 * n"
  shows "little_join n ((!) (little_bytes n v)) = v"
proof (rule bit_word_eqI)
  fix k
  assume "k < LENGTH('a)"
  with assms have "k div 8 < n" and "k < 8 * n"
    by simp_all
  then show "bit (little_join n ((!) (little_bytes n v)) :: 'a word) k = bit v k"
    using \<open>k < LENGTH('a)\<close>
    by (simp add: bit_little_join nth_little_bytes bit_ucast_iff bit_drop_bit_eq
        mult.commute [of 8] div_mult_mod_eq)
qed

lemma little_bytes_join:
  fixes f :: "nat \<Rightarrow> byte"
  assumes "8 * n \<le> LENGTH('a::len)"
  shows "little_bytes n (little_join n f :: 'a word) = map f [0..<n]"
proof (rule nth_equalityI)
  fix i
  assume "i < length (little_bytes n (little_join n f :: 'a word))"
  then have i: "i < n" by simp
  have "(ucast (drop_bit (8 * i) (little_join n f :: 'a word)) :: byte) = f i"
  proof (rule bit_word_eqI)
    fix k assume "k < LENGTH(8)"
    then have "k < 8" and "8 * i + k < 8 * n" and "8 * i + k < LENGTH('a)"
      using i assms by simp_all
    then show "bit (ucast (drop_bit (8 * i) (little_join n f :: 'a word)) :: byte) k = bit (f i) k"
      by (simp add: bit_ucast_iff bit_drop_bit_eq bit_little_join)
  qed
  with i show "little_bytes n (little_join n f :: 'a word) ! i = map f [0..<n] ! i"
    by (simp add: nth_little_bytes)
qed simp

lemma map_nth_take: "n \<le> length xs \<Longrightarrow> map ((!) xs) [0..<n] = take n xs"
  by (intro nth_equalityI) simp_all

end
