(* ===== verification/ByteStream.thy ===== *)
theory ByteStream
  imports Prelude
begin

text \<open>
  \<^verbatim>\<open>common/net/include/net/byte_stream.h\<close>: the little-endian wire encoding every message of
  the system is built from. \<open>ByteWriter\<close> appends to a buffer; \<open>ByteReader\<close> is a cursor
  over untrusted bytes whose reads are bounds-checked and set a failure flag. Reads are
  state-monad computations, so decoders are written in the order the sources read. The
  theory ends with the calculus the message theories use: \<open>reads\<close> (a decoder inverts an
  encoder), \<open>emits\<close> (a successful decoder moved past exactly an encoding) and \<open>sticky\<close>
  (failure is never forgotten), and with the interface \<open>wire_codec\<close> they meet.
\<close>

section \<open>ByteWriter\<close>

definition kMaxStringLength :: nat where
  "kMaxStringLength = 1024"

definition writer_raw :: "bytes \<Rightarrow> bytes \<Rightarrow> bytes" where
  "writer_raw data buf = buf @ data"

definition writer_little :: "nat \<Rightarrow> 'a::len word \<Rightarrow> bytes \<Rightarrow> bytes" where
  "writer_little n v = writer_raw (little_bytes n v)"

definition writer_u8 :: "u8 \<Rightarrow> bytes \<Rightarrow> bytes" where
  "writer_u8 v = writer_raw [v]"

definition writer_u16 :: "u16 \<Rightarrow> bytes \<Rightarrow> bytes" where
  "writer_u16 v = writer_little 2 v"

definition writer_u32 :: "u32 \<Rightarrow> bytes \<Rightarrow> bytes" where
  "writer_u32 v = writer_little 4 v"

definition writer_u64 :: "u64 \<Rightarrow> bytes \<Rightarrow> bytes" where
  "writer_u64 v = writer_little 8 v"

text \<open>\<^verbatim>\<open>int32_t\<close> and \<^verbatim>\<open>float\<close> travel as their 32-bit patterns.\<close>

definition writer_i32 :: "u32 \<Rightarrow> bytes \<Rightarrow> bytes" where
  "writer_i32 v = writer_little 4 v"

definition writer_f32 :: "u32 \<Rightarrow> bytes \<Rightarrow> bytes" where
  "writer_f32 bits = writer_little 4 bits"

definition writer_string :: "string \<Rightarrow> bytes \<Rightarrow> bytes" where
  "writer_string v buf =
     (let len = (if length v > kMaxStringLength then kMaxStringLength else length v)
      in writer_raw (take len (string_bytes v)) (writer_u16 (word_of_nat len) buf))"

text \<open>Consecutive writes to one buffer, in program order.\<close>

fun writes :: "(bytes \<Rightarrow> bytes) list \<Rightarrow> bytes \<Rightarrow> bytes" where
  "writes [] buf = buf"
| "writes (w # ws) buf = writes ws (w buf)"

section \<open>ByteReader\<close>

record ByteReader =
  mData :: bytes
  mSize :: nat
  mOffset :: nat
  mFailed :: bool

definition byte_reader :: "bytes \<Rightarrow> nat \<Rightarrow> ByteReader" where
  "byte_reader data sz = \<lparr>mData = data, mSize = sz, mOffset = 0, mFailed = False\<rparr>"

definition remaining :: "ByteReader \<Rightarrow> nat" where
  "remaining r = (if mFailed r then 0 else mSize r - mOffset r)"

definition reader_take :: "nat \<Rightarrow> (ByteReader, 'a::len word) state" where
  "reader_take n = State (\<lambda>r.
     if remaining r < n then (0, r\<lparr>mFailed := True\<rparr>)
     else (little_join n (\<lambda>i. mData r ! (mOffset r + i)), r\<lparr>mOffset := mOffset r + n\<rparr>))"

definition reader_u8 :: "(ByteReader, u8) state" where
  "reader_u8 = reader_take 1"

definition reader_u16 :: "(ByteReader, u16) state" where
  "reader_u16 = reader_take 2"

definition reader_u32 :: "(ByteReader, u32) state" where
  "reader_u32 = reader_take 4"

definition reader_u64 :: "(ByteReader, u64) state" where
  "reader_u64 = reader_take 8"

definition reader_i32 :: "(ByteReader, u32) state" where
  "reader_i32 = reader_take 4"

definition reader_f32 :: "(ByteReader, u32) state" where
  "reader_f32 = reader_take 4"

definition reader_failed :: "(ByteReader, bool) state" where
  "reader_failed = State (\<lambda>r. (mFailed r, r))"

definition reader_string :: "(ByteReader, string) state" where
  "reader_string = do {
     len \<leftarrow> reader_u16;
     State (\<lambda>r.
       if mFailed r \<or> unat len > kMaxStringLength \<or> remaining r < unat len
       then ([], r\<lparr>mFailed := True\<rparr>)
       else (bytes_string (take (unat len) (drop (mOffset r) (mData r))),
             r\<lparr>mOffset := mOffset r + unat len\<rparr>))
   }"

section \<open>Well-formed readers\<close>

text \<open>The cursor never leaves the buffer it was given.\<close>

definition reader_ok :: "ByteReader \<Rightarrow> bool" where
  "reader_ok r \<longleftrightarrow> mSize r \<le> length (mData r) \<and> mOffset r \<le> mSize r"

definition unread :: "ByteReader \<Rightarrow> bytes" where
  "unread r = drop (mOffset r) (take (mSize r) (mData r))"

lemma reader_ok_byte_reader [simp]: "sz \<le> length data \<Longrightarrow> reader_ok (byte_reader data sz)"
  by (simp add: reader_ok_def byte_reader_def)

lemma unread_byte_reader [simp]: "unread (byte_reader data sz) = take sz data"
  by (simp add: unread_def byte_reader_def)

lemma mFailed_byte_reader [simp]: "\<not> mFailed (byte_reader data sz)"
  by (simp add: byte_reader_def)

lemma length_unread: "reader_ok r \<Longrightarrow> length (unread r) = mSize r - mOffset r"
  by (simp add: reader_ok_def unread_def)

lemma advance_unread:
  assumes "reader_ok r" and "unread r = bs @ rest"
  shows "reader_ok (r\<lparr>mOffset := mOffset r + length bs\<rparr>)"
    and "unread (r\<lparr>mOffset := mOffset r + length bs\<rparr>) = rest"
proof -
  have "length bs \<le> mSize r - mOffset r"
    using assms length_unread [of r] by simp
  then show "reader_ok (r\<lparr>mOffset := mOffset r + length bs\<rparr>)"
    using assms(1) by (auto simp: reader_ok_def)
  have "drop (length bs) (unread r) = rest"
    using assms(2) by simp
  then show "unread (r\<lparr>mOffset := mOffset r + length bs\<rparr>) = rest"
    by (simp add: unread_def add.commute)
qed

lemma nth_unread:
  "reader_ok r \<Longrightarrow> i < length (unread r) \<Longrightarrow> unread r ! i = mData r ! (mOffset r + i)"
  by (simp add: reader_ok_def unread_def)

section \<open>The decoding calculus\<close>

text \<open>
  \<open>reads m bs v\<close>: on any healthy reader whose unread bytes start with \<open>bs\<close>, \<open>m\<close> returns
  \<open>v\<close> and moves past exactly \<open>bs\<close>.
\<close>

definition reads :: "(ByteReader, 'a) state \<Rightarrow> bytes \<Rightarrow> 'a \<Rightarrow> bool" where
  "reads m bs v \<longleftrightarrow> (\<forall>r rest. reader_ok r \<longrightarrow> \<not> mFailed r \<longrightarrow> unread r = bs @ rest \<longrightarrow>
     run_state m r = (v, r\<lparr>mOffset := mOffset r + length bs\<rparr>))"

text \<open>
  \<open>emits m P\<close>: on a well-formed reader, \<open>m\<close> keeps it well-formed and, unless it ends
  failed, it started healthy and moved past bytes related by \<open>P\<close> to the value it returns.
\<close>

definition emits :: "(ByteReader, 'a) state \<Rightarrow> ('a \<Rightarrow> bytes \<Rightarrow> bool) \<Rightarrow> bool" where
  "emits m P \<longleftrightarrow> (\<forall>r v r'. reader_ok r \<longrightarrow> run_state m r = (v, r') \<longrightarrow>
     reader_ok r' \<and> mData r' = mData r \<and> mSize r' = mSize r \<and>
     (\<not> mFailed r' \<longrightarrow> \<not> mFailed r \<and> (\<exists>bs. P v bs \<and> unread r = bs @ unread r')))"

definition sticky :: "(ByteReader, 'a) state \<Rightarrow> bool" where
  "sticky m \<longleftrightarrow> (\<forall>r. mFailed r \<longrightarrow> mFailed (snd (run_state m r)))"

lemma readsD:
  "reads m bs v \<Longrightarrow> reader_ok r \<Longrightarrow> \<not> mFailed r \<Longrightarrow> unread r = bs @ rest \<Longrightarrow>
   run_state m r = (v, r\<lparr>mOffset := mOffset r + length bs\<rparr>)"
  by (simp add: reads_def)

lemma reads_return [reads_intros]: "reads (State_Monad.return v) [] v"
  by (simp add: reads_def State_Monad.return_def)

lemma reads_return_eq: "v = w \<Longrightarrow> reads (State_Monad.return v) [] w"
  by (simp add: reads_return)

lemma reads_bind [reads_intros]:
  assumes "reads m bs v" and "reads (f v) bs' w"
  shows "reads (State_Monad.bind m f) (bs @ bs') w"
  unfolding reads_def
proof (intro allI impI)
  fix r rest
  assume ok: "reader_ok r" and h: "\<not> mFailed r" and u: "unread r = (bs @ bs') @ rest"
  let ?r = "r\<lparr>mOffset := mOffset r + length bs\<rparr>"
  have "run_state m r = (v, ?r)"
    using readsD [OF assms(1) ok h, of "bs' @ rest"] u by simp
  moreover have "reader_ok ?r" and "unread ?r = bs' @ rest"
    using advance_unread [OF ok, of bs "bs' @ rest"] u by simp_all
  then have "run_state (f v) ?r = (w, ?r\<lparr>mOffset := mOffset ?r + length bs'\<rparr>)"
    using h by (intro readsD [OF assms(2)]) simp_all
  ultimately show "run_state (State_Monad.bind m f) r =
      (w, r\<lparr>mOffset := mOffset r + length (bs @ bs')\<rparr>)"
    by (simp add: add.assoc)
qed

text \<open>The empty-suffix form, for the last read of a decoder.\<close>

lemma reads_bind_return:
  assumes "reads m bs v" and "reads (f v) [] w"
  shows "reads (State_Monad.bind m f) bs w"
  using reads_bind [of m bs v f "[]" w] assms by simp

lemma reads_failed [reads_intros]: "reads reader_failed [] False"
  by (simp add: reads_def reader_failed_def)

lemma emitsD:
  assumes "emits m P" and "reader_ok r" and "run_state m r = (v, r')"
  shows "reader_ok r'" and "mData r' = mData r" and "mSize r' = mSize r"
    and "\<not> mFailed r' \<Longrightarrow> \<not> mFailed r \<and> (\<exists>bs. P v bs \<and> unread r = bs @ unread r')"
  using assms unfolding emits_def by blast+

lemma emits_mono: "emits m P \<Longrightarrow> (\<And>v bs. P v bs \<Longrightarrow> Q v bs) \<Longrightarrow> emits m Q"
  unfolding emits_def by blast

lemma emits_return [emits_intros]: "emits (State_Monad.return v) (\<lambda>w bs. w = v \<and> bs = [])"
  by (simp add: emits_def State_Monad.return_def)

lemma emits_bind [emits_intros]:
  assumes "emits m P" and "\<And>v. emits (f v) (Q v)"
  shows "emits (State_Monad.bind m f) (\<lambda>w bs. \<exists>v b1 b2. P v b1 \<and> Q v w b2 \<and> bs = b1 @ b2)"
  unfolding emits_def
proof (intro allI impI)
  fix r w r2
  assume ok: "reader_ok r" and run: "run_state (State_Monad.bind m f) r = (w, r2)"
  obtain v r1 where r1: "run_state m r = (v, r1)" by (cases "run_state m r")
  with run have r2: "run_state (f v) r1 = (w, r2)" by simp
  note a = emitsD [OF assms(1) ok r1]
  note b = emitsD [OF assms(2) a(1) r2]
  show "reader_ok r2 \<and> mData r2 = mData r \<and> mSize r2 = mSize r \<and>
     (\<not> mFailed r2 \<longrightarrow> \<not> mFailed r \<and>
       (\<exists>bs. (\<exists>v b1 b2. P v b1 \<and> Q v w b2 \<and> bs = b1 @ b2) \<and> unread r = bs @ unread r2))"
    using a b by (metis append_assoc)
qed

lemma emits_failed [emits_intros]: "emits reader_failed (\<lambda>v bs. v = False \<and> bs = [])"
  by (simp add: emits_def reader_failed_def)

lemma sticky_return [sticky_intros]: "sticky (State_Monad.return v)"
  by (simp add: sticky_def State_Monad.return_def)

lemma sticky_bind [sticky_intros]:
  "sticky m \<Longrightarrow> (\<And>v. sticky (f v)) \<Longrightarrow> sticky (State_Monad.bind m f)"
  by (auto simp: sticky_def split: prod.splits)

lemma sticky_failed [sticky_intros]: "sticky reader_failed"
  by (simp add: sticky_def reader_failed_def)

section \<open>The primitive reads\<close>

lemma reads_take:
  fixes v :: "'a::len word"
  assumes "LENGTH('a) \<le> 8 * n"
  shows "reads (reader_take n) (little_bytes n v) v"
  unfolding reads_def
proof (intro allI impI)
  fix r rest
  assume ok: "reader_ok r" and h: "\<not> mFailed r" and u: "unread r = little_bytes n v @ rest"
  have len: "n \<le> remaining r"
    using length_unread [OF ok] u h by (simp add: remaining_def)
  have "little_join n (\<lambda>i. mData r ! (mOffset r + i)) =
      (little_join n ((!) (little_bytes n v)) :: 'a word)"
  proof (rule little_join_cong)
    fix i assume "i < n"
    then have "unread r ! i = mData r ! (mOffset r + i)"
      using nth_unread [OF ok, of i] u by simp
    with \<open>i < n\<close> u show "mData r ! (mOffset r + i) = little_bytes n v ! i"
      by (simp add: nth_append)
  qed
  with assms len show "run_state (reader_take n) r =
      (v, r\<lparr>mOffset := mOffset r + length (little_bytes n v)\<rparr>)"
    by (simp add: reader_take_def little_join_bytes)
qed

lemma emits_take:
  assumes "LENGTH('a::len) = 8 * n"
  shows "emits (reader_take n :: (ByteReader, 'a word) state) (\<lambda>v bs. bs = little_bytes n v)"
  unfolding emits_def
proof (intro allI impI)
  fix r v r'
  assume ok: "reader_ok r" and run: "run_state (reader_take n) r = (v :: 'a word, r')"
  show "reader_ok r' \<and> mData r' = mData r \<and> mSize r' = mSize r \<and>
     (\<not> mFailed r' \<longrightarrow> \<not> mFailed r \<and> (\<exists>bs. bs = little_bytes n v \<and> unread r = bs @ unread r'))"
  proof (cases "remaining r < n \<or> mFailed r")
    case True
    with ok run show ?thesis
      by (auto simp: reader_take_def reader_ok_def remaining_def split: if_splits)
  next
    case False
    let ?f = "\<lambda>i. mData r ! (mOffset r + i)"
    have v: "v = little_join n ?f" and r': "r' = r\<lparr>mOffset := mOffset r + n\<rparr>"
      using run False by (auto simp: reader_take_def)
    have le: "n \<le> length (unread r)"
      using False ok by (auto simp: remaining_def length_unread)
    have "take n (unread r) = map ?f [0..<n]"
      using le by (intro nth_equalityI) (simp_all add: nth_unread [OF ok])
    then have "unread r = little_bytes n v @ drop n (unread r)"
      using assms by (metis append_take_drop_id little_bytes_join order_refl v)
    moreover from this have "reader_ok r'" and "unread r' = drop n (unread r)"
      using advance_unread [OF ok, of "little_bytes n v"] by (simp_all add: r')
    ultimately show ?thesis
      using False by (simp add: r')
  qed
qed

lemma sticky_take: "0 < n \<Longrightarrow> sticky (reader_take n)"
  by (simp add: sticky_def reader_take_def remaining_def)

section \<open>The interface of a wire format\<close>

text \<open>
  What every encoder/decoder pair of the protocol promises its clients: writing appends,
  a decoder returns what was written and stops right after it, it accepts nothing else,
  and failure is sticky. The lemmas hold for each pair that is interpreted below and in the
  message theories.
\<close>

locale wire_codec =
  fixes enc :: "'a \<Rightarrow> bytes \<Rightarrow> bytes"
    and dec :: "(ByteReader, 'a) state"
    and valid :: "'a \<Rightarrow> bool"
  assumes enc_append: "enc v buf = buf @ enc v []"
    and reads_enc: "valid v \<Longrightarrow> reads dec (enc v []) v"
    and emits_enc: "emits dec (\<lambda>v bs. valid v \<and> bs = enc v [])"
    and sticky_dec: "sticky dec"
begin

lemma roundtrip:
  assumes "valid v"
  shows "run_state dec (byte_reader (enc v [] @ rest) (length (enc v [] @ rest))) =
    (v, (byte_reader (enc v [] @ rest) (length (enc v [] @ rest)))
          \<lparr>mOffset := length (enc v [])\<rparr>)"
  using readsD [OF reads_enc [OF assms], of "byte_reader (enc v [] @ rest) (length (enc v [] @ rest))" rest]
  by (simp add: byte_reader_def reader_ok_def unread_def)

lemma accepts_only_encodings:
  assumes "reader_ok r" and "run_state dec r = (v, r')" and "\<not> mFailed r'"
  shows "valid v" and "unread r = enc v [] @ unread r'"
  using emitsD [OF emits_enc assms(1,2)] assms(3) by auto

lemma prefix_free:
  assumes "valid v" and "valid w" and "enc v [] @ a = enc w [] @ b"
  shows "v = w" and "a = b"
proof -
  let ?r = "byte_reader (enc v [] @ a) (length (enc v [] @ a))"
  have ok: "reader_ok ?r" and h: "\<not> mFailed ?r" and u: "unread ?r = enc v [] @ a"
    by simp_all
  have "run_state dec ?r = (v, ?r\<lparr>mOffset := mOffset ?r + length (enc v [])\<rparr>)"
    by (rule readsD [OF reads_enc [OF assms(1)] ok h u])
  moreover have "run_state dec ?r = (w, ?r\<lparr>mOffset := mOffset ?r + length (enc w [])\<rparr>)"
    using readsD [OF reads_enc [OF assms(2)] ok h, of b] assms(3) by simp
  ultimately show "v = w" by simp
  with assms(3) show "a = b" by simp
qed

lemma truncated_fails:
  assumes "valid v" and "k < length (enc v [])"
  shows "mFailed (snd (run_state dec (byte_reader (take k (enc v [])) k)))"
proof (rule ccontr)
  let ?r = "byte_reader (take k (enc v [])) k"
  obtain w r' where run: "run_state dec ?r = (w, r')" by (cases "run_state dec ?r")
  assume "\<not> mFailed (snd (run_state dec ?r))"
  then have h: "\<not> mFailed r'" by (simp add: run)
  have ok: "reader_ok ?r" using assms(2) by simp
  have w: "valid w" and "take k (enc v []) = enc w [] @ unread r'"
    using accepts_only_encodings [OF ok run h] assms(2) by simp_all
  then have eq: "enc v [] @ [] = enc w [] @ unread r' @ drop k (enc v [])"
    by (metis append.assoc append.right_neutral append_take_drop_id)
  have "drop k (enc v []) = []"
    using prefix_free(2) [OF assms(1) w eq] by simp
  with assms(2) show False by simp
qed

end

lemma writer_little_append: "writer_little n v buf = buf @ writer_little n v []"
  by (simp add: writer_little_def writer_raw_def)

interpretation u8_codec: wire_codec writer_u8 reader_u8 "\<lambda>_. True"
proof
  have eq: "writer_u8 v [] = little_bytes 1 v" for v
    by (simp add: writer_u8_def writer_raw_def little_bytes_def)
  show "writer_u8 v buf = buf @ writer_u8 v []" for v buf
    by (simp add: writer_u8_def writer_raw_def)
  show "reads reader_u8 (writer_u8 v []) v" for v
    unfolding eq reader_u8_def by (rule reads_take) simp
  show "emits reader_u8 (\<lambda>v bs. True \<and> bs = writer_u8 v [])"
    using emits_take [where 'a = 8 and n = 1] by (simp add: eq reader_u8_def)
  show "sticky reader_u8"
    by (simp add: reader_u8_def sticky_take)
qed

lemma little_codec:
  assumes "LENGTH('a::len) = 8 * n" and "0 < n"
  shows "wire_codec (writer_little n :: 'a word \<Rightarrow> _) (reader_take n) (\<lambda>_. True)"
proof
  have eq: "writer_little n v [] = little_bytes n v" for v :: "'a word"
    by (simp add: writer_little_def writer_raw_def)
  show "writer_little n v buf = buf @ writer_little n v []" for v :: "'a word" and buf
    by (rule writer_little_append)
  show "reads (reader_take n) (writer_little n v []) v" for v :: "'a word"
    unfolding eq by (rule reads_take) (simp add: assms)
  show "emits (reader_take n) (\<lambda>v bs. True \<and> bs = writer_little n (v :: 'a word) [])"
    using emits_take [OF assms(1)] by (simp add: eq)
  show "sticky (reader_take n :: (ByteReader, 'a word) state)"
    by (rule sticky_take) (rule assms)
qed

interpretation u16_codec: wire_codec writer_u16 reader_u16 "\<lambda>_. True"
  using little_codec [where 'a = 16 and n = 2] by (simp add: writer_u16_def [abs_def] reader_u16_def)

interpretation u32_codec: wire_codec writer_u32 reader_u32 "\<lambda>_. True"
  using little_codec [where 'a = 32 and n = 4] by (simp add: writer_u32_def [abs_def] reader_u32_def)

interpretation u64_codec: wire_codec writer_u64 reader_u64 "\<lambda>_. True"
  using little_codec [where 'a = 64 and n = 8] by (simp add: writer_u64_def [abs_def] reader_u64_def)

interpretation i32_codec: wire_codec writer_i32 reader_i32 "\<lambda>_. True"
  using little_codec [where 'a = 32 and n = 4] by (simp add: writer_i32_def [abs_def] reader_i32_def)

interpretation f32_codec: wire_codec writer_f32 reader_f32 "\<lambda>_. True"
  using little_codec [where 'a = 32 and n = 4] by (simp add: writer_f32_def [abs_def] reader_f32_def)

text \<open>A string's length prefix fits 16 bits because the writer caps it at 1024.\<close>

definition string_fits :: "string \<Rightarrow> bool" where
  "string_fits v \<longleftrightarrow> length v \<le> kMaxStringLength"

lemma unat_u16_string_length: "n \<le> kMaxStringLength \<Longrightarrow> unat (word_of_nat n :: u16) = n"
  by (simp add: kMaxStringLength_def unat_of_nat)

lemma writer_string_fits:
  "string_fits v \<Longrightarrow>
   writer_string v buf = buf @ writer_u16 (word_of_nat (length v)) [] @ string_bytes v"
  by (simp add: writer_string_def string_fits_def writer_raw_def Let_def
      u16_codec.enc_append [of _ buf])

lemma writer_string_truncates:
  "writer_string v buf = writer_string (take kMaxStringLength v) buf"
  by (simp add: writer_string_def Let_def take_string_bytes min_def)

lemma reader_string_run:
  assumes "run_state reader_u16 r = (len, r1)"
  shows "run_state reader_string r =
     (if mFailed r1 \<or> unat len > kMaxStringLength \<or> remaining r1 < unat len
      then ([], r1\<lparr>mFailed := True\<rparr>)
      else (bytes_string (take (unat len) (drop (mOffset r1) (mData r1))),
            r1\<lparr>mOffset := mOffset r1 + unat len\<rparr>))"
  using assms by (simp add: reader_string_def)

lemma unread_take:
  "reader_ok r \<Longrightarrow> n \<le> length (unread r) \<Longrightarrow>
   take n (drop (mOffset r) (mData r)) = take n (unread r)"
  by (auto simp: unread_def reader_ok_def take_drop min_def split: if_splits)

lemma reads_string:
  assumes "string_fits v"
  shows "reads reader_string (writer_string v []) v"
  unfolding reads_def
proof (intro allI impI)
  fix r :: ByteReader and rest
  let ?len = "word_of_nat (length v) :: u16"
  let ?r1 = "r\<lparr>mOffset := mOffset r + length (writer_u16 ?len [])\<rparr>"
  assume ok: "reader_ok r" and h: "\<not> mFailed r" and u: "unread r = writer_string v [] @ rest"
  then have u1: "unread r = writer_u16 ?len [] @ string_bytes v @ rest"
    by (simp add: writer_string_fits [OF assms])
  have run: "run_state reader_u16 r = (?len, ?r1)"
    by (rule readsD [OF u16_codec.reads_enc ok h u1]) simp
  have ok1: "reader_ok ?r1" and u2: "unread ?r1 = string_bytes v @ rest"
    using advance_unread [OF ok u1] by simp_all
  have len: "unat ?len = length v"
    using assms by (simp add: string_fits_def unat_u16_string_length)
  have "length v \<le> remaining ?r1"
    using length_unread [OF ok1] u2 h by (simp add: remaining_def)
  moreover have "take (length v) (drop (mOffset ?r1) (mData ?r1)) = string_bytes v"
    using unread_take [OF ok1, of "length v"] u2 by simp
  ultimately have "run_state reader_string r =
      (v, ?r1\<lparr>mOffset := mOffset ?r1 + length v\<rparr>)"
    using assms h unfolding reader_string_run [OF run] len
    by (simp add: string_fits_def)
  then show "run_state reader_string r =
      (v, r\<lparr>mOffset := mOffset r + length (writer_string v [])\<rparr>)"
    by (simp add: writer_string_fits [OF assms] add.assoc)
qed

lemma emits_string:
  "emits reader_string (\<lambda>v bs. string_fits v \<and> bs = writer_string v [])"
  unfolding emits_def
proof (intro allI impI)
  fix r v r'
  assume ok: "reader_ok r" and run: "run_state reader_string r = (v, r')"
  obtain len r1 where r1: "run_state reader_u16 r = (len, r1)" by (cases "run_state reader_u16 r")
  note u16 = emitsD [OF u16_codec.emits_enc ok r1]
  let ?bad = "mFailed r1 \<or> unat len > kMaxStringLength \<or> remaining r1 < unat len"
  show "reader_ok r' \<and> mData r' = mData r \<and> mSize r' = mSize r \<and> (\<not> mFailed r' \<longrightarrow>
      \<not> mFailed r \<and> (\<exists>bs. (string_fits v \<and> bs = writer_string v []) \<and> unread r = bs @ unread r'))"
  proof (cases ?bad)
    case True
    then show ?thesis
      using run u16 by (auto simp: reader_string_run [OF r1] reader_ok_def)
  next
    case False
    let ?bs = "take (unat len) (unread r1)"
    have le: "unat len \<le> length (unread r1)"
      using False u16(1) by (simp add: remaining_def length_unread split: if_splits)
    have v: "v = bytes_string ?bs" and r': "r' = r1\<lparr>mOffset := mOffset r1 + length ?bs\<rparr>"
      using False run le unread_take [OF u16(1) le] by (auto simp: reader_string_run [OF r1])
    have split1: "unread r1 = ?bs @ drop (unat len) (unread r1)" by simp
    have ok': "reader_ok r'" and u': "unread r' = drop (unat len) (unread r1)"
      using advance_unread [OF u16(1) split1] by (simp_all add: r')
    have lv: "length v = unat len" and bv: "string_bytes v = ?bs"
      using le by (simp_all add: v)
    have fits: "string_fits v"
      using False lv by (simp add: string_fits_def)
    have "unread r = writer_u16 len [] @ unread r1" and h: "\<not> mFailed r"
      using u16(4) False by auto
    then have "unread r = writer_string v [] @ unread r'"
      by (simp add: writer_string_fits [OF fits] lv bv u')
    with ok' u16 fits h show ?thesis by (simp add: r')
  qed
qed

lemma sticky_string: "sticky reader_string"
proof -
  have "mFailed (snd (run_state reader_u16 r))" if "mFailed r" for r
    using u16_codec.sticky_dec that by (simp add: sticky_def)
  then show ?thesis
    unfolding sticky_def
    by (metis (no_types, lifting) ByteReader.select_convs(4) ByteReader.surjective
        ByteReader.update_convs(4) prod.collapse reader_string_run snd_conv)
qed

interpretation string_codec: wire_codec writer_string reader_string string_fits
proof
  show "writer_string v buf = buf @ writer_string v []" for v buf
    by (simp add: writer_string_def writer_raw_def Let_def u16_codec.enc_append [of _ buf])
qed (simp_all add: reads_string emits_string sticky_string)

lemmas codec_reads [reads_intros] =
  u8_codec.reads_enc [OF TrueI] u16_codec.reads_enc [OF TrueI] u32_codec.reads_enc [OF TrueI]
  u64_codec.reads_enc [OF TrueI] i32_codec.reads_enc [OF TrueI] f32_codec.reads_enc [OF TrueI]
  string_codec.reads_enc

lemmas codec_emits [emits_intros] =
  u8_codec.emits_enc u16_codec.emits_enc u32_codec.emits_enc u64_codec.emits_enc
  i32_codec.emits_enc f32_codec.emits_enc string_codec.emits_enc

lemmas codec_sticky [sticky_intros] =
  u8_codec.sticky_dec u16_codec.sticky_dec u32_codec.sticky_dec u64_codec.sticky_dec
  i32_codec.sticky_dec f32_codec.sticky_dec string_codec.sticky_dec

text \<open>A sequence of writes is the concatenation of what each writes on its own.\<close>

lemma writes_Cons_append:
  "(\<And>buf. w buf = buf @ w []) \<Longrightarrow> (\<And>buf. writes ws buf = buf @ writes ws []) \<Longrightarrow>
   writes (w # ws) buf = buf @ w [] @ writes ws []"
  by (metis append_assoc writes.simps(2))

lemmas writer_append =
  u8_codec.enc_append u16_codec.enc_append u32_codec.enc_append u64_codec.enc_append
  i32_codec.enc_append f32_codec.enc_append string_codec.enc_append

text \<open>A handler's reads over a whole payload: whether the reader is still healthy, and what it read.\<close>

definition read_all :: "(ByteReader, 'a) state \<Rightarrow> bytes \<Rightarrow> bool \<times> 'a" where
  "read_all m data = (case run_state m (byte_reader data (length data)) of (v, r) \<Rightarrow> (\<not> mFailed r, v))"

lemma read_all_reads: "reads m bs v \<Longrightarrow> read_all m (bs @ rest) = (True, v)"
  using readsD [of m bs v "byte_reader (bs @ rest) (length (bs @ rest))" rest]
  by (simp add: read_all_def)

lemma read_all_exact: "reads m bs v \<Longrightarrow> read_all m bs = (True, v)"
  using read_all_reads [of m bs v "[]"] by simp

lemma read_all_emits:
  assumes "emits m P" and "read_all m data = (True, v)"
  obtains bs rest where "P v bs" and "data = bs @ rest"
proof -
  obtain w r' where run: "run_state m (byte_reader data (length data)) = (w, r')" by fastforce
  with assms(2) have "w = v" "\<not> mFailed r'" by (simp_all add: read_all_def)
  with emitsD(4) [OF assms(1) _ run] that show thesis by auto
qed

text \<open>Writers append; so a list of writes is the concatenation of its pieces.\<close>

definition appending :: "(bytes \<Rightarrow> bytes) \<Rightarrow> bool" where
  "appending w \<longleftrightarrow> (\<forall>buf. w buf = buf @ w [])"

lemma appending_writers [simp]:
  "appending (writer_u8 a)" "appending (writer_u16 b)" "appending (writer_u32 c)" "appending (writer_u64 d)"
  "appending (writer_i32 e)" "appending (writer_f32 f)" "appending (writer_string v)"
  unfolding appending_def
  by (rule allI, rule u8_codec.enc_append, rule allI, rule u16_codec.enc_append, rule allI,
      rule u32_codec.enc_append, rule allI, rule u64_codec.enc_append, rule allI, rule i32_codec.enc_append,
      rule allI, rule f32_codec.enc_append, rule allI, rule string_codec.enc_append)

lemma writes_concat: "list_all appending ws \<Longrightarrow> writes ws buf = buf @ concat (map (\<lambda>w. w []) ws)"
proof (induction ws arbitrary: buf)
  case (Cons w ws)
  then have "appending w" and ws: "list_all appending ws" by simp_all
  from this(1) have "w buf = buf @ w []" unfolding appending_def by blast
  with ws show ?case using Cons.IH [of "w buf"] by simp
qed simp

text \<open>A decoder that reads, piece by piece, what a list of writers wrote.\<close>

lemma read_all_writes:
  "list_all appending ws \<Longrightarrow> reads m (concat (map (\<lambda>w. w []) ws)) v \<Longrightarrow> read_all m (writes ws []) = (True, v)"
  by (simp add: writes_concat read_all_exact)

lemma concat_pieces: "concat (map f []) = []" "concat (map f (x # xs)) = f x @ concat (map f xs)"
  by simp_all

lemma reads_string_take: "reads reader_string (writer_string v []) (take kMaxStringLength v)"
proof -
  have "string_fits (take kMaxStringLength v)" by (simp add: string_fits_def)
  from reads_string [OF this] show ?thesis
    using writer_string_truncates [of v "[]"] by simp
qed

end
