(* ===== verification/Protocol.thy ===== *)
theory Protocol
  imports ByteStream
begin

text \<open>
  \<^verbatim>\<open>common/net/include/net/protocol.h\<close> and \<^verbatim>\<open>common/net/src/protocol.cpp\<close>: the protocol
  constants and the enumerations of message types and results. An \<^verbatim>\<open>enum class\<close> with a
  fixed underlying type can hold any value of that type after a \<^verbatim>\<open>static_cast\<close> from the
  wire, so each datatype has the source's enumerators and one more constructor for the
  values that name no enumerator; \<open>\<dots>_code\<close> is the cast to the wire and \<open>\<dots>_of\<close> the cast
  from it.
\<close>

section \<open>Constants\<close>

definition kProtocolVersion :: u32 where
  "kProtocolVersion = 8"

definition kUdpMagic :: u32 where
  "kUdpMagic = 0x554E5431"

definition kServerTickHz :: int where
  "kServerTickHz = 60"

definition kMaxEntitiesPerSnapshot :: u16 where
  "kMaxEntitiesPerSnapshot = 512"

definition kInputJump :: u8 where
  "kInputJump = 1"

definition kInputSprint :: u8 where
  "kInputSprint = 2"

section \<open>Enumerations\<close>

text \<open>PermissionLevel: what an account may do.\<close>

datatype PermissionLevel =
    Player
  | GameMaster
  | Admin
  | PermissionLevel_raw u8

fun PermissionLevel_code :: "PermissionLevel \<Rightarrow> u8" where
  "PermissionLevel_code Player = 0"
| "PermissionLevel_code GameMaster = 1"
| "PermissionLevel_code Admin = 2"
| "PermissionLevel_code (PermissionLevel_raw x) = x"

definition PermissionLevel_of :: "u8 \<Rightarrow> PermissionLevel" where
  "PermissionLevel_of x =
     (if x = 0 then Player
      else if x = 1 then GameMaster
      else if x = 2 then Admin
      else PermissionLevel_raw x)"

lemma PermissionLevel_code_of [simp]: "PermissionLevel_code (PermissionLevel_of x) = x"
  by (simp add: PermissionLevel_of_def)

lemma PermissionLevel_of_code:
  "(\<And>y. x = PermissionLevel_raw y \<Longrightarrow> PermissionLevel_of y = PermissionLevel_raw y) \<Longrightarrow> PermissionLevel_of (PermissionLevel_code x) = x"
  by (cases x) (simp_all add: PermissionLevel_of_def)

text \<open>AuthMessage: client to auth server.\<close>

datatype AuthMessage =
    LoginRequest
  | LoginResponse
  | RegisterRequest
  | RegisterResponse
  | AdminAccountCreateRequest
  | AdminAccountCreateResponse
  | AdminAccountDeleteRequest
  | AdminAccountDeleteResponse
  | AdminSetLevelRequest
  | AdminSetLevelResponse
  | AuthMessage_raw u16

fun AuthMessage_code :: "AuthMessage \<Rightarrow> u16" where
  "AuthMessage_code LoginRequest = 1"
| "AuthMessage_code LoginResponse = 2"
| "AuthMessage_code RegisterRequest = 3"
| "AuthMessage_code RegisterResponse = 4"
| "AuthMessage_code AdminAccountCreateRequest = 5"
| "AuthMessage_code AdminAccountCreateResponse = 6"
| "AuthMessage_code AdminAccountDeleteRequest = 7"
| "AuthMessage_code AdminAccountDeleteResponse = 8"
| "AuthMessage_code AdminSetLevelRequest = 9"
| "AuthMessage_code AdminSetLevelResponse = 10"
| "AuthMessage_code (AuthMessage_raw x) = x"

definition AuthMessage_of :: "u16 \<Rightarrow> AuthMessage" where
  "AuthMessage_of x =
     (if x = 1 then LoginRequest
      else if x = 2 then LoginResponse
      else if x = 3 then RegisterRequest
      else if x = 4 then RegisterResponse
      else if x = 5 then AdminAccountCreateRequest
      else if x = 6 then AdminAccountCreateResponse
      else if x = 7 then AdminAccountDeleteRequest
      else if x = 8 then AdminAccountDeleteResponse
      else if x = 9 then AdminSetLevelRequest
      else if x = 10 then AdminSetLevelResponse
      else AuthMessage_raw x)"

lemma AuthMessage_code_of [simp]: "AuthMessage_code (AuthMessage_of x) = x"
  by (simp add: AuthMessage_of_def)

lemma AuthMessage_of_code:
  "(\<And>y. x = AuthMessage_raw y \<Longrightarrow> AuthMessage_of y = AuthMessage_raw y) \<Longrightarrow> AuthMessage_of (AuthMessage_code x) = x"
  by (cases x) (simp_all add: AuthMessage_of_def)

text \<open>AuthResult: outcomes of auth requests.\<close>

datatype AuthResult =
    AuthSuccess
  | InvalidCredentials
  | AuthVersionMismatch
  | AccountExists
  | AuthServerError
  | MalformedRequest
  | NotAuthorised
  | NoSuchAccount
  | InsufficientPermission
  | SessionExpired
  | AuthResult_raw u8

fun AuthResult_code :: "AuthResult \<Rightarrow> u8" where
  "AuthResult_code AuthSuccess = 0"
| "AuthResult_code InvalidCredentials = 1"
| "AuthResult_code AuthVersionMismatch = 2"
| "AuthResult_code AccountExists = 3"
| "AuthResult_code AuthServerError = 4"
| "AuthResult_code MalformedRequest = 5"
| "AuthResult_code NotAuthorised = 6"
| "AuthResult_code NoSuchAccount = 7"
| "AuthResult_code InsufficientPermission = 8"
| "AuthResult_code SessionExpired = 9"
| "AuthResult_code (AuthResult_raw x) = x"

definition AuthResult_of :: "u8 \<Rightarrow> AuthResult" where
  "AuthResult_of x =
     (if x = 0 then AuthSuccess
      else if x = 1 then InvalidCredentials
      else if x = 2 then AuthVersionMismatch
      else if x = 3 then AccountExists
      else if x = 4 then AuthServerError
      else if x = 5 then MalformedRequest
      else if x = 6 then NotAuthorised
      else if x = 7 then NoSuchAccount
      else if x = 8 then InsufficientPermission
      else if x = 9 then SessionExpired
      else AuthResult_raw x)"

lemma AuthResult_code_of [simp]: "AuthResult_code (AuthResult_of x) = x"
  by (simp add: AuthResult_of_def)

lemma AuthResult_of_code:
  "(\<And>y. x = AuthResult_raw y \<Longrightarrow> AuthResult_of y = AuthResult_raw y) \<Longrightarrow> AuthResult_of (AuthResult_code x) = x"
  by (cases x) (simp_all add: AuthResult_of_def)

text \<open>DbMessage: auth/world server to database server.\<close>

datatype DbMessage =
    AccountLookupRequest
  | AccountLookupResponse
  | AccountCreateRequest
  | AccountCreateResponse
  | SessionCreateRequest
  | SessionCreateResponse
  | SessionLookupRequest
  | SessionLookupResponse
  | SessionDeleteRequest
  | SessionDeleteResponse
  | AccountDeleteRequest
  | AccountDeleteResponse
  | AccountSetLevelRequest
  | AccountSetLevelResponse
  | AccountCreateWithLevelRequest
  | AdminExistsRequest
  | AdminExistsResponse
  | DbMessage_raw u16

fun DbMessage_code :: "DbMessage \<Rightarrow> u16" where
  "DbMessage_code AccountLookupRequest = 100"
| "DbMessage_code AccountLookupResponse = 101"
| "DbMessage_code AccountCreateRequest = 102"
| "DbMessage_code AccountCreateResponse = 103"
| "DbMessage_code SessionCreateRequest = 104"
| "DbMessage_code SessionCreateResponse = 105"
| "DbMessage_code SessionLookupRequest = 106"
| "DbMessage_code SessionLookupResponse = 107"
| "DbMessage_code SessionDeleteRequest = 108"
| "DbMessage_code SessionDeleteResponse = 109"
| "DbMessage_code AccountDeleteRequest = 110"
| "DbMessage_code AccountDeleteResponse = 111"
| "DbMessage_code AccountSetLevelRequest = 112"
| "DbMessage_code AccountSetLevelResponse = 113"
| "DbMessage_code AccountCreateWithLevelRequest = 114"
| "DbMessage_code AdminExistsRequest = 115"
| "DbMessage_code AdminExistsResponse = 116"
| "DbMessage_code (DbMessage_raw x) = x"

definition DbMessage_of :: "u16 \<Rightarrow> DbMessage" where
  "DbMessage_of x =
     (if x = 100 then AccountLookupRequest
      else if x = 101 then AccountLookupResponse
      else if x = 102 then AccountCreateRequest
      else if x = 103 then AccountCreateResponse
      else if x = 104 then SessionCreateRequest
      else if x = 105 then SessionCreateResponse
      else if x = 106 then SessionLookupRequest
      else if x = 107 then SessionLookupResponse
      else if x = 108 then SessionDeleteRequest
      else if x = 109 then SessionDeleteResponse
      else if x = 110 then AccountDeleteRequest
      else if x = 111 then AccountDeleteResponse
      else if x = 112 then AccountSetLevelRequest
      else if x = 113 then AccountSetLevelResponse
      else if x = 114 then AccountCreateWithLevelRequest
      else if x = 115 then AdminExistsRequest
      else if x = 116 then AdminExistsResponse
      else DbMessage_raw x)"

lemma DbMessage_code_of [simp]: "DbMessage_code (DbMessage_of x) = x"
  by (simp add: DbMessage_of_def)

lemma DbMessage_of_code:
  "(\<And>y. x = DbMessage_raw y \<Longrightarrow> DbMessage_of y = DbMessage_raw y) \<Longrightarrow> DbMessage_of (DbMessage_code x) = x"
  by (cases x) (simp_all add: DbMessage_of_def)

text \<open>DbResult: outcomes of database calls.\<close>

datatype DbResult =
    DbOk
  | DbNotFound
  | DbConflict
  | DbError
  | DbResult_raw u8

fun DbResult_code :: "DbResult \<Rightarrow> u8" where
  "DbResult_code DbOk = 0"
| "DbResult_code DbNotFound = 1"
| "DbResult_code DbConflict = 2"
| "DbResult_code DbError = 3"
| "DbResult_code (DbResult_raw x) = x"

definition DbResult_of :: "u8 \<Rightarrow> DbResult" where
  "DbResult_of x =
     (if x = 0 then DbOk
      else if x = 1 then DbNotFound
      else if x = 2 then DbConflict
      else if x = 3 then DbError
      else DbResult_raw x)"

lemma DbResult_code_of [simp]: "DbResult_code (DbResult_of x) = x"
  by (simp add: DbResult_of_def)

lemma DbResult_of_code:
  "(\<And>y. x = DbResult_raw y \<Longrightarrow> DbResult_of y = DbResult_raw y) \<Longrightarrow> DbResult_of (DbResult_code x) = x"
  by (cases x) (simp_all add: DbResult_of_def)

text \<open>WorldMessage: client to world server.\<close>

datatype WorldMessage =
    JoinRequest
  | JoinResponse
  | LogoutRequest
  | LogoutResponse
  | Disconnect
  | ClientHello
  | SnapshotMessage
  | ClientInput
  | AdminSetTimeRequest
  | AdminSetTimeResponse
  | AdminStatusRequest
  | AdminStatusResponse
  | AdminSetLatencyRequest
  | AdminSetLatencyResponse
  | WorldMessage_raw u16

fun WorldMessage_code :: "WorldMessage \<Rightarrow> u16" where
  "WorldMessage_code JoinRequest = 200"
| "WorldMessage_code JoinResponse = 201"
| "WorldMessage_code LogoutRequest = 202"
| "WorldMessage_code LogoutResponse = 203"
| "WorldMessage_code Disconnect = 204"
| "WorldMessage_code ClientHello = 210"
| "WorldMessage_code SnapshotMessage = 211"
| "WorldMessage_code ClientInput = 212"
| "WorldMessage_code AdminSetTimeRequest = 220"
| "WorldMessage_code AdminSetTimeResponse = 221"
| "WorldMessage_code AdminStatusRequest = 222"
| "WorldMessage_code AdminStatusResponse = 223"
| "WorldMessage_code AdminSetLatencyRequest = 224"
| "WorldMessage_code AdminSetLatencyResponse = 225"
| "WorldMessage_code (WorldMessage_raw x) = x"

definition WorldMessage_of :: "u16 \<Rightarrow> WorldMessage" where
  "WorldMessage_of x =
     (if x = 200 then JoinRequest
      else if x = 201 then JoinResponse
      else if x = 202 then LogoutRequest
      else if x = 203 then LogoutResponse
      else if x = 204 then Disconnect
      else if x = 210 then ClientHello
      else if x = 211 then SnapshotMessage
      else if x = 212 then ClientInput
      else if x = 220 then AdminSetTimeRequest
      else if x = 221 then AdminSetTimeResponse
      else if x = 222 then AdminStatusRequest
      else if x = 223 then AdminStatusResponse
      else if x = 224 then AdminSetLatencyRequest
      else if x = 225 then AdminSetLatencyResponse
      else WorldMessage_raw x)"

lemma WorldMessage_code_of [simp]: "WorldMessage_code (WorldMessage_of x) = x"
  by (simp add: WorldMessage_of_def)

lemma WorldMessage_of_code:
  "(\<And>y. x = WorldMessage_raw y \<Longrightarrow> WorldMessage_of y = WorldMessage_raw y) \<Longrightarrow> WorldMessage_of (WorldMessage_code x) = x"
  by (cases x) (simp_all add: WorldMessage_of_def)

text \<open>TimeCommand: console clock commands.\<close>

datatype TimeCommand =
    TimeSet
  | TimeSpeed
  | TimeReset
  | TimeCommand_raw u8

fun TimeCommand_code :: "TimeCommand \<Rightarrow> u8" where
  "TimeCommand_code TimeSet = 0"
| "TimeCommand_code TimeSpeed = 1"
| "TimeCommand_code TimeReset = 2"
| "TimeCommand_code (TimeCommand_raw x) = x"

definition TimeCommand_of :: "u8 \<Rightarrow> TimeCommand" where
  "TimeCommand_of x =
     (if x = 0 then TimeSet
      else if x = 1 then TimeSpeed
      else if x = 2 then TimeReset
      else TimeCommand_raw x)"

lemma TimeCommand_code_of [simp]: "TimeCommand_code (TimeCommand_of x) = x"
  by (simp add: TimeCommand_of_def)

lemma TimeCommand_of_code:
  "(\<And>y. x = TimeCommand_raw y \<Longrightarrow> TimeCommand_of y = TimeCommand_raw y) \<Longrightarrow> TimeCommand_of (TimeCommand_code x) = x"
  by (cases x) (simp_all add: TimeCommand_of_def)

text \<open>JoinResult: outcomes of joining.\<close>

datatype JoinResult =
    JoinSuccess
  | InvalidSession
  | JoinVersionMismatch
  | ServerFull
  | JoinServerError
  | JoinResult_raw u8

fun JoinResult_code :: "JoinResult \<Rightarrow> u8" where
  "JoinResult_code JoinSuccess = 0"
| "JoinResult_code InvalidSession = 1"
| "JoinResult_code JoinVersionMismatch = 2"
| "JoinResult_code ServerFull = 3"
| "JoinResult_code JoinServerError = 4"
| "JoinResult_code (JoinResult_raw x) = x"

definition JoinResult_of :: "u8 \<Rightarrow> JoinResult" where
  "JoinResult_of x =
     (if x = 0 then JoinSuccess
      else if x = 1 then InvalidSession
      else if x = 2 then JoinVersionMismatch
      else if x = 3 then ServerFull
      else if x = 4 then JoinServerError
      else JoinResult_raw x)"

lemma JoinResult_code_of [simp]: "JoinResult_code (JoinResult_of x) = x"
  by (simp add: JoinResult_of_def)

lemma JoinResult_of_code:
  "(\<And>y. x = JoinResult_raw y \<Longrightarrow> JoinResult_of y = JoinResult_raw y) \<Longrightarrow> JoinResult_of (JoinResult_code x) = x"
  by (cases x) (simp_all add: JoinResult_of_def)

text \<open>EntityType: what to draw.\<close>

datatype EntityType =
    Cube
  | PlayerEntity
  | EntityType_raw u8

fun EntityType_code :: "EntityType \<Rightarrow> u8" where
  "EntityType_code Cube = 0"
| "EntityType_code PlayerEntity = 1"
| "EntityType_code (EntityType_raw x) = x"

definition EntityType_of :: "u8 \<Rightarrow> EntityType" where
  "EntityType_of x =
     (if x = 0 then Cube
      else if x = 1 then PlayerEntity
      else EntityType_raw x)"

lemma EntityType_code_of [simp]: "EntityType_code (EntityType_of x) = x"
  by (simp add: EntityType_of_def)

lemma EntityType_of_code:
  "(\<And>y. x = EntityType_raw y \<Longrightarrow> EntityType_of y = EntityType_raw y) \<Longrightarrow> EntityType_of (EntityType_code x) = x"
  by (cases x) (simp_all add: EntityType_of_def)

section \<open>Reporting an AuthResult\<close>

fun toString :: "AuthResult \<Rightarrow> string" where
  "toString AuthSuccess = ''success''"
| "toString InvalidCredentials = ''invalid username or password''"
| "toString AuthVersionMismatch = ''client/server protocol version mismatch''"
| "toString AccountExists = ''account already exists''"
| "toString AuthServerError = ''server error''"
| "toString MalformedRequest = ''malformed request''"
| "toString NotAuthorised = ''not authorised (bad admin secret)''"
| "toString NoSuchAccount = ''no such account''"
| "toString InsufficientPermission = ''your account lacks permission''"
| "toString SessionExpired = ''session expired -- log in again''"
| "toString (AuthResult_raw _) = ''unknown''"

end
