(* ===== verification/Snapshot.thy ===== *)
theory Snapshot
  imports Protocol
begin

text \<open>
  \<^verbatim>\<open>common/net/include/net/snapshot.h\<close> and \<^verbatim>\<open>common/net/src/snapshot.cpp\<close>: the replicated
  entity state, the snapshot message and the header of every UDP datagram, each with its
  encoder and decoder. The decoders write through an output parameter; the models take the
  old value of it and return the new one beside the boolean result, so what a failed decode
  leaves behind is visible. The lemmas show that the two ends agree (round trip), that a
  decoder accepts nothing but an encoding (followed by trailing bytes), the exact size of a
  snapshot, and which entity counts cannot be decoded.
\<close>

section \<open>State\<close>

record Vec3 =
  vec_x :: f32
  vec_y :: f32
  vec_z :: f32

record Quat =
  quat_x :: f32
  quat_y :: f32
  quat_z :: f32
  quat_w :: f32

record EntityState =
  ent_id :: u32
  ent_type :: u8
  ent_position :: Vec3
  ent_rotation :: Quat
  ent_velocity :: Vec3
  ent_angularVelocity :: Vec3
  ent_lastInputSequence :: u32

record Snapshot =
  snap_tick :: u32
  snap_serverTimeMs :: u64
  snap_timeOfDay :: f32
  snap_entities :: "EntityState list"

record UdpHeader =
  hdr_type :: u16
  hdr_sequence :: u32

section \<open>Snapshots\<close>

definition write_entity :: "EntityState \<Rightarrow> bytes \<Rightarrow> bytes" where
  "write_entity e = writes
      [writer_u32 (ent_id e),
       writer_u8 (ent_type e),
       writer_f32 (vec_x (ent_position e)),
       writer_f32 (vec_y (ent_position e)),
       writer_f32 (vec_z (ent_position e)),
       writer_f32 (quat_x (ent_rotation e)),
       writer_f32 (quat_y (ent_rotation e)),
       writer_f32 (quat_z (ent_rotation e)),
       writer_f32 (quat_w (ent_rotation e)),
       writer_f32 (vec_x (ent_velocity e)),
       writer_f32 (vec_y (ent_velocity e)),
       writer_f32 (vec_z (ent_velocity e)),
       writer_f32 (vec_x (ent_angularVelocity e)),
       writer_f32 (vec_y (ent_angularVelocity e)),
       writer_f32 (vec_z (ent_angularVelocity e)),
       writer_u32 (ent_lastInputSequence e)]"

definition encodeSnapshot :: "Snapshot \<Rightarrow> bytes \<Rightarrow> bytes" where
  "encodeSnapshot snapshot out = writes
      ([writer_u32 (snap_tick snapshot),
        writer_u64 (snap_serverTimeMs snapshot),
        writer_f32 (snap_timeOfDay snapshot),
        writer_u16 (word_of_nat (length (snap_entities snapshot)))]
       @ map write_entity (snap_entities snapshot)) out"

definition read_entity :: "(ByteReader, EntityState) state" where
  "read_entity = do {
     i \<leftarrow> reader_u32;
     ty \<leftarrow> reader_u8;
     px \<leftarrow> reader_f32;
     py \<leftarrow> reader_f32;
     pz \<leftarrow> reader_f32;
     rx \<leftarrow> reader_f32;
     ry \<leftarrow> reader_f32;
     rz \<leftarrow> reader_f32;
     rw \<leftarrow> reader_f32;
     velx \<leftarrow> reader_f32;
     vely \<leftarrow> reader_f32;
     velz \<leftarrow> reader_f32;
     ax \<leftarrow> reader_f32;
     ay \<leftarrow> reader_f32;
     az \<leftarrow> reader_f32;
     seq \<leftarrow> reader_u32;
     State_Monad.return
       \<lparr>ent_id = i, ent_type = ty,
        ent_position = \<lparr>vec_x = px, vec_y = py, vec_z = pz\<rparr>,
        ent_rotation = \<lparr>quat_x = rx, quat_y = ry, quat_z = rz, quat_w = rw\<rparr>,
        ent_velocity = \<lparr>vec_x = velx, vec_y = vely, vec_z = velz\<rparr>,
        ent_angularVelocity = \<lparr>vec_x = ax, vec_y = ay, vec_z = az\<rparr>,
        ent_lastInputSequence = seq\<rparr>
   }"

text \<open>The loop over \<open>count\<close> entities; a truncated entity ends it with \<^verbatim>\<open>false\<close>.\<close>

fun read_entities :: "nat \<Rightarrow> EntityState list \<Rightarrow> (ByteReader, bool \<times> EntityState list) state" where
  "read_entities 0 entities = State_Monad.return (True, entities)"
| "read_entities (Suc n) entities = do {
     entity \<leftarrow> read_entity;
     failed \<leftarrow> reader_failed;
     (if failed then State_Monad.return (False, entities)
      else read_entities n (entities @ [entity]))
   }"

definition read_snapshot :: "Snapshot \<Rightarrow> (ByteReader, bool \<times> Snapshot) state" where
  "read_snapshot out = do {
     tick \<leftarrow> reader_u32;
     serverTimeMs \<leftarrow> reader_u64;
     timeOfDay \<leftarrow> reader_f32;
     count \<leftarrow> reader_u16;
     failed \<leftarrow> reader_failed;
     let out = out\<lparr>snap_tick := tick, snap_serverTimeMs := serverTimeMs,
                   snap_timeOfDay := timeOfDay\<rparr> in
     if failed \<or> count > kMaxEntitiesPerSnapshot then State_Monad.return (False, out)
     else do {
       (ok, entities) \<leftarrow> read_entities (unat count) [];
       State_Monad.return (ok, out\<lparr>snap_entities := entities\<rparr>)
     }
   }"

definition decodeSnapshot :: "bytes \<Rightarrow> nat \<Rightarrow> Snapshot \<Rightarrow> bool \<times> Snapshot" where
  "decodeSnapshot data sz out = fst (run_state (read_snapshot out) (byte_reader data sz))"

section \<open>Datagram headers\<close>

definition writeUdpHeader :: "bytes \<Rightarrow> u16 \<Rightarrow> u32 \<Rightarrow> bytes" where
  "writeUdpHeader out ty sequence =
     writes [writer_u32 kUdpMagic, writer_u16 ty, writer_u32 sequence] out"

text \<open>The result is the success flag, the header and the body offset as the caller sees them.\<close>

definition read_udp_header :: "UdpHeader \<Rightarrow> nat \<Rightarrow> (ByteReader, bool \<times> UdpHeader \<times> nat) state" where
  "read_udp_header out bodyOffset = do {
     magic \<leftarrow> reader_u32;
     (if magic \<noteq> kUdpMagic then State_Monad.return (False, out, bodyOffset)
      else do {
        ty \<leftarrow> reader_u16;
        sequence \<leftarrow> reader_u32;
        failed \<leftarrow> reader_failed;
        (let out = out\<lparr>hdr_type := ty, hdr_sequence := sequence\<rparr> in
         State_Monad.return (if failed then (False, out, bodyOffset) else (True, out, 4 + 2 + 4)))
      })
   }"

definition readUdpHeader ::
  "bytes \<Rightarrow> nat \<Rightarrow> UdpHeader \<Rightarrow> nat \<Rightarrow> bool \<times> UdpHeader \<times> nat" where
  "readUdpHeader data sz out bodyOffset =
     fst (run_state (read_udp_header out bodyOffset) (byte_reader data sz))"

section \<open>Entities as a wire format\<close>

lemma write_entity_eq:
  "write_entity e buf = buf @
     writer_u32 (ent_id e) [] @
     writer_u8 (ent_type e) [] @
     writer_f32 (vec_x (ent_position e)) [] @
     writer_f32 (vec_y (ent_position e)) [] @
     writer_f32 (vec_z (ent_position e)) [] @
     writer_f32 (quat_x (ent_rotation e)) [] @
     writer_f32 (quat_y (ent_rotation e)) [] @
     writer_f32 (quat_z (ent_rotation e)) [] @
     writer_f32 (quat_w (ent_rotation e)) [] @
     writer_f32 (vec_x (ent_velocity e)) [] @
     writer_f32 (vec_y (ent_velocity e)) [] @
     writer_f32 (vec_z (ent_velocity e)) [] @
     writer_f32 (vec_x (ent_angularVelocity e)) [] @
     writer_f32 (vec_y (ent_angularVelocity e)) [] @
     writer_f32 (vec_z (ent_angularVelocity e)) [] @
     writer_u32 (ent_lastInputSequence e) []"
  by (simp add: write_entity_def writer_append [of _ "_ @ _"] writer_append [of _ buf])

lemma length_writer [simp]:
  "length (writer_u8 a []) = 1" "length (writer_u16 b []) = 2" "length (writer_u32 c []) = 4"
  "length (writer_u64 d []) = 8" "length (writer_f32 c []) = 4" "length (writer_i32 c []) = 4"
  by (simp_all add: writer_u8_def writer_u16_def writer_u32_def writer_u64_def writer_f32_def
      writer_i32_def writer_little_def writer_raw_def)

lemma length_write_entity [simp]: "length (write_entity e []) = 61"
  by (simp add: write_entity_eq)

lemma reads_entity: "reads read_entity (write_entity e []) e"
proof -
  have "write_entity e [] = write_entity e [] @ []" by simp
  then show ?thesis
    unfolding read_entity_def write_entity_eq append_assoc append_Nil
    by (elim ssubst) ((rule reads_bind, rule codec_reads)+, rule reads_return_eq, simp)
qed

lemma emits_entity: "emits read_entity (\<lambda>e bs. True \<and> bs = write_entity e [])"
  unfolding read_entity_def
  by (rule emits_mono, (rule emits_bind codec_emits emits_return)+) (auto simp: write_entity_eq)

lemma sticky_entity: "sticky read_entity"
  unfolding read_entity_def by (intro sticky_intros)

interpretation entity_codec: wire_codec write_entity read_entity "\<lambda>_. True"
proof
  show "write_entity e buf = buf @ write_entity e []" for e buf
    by (simp add: write_entity_eq)
qed (rule reads_entity emits_entity sticky_entity)+

section \<open>The two ends of a snapshot agree\<close>

fun entities_bytes :: "EntityState list \<Rightarrow> bytes" where
  "entities_bytes [] = []"
| "entities_bytes (e # es) = write_entity e [] @ entities_bytes es"

lemma writes_entities: "writes (map write_entity es) buf = buf @ entities_bytes es"
proof (induction es arbitrary: buf)
  case Nil
  then show ?case by simp
next
  case (Cons e es)
  have "write_entity e buf = buf @ write_entity e []"
    by (rule entity_codec.enc_append)
  with Cons.IH [of "write_entity e buf"] show ?case by simp
qed

lemma length_entities_bytes: "length (entities_bytes es) = 61 * length es"
  by (induction es) simp_all

lemma writes_append: "writes (ws @ ws') buf = writes ws' (writes ws buf)"
  by (induction ws arbitrary: buf) simp_all

lemma encodeSnapshot_eq:
  "encodeSnapshot s out = out @ writer_u32 (snap_tick s) [] @
     writer_u64 (snap_serverTimeMs s) [] @ writer_f32 (snap_timeOfDay s) [] @
     writer_u16 (word_of_nat (length (snap_entities s))) [] @ entities_bytes (snap_entities s)"
  by (simp add: encodeSnapshot_def writes_append writes_entities
      writer_append [of _ "_ @ _"] writer_append [of _ out])

lemma reads_entities:
  "reads (read_entities (length es) acc) (entities_bytes es) (True, acc @ es)"
proof (induction es arbitrary: acc)
  case Nil
  then show ?case by (simp add: reads_return)
next
  case (Cons e es)
  have "reads (read_entities (Suc (length es)) acc)
      (write_entity e [] @ [] @ entities_bytes es) (True, acc @ e # es)"
    unfolding read_entities.simps
    using Cons.IH [of "acc @ [e]"]
    by (intro reads_bind [OF reads_entity] reads_bind [OF reads_failed]) simp
  then show ?case by simp
qed

lemma reads_snapshot:
  assumes "length (snap_entities s) \<le> 512"
  shows "reads (read_snapshot out) (encodeSnapshot s []) (True, s)"
proof -
  let ?n = "word_of_nat (length (snap_entities s)) :: u16"
  have n: "unat ?n = length (snap_entities s)" "\<not> ?n > kMaxEntitiesPerSnapshot"
    using assms by (simp_all add: unat_of_nat kMaxEntitiesPerSnapshot_def word_less_nat_alt)
  have "reads (read_snapshot out)
    (writer_u32 (snap_tick s) [] @ writer_u64 (snap_serverTimeMs s) [] @
     writer_f32 (snap_timeOfDay s) [] @ writer_u16 ?n [] @ [] @
     entities_bytes (snap_entities s) @ []) (True, s)"
    unfolding read_snapshot_def
  proof ((rule reads_bind, rule codec_reads)+, rule reads_bind, rule reads_failed)
    let ?out = "out\<lparr>snap_tick := snap_tick s, snap_serverTimeMs := snap_serverTimeMs s,
                     snap_timeOfDay := snap_timeOfDay s\<rparr>"
    have "reads (do { (ok, entities) \<leftarrow> read_entities (unat ?n) [];
                     State_Monad.return (ok, ?out\<lparr>snap_entities := entities\<rparr>) })
        (entities_bytes (snap_entities s) @ []) (True, s)"
      using reads_entities [of "snap_entities s" "[]"]
      by (intro reads_bind [where v = "(True, snap_entities s)"]) (simp_all add: n reads_return_eq)
    then show "reads (let out = ?out in
        if False \<or> ?n > kMaxEntitiesPerSnapshot then State_Monad.return (False, out)
        else do { (ok, entities) \<leftarrow> read_entities (unat ?n) [];
                  State_Monad.return (ok, out\<lparr>snap_entities := entities\<rparr>) })
        (entities_bytes (snap_entities s) @ []) (True, s)"
      using n(2) by (simp add: Let_def)
  qed
  then show ?thesis by (simp add: encodeSnapshot_eq)
qed

lemma emits_entities:
  "emits (read_entities n acc) (\<lambda>(ok, es) bs. ok \<longrightarrow>
     (\<exists>new. es = acc @ new \<and> length new = n \<and> bs = entities_bytes new))"
proof (induction n arbitrary: acc)
  case 0
  then show ?case
    by (simp add: emits_mono [OF emits_return])
next
  case (Suc n)
  let ?P = "\<lambda>acc n (ok, es) bs. ok \<longrightarrow>
     (\<exists>new. es = acc @ new \<and> length new = n \<and> bs = entities_bytes new)"
  have "emits (if failed then State_Monad.return (False, acc) else read_entities n (acc @ [e]))
      (?P (acc @ [e]) n)" for failed e
    using Suc.IH [of "acc @ [e]"] by (simp add: emits_mono [OF emits_return])
  note body = emits_bind [OF emits_entity emits_bind [OF emits_failed this]]
  show ?case
    unfolding read_entities.simps by (rule emits_mono [OF body]) clarsimp
qed

lemma read_entities_ok_healthy:
  "run_state (read_entities n acc) r = ((True, es), r') \<Longrightarrow> \<not> mFailed r \<Longrightarrow> \<not> mFailed r'"
proof (induction n arbitrary: acc r)
  case 0
  then show ?case by (simp add: State_Monad.return_def)
next
  case (Suc n)
  obtain e r1 where e: "run_state read_entity r = (e, r1)" by (cases "run_state read_entity r")
  with Suc.prems(1) have "\<not> mFailed r1"
    and "run_state (read_entities n (acc @ [e])) r1 = ((True, es), r')"
    by (auto simp: reader_failed_def State_Monad.return_def split: if_splits)
  then show ?case using Suc.IH by blast
qed

lemma emits_snapshot:
  "emits (read_snapshot out) (\<lambda>(ok, s) bs. ok \<longrightarrow>
     length (snap_entities s) \<le> 512 \<and> bs = encodeSnapshot s [])"
proof -
  let ?P = "\<lambda>(ok, s) bs. ok \<longrightarrow> length (snap_entities s) \<le> 512 \<and> bs = encodeSnapshot s []"
  have tail: "emits (do { (ok, entities) \<leftarrow> read_entities n [];
      State_Monad.return (ok, out\<lparr>snap_entities := entities\<rparr>) })
      (\<lambda>(ok, s) bs. ok \<longrightarrow> (\<exists>es. s = out\<lparr>snap_entities := es\<rparr> \<and> length es = n \<and>
         bs = entities_bytes es))" for n and out :: Snapshot
    by (rule emits_mono [OF emits_bind [OF emits_entities, where
          Q = "\<lambda>(ok, es) w bs. w = (ok, out\<lparr>snap_entities := es\<rparr>) \<and> bs = []"]])
      (auto split: prod.splits intro: emits_mono [OF emits_return])
  have small: "\<not> kMaxEntitiesPerSnapshot < c \<Longrightarrow> unat c \<le> 512" for c
    by (simp add: kMaxEntitiesPerSnapshot_def word_less_nat_alt)
  have body: "emits (let out = out\<lparr>snap_tick := t, snap_serverTimeMs := m, snap_timeOfDay := d\<rparr> in
      if failed \<or> kMaxEntitiesPerSnapshot < c then State_Monad.return (False, out)
      else do { (ok, entities) \<leftarrow> read_entities (unat c) [];
                State_Monad.return (ok, out\<lparr>snap_entities := entities\<rparr>) })
      (\<lambda>(ok, s) bs. ok \<longrightarrow> unat c \<le> 512 \<and>
         snap_tick s = t \<and> snap_serverTimeMs s = m \<and> snap_timeOfDay s = d \<and>
         length (snap_entities s) = unat c \<and> bs = entities_bytes (snap_entities s))"
    for t m d c failed
    by (auto simp: Let_def small intro: emits_mono [OF emits_return] emits_mono [OF tail])
  show ?thesis
    unfolding read_snapshot_def
    by (rule emits_mono [OF emits_bind [OF u32_codec.emits_enc emits_bind [OF u64_codec.emits_enc
          emits_bind [OF f32_codec.emits_enc emits_bind [OF u16_codec.emits_enc
          emits_bind [OF emits_failed body]]]]]])
      (auto simp: encodeSnapshot_eq)
qed

lemma decodeSnapshot_reads:
  assumes "length (snap_entities s) \<le> 512" and "take sz data = encodeSnapshot s [] @ rest"
    and "sz \<le> length data"
  shows "decodeSnapshot data sz out = (True, s)"
proof -
  have "run_state (read_snapshot out) (byte_reader data sz) = ((True, s), (byte_reader data sz)
      \<lparr>mOffset := mOffset (byte_reader data sz) + length (encodeSnapshot s [])\<rparr>)"
    using assms by (intro readsD [OF reads_snapshot]) simp_all
  then show ?thesis by (simp add: decodeSnapshot_def)
qed

lemma read_snapshot_ok_healthy:
  assumes "run_state (read_snapshot out) r = ((True, s), r')"
  shows "\<not> mFailed r'"
proof -
  obtain t r1 where 1: "run_state reader_u32 r = (t, r1)" by (cases "run_state reader_u32 r")
  obtain m r2 where 2: "run_state reader_u64 r1 = (m, r2)" by (cases "run_state reader_u64 r1")
  obtain d r3 where 3: "run_state reader_f32 r2 = (d, r3)" by (cases "run_state reader_f32 r2")
  obtain c r4 where 4: "run_state reader_u16 r3 = (c, r4)" by (cases "run_state reader_u16 r3")
  have h: "\<not> mFailed r4" and "\<exists>es. run_state (read_entities (unat c) []) r4 = ((True, es), r')"
    using assms
    by (auto simp: read_snapshot_def 1 2 3 4 reader_failed_def State_Monad.return_def Let_def
        split: if_splits prod.splits)
  then show ?thesis using read_entities_ok_healthy by blast
qed

lemma decodeSnapshot_sound:
  assumes "decodeSnapshot data sz out = (True, s)" and "sz \<le> length data"
  obtains rest where "length (snap_entities s) \<le> 512"
    and "take sz data = encodeSnapshot s [] @ rest"
proof -
  obtain r' where run: "run_state (read_snapshot out) (byte_reader data sz) = ((True, s), r')"
    using assms(1) by (cases "run_state (read_snapshot out) (byte_reader data sz)")
      (simp add: decodeSnapshot_def)
  have "length (snap_entities s) \<le> 512 \<and> (\<exists>rest. take sz data = encodeSnapshot s [] @ rest)"
    using emitsD(4) [OF emits_snapshot _ run read_snapshot_ok_healthy [OF run]] assms(2) by auto
  then show thesis using that by blast
qed

lemma length_encodeSnapshot:
  "length (encodeSnapshot s out) = length out + 18 + 61 * length (snap_entities s)"
  by (simp add: encodeSnapshot_eq length_entities_bytes)

lemma encodeSnapshot_same_count:
  assumes "encodeSnapshot s [] @ a = encodeSnapshot s' [] @ b"
    and "length (snap_entities s) < 2 ^ 16" and "length (snap_entities s') < 2 ^ 16"
  shows "length (snap_entities s) = length (snap_entities s')"
proof -
  have "word_of_nat (length (snap_entities s)) = (word_of_nat (length (snap_entities s')) :: u16)"
    using assms(1) by (simp add: encodeSnapshot_eq) (metis u16_codec.prefix_free(1))
  then have "unat (word_of_nat (length (snap_entities s)) :: u16) =
      unat (word_of_nat (length (snap_entities s')) :: u16)"
    by simp
  with assms(2,3) show ?thesis by (simp add: unat_of_nat)
qed

section \<open>Headers\<close>

lemma writeUdpHeader_eq:
  "writeUdpHeader out ty sequence =
     out @ writer_u32 kUdpMagic [] @ writer_u16 ty [] @ writer_u32 sequence []"
  by (simp add: writeUdpHeader_def writer_append [of _ "_ @ _"] writer_append [of _ out])

lemma length_writeUdpHeader [simp]: "length (writeUdpHeader out ty sequence) = length out + 10"
  by (simp add: writeUdpHeader_eq)

lemma reads_udp_header:
  "reads (read_udp_header h off) (writeUdpHeader [] ty sequence)
     (True, \<lparr>hdr_type = ty, hdr_sequence = sequence\<rparr>, 10)"
proof -
  have "reads (do {
        ty \<leftarrow> reader_u16;
        sequence \<leftarrow> reader_u32;
        failed \<leftarrow> reader_failed;
        (let out = h\<lparr>hdr_type := ty, hdr_sequence := sequence\<rparr> in
         State_Monad.return (if failed then (False, out, off) else (True, out, 4 + 2 + 4)))
      }) (writer_u16 ty [] @ writer_u32 sequence [] @ [] @ [])
      (True, \<lparr>hdr_type = ty, hdr_sequence = sequence\<rparr>, 10)"
    by (rule reads_bind, rule codec_reads)+
      (rule reads_bind, rule reads_failed, simp add: Let_def reads_return_eq)
  then have "reads (read_udp_header h off)
      (writer_u32 kUdpMagic [] @ writer_u16 ty [] @ writer_u32 sequence [] @ [] @ [])
      (True, \<lparr>hdr_type = ty, hdr_sequence = sequence\<rparr>, 10)"
    unfolding read_udp_header_def by (intro reads_bind [OF u32_codec.reads_enc]) simp_all
  then show ?thesis by (simp add: writeUdpHeader_eq)
qed

lemma emits_udp_header:
  "emits (read_udp_header h off)
     (\<lambda>(ok, h', _) bs. ok \<longrightarrow> bs = writeUdpHeader [] (hdr_type h') (hdr_sequence h'))"
proof -
  have tail: "emits (do {
        ty \<leftarrow> reader_u16;
        sequence \<leftarrow> reader_u32;
        failed \<leftarrow> reader_failed;
        (let out = h\<lparr>hdr_type := ty, hdr_sequence := sequence\<rparr> in
         State_Monad.return (if failed then (False, out, off) else (True, out, 4 + 2 + 4)))
      }) (\<lambda>(ok, h', _) bs. ok \<longrightarrow>
            bs = writer_u16 (hdr_type h') [] @ writer_u32 (hdr_sequence h') [])"
    unfolding Let_def
    by (rule emits_mono [OF emits_bind [OF u16_codec.emits_enc emits_bind [OF u32_codec.emits_enc
          emits_bind [OF emits_failed emits_return]]]]) auto
  have "emits (if m \<noteq> kUdpMagic then State_Monad.return (False, h, off) else do {
        ty \<leftarrow> reader_u16;
        sequence \<leftarrow> reader_u32;
        failed \<leftarrow> reader_failed;
        (let out = h\<lparr>hdr_type := ty, hdr_sequence := sequence\<rparr> in
         State_Monad.return (if failed then (False, out, off) else (True, out, 4 + 2 + 4)))
      }) (\<lambda>(ok, h', _) bs. ok \<longrightarrow> m = kUdpMagic \<and>
            bs = writer_u16 (hdr_type h') [] @ writer_u32 (hdr_sequence h') [])" for m
    by (auto intro: emits_mono [OF emits_return] emits_mono [OF tail])
  then show ?thesis
    unfolding read_udp_header_def
    by (rule emits_mono [OF emits_bind [OF u32_codec.emits_enc]]) (auto simp: writeUdpHeader_eq)
qed

lemma read_udp_header_ok_healthy:
  assumes "run_state (read_udp_header h off) r = ((True, h', o'), r')"
  shows "\<not> mFailed r'"
  using assms
  by (auto simp: read_udp_header_def reader_failed_def State_Monad.return_def Let_def
      split: if_splits prod.splits)

lemma little_bytes_surj:
  assumes "length bs = n" and "LENGTH('a) = 8 * n"
  shows "\<exists>v :: 'a::len word. little_bytes n v = bs"
proof
  show "little_bytes n (little_join n ((!) bs) :: 'a word) = bs"
    using assms by (subst little_bytes_join) (simp_all add: map_nth flip: assms(1))
qed

section \<open>Properties\<close>

text \<open>C37. Whatever the server encodes (up to the protocol's entity limit), with or without
  trailing bytes, the client decodes to the same snapshot, whatever the output held before.\<close>

theorem snapshot_roundtrip:
  assumes "length (snap_entities s) \<le> unat kMaxEntitiesPerSnapshot"
  shows "decodeSnapshot (encodeSnapshot s [] @ rest) (length (encodeSnapshot s [] @ rest)) out
    = (True, s)"
  using assms by (intro decodeSnapshot_reads [where rest = rest])
    (simp_all add: kMaxEntitiesPerSnapshot_def)

definition sample_entity :: EntityState where
  "sample_entity = \<lparr>ent_id = 1000, ent_type = 1,
     ent_position = \<lparr>vec_x = 0x3F800000, vec_y = 0x40000000, vec_z = 0\<rparr>,
     ent_rotation = \<lparr>quat_x = 0, quat_y = 0, quat_z = 0, quat_w = 0x3F800000\<rparr>,
     ent_velocity = \<lparr>vec_x = 0, vec_y = 0, vec_z = 0\<rparr>,
     ent_angularVelocity = \<lparr>vec_x = 0, vec_y = 0, vec_z = 0\<rparr>,
     ent_lastInputSequence = 7\<rparr>"

definition sample_snapshot :: Snapshot where
  "sample_snapshot = \<lparr>snap_tick = 42, snap_serverTimeMs = 70000, snap_timeOfDay = 0x3F000000,
     snap_entities = [sample_entity]\<rparr>"

theorem snapshot_roundtrip_witness:
  "decodeSnapshot (encodeSnapshot sample_snapshot [] @ [0])
     (length (encodeSnapshot sample_snapshot [] @ [0])) sample_snapshot = (True, sample_snapshot)"
  by (rule snapshot_roundtrip) (simp add: sample_snapshot_def kMaxEntitiesPerSnapshot_def)

text \<open>C38. The decoder accepts nothing but an encoding: if it reports success, the buffer it was
  given starts with the encoding of exactly the snapshot it returned, which obeys the limit.\<close>

theorem snapshot_decode_sound:
  assumes "decodeSnapshot data sz out = (True, s)" and "sz \<le> length data"
  shows "length (snap_entities s) \<le> unat kMaxEntitiesPerSnapshot \<and>
    take sz data = encodeSnapshot s [] @ drop (length (encodeSnapshot s [])) (take sz data)"
proof -
  obtain rest where "length (snap_entities s) \<le> 512" and "take sz data = encodeSnapshot s [] @ rest"
    using decodeSnapshot_sound [OF assms] .
  then show ?thesis by (simp add: kMaxEntitiesPerSnapshot_def)
qed

theorem snapshot_decode_sound_witness:
  "length (snap_entities sample_snapshot) \<le> unat kMaxEntitiesPerSnapshot \<and>
    take 79 (encodeSnapshot sample_snapshot []) = encodeSnapshot sample_snapshot [] @
      drop (length (encodeSnapshot sample_snapshot [])) (take 79 (encodeSnapshot sample_snapshot []))"
proof (rule snapshot_decode_sound)
  have len: "length (encodeSnapshot sample_snapshot []) = 79"
    by (simp add: length_encodeSnapshot sample_snapshot_def)
  then show "79 \<le> length (encodeSnapshot sample_snapshot [])" by simp
  show "decodeSnapshot (encodeSnapshot sample_snapshot []) 79 sample_snapshot = (True, sample_snapshot)"
    using len by (intro decodeSnapshot_reads [where rest = "[]"]) (simp_all add: sample_snapshot_def)
qed

text \<open>A truncated snapshot is discarded whole: every strict prefix of an encoding is
  rejected, so a datagram cut off by a receive buffer never yields a partial world.\<close>

theorem snapshot_truncated_rejected:
  assumes "length (snap_entities s) < 2 ^ 16" and "k < length (encodeSnapshot s [])"
  shows "\<not> fst (decodeSnapshot (take k (encodeSnapshot s [])) k out)"
proof
  let ?enc = "encodeSnapshot s []"
  assume "fst (decodeSnapshot (take k ?enc) k out)"
  then obtain s' where ok: "decodeSnapshot (take k ?enc) k out = (True, s')"
    by (metis (full_types) prod.collapse)
  obtain rest where small: "length (snap_entities s') \<le> 512"
    and pre: "take k ?enc = encodeSnapshot s' [] @ rest"
    using decodeSnapshot_sound [OF ok] assms by auto
  have "?enc @ [] = encodeSnapshot s' [] @ rest @ drop k ?enc"
    using pre by (metis append.right_neutral append_assoc append_take_drop_id)
  then have "length (snap_entities s) = length (snap_entities s')"
    by (rule encodeSnapshot_same_count) (use assms small in simp_all)
  then have "length ?enc = length (encodeSnapshot s' [])"
    by (simp add: length_encodeSnapshot)
  moreover have "length (encodeSnapshot s' []) \<le> k"
    using arg_cong [OF pre, of length] assms(2) by simp
  ultimately show False using assms(2) by simp
qed

theorem snapshot_truncated_rejected_witness:
  "\<not> fst (decodeSnapshot (take 78 (encodeSnapshot sample_snapshot [])) 78 sample_snapshot)"
  by (rule snapshot_truncated_rejected) (simp_all add: sample_snapshot_def length_encodeSnapshot)

text \<open>The encoder does not enforce the entity limit the decoder checks: a snapshot of more
  than 512 entities (up to what the count field holds) is always rejected by the client.\<close>

theorem snapshot_over_limit_rejected:
  assumes "unat kMaxEntitiesPerSnapshot < length (snap_entities s)"
    and "length (snap_entities s) < 2 ^ 16"
  shows "\<not> fst (decodeSnapshot (encodeSnapshot s [] @ rest) (length (encodeSnapshot s [] @ rest)) out)"
proof
  let ?data = "encodeSnapshot s [] @ rest"
  assume "fst (decodeSnapshot ?data (length ?data) out)"
  then obtain s' where ok: "decodeSnapshot ?data (length ?data) out = (True, s')"
    by (metis (full_types) prod.collapse)
  obtain rest' where small: "length (snap_entities s') \<le> 512"
    and "?data = encodeSnapshot s' [] @ rest'"
    using decodeSnapshot_sound [OF ok] by auto
  then have "length (snap_entities s) = length (snap_entities s')"
    using assms(2) by (intro encodeSnapshot_same_count) simp_all
  with small assms(1) show False by (simp add: kMaxEntitiesPerSnapshot_def)
qed

theorem snapshot_over_limit_rejected_witness:
  "\<not> fst (decodeSnapshot
      (encodeSnapshot (sample_snapshot\<lparr>snap_entities := replicate 513 sample_entity\<rparr>) [] @ [])
      (length (encodeSnapshot (sample_snapshot\<lparr>snap_entities := replicate 513 sample_entity\<rparr>) [] @ []))
      sample_snapshot)"
  by (rule snapshot_over_limit_rejected) (simp_all add: kMaxEntitiesPerSnapshot_def)

text \<open>Datagram headers: what \<open>writeUdpHeader\<close> writes in front of a body, \<open>readUdpHeader\<close>
  returns, with the body starting at offset 10.\<close>

theorem udp_header_roundtrip:
  "readUdpHeader (writeUdpHeader [] ty sequence @ body) (length (writeUdpHeader [] ty sequence @ body))
     h off = (True, \<lparr>hdr_type = ty, hdr_sequence = sequence\<rparr>, 10)"
  unfolding readUdpHeader_def
  by (subst readsD [OF reads_udp_header, where rest = body]) simp_all

text \<open>Stray traffic is discarded before parsing: a datagram is accepted only if it is at
  least a whole header starting with the magic, and a rejected one leaves the body offset alone.\<close>

theorem udp_header_accepts_iff:
  assumes "sz \<le> length data"
  shows "fst (readUdpHeader data sz h off) \<longleftrightarrow>
    10 \<le> sz \<and> take 4 data = little_bytes 4 kUdpMagic"
proof
  assume "fst (readUdpHeader data sz h off)"
  then obtain h' o' r' where run:
    "run_state (read_udp_header h off) (byte_reader data sz) = ((True, h', o'), r')"
    by (cases "run_state (read_udp_header h off) (byte_reader data sz)")
      (auto simp: readUdpHeader_def)
  obtain rest where "take sz data = writeUdpHeader [] (hdr_type h') (hdr_sequence h') @ rest"
    using emitsD(4) [OF emits_udp_header _ run read_udp_header_ok_healthy [OF run]] assms by auto
  then have eq: "take sz data = little_bytes 4 kUdpMagic @ writer_u16 (hdr_type h') [] @
      writer_u32 (hdr_sequence h') [] @ rest"
    by (simp add: writeUdpHeader_eq writer_u32_def writer_little_def writer_raw_def)
  have "10 \<le> sz"
    using arg_cong [OF eq, of length] assms by simp
  moreover from this have "take 4 data = take 4 (take sz data)" by (simp add: min_def)
  ultimately show "10 \<le> sz \<and> take 4 data = little_bytes 4 kUdpMagic"
    by (simp add: eq)
next
  assume *: "10 \<le> sz \<and> take 4 data = little_bytes 4 kUdpMagic"
  let ?d = "take sz data"
  obtain ty :: u16 where ty: "little_bytes 2 ty = take 2 (drop 4 ?d)"
    using little_bytes_surj [of "take 2 (drop 4 ?d)" 2, where 'a = 16] * assms by auto
  obtain sq :: u32 where sq: "little_bytes 4 sq = take 4 (drop 6 ?d)"
    using little_bytes_surj [of "take 4 (drop 6 ?d)" 4, where 'a = 32] * assms by auto
  have "?d = take 4 ?d @ take 2 (drop 4 ?d) @ take 4 (drop 6 ?d) @ drop 10 ?d"
    using append_take_drop_id [of 4 ?d] append_take_drop_id [of 2 "drop 4 ?d"]
      append_take_drop_id [of 4 "drop 6 ?d"] by simp
  then have "?d = writeUdpHeader [] ty sq @ drop 10 ?d"
    using * by (simp add: writeUdpHeader_eq writer_u32_def writer_u16_def writer_little_def
        writer_raw_def ty sq min_def)
  then have "run_state (read_udp_header h off) (byte_reader data sz) =
      ((True, \<lparr>hdr_type = ty, hdr_sequence = sq\<rparr>, 10), (byte_reader data sz)
        \<lparr>mOffset := mOffset (byte_reader data sz) + length (writeUdpHeader [] ty sq)\<rparr>)"
    using assms by (intro readsD [OF reads_udp_header]) simp_all
  then show "fst (readUdpHeader data sz h off)"
    by (simp add: readUdpHeader_def)
qed

theorem udp_header_accepts_iff_witness:
  "fst (readUdpHeader (writeUdpHeader [] 212 5) 10 \<lparr>hdr_type = 0, hdr_sequence = 0\<rparr> 0)"
  using udp_header_accepts_iff [of 10 "writeUdpHeader [] 212 5" "\<lparr>hdr_type = 0, hdr_sequence = 0\<rparr>" 0]
  by (simp add: writeUdpHeader_eq writer_u32_def writer_little_def writer_raw_def)

end
