(* ===== verification/CText.thy ===== *)
theory CText
  imports Prelude
begin

text \<open>
  The text conversions of the C and C++ libraries that the sources use: \<^verbatim>\<open>std::to_string\<close> of
  an unsigned integer, \<^verbatim>\<open>strtoull\<close>, \<^verbatim>\<open>strtoul\<close>, \<^verbatim>\<open>strtol\<close> (64-bit \<^verbatim>\<open>long\<close>) and \<^verbatim>\<open>atoi\<close>
  in base ten, with their saturation and sign rules. Printing then parsing gives the number back.
\<close>

definition digit_char :: "nat \<Rightarrow> char" where
  "digit_char d = char_of (48 + d)"

definition isdigit :: "char \<Rightarrow> bool" where
  "isdigit c \<longleftrightarrow> 48 \<le> (of_char c :: nat) \<and> (of_char c :: nat) \<le> 57"

definition digit_value :: "char \<Rightarrow> nat" where
  "digit_value c = of_char c - 48"

definition isspace :: "char \<Rightarrow> bool" where
  "isspace c \<longleftrightarrow> (of_char c :: nat) = 32 \<or> (9 \<le> (of_char c :: nat) \<and> (of_char c :: nat) \<le> 13)"

fun to_string :: "nat \<Rightarrow> string" where
  "to_string n = (if n < 10 then [digit_char n] else to_string (n div 10) @ [digit_char (n mod 10)])"

declare to_string.simps [simp del]

fun parse_digits :: "nat \<Rightarrow> string \<Rightarrow> nat" where
  "parse_digits acc [] = acc"
| "parse_digits acc (c # cs) = (if isdigit c then parse_digits (10 * acc + digit_value c) cs else acc)"

text \<open>An optional sign after leading white space.\<close>

definition parse_sign :: "string \<Rightarrow> bool \<times> string" where
  "parse_sign s = (case dropWhile isspace s of
      [] \<Rightarrow> (False, [])
    | c # cs \<Rightarrow> if c = CHR ''-'' then (True, cs) else if c = CHR ''+'' then (False, cs) else (False, c # cs))"

definition strtoull :: "string \<Rightarrow> u64" where
  "strtoull s = (case parse_sign s of (neg, digits) \<Rightarrow>
     (let v = parse_digits 0 digits in
      if v \<ge> 2 ^ 64 then - 1 else if neg then - word_of_nat v else word_of_nat v))"

definition strtol :: "string \<Rightarrow> int" where
  "strtol s = (case parse_sign s of (neg, digits) \<Rightarrow>
     (let v = (if neg then - int (parse_digits 0 digits) else int (parse_digits 0 digits)) in
      if v < - (2 ^ 63) then - (2 ^ 63) else if v > 2 ^ 63 - 1 then 2 ^ 63 - 1 else v))"

text \<open>\<^verbatim>\<open>atoi\<close> is \<^verbatim>\<open>strtol\<close> cut to an \<^verbatim>\<open>int\<close>.\<close>

definition atoi :: "string \<Rightarrow> 32 word" where
  "atoi s = word_of_int (strtol s)"

section \<open>Printing and parsing\<close>

lemma of_char_digit [simp]: "d < 10 \<Longrightarrow> (of_char (digit_char d) :: nat) = 48 + d"
  by (simp add: digit_char_def)

lemma isdigit_digit [simp]: "d < 10 \<Longrightarrow> isdigit (digit_char d)"
  by (simp add: isdigit_def)

lemma digit_value_digit [simp]: "d < 10 \<Longrightarrow> digit_value (digit_char d) = d"
  by (simp add: digit_value_def)

lemma all_digits_to_string: "list_all isdigit (to_string n)"
  by (induction n rule: to_string.induct) (subst to_string.simps, simp)

lemma to_string_not_Nil [simp]: "to_string n \<noteq> []"
  by (subst to_string.simps) simp

lemma parse_digits_append:
  "list_all isdigit xs \<Longrightarrow> parse_digits acc (xs @ ys) = parse_digits (parse_digits acc xs) ys"
  by (induction xs arbitrary: acc) simp_all

lemma parse_to_string: "parse_digits 0 (to_string n) = n"
proof (induction n rule: to_string.induct)
  case (1 n)
  show ?case
  proof (cases "n < 10")
    case True
    then show ?thesis by (subst to_string.simps) simp
  next
    case False
    with 1 show ?thesis
      by (subst to_string.simps) (simp add: parse_digits_append all_digits_to_string)
  qed
qed

lemma isdigit_facts: "isdigit c \<Longrightarrow> \<not> isspace c \<and> c \<noteq> CHR ''-'' \<and> c \<noteq> CHR ''+'' \<and> c \<noteq> CHR 0x00"
  by (auto simp: isdigit_def isspace_def)

lemma parse_sign_to_string [simp]: "parse_sign (to_string n) = (False, to_string n)"
proof -
  obtain c cs where "to_string n = c # cs" by (cases "to_string n") simp_all
  moreover from this have "isdigit c" using all_digits_to_string [of n] by simp
  ultimately show ?thesis by (simp add: parse_sign_def isdigit_facts)
qed

lemma strtoull_to_string: "n < 2 ^ 64 \<Longrightarrow> strtoull (to_string n) = word_of_nat n"
  by (simp add: strtoull_def parse_to_string)

lemma strtol_to_string: "n < 2 ^ 63 \<Longrightarrow> strtol (to_string n) = int n"
proof -
  assume "n < 2 ^ 63"
  then have "int n < int (2 ^ 63)" by (simp only: of_nat_less_iff)
  then show ?thesis by (simp add: strtol_def parse_to_string)
qed

lemma atoi_to_string: "n < 2 ^ 63 \<Longrightarrow> atoi (to_string n) = word_of_nat n"
  by (simp add: atoi_def strtol_to_string)

lemma c_str_to_string [simp]: "c_str (to_string n) = to_string n"
  using all_digits_to_string [of n]
  by (auto simp: c_str_def takeWhile_eq_all_conv list_all_iff isdigit_facts)

section \<open>Words of a line\<close>

text \<open>Reading a \<^verbatim>\<open>std::istringstream\<close> word by word with \<^verbatim>\<open>>>\<close>.\<close>

function words :: "string \<Rightarrow> string list" where
  "words line = (case dropWhile isspace line of
      [] \<Rightarrow> []
    | c # cs \<Rightarrow> takeWhile (\<lambda>x. \<not> isspace x) (c # cs) # words (dropWhile (\<lambda>x. \<not> isspace x) (c # cs)))"
  by pat_completeness auto
termination
proof (relation "measure length", goal_cases)
  case (2 line c cs)
  have "\<not> isspace c"
    using 2 hd_dropWhile [of isspace line] by (metis list.distinct(1) list.sel(1))
  then have "length (dropWhile (\<lambda>x. \<not> isspace x) (c # cs)) \<le> length cs"
    by (simp add: length_dropWhile_le)
  also have "\<dots> < length line"
    using length_dropWhile_le [of isspace line] 2 by simp
  finally show ?case by simp
qed simp

declare words.simps [simp del]

lemma words_unfold:
  "dropWhile isspace line = [] \<Longrightarrow> words line = []"
  "dropWhile isspace line = c # cs \<Longrightarrow>
     words line = takeWhile (\<lambda>x. \<not> isspace x) (c # cs) # words (dropWhile (\<lambda>x. \<not> isspace x) (c # cs))"
  by (subst words.simps, simp only: list.case)+

lemma words_clean: "w \<in> set (words line) \<Longrightarrow> w \<noteq> [] \<and> list_all (\<lambda>c. \<not> isspace c) w"
proof (induction line rule: words.induct)
  case (1 line)
  show ?case
  proof (cases "dropWhile isspace line")
    case Nil
    then have "words line = []" by (rule words_unfold(1))
    with "1.prems" show ?thesis by simp
  next
    case (Cons c cs)
    then have "\<not> isspace c"
      using hd_dropWhile [of isspace line] by (metis list.distinct(1) list.sel(1))
    then have first: "takeWhile (\<lambda>x. \<not> isspace x) (c # cs) \<noteq> []" by simp
    have "w = takeWhile (\<lambda>x. \<not> isspace x) (c # cs) \<or> w \<in> set (words (dropWhile (\<lambda>x. \<not> isspace x) (c # cs)))"
      using "1.prems" unfolding words_unfold(2) [OF Cons] by (simp only: list.set insert_iff)
    then show ?thesis
    proof
      assume "w = takeWhile (\<lambda>x. \<not> isspace x) (c # cs)"
      with first show ?thesis using set_takeWhileD unfolding list_all_iff by fast
    qed (rule "1.IH" [OF Cons])
  qed
qed

lemma words_single:
  assumes "w \<noteq> []" and "list_all (\<lambda>c. \<not> isspace c) w"
  shows "words w = [w]"
proof -
  obtain c cs where w: "w = c # cs" using assms(1) by (cases w) auto
  have "dropWhile isspace w = c # cs" "takeWhile (\<lambda>c. \<not> isspace c) (c # cs) = w" "dropWhile (\<lambda>c. \<not> isspace c) (c # cs) = []"
    using assms(2) w by (auto simp: dropWhile_eq_self_iff takeWhile_eq_all_conv dropWhile_eq_Nil_conv list_all_iff)
  then show ?thesis
    by (simp only: words_unfold(2)) (simp add: words_unfold(1))
qed

end
