(* ===== verification/Database.thy ===== *)
theory Database
  imports CText
begin

text \<open>
  \<^verbatim>\<open>server/dbserver/src/database.cpp\<close>: the wrapper over libpq that is the only code to talk to
  Postgres. libpq is outside the repository: the record \<open>libpq\<close> holds its functions over an
  unknown outside world \<open>'w\<close> and every operation takes it as an argument. Two kinds of lemma
  follow: what each operation reports whatever libpq does, and, under the interface \<open>postgres\<close>
  (the statements of this file behave as the Postgres documentation says on the tables of
  \<^verbatim>\<open>schema.sql\<close>), that the operations implement a small account and session store.
\<close>

section \<open>libpq\<close>

datatype ExecStatusType = PGRES_COMMAND_OK | PGRES_TUPLES_OK | PGRES_FATAL_ERROR

record PGresult =
  res_status :: ExecStatusType
  res_rows :: "string list list"
  res_affected :: string

text \<open>Parameterless \<^verbatim>\<open>PQexec\<close> is \<^verbatim>\<open>PQexecParams\<close> with no parameters.\<close>

record 'w libpq =
  PQconnectdb :: "string \<Rightarrow> 'w \<Rightarrow> 'w"
  PQfinish :: "'w \<Rightarrow> 'w"
  PQreset :: "'w \<Rightarrow> 'w"
  PQstatus_ok :: "'w \<Rightarrow> bool"
  PQerrorMessage :: "'w \<Rightarrow> string"
  PQexecParams :: "string \<Rightarrow> string list \<Rightarrow> 'w \<Rightarrow> PGresult \<times> 'w"

record Account =
  acc_id :: u64
  acc_username :: string
  acc_passwordHash :: string
  acc_permissionLevel :: u8

record Session =
  ses_accountId :: u64
  ses_username :: string
  ses_permissionLevel :: u8

definition empty_account :: Account where
  "empty_account = \<lparr>acc_id = 0, acc_username = [], acc_passwordHash = [], acc_permissionLevel = 0\<rparr>"

definition empty_session :: Session where
  "empty_session = \<lparr>ses_accountId = 0, ses_username = [], ses_permissionLevel = 0\<rparr>"

record Database =
  mConnection :: bool
  mConninfo :: string
  mLastError :: string

definition new_database :: Database where
  "new_database = \<lparr>mConnection = False, mConninfo = [], mLastError = []\<rparr>"

definition toUint64 :: "string \<Rightarrow> u64" where
  "toUint64 text = strtoull text"

text \<open>\<^verbatim>\<open>PQgetvalue\<close> on row 0.\<close>

definition result_value :: "PGresult \<Rightarrow> nat \<Rightarrow> string" where
  "result_value result column = (case res_rows result of
      [] \<Rightarrow> []
    | row # _ \<Rightarrow> if column < length row then row ! column else [])"

section \<open>Connection\<close>

type_synonym 'w db_state = "Database \<times> 'w"

definition disconnect :: "'w libpq \<Rightarrow> 'w db_state \<Rightarrow> 'w db_state" where
  "disconnect lib st = (case st of (d, w) \<Rightarrow>
     if mConnection d then (d\<lparr>mConnection := False\<rparr>, PQfinish lib w) else st)"

definition connect :: "'w libpq \<Rightarrow> string \<Rightarrow> 'w db_state \<Rightarrow> bool \<times> 'w db_state" where
  "connect lib conninfo st = (case disconnect lib st of (d, w) \<Rightarrow>
     (let w' = PQconnectdb lib (c_str conninfo) w;
          d' = d\<lparr>mConninfo := conninfo\<rparr>
      in if \<not> PQstatus_ok lib w'
         then (False, d'\<lparr>mLastError := PQerrorMessage lib w', mConnection := False\<rparr>, PQfinish lib w')
         else (True, d'\<lparr>mConnection := True\<rparr>, w')))"

definition ensureConnected :: "'w libpq \<Rightarrow> 'w db_state \<Rightarrow> bool \<times> 'w db_state" where
  "ensureConnected lib st = (case st of (d, w) \<Rightarrow>
     if mConnection d \<and> PQstatus_ok lib w then (True, st)
     else if mConnection d then
       (let w' = PQreset lib w in
        if PQstatus_ok lib w' then (True, d, w') else connect lib (mConninfo d) (d, w'))
     else connect lib (mConninfo d) st)"

text \<open>The start every operation shares: reconnect if needed, execute one statement, and give up with
  the error text unless the status is the expected one.\<close>

definition db_query :: "'w libpq \<Rightarrow> ExecStatusType \<Rightarrow> string \<Rightarrow> string list \<Rightarrow> 'w db_state \<Rightarrow>
    PGresult option \<times> 'w db_state" where
  "db_query lib expected sql values st = (case ensureConnected lib st of
      (False, st') \<Rightarrow> (None, st')
    | (True, d, w) \<Rightarrow> (case PQexecParams lib sql values w of (result, w') \<Rightarrow>
        if res_status result \<noteq> expected then (None, d\<lparr>mLastError := PQerrorMessage lib w'\<rparr>, w')
        else (Some result, d, w')))"

section \<open>The statements\<close>

definition sql_migrate :: string where
  "sql_migrate = ''ALTER TABLE accounts ADD COLUMN IF NOT EXISTS permission_level SMALLINT NOT NULL DEFAULT 0''"

definition sql_set_level :: string where
  "sql_set_level = ''UPDATE accounts SET permission_level = $1 WHERE lower(username) = lower($2) RETURNING id''"

definition sql_has_admin :: string where
  "sql_has_admin = ''SELECT 1 FROM accounts WHERE permission_level >= 2 LIMIT 1''"

definition sql_find_account :: string where
  "sql_find_account = ''SELECT id, username, password_hash, permission_level FROM accounts WHERE lower(username) = lower($1)''"

definition sql_create_account :: string where
  "sql_create_account = ''INSERT INTO accounts (username, password_hash) VALUES ($1, $2) ON CONFLICT DO NOTHING RETURNING id''"

definition sql_touch_login :: string where
  "sql_touch_login = ''UPDATE accounts SET last_login_at = now() WHERE id = $1''"

definition sql_delete_account :: string where
  "sql_delete_account = ''DELETE FROM accounts WHERE lower(username) = lower($1) RETURNING id''"

definition sql_create_session :: string where
  "sql_create_session = ''INSERT INTO sessions (token, account_id, expires_at) VALUES ($1, $2, now() + ($3 || ' seconds')::interval)''"

definition sql_lookup_session :: string where
  "sql_lookup_session = ''SELECT s.account_id, a.username, a.permission_level FROM sessions s JOIN accounts a ON a.id = s.account_id WHERE s.token = $1 AND s.expires_at > now()''"

definition sql_delete_session :: string where
  "sql_delete_session = ''DELETE FROM sessions WHERE token = $1''"

definition sql_purge_sessions :: string where
  "sql_purge_sessions = ''DELETE FROM sessions WHERE expires_at <= now()''"

section \<open>Operations\<close>

text \<open>Each returns the C++ result, then the output parameters.\<close>

definition migrate :: "'w libpq \<Rightarrow> 'w db_state \<Rightarrow> bool \<times> 'w db_state" where
  "migrate lib st = (case db_query lib PGRES_COMMAND_OK sql_migrate [] st of
      (None, st') \<Rightarrow> (False, st')
    | (Some _, st') \<Rightarrow> (True, st'))"

definition database_setPermissionLevel ::
  "'w libpq \<Rightarrow> string \<Rightarrow> u8 \<Rightarrow> 'w db_state \<Rightarrow> (bool \<times> bool) \<times> 'w db_state" where
  "database_setPermissionLevel lib username level st =
     (case db_query lib PGRES_TUPLES_OK sql_set_level [to_string (unat level), c_str username] st of
        (None, st') \<Rightarrow> ((False, False), st')
      | (Some result, st') \<Rightarrow> ((True, res_rows result \<noteq> []), st'))"

definition hasAdmin :: "'w libpq \<Rightarrow> 'w db_state \<Rightarrow> (bool \<times> bool) \<times> 'w db_state" where
  "hasAdmin lib st = (case db_query lib PGRES_TUPLES_OK sql_has_admin [] st of
      (None, st') \<Rightarrow> ((False, False), st')
    | (Some result, st') \<Rightarrow> ((True, res_rows result \<noteq> []), st'))"

definition findAccount ::
  "'w libpq \<Rightarrow> string \<Rightarrow> Account \<Rightarrow> 'w db_state \<Rightarrow> (bool \<times> bool \<times> Account) \<times> 'w db_state" where
  "findAccount lib username out st =
     (case db_query lib PGRES_TUPLES_OK sql_find_account [c_str username] st of
        (None, st') \<Rightarrow> ((False, False, out), st')
      | (Some result, st') \<Rightarrow>
          if res_rows result = [] then ((True, False, out), st')
          else ((True, True, \<lparr>acc_id = toUint64 (result_value result 0), acc_username = result_value result 1,
                   acc_passwordHash = result_value result 2,
                   acc_permissionLevel = ucast (atoi (result_value result 3))\<rparr>), st'))"

definition database_createAccount ::
  "'w libpq \<Rightarrow> string \<Rightarrow> string \<Rightarrow> u64 \<Rightarrow> 'w db_state \<Rightarrow> (bool \<times> bool \<times> u64) \<times> 'w db_state" where
  "database_createAccount lib username passwordHash accountId st =
     (case db_query lib PGRES_TUPLES_OK sql_create_account [c_str username, c_str passwordHash] st of
        (None, st') \<Rightarrow> ((False, False, accountId), st')
      | (Some result, st') \<Rightarrow>
          if res_rows result = [] then ((True, True, accountId), st')
          else ((True, False, toUint64 (result_value result 0)), st'))"

definition touchLastLogin :: "'w libpq \<Rightarrow> u64 \<Rightarrow> 'w db_state \<Rightarrow> bool \<times> 'w db_state" where
  "touchLastLogin lib accountId st =
     (case db_query lib PGRES_COMMAND_OK sql_touch_login [to_string (unat accountId)] st of
        (None, st') \<Rightarrow> (False, st')
      | (Some _, st') \<Rightarrow> (True, st'))"

definition database_deleteAccount ::
  "'w libpq \<Rightarrow> string \<Rightarrow> 'w db_state \<Rightarrow> (bool \<times> bool) \<times> 'w db_state" where
  "database_deleteAccount lib username st =
     (case db_query lib PGRES_TUPLES_OK sql_delete_account [c_str username] st of
        (None, st') \<Rightarrow> ((False, False), st')
      | (Some result, st') \<Rightarrow> ((True, res_rows result \<noteq> []), st'))"

definition database_createSession ::
  "'w libpq \<Rightarrow> u64 \<Rightarrow> string \<Rightarrow> u32 \<Rightarrow> 'w db_state \<Rightarrow> bool \<times> 'w db_state" where
  "database_createSession lib accountId token ttlSeconds st =
     (case db_query lib PGRES_COMMAND_OK sql_create_session
        [c_str token, to_string (unat accountId), to_string (unat ttlSeconds)] st of
        (None, st') \<Rightarrow> (False, st')
      | (Some _, st') \<Rightarrow> (True, st'))"

definition database_lookupSession ::
  "'w libpq \<Rightarrow> string \<Rightarrow> Session \<Rightarrow> 'w db_state \<Rightarrow> (bool \<times> bool \<times> Session) \<times> 'w db_state" where
  "database_lookupSession lib token out st =
     (case db_query lib PGRES_TUPLES_OK sql_lookup_session [c_str token] st of
        (None, st') \<Rightarrow> ((False, False, out), st')
      | (Some result, st') \<Rightarrow>
          if res_rows result = [] then ((True, False, out), st')
          else ((True, True, \<lparr>ses_accountId = toUint64 (result_value result 0),
                   ses_username = result_value result 1,
                   ses_permissionLevel = ucast (atoi (result_value result 2))\<rparr>), st'))"

definition database_deleteSession :: "'w libpq \<Rightarrow> string \<Rightarrow> 'w db_state \<Rightarrow> bool \<times> 'w db_state" where
  "database_deleteSession lib token st =
     (case db_query lib PGRES_COMMAND_OK sql_delete_session [c_str token] st of
        (None, st') \<Rightarrow> (False, st')
      | (Some _, st') \<Rightarrow> (True, st'))"

definition purgeExpiredSessions ::
  "'w libpq \<Rightarrow> 'w db_state \<Rightarrow> (bool \<times> 32 word) \<times> 'w db_state" where
  "purgeExpiredSessions lib st = (case db_query lib PGRES_COMMAND_OK sql_purge_sessions [] st of
      (None, st') \<Rightarrow> ((False, 0), st')
    | (Some result, st') \<Rightarrow>
        ((True, if res_affected result \<noteq> [] then atoi (res_affected result) else 0), st'))"

section \<open>The tables of schema.sql\<close>

record account_row =
  row_id :: nat
  row_username :: string
  row_hash :: string
  row_level :: nat
  row_last_login :: "int option"

record session_row =
  row_token :: string
  row_account :: nat
  row_expires :: int

record tables =
  accounts :: "account_row list"
  sessions :: "session_row list"
  next_account_id :: nat
  clock :: int

definition lower :: "string \<Rightarrow> string" where
  "lower s = map (\<lambda>c. if 65 \<le> (of_char c :: nat) \<and> (of_char c :: nat) \<le> 90
     then char_of ((of_char c :: nat) + 32) else c) s"

definition named :: "string \<Rightarrow> account_row \<Rightarrow> bool" where
  "named username r \<longleftrightarrow> lower (row_username r) = lower username"

text \<open>Primary keys, the unique index on \<^verbatim>\<open>lower(username)\<close>, the foreign key, the ranges of the
  columns and of the sequence.\<close>

definition tables_ok :: "tables \<Rightarrow> bool" where
  "tables_ok t \<longleftrightarrow>
     distinct (map row_id (accounts t)) \<and>
     distinct (map (\<lambda>r. lower (row_username r)) (accounts t)) \<and>
     distinct (map row_token (sessions t)) \<and>
     list_all (\<lambda>s. row_account s \<in> set (map row_id (accounts t))) (sessions t) \<and>
     list_all (\<lambda>r. 0 < row_id r \<and> row_id r < next_account_id t \<and> row_level r < 256) (accounts t) \<and>
     0 < next_account_id t \<and> next_account_id t \<le> 2 ^ 63"

text \<open>What Postgres does with each statement of this file, per its documentation: parameters travel
  apart from the text, so they are data whatever they contain; \<^verbatim>\<open>ON CONFLICT DO NOTHING\<close>
  returns no row and still uses up a sequence value; deleting an account deletes its sessions;
  a \<^verbatim>\<open>bigint\<close> parameter beyond \<open>2^63 - 1\<close> is an error.\<close>

definition tuples :: "string list list \<Rightarrow> PGresult" where
  "tuples rows = \<lparr>res_status = PGRES_TUPLES_OK, res_rows = rows, res_affected = to_string (length rows)\<rparr>"

definition command :: "nat \<Rightarrow> PGresult" where
  "command n = \<lparr>res_status = PGRES_COMMAND_OK, res_rows = [], res_affected = to_string n\<rparr>"

definition failure :: PGresult where
  "failure = \<lparr>res_status = PGRES_FATAL_ERROR, res_rows = [], res_affected = []\<rparr>"

definition ids_of :: "account_row list \<Rightarrow> string list list" where
  "ids_of rows = map (\<lambda>r. [to_string (row_id r)]) rows"

definition delete_named :: "string \<Rightarrow> tables \<Rightarrow> tables" where
  "delete_named username t =
     (let gone = map row_id (filter (named username) (accounts t)) in
      t\<lparr>accounts := filter (\<lambda>r. \<not> named username r) (accounts t),
        sessions := filter (\<lambda>s. row_account s \<notin> set gone) (sessions t)\<rparr>)"

definition insert_account :: "string \<Rightarrow> string \<Rightarrow> tables \<Rightarrow> PGresult \<times> tables" where
  "insert_account username hash t =
     (if next_account_id t \<ge> 2 ^ 63 then (failure, t)
      else if list_ex (named username) (accounts t)
      then (tuples [], t\<lparr>next_account_id := next_account_id t + 1\<rparr>)
      else (tuples [[to_string (next_account_id t)]],
        t\<lparr>next_account_id := next_account_id t + 1,
          accounts := accounts t @ [\<lparr>row_id = next_account_id t, row_username = username, row_hash = hash,
            row_level = 0, row_last_login = None\<rparr>]\<rparr>))"

definition insert_session :: "string \<Rightarrow> nat \<Rightarrow> nat \<Rightarrow> tables \<Rightarrow> PGresult \<times> tables" where
  "insert_session token account ttl t =
     (if account \<ge> 2 ^ 63 \<or> account \<notin> set (map row_id (accounts t)) \<or> token \<in> set (map row_token (sessions t))
      then (failure, t)
      else (command 1, t\<lparr>sessions := sessions t @
        [\<lparr>row_token = token, row_account = account, row_expires = clock t + int ttl\<rparr>]\<rparr>))"

text \<open>The rows of the join in \<open>sql_lookup_session\<close>.\<close>

definition live_session :: "string \<Rightarrow> tables \<Rightarrow> account_row list" where
  "live_session token t = concat (map (\<lambda>s. filter (\<lambda>a. row_id a = row_account s) (accounts t))
     (filter (\<lambda>s. row_token s = token \<and> row_expires s > clock t) (sessions t)))"

definition set_level :: "string \<Rightarrow> nat \<Rightarrow> tables \<Rightarrow> tables" where
  "set_level username level t =
     t\<lparr>accounts := map (\<lambda>r. if named username r then r\<lparr>row_level := level\<rparr> else r) (accounts t)\<rparr>"

definition touch_login :: "nat \<Rightarrow> tables \<Rightarrow> tables" where
  "touch_login account t =
     t\<lparr>accounts := map (\<lambda>r. if row_id r = account then r\<lparr>row_last_login := Some (clock t)\<rparr> else r) (accounts t)\<rparr>"

definition drop_session :: "string \<Rightarrow> tables \<Rightarrow> tables" where
  "drop_session token t = t\<lparr>sessions := filter (\<lambda>s. row_token s \<noteq> token) (sessions t)\<rparr>"

definition purge :: "tables \<Rightarrow> tables" where
  "purge t = t\<lparr>sessions := filter (\<lambda>s. row_expires s > clock t) (sessions t)\<rparr>"

definition pg_exec :: "string \<Rightarrow> string list \<Rightarrow> tables \<Rightarrow> PGresult \<times> tables" where
  "pg_exec sql ps t =
     (if sql = sql_migrate then (command 0, t)
      else if sql = sql_set_level then
        (tuples (ids_of (filter (named (ps ! 1)) (accounts t))),
         t\<lparr>accounts := map (\<lambda>r. if named (ps ! 1) r then r\<lparr>row_level := parse_digits 0 (ps ! 0)\<rparr> else r) (accounts t)\<rparr>)
      else if sql = sql_has_admin then
        (tuples (take 1 (map (\<lambda>_. [''1'']) (filter (\<lambda>r. row_level r \<ge> 2) (accounts t)))), t)
      else if sql = sql_find_account then
        (tuples (map (\<lambda>r. [to_string (row_id r), row_username r, row_hash r, to_string (row_level r)])
           (filter (named (ps ! 0)) (accounts t))), t)
      else if sql = sql_create_account then insert_account (ps ! 0) (ps ! 1) t
      else if sql = sql_touch_login then
        (if parse_digits 0 (ps ! 0) \<ge> 2 ^ 63 then (failure, t)
         else (command (length (filter (\<lambda>r. row_id r = parse_digits 0 (ps ! 0)) (accounts t))),
           t\<lparr>accounts := map (\<lambda>r. if row_id r = parse_digits 0 (ps ! 0)
               then r\<lparr>row_last_login := Some (clock t)\<rparr> else r) (accounts t)\<rparr>))
      else if sql = sql_delete_account then
        (tuples (ids_of (filter (named (ps ! 0)) (accounts t))), delete_named (ps ! 0) t)
      else if sql = sql_create_session then
        insert_session (ps ! 0) (parse_digits 0 (ps ! 1)) (parse_digits 0 (ps ! 2)) t
      else if sql = sql_lookup_session then
        (tuples (map (\<lambda>a. [to_string (row_id a), row_username a, to_string (row_level a)]) (live_session (ps ! 0) t)), t)
      else if sql = sql_delete_session then
        (command (length (filter (\<lambda>s. row_token s = ps ! 0) (sessions t))),
         t\<lparr>sessions := filter (\<lambda>s. row_token s \<noteq> ps ! 0) (sessions t)\<rparr>)
      else if sql = sql_purge_sessions then
        (command (length (filter (\<lambda>s. row_expires s \<le> clock t) (sessions t))),
         t\<lparr>sessions := filter (\<lambda>s. row_expires s > clock t) (sessions t)\<rparr>)
      else (failure, t))"

lemma sql_distinct [simp]:
  "distinct [sql_migrate, sql_set_level, sql_has_admin, sql_find_account, sql_create_account, sql_touch_login,
     sql_delete_account, sql_create_session, sql_lookup_session, sql_delete_session, sql_purge_sessions]"
  by (simp add: sql_migrate_def sql_set_level_def sql_has_admin_def sql_find_account_def sql_create_account_def
      sql_touch_login_def sql_delete_account_def sql_create_session_def sql_lookup_session_def
      sql_delete_session_def sql_purge_sessions_def)

lemma sql_neqs [simp]:
  "sql_set_level \<noteq> sql_migrate" "sql_has_admin \<noteq> sql_migrate" "sql_find_account \<noteq> sql_migrate"
  "sql_create_account \<noteq> sql_migrate" "sql_touch_login \<noteq> sql_migrate" "sql_delete_account \<noteq> sql_migrate"
  "sql_create_session \<noteq> sql_migrate" "sql_lookup_session \<noteq> sql_migrate" "sql_delete_session \<noteq> sql_migrate"
  "sql_purge_sessions \<noteq> sql_migrate"
  "sql_has_admin \<noteq> sql_set_level" "sql_find_account \<noteq> sql_set_level" "sql_create_account \<noteq> sql_set_level"
  "sql_touch_login \<noteq> sql_set_level" "sql_delete_account \<noteq> sql_set_level" "sql_create_session \<noteq> sql_set_level"
  "sql_lookup_session \<noteq> sql_set_level" "sql_delete_session \<noteq> sql_set_level" "sql_purge_sessions \<noteq> sql_set_level"
  "sql_find_account \<noteq> sql_has_admin" "sql_create_account \<noteq> sql_has_admin" "sql_touch_login \<noteq> sql_has_admin"
  "sql_delete_account \<noteq> sql_has_admin" "sql_create_session \<noteq> sql_has_admin" "sql_lookup_session \<noteq> sql_has_admin"
  "sql_delete_session \<noteq> sql_has_admin" "sql_purge_sessions \<noteq> sql_has_admin"
  "sql_create_account \<noteq> sql_find_account" "sql_touch_login \<noteq> sql_find_account"
  "sql_delete_account \<noteq> sql_find_account" "sql_create_session \<noteq> sql_find_account"
  "sql_lookup_session \<noteq> sql_find_account" "sql_delete_session \<noteq> sql_find_account"
  "sql_purge_sessions \<noteq> sql_find_account"
  "sql_touch_login \<noteq> sql_create_account" "sql_delete_account \<noteq> sql_create_account"
  "sql_create_session \<noteq> sql_create_account" "sql_lookup_session \<noteq> sql_create_account"
  "sql_delete_session \<noteq> sql_create_account" "sql_purge_sessions \<noteq> sql_create_account"
  "sql_delete_account \<noteq> sql_touch_login" "sql_create_session \<noteq> sql_touch_login"
  "sql_lookup_session \<noteq> sql_touch_login" "sql_delete_session \<noteq> sql_touch_login"
  "sql_purge_sessions \<noteq> sql_touch_login"
  "sql_create_session \<noteq> sql_delete_account" "sql_lookup_session \<noteq> sql_delete_account"
  "sql_delete_session \<noteq> sql_delete_account" "sql_purge_sessions \<noteq> sql_delete_account"
  "sql_lookup_session \<noteq> sql_create_session" "sql_delete_session \<noteq> sql_create_session"
  "sql_purge_sessions \<noteq> sql_create_session"
  "sql_delete_session \<noteq> sql_lookup_session" "sql_purge_sessions \<noteq> sql_lookup_session"
  "sql_purge_sessions \<noteq> sql_delete_session"
  using sql_distinct by (auto simp del: sql_distinct)

lemma pg_exec_migrate: "pg_exec sql_migrate ps t = (command 0, t)"
  by (simp add: pg_exec_def)

lemma pg_exec_set_level: "pg_exec sql_set_level [level, username] t =
    (tuples (ids_of (filter (named username) (accounts t))), set_level username (parse_digits 0 level) t)"
  by (simp add: pg_exec_def set_level_def)

lemma pg_exec_has_admin: "pg_exec sql_has_admin ps t =
    (tuples (take 1 (map (\<lambda>_. [''1'']) (filter (\<lambda>r. row_level r \<ge> 2) (accounts t)))), t)"
  by (simp add: pg_exec_def)

lemma pg_exec_find_account: "pg_exec sql_find_account [username] t =
    (tuples (map (\<lambda>r. [to_string (row_id r), row_username r, row_hash r, to_string (row_level r)])
       (filter (named username) (accounts t))), t)"
  by (simp add: pg_exec_def)

lemma pg_exec_create_account: "pg_exec sql_create_account [username, hash] t = insert_account username hash t"
  by (simp add: pg_exec_def)

lemma pg_exec_touch_login: "pg_exec sql_touch_login [account] t =
    (if parse_digits 0 account \<ge> 2 ^ 63 then (failure, t)
     else (command (length (filter (\<lambda>r. row_id r = parse_digits 0 account) (accounts t))),
       touch_login (parse_digits 0 account) t))"
  by (simp add: pg_exec_def touch_login_def)

lemma pg_exec_delete_account: "pg_exec sql_delete_account [username] t =
    (tuples (ids_of (filter (named username) (accounts t))), delete_named username t)"
  by (simp add: pg_exec_def)

lemma pg_exec_create_session: "pg_exec sql_create_session [token, account, ttl] t =
    insert_session token (parse_digits 0 account) (parse_digits 0 ttl) t"
  by (simp add: pg_exec_def)

lemma pg_exec_lookup_session: "pg_exec sql_lookup_session [token] t =
    (tuples (map (\<lambda>a. [to_string (row_id a), row_username a, to_string (row_level a)]) (live_session token t)), t)"
  by (simp add: pg_exec_def)

lemma pg_exec_delete_session: "pg_exec sql_delete_session [token] t =
    (command (length (filter (\<lambda>s. row_token s = token) (sessions t))), drop_session token t)"
  by (simp add: pg_exec_def drop_session_def)

lemma pg_exec_purge_sessions: "pg_exec sql_purge_sessions ps t =
    (command (length (filter (\<lambda>s. row_expires s \<le> clock t) (sessions t))), purge t)"
  by (simp add: pg_exec_def purge_def)

text \<open>How a row reads in the program's types.\<close>

definition account_of :: "account_row \<Rightarrow> Account" where
  "account_of r = \<lparr>acc_id = word_of_nat (row_id r), acc_username = row_username r, acc_passwordHash = row_hash r,
     acc_permissionLevel = word_of_nat (row_level r)\<rparr>"

definition session_of :: "account_row \<Rightarrow> Session" where
  "session_of r = \<lparr>ses_accountId = word_of_nat (row_id r), ses_username = row_username r,
     ses_permissionLevel = word_of_nat (row_level r)\<rparr>"

definition find_named :: "string \<Rightarrow> tables \<Rightarrow> account_row option" where
  "find_named username t = List.find (named username) (accounts t)"

definition find_session :: "string \<Rightarrow> tables \<Rightarrow> account_row option" where
  "find_session token t = (case live_session token t of [] \<Rightarrow> None | r # _ \<Rightarrow> Some r)"

lemma find_filter: "List.find P xs = (case filter P xs of [] \<Rightarrow> None | x # _ \<Rightarrow> Some x)"
  by (induction xs) simp_all

lemma find_NoneD: "List.find P xs = None \<Longrightarrow> filter P xs = []"
  by (simp add: find_filter split: list.splits)

lemma find_SomeD: "List.find P xs = Some x \<Longrightarrow> \<exists>ys. filter P xs = x # ys"
  by (simp add: find_filter split: list.splits)

lemma row_in_filter: "filter P xs = x # ys \<Longrightarrow> x \<in> set xs \<and> P x"
  by (metis filter_is_subset filter_set list.set_intros(1) mem_Collect_eq Set.filter_eq subsetD)

lemma row_bounds:
  assumes "tables_ok t" and "r \<in> set (accounts t)"
  shows "row_id r < 2 ^ 63" and "row_level r < 256"
  using assms by (fastforce simp: tables_ok_def list_all_iff)+

lemma ucast_level: "n < 256 \<Longrightarrow> (ucast (word_of_nat n :: 32 word) :: u8) = word_of_nat n"
  by (rule word_unat_eq_iff [THEN iffD2]) (simp add: unat_of_nat unsigned_ucast_eq take_bit_eq_mod)

lemma row_text:
  assumes "tables_ok t" and "r \<in> set (accounts t)"
  shows "toUint64 (to_string (row_id r)) = word_of_nat (row_id r)"
    and "(ucast (atoi (to_string (row_level r))) :: u8) = word_of_nat (row_level r)"
  using row_bounds [OF assms] by (simp_all add: toUint64_def strtoull_to_string atoi_to_string ucast_level)

lemma live_session_row: "r \<in> set (live_session token t) \<Longrightarrow> r \<in> set (accounts t)"
  by (auto simp: live_session_def)

text \<open>Every operation's result is read off its one query, and its state is the query's.\<close>

lemma fst_operations:
  "fst (database_setPermissionLevel lib username level st) =
     (case fst (db_query lib PGRES_TUPLES_OK sql_set_level [to_string (unat level), c_str username] st) of
        None \<Rightarrow> (False, False) | Some result \<Rightarrow> (True, res_rows result \<noteq> []))"
  "fst (hasAdmin lib st) = (case fst (db_query lib PGRES_TUPLES_OK sql_has_admin [] st) of
        None \<Rightarrow> (False, False) | Some result \<Rightarrow> (True, res_rows result \<noteq> []))"
  "fst (findAccount lib username a st) =
     (case fst (db_query lib PGRES_TUPLES_OK sql_find_account [c_str username] st) of
        None \<Rightarrow> (False, False, a)
      | Some result \<Rightarrow> if res_rows result = [] then (True, False, a)
          else (True, True, \<lparr>acc_id = toUint64 (result_value result 0), acc_username = result_value result 1,
                   acc_passwordHash = result_value result 2,
                   acc_permissionLevel = ucast (atoi (result_value result 3))\<rparr>))"
  "fst (database_createAccount lib username passwordHash accountId st) =
     (case fst (db_query lib PGRES_TUPLES_OK sql_create_account [c_str username, c_str passwordHash] st) of
        None \<Rightarrow> (False, False, accountId)
      | Some result \<Rightarrow> if res_rows result = [] then (True, True, accountId)
          else (True, False, toUint64 (result_value result 0)))"
  "fst (touchLastLogin lib accountId st) =
     (fst (db_query lib PGRES_COMMAND_OK sql_touch_login [to_string (unat accountId)] st) \<noteq> None)"
  "fst (database_deleteAccount lib username st) =
     (case fst (db_query lib PGRES_TUPLES_OK sql_delete_account [c_str username] st) of
        None \<Rightarrow> (False, False) | Some result \<Rightarrow> (True, res_rows result \<noteq> []))"
  "fst (database_createSession lib accountId token ttl st) = (fst (db_query lib PGRES_COMMAND_OK sql_create_session
        [c_str token, to_string (unat accountId), to_string (unat ttl)] st) \<noteq> None)"
  "fst (database_lookupSession lib token s st) =
     (case fst (db_query lib PGRES_TUPLES_OK sql_lookup_session [c_str token] st) of
        None \<Rightarrow> (False, False, s)
      | Some result \<Rightarrow> if res_rows result = [] then (True, False, s)
          else (True, True, \<lparr>ses_accountId = toUint64 (result_value result 0), ses_username = result_value result 1,
                   ses_permissionLevel = ucast (atoi (result_value result 2))\<rparr>))"
  "fst (database_deleteSession lib token st) =
     (fst (db_query lib PGRES_COMMAND_OK sql_delete_session [c_str token] st) \<noteq> None)"
  "fst (fst (purgeExpiredSessions lib st)) =
     (fst (db_query lib PGRES_COMMAND_OK sql_purge_sessions [] st) \<noteq> None)"
  by (auto simp: database_setPermissionLevel_def hasAdmin_def findAccount_def database_createAccount_def
      touchLastLogin_def database_deleteAccount_def database_createSession_def database_lookupSession_def
      database_deleteSession_def purgeExpiredSessions_def split: prod.splits option.splits)

lemma snd_operations:
  "snd (database_setPermissionLevel lib username level st) =
     snd (db_query lib PGRES_TUPLES_OK sql_set_level [to_string (unat level), c_str username] st)"
  "snd (hasAdmin lib st) = snd (db_query lib PGRES_TUPLES_OK sql_has_admin [] st)"
  "snd (findAccount lib username a st) = snd (db_query lib PGRES_TUPLES_OK sql_find_account [c_str username] st)"
  "snd (database_createAccount lib username passwordHash accountId st) =
     snd (db_query lib PGRES_TUPLES_OK sql_create_account [c_str username, c_str passwordHash] st)"
  "snd (touchLastLogin lib accountId st) =
     snd (db_query lib PGRES_COMMAND_OK sql_touch_login [to_string (unat accountId)] st)"
  "snd (database_deleteAccount lib username st) =
     snd (db_query lib PGRES_TUPLES_OK sql_delete_account [c_str username] st)"
  "snd (database_createSession lib accountId token ttl st) = snd (db_query lib PGRES_COMMAND_OK sql_create_session
        [c_str token, to_string (unat accountId), to_string (unat ttl)] st)"
  "snd (database_lookupSession lib token s st) =
     snd (db_query lib PGRES_TUPLES_OK sql_lookup_session [c_str token] st)"
  "snd (database_deleteSession lib token st) =
     snd (db_query lib PGRES_COMMAND_OK sql_delete_session [c_str token] st)"
  "snd (purgeExpiredSessions lib st) = snd (db_query lib PGRES_COMMAND_OK sql_purge_sessions [] st)"
  by (auto simp: database_setPermissionLevel_def hasAdmin_def findAccount_def database_createAccount_def
      touchLastLogin_def database_deleteAccount_def database_createSession_def database_lookupSession_def
      database_deleteSession_def purgeExpiredSessions_def split: prod.splits option.splits)

section \<open>The Postgres interface\<close>

text \<open>Text Postgres accepts in any encoding of the client: plain ASCII without NUL.\<close>

definition ascii_text :: "string \<Rightarrow> bool" where
  "ascii_text s \<longleftrightarrow> list_all (\<lambda>c. 0 < (of_char c :: nat) \<and> (of_char c :: nat) < 128) s"

lemma ascii_to_string: "ascii_text (to_string n)"
  using all_digits_to_string [of n] by (auto simp: ascii_text_def isdigit_def list_all_iff)

locale postgres =
  fixes lib :: "'w libpq"
    and store :: "'w \<Rightarrow> tables"
  assumes exec: "PQstatus_ok lib w \<Longrightarrow> list_all ascii_text ps \<Longrightarrow> PQexecParams lib sql ps w = (res, w') \<Longrightarrow>
      (res, store w') = pg_exec sql ps (store w) \<and> PQstatus_ok lib w'"
begin

definition live :: "'w db_state \<Rightarrow> bool" where
  "live st \<longleftrightarrow> mConnection (fst st) \<and> PQstatus_ok lib (snd st)"

lemma query:
  assumes "live st" and "list_all ascii_text ps" and "pg_exec sql ps (store (snd st)) = (res, t')"
  shows "fst (db_query lib expected sql ps st) = (if res_status res = expected then Some res else None)"
    and "live (snd (db_query lib expected sql ps st))"
    and "store (snd (snd (db_query lib expected sql ps st))) = t'"
proof -
  obtain d w where st: "st = (d, w)" by fastforce
  obtain res' w' where e: "PQexecParams lib sql ps w = (res', w')" by fastforce
  then have "res' = res" "store w' = t'" "PQstatus_ok lib w'"
    using exec [OF _ assms(2) e] assms(1,3) st by (auto simp: live_def)
  then show "fst (db_query lib expected sql ps st) = (if res_status res = expected then Some res else None)"
    and "live (snd (db_query lib expected sql ps st))"
    and "store (snd (snd (db_query lib expected sql ps st))) = t'"
    using assms(1) e st by (auto simp: db_query_def ensureConnected_def live_def)
qed

lemma findAccount_store:
  assumes "live st" and "tables_ok (store (snd st))" and "ascii_text (c_str username)"
  shows "fst (findAccount lib username out st) = (case find_named (c_str username) (store (snd st)) of
      None \<Rightarrow> (True, False, out) | Some r \<Rightarrow> (True, True, account_of r))"
    and "live (snd (findAccount lib username out st))"
    and "store (snd (snd (findAccount lib username out st))) = store (snd st)"
proof -
  have ps: "list_all ascii_text [c_str username]" using assms(3) by simp
  note q = query [OF assms(1) ps pg_exec_find_account, of PGRES_TUPLES_OK]
  show "live (snd (findAccount lib username out st))"
    and "store (snd (snd (findAccount lib username out st))) = store (snd st)"
    using q by (simp_all add: snd_operations)
  show "fst (findAccount lib username out st) = (case find_named (c_str username) (store (snd st)) of
      None \<Rightarrow> (True, False, out) | Some r \<Rightarrow> (True, True, account_of r))"
  proof (cases "filter (named (c_str username)) (accounts (store (snd st)))")
    case Nil
    then show ?thesis using q(1) by (simp add: fst_operations tuples_def find_named_def find_filter)
  next
    case (Cons r rs)
    with row_text [OF assms(2), of r] row_in_filter [OF Cons] q(1) show ?thesis
      by (simp add: fst_operations tuples_def find_named_def find_filter result_value_def account_of_def
          numeral_eq_Suc)
  qed
qed

lemma lookupSession_store:
  assumes "live st" and "tables_ok (store (snd st))" and "ascii_text (c_str token)"
  shows "fst (database_lookupSession lib token out st) = (case find_session (c_str token) (store (snd st)) of
      None \<Rightarrow> (True, False, out) | Some r \<Rightarrow> (True, True, session_of r))"
    and "live (snd (database_lookupSession lib token out st))"
    and "store (snd (snd (database_lookupSession lib token out st))) = store (snd st)"
proof -
  have ps: "list_all ascii_text [c_str token]" using assms(3) by simp
  note q = query [OF assms(1) ps pg_exec_lookup_session, of PGRES_TUPLES_OK]
  show "live (snd (database_lookupSession lib token out st))"
    and "store (snd (snd (database_lookupSession lib token out st))) = store (snd st)"
    using q by (simp_all add: snd_operations)
  show "fst (database_lookupSession lib token out st) = (case find_session (c_str token) (store (snd st)) of
      None \<Rightarrow> (True, False, out) | Some r \<Rightarrow> (True, True, session_of r))"
  proof (cases "live_session (c_str token) (store (snd st))")
    case Nil
    then show ?thesis using q(1) by (simp add: fst_operations tuples_def find_session_def)
  next
    case (Cons r rs)
    then have "r \<in> set (accounts (store (snd st)))" using live_session_row [of r "c_str token" "store (snd st)"] by simp
    with row_text [OF assms(2) this] Cons q(1) show ?thesis
      by (simp add: fst_operations tuples_def find_session_def result_value_def session_of_def numeral_eq_Suc)
  qed
qed

lemma createAccount_store:
  assumes "live st" and "ascii_text (c_str username)" and "ascii_text (c_str hash)"
  shows "fst (database_createAccount lib username hash out st) =
      (if next_account_id (store (snd st)) \<ge> 2 ^ 63 then (False, False, out)
       else if find_named (c_str username) (store (snd st)) \<noteq> None then (True, True, out)
       else (True, False, word_of_nat (next_account_id (store (snd st)))))"
    and "live (snd (database_createAccount lib username hash out st))"
    and "store (snd (snd (database_createAccount lib username hash out st))) =
      snd (insert_account (c_str username) (c_str hash) (store (snd st)))"
proof -
  let ?t = "store (snd st)"
  have ps: "list_all ascii_text [c_str username, c_str hash]" using assms(2,3) by simp
  note q = query [OF assms(1) ps trans [OF pg_exec_create_account prod.collapse [symmetric]], of PGRES_TUPLES_OK]
  have "list_ex (named (c_str username)) (accounts ?t) \<longleftrightarrow> find_named (c_str username) ?t \<noteq> None"
    by (auto simp: find_named_def find_None_iff list_ex_iff)
  with q(1) show "fst (database_createAccount lib username hash out st) =
      (if next_account_id ?t \<ge> 2 ^ 63 then (False, False, out)
       else if find_named (c_str username) ?t \<noteq> None then (True, True, out)
       else (True, False, word_of_nat (next_account_id ?t)))"
    by (auto simp: fst_operations insert_account_def tuples_def failure_def result_value_def toUint64_def
        strtoull_to_string)
  show "live (snd (database_createAccount lib username hash out st))"
    and "store (snd (snd (database_createAccount lib username hash out st))) =
      snd (insert_account (c_str username) (c_str hash) ?t)"
    using q by (simp_all add: snd_operations)
qed

lemma filter_named: "filter (named u) (accounts t) = [] \<longleftrightarrow> find_named u t = None"
  by (simp add: find_named_def find_filter split: list.splits)

lemma setPermissionLevel_store:
  assumes "live st" and "ascii_text (c_str username)"
  shows "fst (database_setPermissionLevel lib username level st) =
      (True, find_named (c_str username) (store (snd st)) \<noteq> None)"
    and "live (snd (database_setPermissionLevel lib username level st))"
    and "store (snd (snd (database_setPermissionLevel lib username level st))) =
      set_level (c_str username) (unat level) (store (snd st))"
proof -
  have "list_all ascii_text [to_string (unat level), c_str username]"
    using assms(2) by (simp add: ascii_to_string)
  note query [OF assms(1) this pg_exec_set_level, of PGRES_TUPLES_OK]
  then show "fst (database_setPermissionLevel lib username level st) =
      (True, find_named (c_str username) (store (snd st)) \<noteq> None)"
    and "live (snd (database_setPermissionLevel lib username level st))"
    and "store (snd (snd (database_setPermissionLevel lib username level st))) =
      set_level (c_str username) (unat level) (store (snd st))"
    by (simp_all add: fst_operations snd_operations tuples_def ids_of_def parse_to_string filter_named)
qed

lemma hasAdmin_store:
  assumes "live st"
  shows "fst (hasAdmin lib st) = (True, list_ex (\<lambda>r. row_level r \<ge> 2) (accounts (store (snd st))))"
    and "live (snd (hasAdmin lib st))" and "store (snd (snd (hasAdmin lib st))) = store (snd st)"
proof -
  have "take 1 (map (\<lambda>_. [''1'']) (filter P xs)) \<noteq> [] \<longleftrightarrow> list_ex P xs" for P :: "account_row \<Rightarrow> bool" and xs
    by (auto simp: list_ex_iff filter_empty_conv)
  with query [OF assms _ pg_exec_has_admin, of "[]" PGRES_TUPLES_OK]
  show "fst (hasAdmin lib st) = (True, list_ex (\<lambda>r. row_level r \<ge> 2) (accounts (store (snd st))))"
    and "live (snd (hasAdmin lib st))" and "store (snd (snd (hasAdmin lib st))) = store (snd st)"
    by (simp_all add: fst_operations snd_operations tuples_def)
qed

lemma deleteAccount_store:
  assumes "live st" and "ascii_text (c_str username)"
  shows "fst (database_deleteAccount lib username st) = (True, find_named (c_str username) (store (snd st)) \<noteq> None)"
    and "live (snd (database_deleteAccount lib username st))"
    and "store (snd (snd (database_deleteAccount lib username st))) = delete_named (c_str username) (store (snd st))"
proof -
  have "list_all ascii_text [c_str username]" using assms(2) by simp
  note query [OF assms(1) this pg_exec_delete_account, of PGRES_TUPLES_OK]
  then show "fst (database_deleteAccount lib username st) = (True, find_named (c_str username) (store (snd st)) \<noteq> None)"
    and "live (snd (database_deleteAccount lib username st))"
    and "store (snd (snd (database_deleteAccount lib username st))) = delete_named (c_str username) (store (snd st))"
    by (simp_all add: fst_operations snd_operations tuples_def ids_of_def filter_named)
qed

lemma createSession_store:
  assumes "live st" and "ascii_text (c_str token)"
  shows "fst (database_createSession lib accountId token ttl st) =
      (res_status (fst (insert_session (c_str token) (unat accountId) (unat ttl) (store (snd st)))) = PGRES_COMMAND_OK)"
    and "live (snd (database_createSession lib accountId token ttl st))"
    and "store (snd (snd (database_createSession lib accountId token ttl st))) =
      snd (insert_session (c_str token) (unat accountId) (unat ttl) (store (snd st)))"
proof -
  let ?i = "insert_session (c_str token) (unat accountId) (unat ttl) (store (snd st))"
  have e: "pg_exec sql_create_session [c_str token, to_string (unat accountId), to_string (unat ttl)] (store (snd st)) =
      (fst ?i, snd ?i)"
    by (simp add: pg_exec_create_session parse_to_string)
  have "list_all ascii_text [c_str token, to_string (unat accountId), to_string (unat ttl)]"
    using assms(2) by (simp add: ascii_to_string)
  note query [OF assms(1) this e, of PGRES_COMMAND_OK]
  then show "fst (database_createSession lib accountId token ttl st) = (res_status (fst ?i) = PGRES_COMMAND_OK)"
    and "live (snd (database_createSession lib accountId token ttl st))"
    and "store (snd (snd (database_createSession lib accountId token ttl st))) = snd ?i"
    by (simp_all add: fst_operations snd_operations)
qed

lemma touchLastLogin_store:
  assumes "live st" and "unat accountId < 2 ^ 63"
  shows "fst (touchLastLogin lib accountId st)"
    and "live (snd (touchLastLogin lib accountId st))"
    and "store (snd (snd (touchLastLogin lib accountId st))) = touch_login (unat accountId) (store (snd st))"
proof -
  have ps: "list_all ascii_text [to_string (unat accountId)]" by (simp add: ascii_to_string)
  have e: "pg_exec sql_touch_login [to_string (unat accountId)] (store (snd st)) =
      (command (length (filter (\<lambda>r. row_id r = unat accountId) (accounts (store (snd st))))),
       touch_login (unat accountId) (store (snd st)))"
    using assms(2) by (simp add: pg_exec_touch_login parse_to_string)
  note query [OF assms(1) ps e, of PGRES_COMMAND_OK]
  then show "fst (touchLastLogin lib accountId st)"
    and "live (snd (touchLastLogin lib accountId st))"
    and "store (snd (snd (touchLastLogin lib accountId st))) = touch_login (unat accountId) (store (snd st))"
    by (simp_all add: fst_operations snd_operations command_def)
qed

lemma deleteSession_store:
  assumes "live st" and "ascii_text (c_str token)"
  shows "fst (database_deleteSession lib token st)"
    and "live (snd (database_deleteSession lib token st))"
    and "store (snd (snd (database_deleteSession lib token st))) = drop_session (c_str token) (store (snd st))"
proof -
  have "list_all ascii_text [c_str token]" using assms(2) by simp
  note query [OF assms(1) this pg_exec_delete_session, of PGRES_COMMAND_OK]
  then show "fst (database_deleteSession lib token st)"
    and "live (snd (database_deleteSession lib token st))"
    and "store (snd (snd (database_deleteSession lib token st))) = drop_session (c_str token) (store (snd st))"
    by (simp_all add: fst_operations snd_operations command_def)
qed

lemma purge_store:
  assumes "live st"
  shows "fst (fst (purgeExpiredSessions lib st))"
    and "live (snd (purgeExpiredSessions lib st))"
    and "store (snd (snd (purgeExpiredSessions lib st))) = purge (store (snd st))"
  using query [OF assms _ pg_exec_purge_sessions, of "[]" PGRES_COMMAND_OK]
  by (simp_all add: fst_operations snd_operations command_def)

end

text \<open>A server that is always up meets the interface.\<close>

definition pg_reference :: "tables libpq" where
  "pg_reference = \<lparr>PQconnectdb = (\<lambda>_ t. t), PQfinish = (\<lambda>t. t), PQreset = (\<lambda>t. t), PQstatus_ok = (\<lambda>_. True),
     PQerrorMessage = (\<lambda>_. []), PQexecParams = pg_exec\<rparr>"

interpretation pg: postgres pg_reference "\<lambda>t. t"
  by unfold_locales (auto simp: pg_reference_def)

section \<open>The tables stay well formed\<close>

lemma map_row_id_level [simp]:
  "map row_id (map (\<lambda>r. if P r then r\<lparr>row_level := n\<rparr> else r) rs) = map row_id rs"
  "map row_id (map (\<lambda>r. if P r then r\<lparr>row_last_login := x\<rparr> else r) rs) = map row_id rs"
  by (induction rs) simp_all

lemma map_row_name_level [simp]:
  "map (\<lambda>r. lower (row_username r)) (map (\<lambda>r. if P r then r\<lparr>row_level := n\<rparr> else r) rs) = map (\<lambda>r. lower (row_username r)) rs"
  "map (\<lambda>r. lower (row_username r)) (map (\<lambda>r. if P r then r\<lparr>row_last_login := x\<rparr> else r) rs) = map (\<lambda>r. lower (row_username r)) rs"
  by (induction rs) simp_all

lemma tables_ok_set_level:
  assumes "tables_ok t" and "level < 256"
  shows "tables_ok (set_level username level t)"
  using assms unfolding tables_ok_def set_level_def
  by (auto simp del: map_map simp: list_all_iff)

lemma tables_ok_touch:
  assumes "tables_ok t"
  shows "tables_ok (touch_login account t)"
  using assms unfolding tables_ok_def touch_login_def
  by (auto simp del: map_map simp: list_all_iff)

lemma tables_ok_insert_account:
  assumes "tables_ok t"
  shows "tables_ok (snd (insert_account username hash t))"
  using assms
  by (auto simp: insert_account_def tables_ok_def list_all_iff list_ex_iff named_def less_Suc_eq)

lemma tables_ok_insert_session:
  assumes "tables_ok t"
  shows "tables_ok (snd (insert_session token account ttl t))"
  using assms by (auto simp: insert_session_def tables_ok_def)

lemma tables_ok_delete:
  assumes "tables_ok t"
  shows "tables_ok (delete_named username t)"
proof -
  have "row_account s \<in> set (map row_id (filter (\<lambda>r. \<not> named username r) (accounts t)))"
    if "s \<in> set (sessions t)" and "row_account s \<notin> set (map row_id (filter (named username) (accounts t)))" for s
    using assms that by (fastforce simp: tables_ok_def list_all_iff)
  with assms show ?thesis
    by (simp add: delete_named_def tables_ok_def Let_def list_all_iff distinct_map_filter)
qed

lemma tables_ok_drop_sessions:
  assumes "tables_ok t"
  shows "tables_ok (drop_session token t)" and "tables_ok (purge t)"
  using assms by (auto simp: drop_session_def purge_def tables_ok_def list_all_iff distinct_map_filter)

end
