(* ===== verification/Framing.thy ===== *)
theory Framing
  imports ByteStream
begin

text \<open>
  \<^verbatim>\<open>common/net/src/framing.cpp\<close> (class \<open>MessageStream\<close>) over the non-blocking
  \<open>TcpSocket\<close> of \<^verbatim>\<open>common/net/src/socket.cpp\<close>. The kernel is outside the program: what
  \<^verbatim>\<open>recv\<close> and \<^verbatim>\<open>send\<close> will answer is part of the socket's state, as the list of its
  coming answers (a list that has run out answers \<open>EWOULDBLOCK\<close>), and the bytes the kernel
  took are recorded. So every schedule of partial reads and writes is some initial state.
  The lemmas show that no byte is lost, duplicated or reordered on the way out, that a
  receiver recovers the messages however the stream is cut, and what \<open>next\<close> refuses.
\<close>

section \<open>Non-blocking TCP sockets\<close>

datatype errno = EWOULDBLOCK | EAGAIN | EINPROGRESS | ECONNREFUSED | EOTHER

definition wouldBlock :: "errno \<Rightarrow> bool" where
  "wouldBlock error \<longleftrightarrow> error = EWOULDBLOCK \<or> error = EAGAIN"

datatype 'a syscall = Ret 'a | Err errno

record TcpSocket =
  sock_recvs :: "bytes syscall list"
  sock_sends :: "nat syscall list"
  sock_sent :: bytes

text \<open>\<^verbatim>\<open>::recv\<close>: at most \<open>sz\<close> bytes of what has arrived; the rest stays for the next call.
  No bytes at all is the peer's orderly shutdown.\<close>

definition sys_recv :: "nat \<Rightarrow> TcpSocket \<Rightarrow> bytes syscall \<times> TcpSocket" where
  "sys_recv sz s = (case sock_recvs s of
      [] \<Rightarrow> (Err EWOULDBLOCK, s)
    | Err e # as \<Rightarrow> (Err e, s\<lparr>sock_recvs := as\<rparr>)
    | Ret bs # as \<Rightarrow>
        if length bs \<le> sz then (Ret bs, s\<lparr>sock_recvs := as\<rparr>)
        else (Ret (take sz bs), s\<lparr>sock_recvs := Ret (drop sz bs) # as\<rparr>))"

text \<open>\<^verbatim>\<open>::send\<close>: the kernel accepts a prefix of what it is offered.\<close>

definition sys_send :: "bytes \<Rightarrow> TcpSocket \<Rightarrow> nat syscall \<times> TcpSocket" where
  "sys_send data s = (case sock_sends s of
      [] \<Rightarrow> (Err EWOULDBLOCK, s)
    | Err e # as \<Rightarrow> (Err e, s\<lparr>sock_sends := as\<rparr>)
    | Ret n # as \<Rightarrow> (Ret (min n (length data)),
        s\<lparr>sock_sends := as, sock_sent := sock_sent s @ take n data\<rparr>))"

text \<open>\<open>TcpSocket::receive\<close> and \<open>TcpSocket::send\<close>: the result, the bytes, the socket.\<close>

definition tcp_receive :: "nat \<Rightarrow> TcpSocket \<Rightarrow> bool \<times> bytes \<times> TcpSocket" where
  "tcp_receive sz s = (case sys_recv sz s of
      (Ret bs, s') \<Rightarrow> if bs \<noteq> [] then (True, bs, s') else (False, [], s')
    | (Err e, s') \<Rightarrow> (wouldBlock e, [], s'))"

definition tcp_send :: "bytes \<Rightarrow> TcpSocket \<Rightarrow> bool \<times> nat \<times> TcpSocket" where
  "tcp_send data s = (case sys_send data s of
      (Ret n, s') \<Rightarrow> (True, n, s')
    | (Err e, s') \<Rightarrow> (wouldBlock e, 0, s'))"

section \<open>MessageStream\<close>

record Message =
  msg_type :: u16
  msg_payload :: bytes

record MessageStream =
  mSocket :: TcpSocket
  mReadBuffer :: bytes
  mWriteBuffer :: bytes
  mWriteOffset :: nat

definition message_stream :: "TcpSocket \<Rightarrow> MessageStream" where
  "message_stream socket =
     \<lparr>mSocket = socket, mReadBuffer = [], mWriteBuffer = [], mWriteOffset = 0\<rparr>"

definition kHeaderSize :: nat where
  "kHeaderSize = 4 + 2"

definition kMaxPayloadSize :: u32 where
  "kMaxPayloadSize = push_bit 20 1"

definition readU32 :: "bytes \<Rightarrow> u32" where
  "readU32 data = ucast (data ! 0) OR push_bit 8 (ucast (data ! 1))
     OR push_bit 16 (ucast (data ! 2)) OR push_bit 24 (ucast (data ! 3))"

definition readU16 :: "bytes \<Rightarrow> u16" where
  "readU16 data = ucast (data ! 0) OR push_bit 8 (ucast (data ! 1))"

definition hasPendingWrites :: "MessageStream \<Rightarrow> bool" where
  "hasPendingWrites s \<longleftrightarrow> mWriteOffset s < length (mWriteBuffer s)"

fun recv_work :: "bytes syscall list \<Rightarrow> nat" where
  "recv_work [] = 0"
| "recv_work (Ret bs # as) = Suc (length bs) + recv_work as"
| "recv_work (Err e # as) = Suc (recv_work as)"

lemma tcp_receive_work:
  assumes "tcp_receive sz s = (ok, bs, s')" and "bs \<noteq> []" and "0 < sz"
  shows "recv_work (sock_recvs s') < recv_work (sock_recvs s)"
  using assms
  by (auto simp: tcp_receive_def sys_recv_def split: list.splits syscall.splits if_splits)

text \<open>\<open>pump\<close> drains the socket into the receive buffer; the loop ends because every pass
  takes something the kernel had to offer.\<close>

function pump :: "MessageStream \<Rightarrow> bool \<times> MessageStream" where
  "pump s = (case tcp_receive 4096 (mSocket s) of (ok, received, socket) \<Rightarrow>
     if \<not> ok then (False, s\<lparr>mSocket := socket\<rparr>)
     else if received = [] then (True, s\<lparr>mSocket := socket\<rparr>)
     else
       (let buffer = mReadBuffer s @ received;
            s' = s\<lparr>mSocket := socket, mReadBuffer := buffer\<rparr>
        in if length buffer \<ge> kHeaderSize \<and> readU32 buffer > kMaxPayloadSize
           then (False, s') else pump s'))"
  by pat_completeness auto
termination
  by (relation "measure (\<lambda>s. recv_work (sock_recvs (mSocket s)))")
    (auto intro: tcp_receive_work [OF sym])

declare pump.simps [simp del]

definition next_message :: "MessageStream \<Rightarrow> Message option \<times> MessageStream" where
  "next_message s =
     (let buffer = mReadBuffer s in
      if length buffer < kHeaderSize then (None, s)
      else
        (let payloadSize = readU32 buffer in
         if payloadSize > kMaxPayloadSize then (None, s)
         else if length buffer < kHeaderSize + unat payloadSize then (None, s)
         else (Some \<lparr>msg_type = readU16 (drop 4 buffer),
                     msg_payload = take (unat payloadSize) (drop kHeaderSize buffer)\<rparr>,
               s\<lparr>mReadBuffer := drop (kHeaderSize + unat payloadSize) buffer\<rparr>)))"

function flush :: "MessageStream \<Rightarrow> bool \<times> MessageStream" where
  "flush s =
     (if mWriteOffset s < length (mWriteBuffer s) then
        (case tcp_send (drop (mWriteOffset s) (mWriteBuffer s)) (mSocket s) of (ok, sent, socket) \<Rightarrow>
           if \<not> ok then (False, s\<lparr>mSocket := socket\<rparr>)
           else if sent = 0 then (True, s\<lparr>mSocket := socket\<rparr>)
           else flush (s\<lparr>mSocket := socket, mWriteOffset := mWriteOffset s + sent\<rparr>))
      else (True, s\<lparr>mWriteBuffer := [], mWriteOffset := 0\<rparr>))"
  by pat_completeness auto
termination
  by (relation "measure (\<lambda>s. length (sock_sends (mSocket s)))")
    (auto simp: tcp_send_def sys_send_def split: list.splits syscall.splits)

declare flush.simps [simp del]

text \<open>\<open>send\<close> queues the frame and ignores what \<open>flush\<close> reports, as the source does.\<close>

definition send :: "u16 \<Rightarrow> bytes \<Rightarrow> MessageStream \<Rightarrow> MessageStream" where
  "send ty payload s =
     snd (flush (s\<lparr>mWriteBuffer :=
       (let buffer = writer_u16 ty (writer_u32 (word_of_nat (length payload)) (mWriteBuffer s))
        in if payload \<noteq> [] then writer_raw payload buffer else buffer)\<rparr>))"

section \<open>Frames\<close>

text \<open>A message on the wire: payload size, type, payload.\<close>

definition frame :: "Message \<Rightarrow> bytes" where
  "frame m = writer_u32 (word_of_nat (length (msg_payload m))) [] @ writer_u16 (msg_type m) [] @
     msg_payload m"

definition message_fits :: "Message \<Rightarrow> bool" where
  "message_fits m \<longleftrightarrow> length (msg_payload m) \<le> 2 ^ 20"

lemma little_join_prefix:
  fixes v :: "'a::len word"
  assumes "LENGTH('a) \<le> 8 * n" and "take n data = little_bytes n v" and "n \<le> length data"
  shows "little_join n ((!) data) = v"
proof -
  have "little_join n ((!) data) = (little_join n ((!) (little_bytes n v)) :: 'a word)"
    by (rule little_join_cong) (metis assms(2) nth_take)
  with assms(1) show ?thesis by (simp add: little_join_bytes)
qed

lemma readU32_join: "readU32 data = little_join 4 ((!) data)"
  by (simp add: readU32_def eval_nat_numeral or.assoc)

lemma readU16_join: "readU16 data = little_join 2 ((!) data)"
  by (simp add: readU16_def eval_nat_numeral)

lemma readU32_writer [simp]: "readU32 (writer_u32 v [] @ rest) = v"
  unfolding readU32_join
  by (rule little_join_prefix) (simp_all add: writer_u32_def writer_little_def writer_raw_def)

lemma readU16_writer [simp]: "readU16 (writer_u16 v [] @ rest) = v"
  unfolding readU16_join
  by (rule little_join_prefix) (simp_all add: writer_u16_def writer_little_def writer_raw_def)

lemma length_writer_framing [simp]:
  "length (writer_u32 v []) = 4" "length (writer_u16 w []) = 2"
  by (simp_all add: writer_u32_def writer_u16_def writer_little_def writer_raw_def)

lemma length_frame [simp]: "length (frame m) = kHeaderSize + length (msg_payload m)"
  by (simp add: frame_def kHeaderSize_def)

lemma fits_size:
  "message_fits m \<Longrightarrow> unat (word_of_nat (length (msg_payload m)) :: u32) = length (msg_payload m)"
  "message_fits m \<Longrightarrow> \<not> kMaxPayloadSize < (word_of_nat (length (msg_payload m)) :: u32)"
  by (simp_all add: message_fits_def unat_of_nat kMaxPayloadSize_def word_less_nat_alt)

lemma next_message_frame:
  assumes "message_fits m" and "mReadBuffer s = frame m @ rest"
  shows "next_message s = (Some m, s\<lparr>mReadBuffer := rest\<rparr>)"
proof -
  have "readU32 (mReadBuffer s) = word_of_nat (length (msg_payload m))"
    by (simp add: assms(2) frame_def)
  moreover have "drop 4 (mReadBuffer s) = writer_u16 (msg_type m) [] @ msg_payload m @ rest"
    by (simp add: assms(2) frame_def)
  moreover have "drop kHeaderSize (mReadBuffer s) = msg_payload m @ rest"
    by (simp add: assms(2) frame_def kHeaderSize_def)
  moreover have "drop (kHeaderSize + length (msg_payload m)) (mReadBuffer s) = rest"
    by (simp add: assms(2) flip: length_frame)
  ultimately show ?thesis
    using assms by (simp add: next_message_def Let_def fits_size)
qed

text \<open>Every \<open>while (stream.next(&message))\<close> loop: the messages it sees, and the stream after it.\<close>

lemma next_message_shrinks:
  "next_message s = (Some m, s') \<Longrightarrow> length (mReadBuffer s') < length (mReadBuffer s)"
  by (auto simp: next_message_def Let_def kHeaderSize_def split: if_splits)

function drain :: "MessageStream \<Rightarrow> Message list \<times> MessageStream" where
  "drain s = (case next_message s of
      (None, s') \<Rightarrow> ([], s')
    | (Some m, s') \<Rightarrow> (case drain s' of (ms, s'') \<Rightarrow> (m # ms, s'')))"
  by pat_completeness auto
termination
  by (relation "measure (\<lambda>s. length (mReadBuffer s))") (auto intro: next_message_shrinks [OF sym])

declare drain.simps [simp del]

definition incomplete :: "bytes \<Rightarrow> bool" where
  "incomplete bs \<longleftrightarrow> (\<forall>s. mReadBuffer s = bs \<longrightarrow> next_message s = (None, s))"

lemma incomplete_iff:
  "incomplete bs \<longleftrightarrow> length bs < kHeaderSize \<or> kMaxPayloadSize < readU32 bs \<or>
     length bs < kHeaderSize + unat (readU32 bs)"
proof
  assume "incomplete bs"
  then have "next_message \<lparr>mSocket = undefined, mReadBuffer = bs, mWriteBuffer = [], mWriteOffset = 0\<rparr>
     = (None, \<lparr>mSocket = undefined, mReadBuffer = bs, mWriteBuffer = [], mWriteOffset = 0\<rparr>)"
    by (simp add: incomplete_def)
  then show "length bs < kHeaderSize \<or> kMaxPayloadSize < readU32 bs \<or>
     length bs < kHeaderSize + unat (readU32 bs)"
    by (auto simp: next_message_def Let_def split: if_splits)
qed (auto simp: incomplete_def next_message_def Let_def)

lemma drain_frames:
  assumes "list_all message_fits ms" and "mReadBuffer s = concat (map frame ms) @ rest"
    and "incomplete rest"
  shows "drain s = (ms, s\<lparr>mReadBuffer := rest\<rparr>)"
  using assms
proof (induction ms arbitrary: s)
  case Nil
  then have "s = s\<lparr>mReadBuffer := rest\<rparr>" by simp
  with Nil show ?case by (subst drain.simps) (simp add: incomplete_def)
next
  case (Cons m ms)
  then have "next_message s = (Some m, s\<lparr>mReadBuffer := concat (map frame ms) @ rest\<rparr>)"
    by (intro next_message_frame) simp_all
  moreover have "drain (s\<lparr>mReadBuffer := concat (map frame ms) @ rest\<rparr>) =
      (ms, s\<lparr>mReadBuffer := concat (map frame ms) @ rest\<rparr>\<lparr>mReadBuffer := rest\<rparr>)"
    using Cons.prems by (intro Cons.IH) simp_all
  ultimately show ?case by (subst drain.simps) simp
qed

section \<open>Receiving\<close>

text \<open>The bytes the kernel will deliver before it answers with an error or a shutdown.\<close>

fun deliverable :: "bytes syscall list \<Rightarrow> bytes" where
  "deliverable (Ret bs # as) = (if bs = [] then [] else bs @ deliverable as)"
| "deliverable _ = []"

definition head_ok :: "bytes \<Rightarrow> bool" where
  "head_ok bs \<longleftrightarrow> (kHeaderSize \<le> length bs \<longrightarrow> readU32 bs \<le> kMaxPayloadSize)"

lemma readU32_prefix: "4 \<le> length bs \<Longrightarrow> readU32 (bs @ cs) = readU32 bs"
  by (auto simp: readU32_def nth_append)

lemma head_ok_prefix: "head_ok (bs @ cs) \<Longrightarrow> head_ok bs"
  by (auto simp: head_ok_def readU32_prefix kHeaderSize_def)

lemma pump_chunks:
  assumes "list_all (\<lambda>c. c \<noteq> []) chunks"
    and "sock_recvs (mSocket s) = map Ret chunks"
    and "head_ok (mReadBuffer s @ concat chunks)"
  shows "pump s = (True, s\<lparr>mSocket := (mSocket s)\<lparr>sock_recvs := []\<rparr>,
                          mReadBuffer := mReadBuffer s @ concat chunks\<rparr>)"
  using assms
proof (induction "recv_work (sock_recvs (mSocket s))" arbitrary: s chunks rule: less_induct)
  case less
  show ?case
  proof (cases chunks)
    case Nil
    with less.prems show ?thesis
      by (subst pump.simps) (simp add: tcp_receive_def sys_recv_def wouldBlock_def)
  next
    case (Cons c cs)
    obtain now later where split: "c = now @ later" "now \<noteq> []"
      and recv: "tcp_receive 4096 (mSocket s) = (True, now,
        (mSocket s)\<lparr>sock_recvs := (if later = [] then map Ret cs else map Ret (later # cs))\<rparr>)"
    proof (cases "length c \<le> 4096")
      case True
      with less.prems Cons show thesis
        by (intro that [of c "[]"]) (simp_all add: tcp_receive_def sys_recv_def)
    next
      case False
      then have "take 4096 c \<noteq> []" by auto
      with False less.prems Cons show thesis
        by (intro that [of "take 4096 c" "drop 4096 c"]) (simp_all add: tcp_receive_def sys_recv_def)
    qed
    let ?rest = "if later = [] then cs else later # cs"
    let ?s = "s\<lparr>mSocket := (mSocket s)\<lparr>sock_recvs := map Ret ?rest\<rparr>, mReadBuffer := mReadBuffer s @ now\<rparr>"
    have all: "concat chunks = now @ concat ?rest"
      using Cons split by simp
    have "head_ok (mReadBuffer s @ now)"
      using less.prems(3) unfolding all by (metis append_assoc head_ok_prefix)
    then have step: "pump s = pump ?s"
      using split recv by (subst pump.simps) (auto simp: head_ok_def Let_def)
    have "pump ?s = (True, ?s\<lparr>mSocket := (mSocket ?s)\<lparr>sock_recvs := []\<rparr>,
        mReadBuffer := mReadBuffer ?s @ concat ?rest\<rparr>)"
    proof (rule less.hyps)
      show "recv_work (sock_recvs (mSocket ?s)) < recv_work (sock_recvs (mSocket s))"
        using tcp_receive_work [OF recv split(2)] by (simp split: if_splits)
      show "list_all (\<lambda>c. c \<noteq> []) ?rest" using less.prems(1) Cons by simp
      show "sock_recvs (mSocket ?s) = map Ret ?rest" by simp
      show "head_ok (mReadBuffer ?s @ concat ?rest)" using less.prems(3) all by simp
    qed
    with step all show ?thesis by simp
  qed
qed

section \<open>Sending\<close>

definition stream_ok :: "MessageStream \<Rightarrow> bool" where
  "stream_ok s \<longleftrightarrow> mWriteOffset s \<le> length (mWriteBuffer s)"

text \<open>What the kernel took so far, followed by what is still queued for it.\<close>

definition outstanding :: "MessageStream \<Rightarrow> bytes" where
  "outstanding s = sock_sent (mSocket s) @ drop (mWriteOffset s) (mWriteBuffer s)"

text \<open>
  What a sender relies on: submitting appends exactly one frame to what has been or will be
  sent, retrying neither adds, drops nor reorders anything.
\<close>

locale frame_sender =
  fixes ok :: "'s \<Rightarrow> bool"
    and queued :: "'s \<Rightarrow> bytes"
    and submit :: "u16 \<Rightarrow> bytes \<Rightarrow> 's \<Rightarrow> 's"
    and retry :: "'s \<Rightarrow> bool \<times> 's"
  assumes ok_submit: "ok s \<Longrightarrow> ok (submit ty p s)"
    and ok_retry: "ok s \<Longrightarrow> ok (snd (retry s))"
    and queued_submit: "ok s \<Longrightarrow>
        queued (submit ty p s) = queued s @ frame \<lparr>msg_type = ty, msg_payload = p\<rparr>"
    and queued_retry: "ok s \<Longrightarrow> queued (snd (retry s)) = queued s"
begin

definition submit_all :: "Message list \<Rightarrow> 's \<Rightarrow> 's" where
  "submit_all ms = fold (\<lambda>m. submit (msg_type m) (msg_payload m)) ms"

lemma submit_all_queued:
  "ok s \<Longrightarrow> ok (submit_all ms s) \<and> queued (submit_all ms s) = queued s @ concat (map frame ms)"
  by (induction ms arbitrary: s) (simp_all add: submit_all_def ok_submit queued_submit frame_def)

end

lemma flush_outstanding:
  "stream_ok s \<Longrightarrow> stream_ok (snd (flush s)) \<and> outstanding (snd (flush s)) = outstanding s"
proof (induction s rule: flush.induct)
  case (1 s)
  show ?case
  proof (cases "mWriteOffset s < length (mWriteBuffer s)")
    case False
    with "1.prems" show ?thesis
      by (subst (1 2) flush.simps) (simp add: stream_ok_def outstanding_def)
  next
    case True
    obtain ok sent socket where snd: "tcp_send (drop (mWriteOffset s) (mWriteBuffer s)) (mSocket s) =
        (ok, sent, socket)" by (metis prod_cases3)
    then have sent: "sent \<le> length (mWriteBuffer s) - mWriteOffset s"
      and took: "sock_sent socket = sock_sent (mSocket s) @ take sent (drop (mWriteOffset s) (mWriteBuffer s))"
      by (auto simp: tcp_send_def sys_send_def min_def split: list.splits syscall.splits)
    let ?s = "s\<lparr>mSocket := socket, mWriteOffset := mWriteOffset s + sent\<rparr>"
    have eq: "outstanding ?s = outstanding s"
      using took by (simp add: outstanding_def add.commute flip: drop_drop)
    show ?thesis
    proof (cases "ok \<and> sent \<noteq> 0")
      case True
      have "stream_ok ?s"
        using sent \<open>mWriteOffset s < _\<close> by (simp add: stream_ok_def)
      then have "stream_ok (snd (flush ?s)) \<and> outstanding (snd (flush ?s)) = outstanding ?s"
        using True \<open>mWriteOffset s < _\<close> snd by (intro "1.IH") simp_all
      moreover have "flush s = flush ?s"
        using True \<open>mWriteOffset s < _\<close> snd by (subst flush.simps) simp
      ultimately show ?thesis by (simp add: eq)
    next
      case False
      have "sent = 0"
      proof (cases ok)
        case True with False show ?thesis by simp
      next
        case False
        with snd show ?thesis
          by (auto simp: tcp_send_def split: prod.splits syscall.splits)
      qed
      then have "flush s = (ok, s\<lparr>mSocket := socket\<rparr>)"
        using \<open>mWriteOffset s < _\<close> snd by (subst flush.simps) auto
      with eq \<open>sent = 0\<close> "1.prems" show ?thesis
        by (simp add: stream_ok_def outstanding_def)
    qed
  qed
qed

lemma send_outstanding:
  assumes "stream_ok s"
  shows "stream_ok (send ty payload s)"
    and "outstanding (send ty payload s) =
      outstanding s @ frame \<lparr>msg_type = ty, msg_payload = payload\<rparr>"
proof -
  let ?s = "s\<lparr>mWriteBuffer := mWriteBuffer s @ frame \<lparr>msg_type = ty, msg_payload = payload\<rparr>\<rparr>"
  have "(let buffer = writer_u16 ty (writer_u32 (word_of_nat (length payload)) (mWriteBuffer s))
        in if payload \<noteq> [] then writer_raw payload buffer else buffer) =
      mWriteBuffer s @ frame \<lparr>msg_type = ty, msg_payload = payload\<rparr>"
    by (simp add: Let_def frame_def writer_raw_def u32_codec.enc_append [of _ "mWriteBuffer s"]
        u16_codec.enc_append [of _ "_ @ _"])
  then have send: "send ty payload s = snd (flush ?s)"
    by (simp add: send_def)
  have ok: "stream_ok ?s"
    using assms by (simp add: stream_ok_def)
  have "outstanding ?s = outstanding s @ frame \<lparr>msg_type = ty, msg_payload = payload\<rparr>"
    using assms by (simp add: outstanding_def stream_ok_def)
  with flush_outstanding [OF ok] show "stream_ok (send ty payload s)"
    and "outstanding (send ty payload s) =
      outstanding s @ frame \<lparr>msg_type = ty, msg_payload = payload\<rparr>"
    by (simp_all add: send)
qed

interpretation tcp_sender: frame_sender stream_ok outstanding send flush
  by unfold_locales (simp_all add: send_outstanding flush_outstanding)

lemma stream_ok_new [simp]: "stream_ok (message_stream socket)"
  by (simp add: stream_ok_def message_stream_def)

lemma outstanding_new [simp]: "outstanding (message_stream socket) = sock_sent socket"
  by (simp add: outstanding_def message_stream_def)

section \<open>Any prefix of a sequence of frames\<close>

lemma incomplete_frame_prefix:
  assumes "message_fits m" and "k < length (frame m)"
  shows "incomplete (take k (frame m))"
proof (cases "k < kHeaderSize")
  case True
  then show ?thesis by (simp add: incomplete_iff)
next
  case False
  then have "4 \<le> length (take k (frame m))"
    using assms(2) by (simp add: kHeaderSize_def)
  then have "readU32 (take k (frame m)) = readU32 (take k (frame m) @ drop k (frame m))"
    by (simp only: readU32_prefix)
  then have "readU32 (take k (frame m)) = readU32 (frame m)" by simp
  also have "\<dots> = word_of_nat (length (msg_payload m))"
    by (simp add: frame_def)
  finally show ?thesis
    using assms fits_size [OF assms(1)] by (simp add: incomplete_iff)
qed

lemma take_frames:
  assumes "list_all message_fits ms"
  obtains j rest where "take k (concat (map frame ms)) = concat (map frame (take j ms)) @ rest"
    and "incomplete rest" and "k < length (concat (map frame ms)) \<or> j = length ms \<and> rest = []"
proof -
  have "\<exists>j rest. take k (concat (map frame ms)) = concat (map frame (take j ms)) @ rest \<and>
      incomplete rest \<and> (k < length (concat (map frame ms)) \<or> j = length ms \<and> rest = [])"
    using assms
  proof (induction ms arbitrary: k)
    case Nil
    then show ?case by (simp add: incomplete_iff kHeaderSize_def)
  next
    case (Cons m ms)
    show ?case
    proof (cases "k < length (frame m)")
      case True
      then show ?thesis
        using incomplete_frame_prefix [of m k] Cons.prems
        by (intro exI [of _ 0] exI [of _ "take k (frame m)"]) simp
    next
      case False
      obtain j rest where "take (k - length (frame m)) (concat (map frame ms)) =
          concat (map frame (take j ms)) @ rest" and "incomplete rest"
        and "k - length (frame m) < length (concat (map frame ms)) \<or> j = length ms \<and> rest = []"
        using Cons.IH [of "k - length (frame m)"] Cons.prems by auto
      then show ?thesis
        using False by (intro exI [of _ "Suc j"] exI [of _ rest]) auto
    qed
  qed
  then show thesis using that by blast
qed

lemma frames_head_ok:
  assumes "list_all message_fits ms"
  shows "head_ok (take k (concat (map frame ms)))"
proof (cases ms)
  case Nil
  then show ?thesis by (simp add: head_ok_def kHeaderSize_def)
next
  case (Cons m ms')
  have "readU32 (concat (map frame ms)) = word_of_nat (length (msg_payload m))"
    by (simp add: Cons frame_def)
  moreover have "\<not> kMaxPayloadSize < (word_of_nat (length (msg_payload m)) :: u32)"
    using assms Cons by (simp add: fits_size)
  ultimately have "head_ok (concat (map frame ms))"
    by (auto simp: head_ok_def)
  then show ?thesis
    by (metis append_take_drop_id head_ok_prefix)
qed

lemma writer_readU32: "4 \<le> length bs \<Longrightarrow> writer_u32 (readU32 bs) [] = take 4 bs"
  by (simp add: readU32_join writer_u32_def writer_little_def writer_raw_def little_bytes_join
      map_nth_take)

lemma writer_readU16: "2 \<le> length bs \<Longrightarrow> writer_u16 (readU16 bs) [] = take 2 bs"
  by (simp add: readU16_join writer_u16_def writer_little_def writer_raw_def little_bytes_join
      map_nth_take)

lemma pump_head_ok:
  "pump s = (True, s') \<Longrightarrow> mReadBuffer s' = mReadBuffer s \<or> head_ok (mReadBuffer s')"
proof (induction s arbitrary: s' rule: pump.induct)
  case (1 s)
  obtain ok received socket where r: "tcp_receive 4096 (mSocket s) = (ok, received, socket)"
    by (metis prod_cases3)
  let ?s = "s\<lparr>mSocket := socket, mReadBuffer := mReadBuffer s @ received\<rparr>"
  show ?case
  proof (cases "ok \<and> received \<noteq> [] \<and> head_ok (mReadBuffer s @ received)")
    case True
    then have "pump ?s = (True, s')"
      using "1.prems" r by (subst (asm) pump.simps) (auto simp: head_ok_def Let_def split: if_splits)
    moreover from True r have "mReadBuffer s' = mReadBuffer ?s \<or> head_ok (mReadBuffer s')"
      using calculation by (intro "1.IH") (auto simp: head_ok_def)
    ultimately show ?thesis using True by auto
  next
    case False
    with "1.prems" r show ?thesis
      by (subst (asm) pump.simps) (auto simp: head_ok_def Let_def split: if_splits)
  qed
qed

section \<open>The receiving side of a stream\<close>

text \<open>What has arrived on a stream and what the kernel still has for it. Sending does not touch
  it, and it alone decides what \<open>pump\<close> and \<open>next\<close> return.\<close>

definition received :: "MessageStream \<Rightarrow> bytes \<times> bytes syscall list" where
  "received s = (mReadBuffer s, sock_recvs (mSocket s))"

lemma tcp_send_recvs [simp]: "tcp_send data s = (ok, n, s') \<Longrightarrow> sock_recvs s' = sock_recvs s"
  by (auto simp: tcp_send_def sys_send_def split: list.splits syscall.splits)

lemma received_flush [simp]: "received (snd (flush s)) = received s"
proof (induction s rule: flush.induct)
  case (1 s)
  then show ?case
    by (subst flush.simps) (auto simp: received_def split: prod.splits)
qed

lemma received_send [simp]: "received (send ty payload s) = received s"
  by (simp add: send_def) (simp add: received_def)

lemma next_message_shorter:
  "next_message s = (Some m, s') \<Longrightarrow> length (mReadBuffer s') < length (mReadBuffer s)"
  by (auto simp: next_message_def Let_def kHeaderSize_def split: if_splits)

lemma next_message_received:
  "received s = received t \<Longrightarrow> fst (next_message s) = fst (next_message t) \<and>
     received (snd (next_message s)) = received (snd (next_message t))"
  by (auto simp: next_message_def received_def Let_def)

lemma drain_received:
  "received s = received t \<Longrightarrow> fst (drain s) = fst (drain t)"
proof (induction s arbitrary: t rule: drain.induct)
  case (1 s)
  obtain m s' where ns: "next_message s = (m, s')" by fastforce
  obtain n t' where nt: "next_message t = (n, t')" by fastforce
  have "n = m" and "received s' = received t'"
    using next_message_received [OF "1.prems"] ns nt by simp_all
  then show ?case
    using "1.IH" [of m s'] ns nt
    by (subst (1 2) drain.simps) (auto split: option.splits prod.splits)
qed

lemma pump_received:
  "received s = received t \<Longrightarrow> fst (pump s) = fst (pump t) \<and>
     received (snd (pump s)) = received (snd (pump t))"
proof (induction s arbitrary: t rule: pump.induct)
  case (1 s)
  obtain ok bs socket where rs: "tcp_receive 4096 (mSocket s) = (ok, bs, socket)"
    by (metis prod_cases3)
  obtain socket' where rt: "tcp_receive 4096 (mSocket t) = (ok, bs, socket')"
    and recvs: "sock_recvs socket = sock_recvs socket'"
    using rs "1.prems"
    by (auto simp: tcp_receive_def sys_recv_def received_def split: list.splits syscall.splits if_splits)
  let ?s = "s\<lparr>mSocket := socket, mReadBuffer := mReadBuffer s @ bs\<rparr>"
  let ?t = "t\<lparr>mSocket := socket', mReadBuffer := mReadBuffer t @ bs\<rparr>"
  have eq: "received ?s = received ?t" and buf: "mReadBuffer s = mReadBuffer t"
    using "1.prems" recvs by (auto simp: received_def)
  show ?case
  proof (cases "ok \<and> bs \<noteq> [] \<and> \<not> (length (mReadBuffer s @ bs) \<ge> kHeaderSize \<and>
      readU32 (mReadBuffer s @ bs) > kMaxPayloadSize)")
    case True
    then have "fst (pump ?s) = fst (pump ?t) \<and> received (snd (pump ?s)) = received (snd (pump ?t))"
      using rs eq by (intro "1.IH") auto
    moreover have "pump s = pump ?s" "pump t = pump ?t"
      using True rs rt buf by (subst pump.simps; auto simp: Let_def)+
    ultimately show ?thesis by simp
  next
    case False
    then show ?thesis
      using rs rt buf recvs by (subst (1 2 3 4) pump.simps) (auto simp: Let_def received_def)
  qed
qed

section \<open>A receiver over several polls\<close>

text \<open>What a poll does with a stream, in the client, in the servers and in the database client:
  \<open>pump\<close>, then every message \<open>next\<close> hands out. Between two polls the kernel receives
  more chunks; the stream keeps what was left over.\<close>

fun receive_polls :: "bytes list list \<Rightarrow> MessageStream \<Rightarrow> bool \<times> Message list \<times> MessageStream" where
  "receive_polls [] s = (True, [], s)"
| "receive_polls (chunks # polls) s =
     (case pump (s\<lparr>mSocket := (mSocket s)\<lparr>sock_recvs := map Ret chunks\<rparr>\<rparr>) of (ok, s) \<Rightarrow>
        if \<not> ok then (False, [], s)
        else case drain s of (ms, s) \<Rightarrow>
          (case receive_polls polls s of (ok, ms', s) \<Rightarrow> (ok, ms @ ms', s)))"

lemma head_ok_frames:
  assumes "list_all message_fits ms" and "a @ b = take k (concat (map frame ms))"
  shows "head_ok a"
  using frames_head_ok [OF assms(1), of k] head_ok_prefix [of a b] assms(2) by simp

lemma prefix_rest: "as @ rest = take k (as @ bs) \<Longrightarrow> rest = take (k - length as) bs"
  by (cases "k < length as") (auto dest: arg_cong [where f = length])

text \<open>One poll: with a prefix of the frames in the buffer and in the kernel, exactly the complete
  messages come out, and what is left is the beginning of the next one.\<close>

lemma poll_frames:
  assumes "list_all message_fits ms" and "list_all (\<lambda>c. c \<noteq> []) chunks"
    and "mReadBuffer s @ concat chunks @ later = take k (concat (map frame ms))"
  obtains j s' where "pump (s\<lparr>mSocket := (mSocket s)\<lparr>sock_recvs := map Ret chunks\<rparr>\<rparr>) = (True, s')"
    and "fst (drain s') = take j ms" and "incomplete (mReadBuffer (snd (drain s')))"
    and "mReadBuffer (snd (drain s')) @ later =
      take (k - length (concat (map frame (take j ms)))) (concat (map frame (drop j ms)))"
proof -
  let ?s = "s\<lparr>mSocket := (mSocket s)\<lparr>sock_recvs := map Ret chunks\<rparr>\<rparr>"
  let ?buf = "mReadBuffer s @ concat chunks"
  have buf: "?buf = take (min k (length ?buf)) (concat (map frame ms))"
    using assms(3) by (metis append_assoc append_eq_conv_conj min.commute take_take)
  then obtain j rest where split: "?buf = concat (map frame (take j ms)) @ rest" and inc: "incomplete rest"
    using take_frames [OF assms(1)] by metis
  have "pump ?s = (True, ?s\<lparr>mSocket := (mSocket ?s)\<lparr>sock_recvs := []\<rparr>,
      mReadBuffer := mReadBuffer ?s @ concat chunks\<rparr>)"
    using assms(2) head_ok_frames [OF assms(1), of ?buf later k] assms(3)
    by (intro pump_chunks) simp_all
  moreover have "list_all message_fits (take j ms)"
    using assms(1) by (auto simp: list_all_iff dest: in_set_takeD)
  moreover have "rest @ later =
      take (k - length (concat (map frame (take j ms)))) (concat (map frame (drop j ms)))"
  proof -
    let ?now = "concat (map frame (take j ms))" and ?then = "concat (map frame (drop j ms))"
    have "?now @ rest @ later = take k (?now @ ?then)"
      using assms(3) split by (simp flip: concat_append map_append append_assoc)
    then show ?thesis by (rule prefix_rest)
  qed
  ultimately show thesis
    using drain_frames [OF _ _ inc, of "take j ms"] split inc
    by (intro that [of "?s\<lparr>mSocket := (mSocket ?s)\<lparr>sock_recvs := []\<rparr>,
      mReadBuffer := mReadBuffer ?s @ concat chunks\<rparr>" j]) simp_all
qed

lemma receive_polls_frames:
  assumes "list_all message_fits ms" and "\<forall>chunks \<in> set polls. list_all (\<lambda>c. c \<noteq> []) chunks"
    and "mReadBuffer s @ concat (concat polls) = take k (concat (map frame ms))"
    and "incomplete (mReadBuffer s)"
  shows "\<exists>j s'. receive_polls polls s = (True, take j ms, s') \<and> incomplete (mReadBuffer s') \<and>
    mReadBuffer s' = take (k - length (concat (map frame (take j ms)))) (concat (map frame (drop j ms)))"
  using assms
proof (induction polls arbitrary: s ms k)
  case Nil
  then show ?case by (intro exI [of _ 0] exI [of _ s]) simp
next
  case (Cons chunks polls)
  obtain j s' where pump: "pump (s\<lparr>mSocket := (mSocket s)\<lparr>sock_recvs := map Ret chunks\<rparr>\<rparr>) = (True, s')"
    and drain: "fst (drain s') = take j ms" and inc: "incomplete (mReadBuffer (snd (drain s')))"
    and rest: "mReadBuffer (snd (drain s')) @ concat (concat polls) =
      take (k - length (concat (map frame (take j ms)))) (concat (map frame (drop j ms)))"
    using Cons.prems by (auto intro: poll_frames [of ms chunks s "concat (concat polls)" k])
  have fits: "list_all message_fits (drop j ms)"
    using Cons.prems(1) by (auto simp: list_all_iff dest: in_set_dropD)
  obtain i t where "receive_polls polls (snd (drain s')) = (True, take i (drop j ms), t)"
    and "incomplete (mReadBuffer t)"
    and "mReadBuffer t = take (k - length (concat (map frame (take j ms))) -
      length (concat (map frame (take i (drop j ms))))) (concat (map frame (drop i (drop j ms))))"
    using Cons.IH [OF fits _ rest inc] Cons.prems(2) by auto
  with pump drain show ?case
    by (intro exI [of _ "j + i"] exI [of _ t])
      (simp add: case_prod_unfold take_add add.commute [of i j])
qed

lemma incomplete_frames:
  assumes "list_all message_fits ms" and "incomplete (concat (map frame ms))"
  shows "ms = []"
proof (cases ms)
  case (Cons m ms')
  then have "next_message ((message_stream undefined)\<lparr>mReadBuffer := concat (map frame ms)\<rparr>) =
      (Some m, (message_stream undefined)\<lparr>mReadBuffer := concat (map frame ms')\<rparr>)"
    using assms(1) next_message_frame [of m _ "concat (map frame ms')"] by simp
  then show ?thesis using assms(2) by (simp add: incomplete_def)
qed

section \<open>Properties\<close>

text \<open>C11. Framing delivers: a sequence of messages written through \<open>send\<close>, each with a payload of
  at most 1 MiB (the limit of \<open>pump\<close> and \<open>next\<close>), whatever the kernel accepted per call, and
  received over any number of polls in whatever chunks the kernel delivered, frames cut between
  two polls included, is read back in order without loss, duplication or change: always a prefix
  of the sequence, and all of it once everything was accepted and delivered.\<close>

theorem framing_delivers:
  assumes "list_all message_fits ms"
    and "sender = fold (\<lambda>m. send (msg_type m) (msg_payload m)) ms
           (message_stream \<lparr>sock_recvs = [], sock_sends = answers, sock_sent = []\<rparr>)"
    and "\<forall>chunks \<in> set polls. list_all (\<lambda>c. c \<noteq> []) chunks"
    and "concat (concat polls) = take k (sock_sent (mSocket sender))"
    and "receive_polls polls (message_stream \<lparr>sock_recvs = [], sock_sends = [], sock_sent = []\<rparr>) =
           (ok, got, receiver)"
  shows "ok \<and> (\<exists>j. got = take j ms) \<and>
    (\<not> hasPendingWrites sender \<and> length (sock_sent (mSocket sender)) \<le> k \<longrightarrow>
       got = ms \<and> mReadBuffer receiver = [])"
proof -
  let ?all = "concat (map frame ms)"
  let ?r = "message_stream \<lparr>sock_recvs = [], sock_sends = [], sock_sent = []\<rparr>"
  have "stream_ok sender" and out: "outstanding sender = ?all"
    using tcp_sender.submit_all_queued [of "message_stream \<lparr>sock_recvs = [], sock_sends = answers, sock_sent = []\<rparr>" ms]
    by (simp_all add: assms(2) tcp_sender.submit_all_def)
  then have pre: "sock_sent (mSocket sender) = take (length (sock_sent (mSocket sender))) ?all"
    by (simp add: outstanding_def flip: out)
  define n where "n = min k (length (sock_sent (mSocket sender)))"
  have "concat (concat polls) = take n ?all"
    using assms(4) pre by (metis n_def take_take)
  moreover have "mReadBuffer ?r = []" and "incomplete []"
    by (simp_all add: message_stream_def incomplete_iff kHeaderSize_def)
  ultimately obtain j where got: "ok" "got = take j ms" and inc: "incomplete (mReadBuffer receiver)"
    and left: "mReadBuffer receiver =
      take (n - length (concat (map frame (take j ms)))) (concat (map frame (drop j ms)))"
    using receive_polls_frames [OF assms(1,3), of ?r n] assms(5) by auto
  have "got = ms \<and> mReadBuffer receiver = []"
    if "\<not> hasPendingWrites sender" and "length (sock_sent (mSocket sender)) \<le> k"
  proof -
    have "n = length ?all"
      using that out by (auto simp: n_def hasPendingWrites_def outstanding_def)
    moreover have "?all = concat (map frame (take j ms)) @ concat (map frame (drop j ms))"
      by (simp flip: concat_append map_append)
    ultimately have buf: "mReadBuffer receiver = concat (map frame (drop j ms))"
      using left by simp
    moreover have "list_all message_fits (drop j ms)"
      using assms(1) by (auto simp: list_all_iff dest: in_set_dropD)
    ultimately have "drop j ms = []" using inc incomplete_frames by metis
    then show ?thesis using got(2) buf by simp
  qed
  with got show ?thesis by blast
qed

definition sample_messages :: "Message list" where
  "sample_messages = [\<lparr>msg_type = 1, msg_payload = [7, 8]\<rparr>, \<lparr>msg_type = 200, msg_payload = []\<rparr>]"

definition sample_sender :: MessageStream where
  "sample_sender = fold (\<lambda>m. send (msg_type m) (msg_payload m)) sample_messages
     (message_stream \<lparr>sock_recvs = [], sock_sends = [Ret 3, Err EAGAIN, Ret 100, Ret 100], sock_sent = []\<rparr>)"

lemma sample_sent: "sock_sent (mSocket sample_sender) = [2, 0, 0, 0, 1, 0, 7, 8, 0, 0, 0, 0, 200, 0]"
  by code_simp

text \<open>Two polls, the first ending in the middle of a size field.\<close>

theorem framing_delivers_witness:
  "fst (snd (receive_polls [[[2, 0, 0]], [], [[0, 1, 0, 7, 8, 0], [0, 0, 0, 200, 0]]]
     (message_stream \<lparr>sock_recvs = [], sock_sends = [], sock_sent = []\<rparr>))) = sample_messages"
proof -
  obtain ok got receiver where run: "receive_polls [[[2, 0, 0]], [], [[0, 1, 0, 7, 8, 0], [0, 0, 0, 200, 0]]]
     (message_stream \<lparr>sock_recvs = [], sock_sends = [], sock_sent = []\<rparr>) = (ok, got, receiver)"
    by (metis prod_cases3)
  have pending: "\<not> hasPendingWrites sample_sender" by code_simp
  have "list_all message_fits sample_messages"
    by (simp add: sample_messages_def message_fits_def)
  then have "got = sample_messages"
    using framing_delivers [OF _ sample_sender_def _ _ run, of 14] pending
    by (simp add: sample_sent)
  then show ?thesis unfolding run by simp
qed

text \<open>\<open>next\<close> only ever hands out a complete message: its payload is within the limit, and the
  bytes removed from the receive buffer are exactly its frame.\<close>

theorem next_message_sound:
  assumes "next_message s = (Some m, s')"
  shows "message_fits m \<and> mReadBuffer s = frame m @ mReadBuffer s'"
proof -
  let ?b = "mReadBuffer s"
  let ?n = "unat (readU32 ?b)"
  have len: "kHeaderSize + ?n \<le> length ?b" and cap: "readU32 ?b \<le> kMaxPayloadSize"
    and m: "msg_type m = readU16 (drop 4 ?b)" "msg_payload m = take ?n (drop kHeaderSize ?b)"
    and s': "mReadBuffer s' = drop (kHeaderSize + ?n) ?b"
    using assms by (auto simp: next_message_def Let_def split: if_splits)
  have size: "length (msg_payload m) = ?n"
    using len by (simp add: m)
  then have "message_fits m"
    using cap by (simp add: message_fits_def kMaxPayloadSize_def word_le_nat_alt)
  moreover have "?b = take 4 ?b @ take 2 (drop 4 ?b) @ take ?n (drop 6 ?b) @ drop (6 + ?n) ?b"
    using append_take_drop_id [of 4 ?b] append_take_drop_id [of 2 "drop 4 ?b"]
      append_take_drop_id [of ?n "drop 6 ?b"] by (simp add: add.commute)
  then have "?b = frame m @ mReadBuffer s'"
    using len writer_readU32 [of ?b] writer_readU16 [of "drop 4 ?b"]
    by (simp add: frame_def size m s' kHeaderSize_def)
  ultimately show ?thesis by simp
qed

theorem next_message_sound_witness:
  "message_fits \<lparr>msg_type = 2, msg_payload = [9]\<rparr> \<and>
   [1, 0, 0, 0, 2, 0, 9, 5] = frame \<lparr>msg_type = 2, msg_payload = [9]\<rparr> @ [5]"
proof -
  let ?s = "\<lambda>b. (message_stream \<lparr>sock_recvs = [], sock_sends = [], sock_sent = []\<rparr>)\<lparr>mReadBuffer := b\<rparr>"
  have "next_message (?s [1, 0, 0, 0, 2, 0, 9, 5]) =
      (Some \<lparr>msg_type = 2, msg_payload = [9]\<rparr>, ?s [5])"
    by code_simp
  from next_message_sound [OF this] show ?thesis by simp
qed

text \<open>A peer cannot announce an absurd payload unnoticed: whenever \<open>pump\<close> took in bytes and
  reports success, the message at the head of the buffer claims at most 1 MiB.\<close>

theorem pump_rejects_oversized:
  assumes "pump s = (True, s')" and "mReadBuffer s' \<noteq> mReadBuffer s"
    and "kHeaderSize \<le> length (mReadBuffer s')"
  shows "readU32 (mReadBuffer s') \<le> kMaxPayloadSize"
  using pump_head_ok [OF assms(1)] assms(2,3) by (auto simp: head_ok_def)

theorem pump_rejects_oversized_witness:
  "readU32 [1, 0, 0, 0, 2, 0, 9, 5] \<le> kMaxPayloadSize"
proof (rule pump_rejects_oversized [where s' = "(message_stream
      \<lparr>sock_recvs = [], sock_sends = [], sock_sent = []\<rparr>)\<lparr>mReadBuffer := [1, 0, 0, 0, 2, 0, 9, 5]\<rparr>",
      simplified])
  show "pump (message_stream \<lparr>sock_recvs = [Ret [1, 0, 0, 0, 2, 0, 9, 5]], sock_sends = [], sock_sent = []\<rparr>) =
    (True, (message_stream \<lparr>sock_recvs = [], sock_sends = [], sock_sent = []\<rparr>)
        \<lparr>mReadBuffer := [1, 0, 0, 0, 2, 0, 9, 5]\<rparr>)"
    by code_simp
qed (simp_all add: message_stream_def kHeaderSize_def)

end
