(* ===== verification/StdMap.thy ===== *)
theory StdMap
  imports Prelude
begin

text \<open>
  \<^verbatim>\<open>std::map\<close> as the sources use it: entries in increasing key order (the order a range-for
  visits them), \<open>find\<close>, \<open>emplace\<close> (which keeps an existing entry), assignment through
  \<open>operator[]\<close>, and \<open>erase\<close>. The locale \<open>ordered_map\<close> states the laws the component
  theories rely on; the association lists below meet them.
\<close>

section \<open>The interface\<close>

locale ordered_map =
  fixes find :: "'k::linorder \<Rightarrow> 'm \<Rightarrow> 'v option"
    and emplace :: "'k \<Rightarrow> 'v \<Rightarrow> 'm \<Rightarrow> 'm"
    and assign :: "'k \<Rightarrow> 'v \<Rightarrow> 'm \<Rightarrow> 'm"
    and erase :: "'k \<Rightarrow> 'm \<Rightarrow> 'm"
    and keys :: "'m \<Rightarrow> 'k list"
    and invar :: "'m \<Rightarrow> bool"
  assumes find_emplace: "find k (emplace j v m) =
        (if k = j \<and> find j m = None then Some v else find k m)"
    and find_assign: "find k (assign j v m) = (if k = j then Some v else find k m)"
    and find_erase: "find k (erase j m) = (if k = j then None else find k m)"
    and keys_find: "invar m \<Longrightarrow> k \<in> set (keys m) \<longleftrightarrow> find k m \<noteq> None"
    and keys_sorted: "invar m \<Longrightarrow> sorted_wrt (<) (keys m)"
    and invar_emplace: "invar m \<Longrightarrow> invar (emplace j v m)"
    and invar_assign: "invar m \<Longrightarrow> invar (assign j v m)"
    and invar_erase: "invar m \<Longrightarrow> invar (erase j m)"
begin

lemma emplace_keeps: "find j m = Some w \<Longrightarrow> find k (emplace j v m) = find k m"
  by (simp add: find_emplace)

lemma emplace_new: "find j m = None \<Longrightarrow> find j (emplace j v m) = Some v"
  by (simp add: find_emplace)

lemma distinct_keys: "invar m \<Longrightarrow> distinct (keys m)"
  using keys_sorted strict_sorted_iff by blast

lemma keys_eqI:
  assumes "invar m" and "invar m'" and "\<And>k. find k m = None \<longleftrightarrow> find k m' = None"
  shows "keys m = keys m'"
proof -
  have "set (keys m) = set (keys m')"
    using assms keys_find by blast
  then show ?thesis
    using assms(1,2) keys_sorted strict_sorted_equal by blast
qed

lemma keys_erase:
  assumes "invar m"
  shows "keys (erase j m) = filter (\<lambda>k. k \<noteq> j) (keys m)"
proof (rule strict_sorted_equal)
  show "sorted_wrt (<) (keys (erase j m))"
    using assms by (simp add: keys_sorted invar_erase)
  show "sorted_wrt (<) (filter (\<lambda>k. k \<noteq> j) (keys m))"
    using assms by (simp add: keys_sorted sorted_wrt_filter)
  show "set (keys (erase j m)) = set (filter (\<lambda>k. k \<noteq> j) (keys m))"
    using assms by (auto simp: keys_find invar_erase find_erase split: if_splits)
qed

end

section \<open>Association lists in key order\<close>

type_synonym ('k, 'v) std_map = "('k \<times> 'v) list"

definition map_find :: "'k \<Rightarrow> ('k, 'v) std_map \<Rightarrow> 'v option" where
  "map_find k m = map_of m k"

fun map_assign :: "'k::linorder \<Rightarrow> 'v \<Rightarrow> ('k, 'v) std_map \<Rightarrow> ('k, 'v) std_map" where
  "map_assign k v [] = [(k, v)]"
| "map_assign k v ((j, w) # m) =
     (if k < j then (k, v) # (j, w) # m
      else if k = j then (k, v) # m
      else (j, w) # map_assign k v m)"

definition map_emplace :: "'k::linorder \<Rightarrow> 'v \<Rightarrow> ('k, 'v) std_map \<Rightarrow> ('k, 'v) std_map" where
  "map_emplace k v m = (case map_find k m of None \<Rightarrow> map_assign k v m | Some _ \<Rightarrow> m)"

definition map_erase :: "'k \<Rightarrow> ('k, 'v) std_map \<Rightarrow> ('k, 'v) std_map" where
  "map_erase k m = filter (\<lambda>(j, _). j \<noteq> k) m"

definition map_count :: "'k \<Rightarrow> ('k, 'v) std_map \<Rightarrow> bool" where
  "map_count k m \<longleftrightarrow> map_find k m \<noteq> None"

definition map_keys :: "('k, 'v) std_map \<Rightarrow> 'k list" where
  "map_keys m = map fst m"

text \<open>Changing the mapped value of an existing entry through a reference or an iterator.\<close>

definition map_modify :: "'k \<Rightarrow> ('v \<Rightarrow> 'v) \<Rightarrow> ('k, 'v) std_map \<Rightarrow> ('k, 'v) std_map" where
  "map_modify k f m = map (\<lambda>(j, v). (j, if j = k then f v else v)) m"

text \<open>A range-for over the map that gives every entry a new value.\<close>

definition map_each :: "('v \<Rightarrow> 'w) \<Rightarrow> ('k, 'v) std_map \<Rightarrow> ('k, 'w) std_map" where
  "map_each f m = map (\<lambda>(j, v). (j, f v)) m"

definition map_ok :: "('k::linorder, 'v) std_map \<Rightarrow> bool" where
  "map_ok m \<longleftrightarrow> sorted_wrt (<) (map_keys m)"

lemma map_find_Nil [simp]: "map_find k [] = None"
  by (simp add: map_find_def)

lemma map_find_assign [simp]: "map_find k (map_assign j v m) = (if k = j then Some v else map_find k m)"
  by (induction j v m rule: map_assign.induct) (auto simp: map_find_def)

lemma map_find_emplace [simp]:
  "map_find k (map_emplace j v m) = (if k = j \<and> map_find j m = None then Some v else map_find k m)"
  by (auto simp: map_emplace_def split: option.splits)

lemma map_find_erase [simp]: "map_find k (map_erase j m) = (if k = j then None else map_find k m)"
  by (induction m) (auto simp: map_find_def map_erase_def)

lemma map_find_modify [simp]:
  "map_find k (map_modify j f m) = (if k = j then map_option f (map_find k m) else map_find k m)"
  by (induction m) (auto simp: map_find_def map_modify_def)

lemma map_find_each [simp]: "map_find k (map_each f m) = map_option f (map_find k m)"
  by (induction m) (auto simp: map_find_def map_each_def)

lemma map_keys_modify [simp]: "map_keys (map_modify j f m) = map_keys m"
  by (simp add: map_keys_def map_modify_def case_prod_beta')

lemma map_keys_each [simp]: "map_keys (map_each f m) = map_keys m"
  by (simp add: map_keys_def map_each_def case_prod_beta')

lemma set_keys_assign: "set (map_keys (map_assign k v m)) = insert k (set (map_keys m))"
  by (induction k v m rule: map_assign.induct) (auto simp: map_keys_def)

lemma map_ok_assign [simp]: "map_ok m \<Longrightarrow> map_ok (map_assign k v m)"
proof (induction k v m rule: map_assign.induct)
  case (1 k v)
  then show ?case by (simp add: map_ok_def map_keys_def)
next
  case (2 k v j w m)
  then have "map_ok (map_assign k v m)" if "j < k"
    using that by (auto simp: map_ok_def map_keys_def)
  with "2.prems" show ?case
    using set_keys_assign [of k v m] by (auto simp: map_ok_def map_keys_def)
qed

lemma map_ok_emplace [simp]: "map_ok m \<Longrightarrow> map_ok (map_emplace k v m)"
  by (simp add: map_emplace_def split: option.splits)

lemma map_ok_erase [simp]: "map_ok m \<Longrightarrow> map_ok (map_erase k m)"
  by (simp add: map_ok_def map_keys_def map_erase_def sorted_wrt_map sorted_wrt_filter)

lemma map_ok_modify [simp]: "map_ok (map_modify k f m) = map_ok m"
  by (simp add: map_ok_def)

lemma map_ok_each [simp]: "map_ok (map_each f m) = map_ok m"
  by (simp add: map_ok_def)

lemma map_ok_Nil [simp]: "map_ok []"
  by (simp add: map_ok_def map_keys_def)

lemma map_keys_find: "k \<in> set (map_keys m) \<longleftrightarrow> map_find k m \<noteq> None"
  by (simp add: map_keys_def map_find_def map_of_eq_None_iff)

interpretation std: ordered_map map_find map_emplace map_assign map_erase map_keys map_ok
proof unfold_locales
  show "sorted_wrt (<) (map_keys m)" if "map_ok m" for m :: "('a, 'b) std_map"
    using that by (simp add: map_ok_def)
qed (auto simp: map_keys_find)

lemma map_find_in_set: "map_ok m \<Longrightarrow> map_find k m = Some v \<longleftrightarrow> (k, v) \<in> set m"
  using std.distinct_keys [of m] by (simp add: map_find_def map_keys_def)

end
