(* ===== verification/DbClient.thy ===== *)
theory DbClient
  imports Framing StdMap Protocol "HOL-Library.Multiset"
begin

text \<open>
  \<^verbatim>\<open>server/common/src/db_client.cpp\<close>: the asynchronous client side of the database RPC. A
  caller's callback is a tag of type \<open>'k\<close>; the lambda a method registers is a \<open>Handler\<close> that
  holds the tag and decodes the reply the way the lambda does. Running a callback is the
  business of the service: the parameter \<open>run\<close> gives its effect on the service's state and
  the calls it makes on this client in turn. A call on a disconnected client invokes its callback
  at once, so callbacks nest; the depth is bounded by fuel, and the interface \<open>ranked_service\<close>
  shows the fuel is never used up by a service whose callbacks chain finitely.
\<close>

section \<open>State\<close>

record AccountLookup =
  lookup_found :: bool
  lookup_accountId :: u64
  lookup_passwordHash :: string
  lookup_permissionLevel :: u8

record SessionLookup =
  session_found :: bool
  session_accountId :: u64
  session_username :: string
  session_permissionLevel :: u8

definition no_account :: AccountLookup where
  "no_account = \<lparr>lookup_found = False, lookup_accountId = 0, lookup_passwordHash = [],
     lookup_permissionLevel = 0\<rparr>"

definition no_session :: SessionLookup where
  "no_session = \<lparr>session_found = False, session_accountId = 0, session_username = [],
     session_permissionLevel = 0\<rparr>"

text \<open>The arguments a callback is invoked with.\<close>

datatype db_reply =
    AccountReply bool AccountLookup
  | CreateReply bool DbResult u64
  | ResultReply bool DbResult
  | ExistsReply bool bool
  | SessionReply bool SessionLookup

datatype 'k Handler =
    LookupAccountHandler 'k
  | CreateAccountHandler 'k
  | DeleteAccountHandler 'k
  | CreateAccountWithLevelHandler 'k
  | SetPermissionLevelHandler 'k
  | AdminExistsHandler 'k
  | CreateSessionHandler 'k
  | LookupSessionHandler 'k
  | DeleteSessionHandler 'k

record 'k DbClient =
  mStream :: "MessageStream option"
  mPending :: "(u32, 'k Handler) std_map"
  mNextRequestId :: u32
  mConnected :: bool

definition db_client :: "'k DbClient" where
  "db_client = \<lparr>mStream = None, mPending = [], mNextRequestId = 1, mConnected = False\<rparr>"

text \<open>\<open>connect\<close>: what name resolution and the socket gave is the argument, \<open>None\<close> if any step
  failed.\<close>

definition db_connect :: "TcpSocket option \<Rightarrow> 'k DbClient \<Rightarrow> bool \<times> 'k DbClient" where
  "db_connect established client = (case established of
      None \<Rightarrow> (False, client)
    | Some socket \<Rightarrow> (True, client\<lparr>mStream := Some (message_stream socket), mConnected := True\<rparr>))"

text \<open>The loop both services run when the connection is lost: an attempt a second until one succeeds or
  the process is told to stop. Before attempt \<open>i\<close> the loop reads \<open>gRunning\<close>, the first component;
  the second is what the attempt gave. The source puts no bound on it: \<open>None\<close> is the loop that never ends.\<close>

partial_function (option) db_reconnect ::
    "(nat \<Rightarrow> bool \<times> TcpSocket option) \<Rightarrow> nat \<Rightarrow> 'k DbClient \<Rightarrow> 'k DbClient option" where
  "db_reconnect attempts i client =
     (if \<not> fst (attempts i) then Some client
      else if fst (db_connect (snd (attempts i)) client) then Some (snd (db_connect (snd (attempts i)) client))
      else db_reconnect attempts (Suc i) (snd (db_connect (snd (attempts i)) client)))"

lemma db_connect_ok: "fst (db_connect established client) \<longleftrightarrow> established \<noteq> None"
  by (simp add: db_connect_def split: option.splits)

lemma db_reconnect_stops:
  assumes "db_reconnect attempts i client = Some client'"
  shows "\<exists>j\<ge>i. \<not> fst (attempts j) \<or> snd (attempts j) \<noteq> None"
proof (rule db_reconnect.raw_induct [where P = "\<lambda>attempts i _ _. \<exists>j\<ge>i. \<not> fst (attempts j) \<or> snd (attempts j) \<noteq> None",
      OF _ assms])
  fix f :: "(nat \<Rightarrow> bool \<times> TcpSocket option) \<Rightarrow> nat \<Rightarrow> 'k DbClient \<Rightarrow> 'k DbClient option" and attempts i client y
  assume IH: "\<And>attempts i client y. f attempts i client = Some y \<Longrightarrow>
      \<exists>j\<ge>i. \<not> fst (attempts j) \<or> snd (attempts j) \<noteq> None"
    and "(if \<not> fst (attempts i) then Some client
      else if fst (db_connect (snd (attempts i)) client) then Some (snd (db_connect (snd (attempts i)) client))
      else f attempts (Suc i) (snd (db_connect (snd (attempts i)) client))) = Some y"
  then consider "\<not> fst (attempts i) \<or> snd (attempts i) \<noteq> None" | client' where "f attempts (Suc i) client' = Some y"
    by (auto simp: db_connect_ok split: if_splits)
  then show "\<exists>j\<ge>i. \<not> fst (attempts j) \<or> snd (attempts j) \<noteq> None"
  proof cases
    case 1
    then show ?thesis by auto
  next
    case (2 client')
    then obtain j where "Suc i \<le> j" "\<not> fst (attempts j) \<or> snd (attempts j) \<noteq> None"
      using IH by blast
    then show ?thesis by (intro exI [of _ j]) simp
  qed
qed

lemma db_reconnect_ends:
  assumes "\<not> fst (attempts (i + n)) \<or> snd (attempts (i + n)) \<noteq> None"
  shows "db_reconnect attempts i client \<noteq> None"
  using assms
proof (induction n arbitrary: i client)
  case 0
  then show ?case by (subst db_reconnect.simps) (simp add: db_connect_ok)
next
  case (Suc n)
  then show ?case by (subst db_reconnect.simps) simp
qed

lemma db_reconnect_iff:
  "db_reconnect attempts i client \<noteq> None \<longleftrightarrow> (\<exists>j\<ge>i. \<not> fst (attempts j) \<or> snd (attempts j) \<noteq> None)"
  using db_reconnect_stops [of attempts i client] db_reconnect_ends [of attempts i _ client]
  by (metis le_add_diff_inverse not_None_eq)

section \<open>Decoding replies\<close>

definition read_account_reply :: "(ByteReader, AccountLookup) state" where
  "read_account_reply = do {
     _ \<leftarrow> reader_u32;
     found \<leftarrow> reader_u8;
     accountId \<leftarrow> reader_u64;
     passwordHash \<leftarrow> reader_string;
     level \<leftarrow> reader_u8;
     State_Monad.return \<lparr>lookup_found = (found \<noteq> 0), lookup_accountId = accountId,
       lookup_passwordHash = passwordHash, lookup_permissionLevel = level\<rparr>
   }"

definition read_create_reply :: "(ByteReader, DbResult \<times> u64) state" where
  "read_create_reply = do {
     _ \<leftarrow> reader_u32;
     result \<leftarrow> reader_u8;
     accountId \<leftarrow> reader_u64;
     State_Monad.return (DbResult_of result, accountId)
   }"

definition read_result_reply :: "(ByteReader, DbResult) state" where
  "read_result_reply = do {
     _ \<leftarrow> reader_u32;
     result \<leftarrow> reader_u8;
     State_Monad.return (DbResult_of result)
   }"

definition read_exists_reply :: "(ByteReader, bool) state" where
  "read_exists_reply = do {
     _ \<leftarrow> reader_u32;
     exists \<leftarrow> reader_u8;
     State_Monad.return (exists \<noteq> 0)
   }"

definition read_session_reply :: "(ByteReader, SessionLookup) state" where
  "read_session_reply = do {
     _ \<leftarrow> reader_u32;
     found \<leftarrow> reader_u8;
     accountId \<leftarrow> reader_u64;
     username \<leftarrow> reader_string;
     level \<leftarrow> reader_u8;
     State_Monad.return \<lparr>session_found = (found \<noteq> 0), session_accountId = accountId,
       session_username = username, session_permissionLevel = level\<rparr>
   }"

text \<open>The lambdas: a wrong type or a lost connection is a failure; otherwise the callback gets what
  was read and whether the reader stayed healthy.\<close>

definition result_handler :: "DbMessage \<Rightarrow> bool \<Rightarrow> u16 \<Rightarrow> bytes \<Rightarrow> db_reply" where
  "result_handler expected ok ty data =
     (if \<not> ok \<or> ty \<noteq> DbMessage_code expected then ResultReply False DbError
      else case read_all read_result_reply data of (good, result) \<Rightarrow> ResultReply good result)"

definition create_handler :: "bool \<Rightarrow> u16 \<Rightarrow> bytes \<Rightarrow> db_reply" where
  "create_handler ok ty data =
     (if \<not> ok \<or> ty \<noteq> DbMessage_code AccountCreateResponse then CreateReply False DbError 0
      else case read_all read_create_reply data of
        (good, result, accountId) \<Rightarrow> CreateReply good result accountId)"

fun run_handler :: "'k Handler \<Rightarrow> bool \<Rightarrow> u16 \<Rightarrow> bytes \<Rightarrow> 'k \<times> db_reply" where
  "run_handler (LookupAccountHandler k) ok ty data = (k,
     if \<not> ok \<or> ty \<noteq> DbMessage_code AccountLookupResponse then AccountReply False no_account
     else case read_all read_account_reply data of (good, result) \<Rightarrow> AccountReply good result)"
| "run_handler (CreateAccountHandler k) ok ty data = (k, create_handler ok ty data)"
| "run_handler (DeleteAccountHandler k) ok ty data = (k, result_handler AccountDeleteResponse ok ty data)"
| "run_handler (CreateAccountWithLevelHandler k) ok ty data = (k, create_handler ok ty data)"
| "run_handler (SetPermissionLevelHandler k) ok ty data =
     (k, result_handler AccountSetLevelResponse ok ty data)"
| "run_handler (AdminExistsHandler k) ok ty data = (k,
     if \<not> ok \<or> ty \<noteq> DbMessage_code AdminExistsResponse then ExistsReply False False
     else case read_all read_exists_reply data of (good, found) \<Rightarrow> ExistsReply good found)"
| "run_handler (CreateSessionHandler k) ok ty data = (k, result_handler SessionCreateResponse ok ty data)"
| "run_handler (LookupSessionHandler k) ok ty data = (k,
     if \<not> ok \<or> ty \<noteq> DbMessage_code SessionLookupResponse then SessionReply False no_session
     else case read_all read_session_reply data of (good, result) \<Rightarrow> SessionReply good result)"
| "run_handler (DeleteSessionHandler k) ok ty data = (k, result_handler SessionDeleteResponse ok ty data)"

section \<open>Calls\<close>

definition nextRequestId :: "'k DbClient \<Rightarrow> u32 \<times> 'k DbClient" where
  "nextRequestId client = (mNextRequestId client, client\<lparr>mNextRequestId := mNextRequestId client + 1\<rparr>)"

definition registerHandler :: "u32 \<Rightarrow> 'k Handler \<Rightarrow> 'k DbClient \<Rightarrow> 'k DbClient" where
  "registerHandler requestId handler client =
     client\<lparr>mPending := map_emplace requestId handler (mPending client)\<rparr>"

definition stream_send :: "u16 \<Rightarrow> bytes \<Rightarrow> 'k DbClient \<Rightarrow> 'k DbClient" where
  "stream_send ty payload client = client\<lparr>mStream := map_option (send ty payload) (mStream client)\<rparr>"

text \<open>The shape every method shares: fail at once when disconnected, else take a request id,
  write it and the arguments, send, and register the handler. The immediate failure is
  returned as the callback to invoke.\<close>

definition db_request ::
  "DbMessage \<Rightarrow> (bytes \<Rightarrow> bytes) list \<Rightarrow> 'k Handler \<Rightarrow> 'k \<times> db_reply \<Rightarrow> 'k DbClient \<Rightarrow>
   ('k \<times> db_reply) option \<times> 'k DbClient" where
  "db_request ty arguments handler failure client =
     (if \<not> mConnected client then (Some failure, client)
      else case nextRequestId client of (requestId, client1) \<Rightarrow>
        (None, registerHandler requestId handler
           (stream_send (DbMessage_code ty) (writes (writer_u32 requestId # arguments) []) client1)))"

definition lookupAccount where
  "lookupAccount username k = db_request AccountLookupRequest [writer_string username]
     (LookupAccountHandler k) (k, AccountReply False no_account)"

definition createAccount where
  "createAccount username passwordHash k = db_request AccountCreateRequest
     [writer_string username, writer_string passwordHash]
     (CreateAccountHandler k) (k, CreateReply False DbError 0)"

definition deleteAccount where
  "deleteAccount username k = db_request AccountDeleteRequest [writer_string username]
     (DeleteAccountHandler k) (k, ResultReply False DbError)"

definition createAccountWithLevel where
  "createAccountWithLevel username passwordHash level k = db_request AccountCreateWithLevelRequest
     [writer_string username, writer_string passwordHash, writer_u8 level]
     (CreateAccountWithLevelHandler k) (k, CreateReply False DbError 0)"

definition setPermissionLevel where
  "setPermissionLevel username level k = db_request AccountSetLevelRequest
     [writer_string username, writer_u8 level]
     (SetPermissionLevelHandler k) (k, ResultReply False DbError)"

definition adminExists where
  "adminExists k = db_request AdminExistsRequest [] (AdminExistsHandler k) (k, ExistsReply False False)"

definition createSession where
  "createSession accountId token ttlSeconds k = db_request SessionCreateRequest
     [writer_u64 accountId, writer_string token, writer_u32 ttlSeconds]
     (CreateSessionHandler k) (k, ResultReply False DbError)"

definition lookupSession where
  "lookupSession token k = db_request SessionLookupRequest [writer_string token]
     (LookupSessionHandler k) (k, SessionReply False no_session)"

definition deleteSession where
  "deleteSession token k = db_request SessionDeleteRequest [writer_string token]
     (DeleteSessionHandler k) (k, ResultReply False DbError)"

datatype db_call =
    LookupAccount string
  | CreateAccount string string
  | DeleteAccount string
  | CreateAccountWithLevel string string u8
  | SetPermissionLevel string u8
  | AdminExists
  | CreateSession u64 string u32
  | LookupSession string
  | DeleteSession string

fun db_issue :: "db_call \<Rightarrow> 'k \<Rightarrow> 'k DbClient \<Rightarrow> ('k \<times> db_reply) option \<times> 'k DbClient" where
  "db_issue (LookupAccount username) k = lookupAccount username k"
| "db_issue (CreateAccount username passwordHash) k = createAccount username passwordHash k"
| "db_issue (DeleteAccount username) k = deleteAccount username k"
| "db_issue (CreateAccountWithLevel username passwordHash level) k =
     createAccountWithLevel username passwordHash level k"
| "db_issue (SetPermissionLevel username level) k = setPermissionLevel username level k"
| "db_issue AdminExists k = adminExists k"
| "db_issue (CreateSession accountId token ttl) k = createSession accountId token ttl k"
| "db_issue (LookupSession token) k = lookupSession token k"
| "db_issue (DeleteSession token) k = deleteSession token k"

text \<open>The parts of a call, as its method gives them to the connection.\<close>

fun call_type :: "db_call \<Rightarrow> DbMessage" where
  "call_type (LookupAccount _) = AccountLookupRequest"
| "call_type (CreateAccount _ _) = AccountCreateRequest"
| "call_type (DeleteAccount _) = AccountDeleteRequest"
| "call_type (CreateAccountWithLevel _ _ _) = AccountCreateWithLevelRequest"
| "call_type (SetPermissionLevel _ _) = AccountSetLevelRequest"
| "call_type AdminExists = AdminExistsRequest"
| "call_type (CreateSession _ _ _) = SessionCreateRequest"
| "call_type (LookupSession _) = SessionLookupRequest"
| "call_type (DeleteSession _) = SessionDeleteRequest"

fun call_arguments :: "db_call \<Rightarrow> (bytes \<Rightarrow> bytes) list" where
  "call_arguments (LookupAccount username) = [writer_string username]"
| "call_arguments (CreateAccount username hash) = [writer_string username, writer_string hash]"
| "call_arguments (DeleteAccount username) = [writer_string username]"
| "call_arguments (CreateAccountWithLevel username hash level) =
     [writer_string username, writer_string hash, writer_u8 level]"
| "call_arguments (SetPermissionLevel username level) = [writer_string username, writer_u8 level]"
| "call_arguments AdminExists = []"
| "call_arguments (CreateSession accountId token ttl) =
     [writer_u64 accountId, writer_string token, writer_u32 ttl]"
| "call_arguments (LookupSession token) = [writer_string token]"
| "call_arguments (DeleteSession token) = [writer_string token]"

fun call_handler :: "db_call \<Rightarrow> 'k \<Rightarrow> 'k Handler" where
  "call_handler (LookupAccount _) = LookupAccountHandler"
| "call_handler (CreateAccount _ _) = CreateAccountHandler"
| "call_handler (DeleteAccount _) = DeleteAccountHandler"
| "call_handler (CreateAccountWithLevel _ _ _) = CreateAccountWithLevelHandler"
| "call_handler (SetPermissionLevel _ _) = SetPermissionLevelHandler"
| "call_handler AdminExists = AdminExistsHandler"
| "call_handler (CreateSession _ _ _) = CreateSessionHandler"
| "call_handler (LookupSession _) = LookupSessionHandler"
| "call_handler (DeleteSession _) = DeleteSessionHandler"

fun call_failure :: "db_call \<Rightarrow> db_reply" where
  "call_failure (LookupAccount _) = AccountReply False no_account"
| "call_failure (CreateAccount _ _) = CreateReply False DbError 0"
| "call_failure (CreateAccountWithLevel _ _ _) = CreateReply False DbError 0"
| "call_failure AdminExists = ExistsReply False False"
| "call_failure (LookupSession _) = SessionReply False no_session"
| "call_failure _ = ResultReply False DbError"

lemmas db_methods = lookupAccount_def createAccount_def deleteAccount_def createAccountWithLevel_def
  setPermissionLevel_def adminExists_def createSession_def lookupSession_def deleteSession_def

section \<open>Running callbacks\<close>

type_synonym ('k, 's) service = "'k \<Rightarrow> db_reply \<Rightarrow> 's \<Rightarrow> 's \<times> (db_call \<times> 'k) list"

text \<open>Carry out the calls a callback makes, each followed at once by its own callback when the
  client is disconnected.\<close>

fun db_perform :: "nat \<Rightarrow> ('k, 's) service \<Rightarrow> (db_call \<times> 'k) list \<Rightarrow>
    'k DbClient \<times> 's \<Rightarrow> 'k DbClient \<times> 's" where
  "db_perform depth run [] st = st"
| "db_perform depth run ((call, k) # calls) (client, s) =
     (case db_issue call k client of
        (None, client') \<Rightarrow> db_perform depth run calls (client', s)
      | (Some (k', reply), client') \<Rightarrow> (case depth of
           0 \<Rightarrow> db_perform 0 run calls (client', s)
         | Suc d \<Rightarrow> db_perform depth run calls
             (case run k' reply s of (s', calls') \<Rightarrow> db_perform d run calls' (client', s'))))"

definition db_callback :: "nat \<Rightarrow> ('k, 's) service \<Rightarrow> 'k \<times> db_reply \<Rightarrow>
    'k DbClient \<times> 's \<Rightarrow> 'k DbClient \<times> 's" where
  "db_callback depth run kr st = (case run (fst kr) (snd kr) (snd st) of
     (s', calls) \<Rightarrow> db_perform depth run calls (fst st, s'))"

definition failAllPending :: "nat \<Rightarrow> ('k, 's) service \<Rightarrow> 'k DbClient \<times> 's \<Rightarrow> 'k DbClient \<times> 's" where
  "failAllPending depth run st =
     fold (\<lambda>(requestId, handler). db_callback depth run (run_handler handler False 0 []))
       (mPending (fst st)) ((fst st)\<lparr>mPending := []\<rparr>, snd st)"

text \<open>What the callbacks cannot touch: the receiving side of the stream.\<close>

definition db_received :: "'k DbClient \<Rightarrow> (bytes \<times> bytes syscall list) option" where
  "db_received client = map_option received (mStream client)"

lemma db_request_received [simp]:
  "db_received (snd (db_request ty args h failure client)) = db_received client"
  by (cases "mStream client")
    (simp_all add: db_request_def nextRequestId_def registerHandler_def stream_send_def db_received_def)

lemma db_request_connected [simp]:
  "mConnected (snd (db_request ty args h failure client)) = mConnected client"
  by (simp add: db_request_def nextRequestId_def registerHandler_def stream_send_def)

lemma db_issue_received [simp]: "db_received (snd (db_issue call k client)) = db_received client"
  by (cases call) (simp_all add: db_methods)

lemma db_issue_connected [simp]: "mConnected (snd (db_issue call k client)) = mConnected client"
  by (cases call) (simp_all add: db_methods)

lemma db_perform_received [simp]:
  "db_received (fst (db_perform depth run calls st)) = db_received (fst st) \<and>
   mConnected (fst (db_perform depth run calls st)) = mConnected (fst st)"
proof (induction depth run calls st rule: db_perform.induct)
  case (1 depth run st)
  then show ?case by simp
next
  case (2 depth run call k calls client s)
  obtain now client' where i: "db_issue call k client = (now, client')" by fastforce
  then have c: "db_received client' = db_received client" "mConnected client' = mConnected client"
    using db_issue_received [of call k client] db_issue_connected [of call k client] by simp_all
  show ?case
  proof (cases now)
    case None
    with 2(1) [OF i [symmetric]] i c show ?thesis by simp
  next
    case (Some kr)
    obtain k' reply where kr: "kr = (k', reply)" by fastforce
    obtain s' calls' where r: "run k' reply s = (s', calls')" by fastforce
    show ?thesis
    proof (cases depth)
      case 0
      with 2(2) [OF i [symmetric] Some kr [symmetric]] i c Some kr show ?thesis by simp
    next
      case (Suc d)
      with 2(3) [OF i [symmetric] Some kr [symmetric] Suc r [symmetric]]
        2(4) [OF i [symmetric] Some kr [symmetric] Suc] i c Some kr r
      show ?thesis by simp
    qed
  qed
qed

lemma db_callback_received [simp]:
  "db_received (fst (db_callback depth run kr st)) = db_received (fst st)"
  "mConnected (fst (db_callback depth run kr st)) = mConnected (fst st)"
  by (simp_all add: db_callback_def split: prod.splits)

section \<open>Polling\<close>

text \<open>One reply: the request id at its head selects the handler, which is removed before it runs.\<close>

definition take_reply :: "nat \<Rightarrow> ('k, 's) service \<Rightarrow> Message \<Rightarrow> 'k DbClient \<times> 's \<Rightarrow> 'k DbClient \<times> 's" where
  "take_reply depth run message st =
     (case read_all reader_u32 (msg_payload message) of (good, requestId) \<Rightarrow>
        if \<not> good then st
        else case map_find requestId (mPending (fst st)) of
            None \<Rightarrow> st
          | Some handler \<Rightarrow>
              db_callback depth run (run_handler handler True (msg_type message) (msg_payload message))
                ((fst st)\<lparr>mPending := map_erase requestId (mPending (fst st))\<rparr>, snd st))"

definition db_unread :: "'k DbClient \<Rightarrow> nat" where
  "db_unread client = (case db_received client of None \<Rightarrow> 0 | Some (b, _) \<Rightarrow> length b)"

lemma take_reply_received [simp]:
  "db_received (fst (take_reply depth run message st)) = db_received (fst st)"
  "mConnected (fst (take_reply depth run message st)) = mConnected (fst st)"
  by (auto simp: take_reply_def db_received_def [of "_\<lparr>mPending := _\<rparr>"] simp flip: db_received_def
      split: prod.splits option.splits)

function db_dispatch :: "nat \<Rightarrow> ('k, 's) service \<Rightarrow> 'k DbClient \<times> 's \<Rightarrow> 'k DbClient \<times> 's" where
  "db_dispatch depth run (client, s) = (case mStream client of
      None \<Rightarrow> (client, s)
    | Some stream \<Rightarrow> (case next_message stream of
        (None, _) \<Rightarrow> (client, s)
      | (Some message, stream') \<Rightarrow>
          db_dispatch depth run (take_reply depth run message (client\<lparr>mStream := Some stream'\<rparr>, s))))"
  by pat_completeness auto
termination
proof (relation "measure (\<lambda>(depth, run, st). db_unread (fst st))", goal_cases)
  case (2 depth run client s stream x y message)
  then show ?case
    using next_message_shorter [of stream message y]
    by (simp add: db_unread_def db_received_def [of client]) (simp add: db_received_def received_def)
qed simp

declare db_dispatch.simps [simp del]

lemma db_dispatch_stop:
  "\<not> (\<exists>stream message stream'. mStream client = Some stream \<and> next_message stream = (Some message, stream')) \<Longrightarrow>
   db_dispatch depth run (client, s) = (client, s)"
  by (subst db_dispatch.simps) (auto split: option.splits prod.splits)

lemma db_dispatch_step:
  "mStream client = Some stream \<Longrightarrow> next_message stream = (Some message, stream') \<Longrightarrow>
   db_dispatch depth run (client, s) =
     db_dispatch depth run (take_reply depth run message (client\<lparr>mStream := Some stream'\<rparr>, s))"
  by (simp add: db_dispatch.simps)

lemma db_dispatch_induct [case_names stop step]:
  assumes "\<And>client s. \<not> (\<exists>stream message stream'. mStream client = Some stream \<and>
      next_message stream = (Some message, stream')) \<Longrightarrow> P (client, s)"
    and "\<And>client s stream message stream'. mStream client = Some stream \<Longrightarrow>
      next_message stream = (Some message, stream') \<Longrightarrow>
      P (take_reply depth run message (client\<lparr>mStream := Some stream'\<rparr>, s)) \<Longrightarrow> P (client, s)"
  shows "P st"
proof (induction "db_unread (fst st)" arbitrary: st rule: less_induct)
  case less
  obtain client s where st: "st = (client, s)" by fastforce
  show ?case
  proof (cases "\<exists>stream message stream'. mStream client = Some stream \<and>
      next_message stream = (Some message, stream')")
    case False
    then show ?thesis using assms(1) st by blast
  next
    case True
    then obtain stream message stream' where m: "mStream client = Some stream"
      and n: "next_message stream = (Some message, stream')" by blast
    let ?client = "client\<lparr>mStream := Some stream'\<rparr>"
    let ?t = "take_reply depth run message (?client, s)"
    have "db_received (fst ?t) = db_received ?client" by simp
    then have "db_unread (fst ?t) < db_unread client"
      using next_message_shorter [OF n] m
      by (simp add: db_unread_def db_received_def [of client] db_received_def [of ?client] received_def)
    then show ?thesis using less assms(2) [OF m n] st by simp
  qed
qed

definition db_poll :: "nat \<Rightarrow> ('k, 's) service \<Rightarrow> 'k DbClient \<times> 's \<Rightarrow> bool \<times> 'k DbClient \<times> 's" where
  "db_poll depth run st = (case mStream (fst st) of
      None \<Rightarrow> (False, st)
    | Some stream \<Rightarrow>
        if \<not> mConnected (fst st) then (False, st)
        else case pump stream of
          (False, stream') \<Rightarrow>
            (False, failAllPending depth run ((fst st)\<lparr>mStream := Some stream', mConnected := False\<rparr>, snd st))
        | (True, stream') \<Rightarrow> (True, db_dispatch depth run ((fst st)\<lparr>mStream := Some stream'\<rparr>, snd st)))"

section \<open>Every callback runs exactly once\<close>

fun handler_tag :: "'k Handler \<Rightarrow> 'k" where
  "handler_tag (LookupAccountHandler k) = k"
| "handler_tag (CreateAccountHandler k) = k"
| "handler_tag (DeleteAccountHandler k) = k"
| "handler_tag (CreateAccountWithLevelHandler k) = k"
| "handler_tag (SetPermissionLevelHandler k) = k"
| "handler_tag (AdminExistsHandler k) = k"
| "handler_tag (CreateSessionHandler k) = k"
| "handler_tag (LookupSessionHandler k) = k"
| "handler_tag (DeleteSessionHandler k) = k"

definition pending_tags :: "'k DbClient \<Rightarrow> 'k multiset" where
  "pending_tags client = mset (map (\<lambda>(_, h). handler_tag h) (mPending client))"

text \<open>Request ids in use are below the next one, so \<open>emplace\<close> never meets an entry.\<close>

definition pending_ok :: "'k DbClient \<Rightarrow> bool" where
  "pending_ok client \<longleftrightarrow> map_ok (mPending client) \<and>
     list_all (\<lambda>i. i < mNextRequestId client) (map_keys (mPending client))"

lemma fst_run_handler [simp]: "fst (run_handler h ok ty data) = handler_tag h"
  by (cases h) simp_all

lemma db_issue_down: "\<not> mConnected client \<Longrightarrow> \<exists>reply. db_issue call k client = (Some (k, reply), client)"
  by (cases call) (simp_all add: db_methods db_request_def)

lemma db_issue_request:
  "db_issue call k = db_request (call_type call) (call_arguments call) (call_handler call k) (k, call_failure call)"
  by (cases call) (simp_all add: db_methods)

lemma handler_tag_call [simp]: "handler_tag (call_handler call k) = k"
  by (cases call) simp_all

lemma db_issue_up:
  assumes "mConnected client"
  obtains h client' where "db_issue call k client = (None, client')" and "handler_tag h = k"
    and "mPending client' = map_emplace (mNextRequestId client) h (mPending client)"
    and "mNextRequestId client' = mNextRequestId client + 1" and "mConnected client'"
  using assms by (intro that [of "snd (db_issue call k client)" "call_handler call k"])
    (simp_all add: db_issue_request db_request_def nextRequestId_def registerHandler_def stream_send_def)

lemma emplace_fresh_id:
  fixes k :: "'i::linorder"
  assumes "list_all (\<lambda>i. i < k) (map_keys m)"
  shows "map_emplace k v m = m @ [(k, v)]"
proof -
  have "map_find k m = None"
    using assms map_keys_find [of k m] by (fastforce simp: list_all_iff)
  moreover have "map_assign k v m = m @ [(k, v)]"
    using assms by (induction k v m rule: map_assign.induct) (auto simp: map_keys_def)
  ultimately show ?thesis by (simp add: map_emplace_def)
qed

lemma u32_no_wrap:
  fixes k :: u32
  assumes "unat k + Suc n < 2 ^ 32"
  shows "unat (k + 1) = Suc (unat k)" and "k < k + 1"
proof -
  show eq: "unat (k + 1) = Suc (unat k)"
    using assms by (simp add: unat_word_ariths)
  then show "k < k + 1" by (simp add: word_less_nat_alt)
qed

lemma db_perform_idle:
  "mConnected client \<Longrightarrow> snd (db_perform depth run calls (client, s)) = s"
proof (induction calls arbitrary: client)
  case (Cons ck calls)
  obtain call k where ck: "ck = (call, k)" by fastforce
  obtain client' where "db_issue call k client = (None, client')" and "mConnected client'"
    by (rule db_issue_up [OF Cons.prems]) blast
  with Cons.IH [of client'] show ?case by (simp add: ck)
qed simp

text \<open>On a connected client every call made is pending afterwards, and no callback runs.\<close>

lemma db_perform_up:
  assumes "mConnected client" and "pending_ok client"
    and "unat (mNextRequestId client) + length calls < 2 ^ 32"
  shows "snd (db_perform depth run calls (client, s)) = s \<and>
    pending_ok (fst (db_perform depth run calls (client, s))) \<and>
    unat (mNextRequestId (fst (db_perform depth run calls (client, s)))) =
      unat (mNextRequestId client) + length calls \<and>
    pending_tags (fst (db_perform depth run calls (client, s))) =
      pending_tags client + mset (map snd calls)"
  using assms
proof (induction calls arbitrary: client)
  case Nil
  then show ?case by simp
next
  case (Cons ck calls)
  obtain call k where ck: "ck = (call, k)" by fastforce
  obtain h client' where i: "db_issue call k client = (None, client')" and h: "handler_tag h = k"
    and p: "mPending client' = map_emplace (mNextRequestId client) h (mPending client)"
    and n: "mNextRequestId client' = mNextRequestId client + 1" and c: "mConnected client'"
    by (rule db_issue_up [OF Cons.prems(1)])
  have wrap: "unat (mNextRequestId client + 1) = Suc (unat (mNextRequestId client))"
    "mNextRequestId client < mNextRequestId client + 1"
    using u32_no_wrap [of "mNextRequestId client" "length calls"] Cons.prems(3) by simp_all
  have p': "mPending client' = mPending client @ [(mNextRequestId client, h)]"
    using Cons.prems(2) by (simp add: p emplace_fresh_id pending_ok_def)
  have "pending_ok client'"
    using Cons.prems(2) wrap(2) less_trans [OF _ wrap(2)]
    by (auto simp: pending_ok_def p' n map_ok_def map_keys_def list_all_iff sorted_wrt_append)
  with Cons.IH [of client'] Cons.prems(3) c wrap show ?case
    by (simp add: ck i n p' pending_tags_def h)
qed

lemma pending_tags_erase:
  assumes "map_ok (mPending client)" and "map_find requestId (mPending client) = Some h"
  shows "pending_tags client =
    add_mset (handler_tag h) (pending_tags (client\<lparr>mPending := map_erase requestId (mPending client)\<rparr>))"
proof -
  have "mset m = add_mset (i, h) (mset (map_erase i m))"
    if "sorted_wrt (<) (map_keys m)" and "map_find i m = Some h" for m and i :: u32
    using that
  proof (induction m)
    case (Cons x m)
    obtain j w where x: "x = (j, w)" by fastforce
    show ?case
    proof (cases "j = i")
      case True
      then have "map_erase i m = m"
        using Cons.prems(1) x by (fastforce simp: map_erase_def map_keys_def filter_id_conv)
      with True Cons.prems(2) x show ?thesis by (simp add: map_erase_def map_find_def)
    next
      case False
      with Cons x show ?thesis by (simp add: map_erase_def map_keys_def map_find_def)
    qed
  qed simp
  from this [OF _ assms(2)] assms(1) show ?thesis by (simp add: pending_tags_def map_ok_def)
qed

text \<open>The service with a record of the callbacks invoked and the calls made.\<close>

definition traced :: "('k, 's) service \<Rightarrow> ('k, 's \<times> 'k list \<times> 'k list) service" where
  "traced run k reply st = (case st of (s, invoked, made) \<Rightarrow> (case run k reply s of
     (s', calls) \<Rightarrow> ((s', invoked @ [k], made @ map snd calls), calls)))"

definition balance :: "'s \<times> 'k list \<times> 'k list \<Rightarrow> 'k multiset \<Rightarrow> 'k multiset \<Rightarrow> bool" where
  "balance st before after \<longleftrightarrow> (case st of (_, invoked, made) \<Rightarrow>
     mset invoked + after = before + mset made)"

text \<open>A service whose callbacks chain finitely: a callback only makes calls whose own
  callbacks rank lower.\<close>

locale ranked_service =
  fixes run :: "('k, 's) service"
    and rank :: "'k \<Rightarrow> nat"
  assumes chain: "run k reply s = (s', calls) \<Longrightarrow> (call, k') \<in> set calls \<Longrightarrow> rank k' < rank k"
begin

text \<open>The fuel: with more of it than the rank of every call, the depth makes no difference.\<close>

lemma perform_fuel:
  assumes "list_all (\<lambda>(_, k). rank k < depth) calls" and "depth \<le> depth'"
  shows "db_perform depth run calls (client, s) = db_perform depth' run calls (client, s)"
  using assms
proof (induction depth arbitrary: calls depth' client s rule: less_induct)
  case (less depth)
  from less.prems show ?case
  proof (induction calls arbitrary: client s)
    case Nil
    then show ?case by simp
  next
    case (Cons ck calls)
    obtain call k where ck: "ck = (call, k)" by fastforce
    show ?case
    proof (cases "mConnected client")
      case True
      then obtain client' where "db_issue call k client = (None, client')"
        by (rule db_issue_up)
      with Cons ck show ?thesis by simp
    next
      case False
      obtain reply where i: "db_issue call k client = (Some (k, reply), client)"
        using db_issue_down [OF False] by blast
      obtain d d' where d: "depth = Suc d" "depth' = Suc d'"
        using Cons.prems ck by (cases depth; cases depth') auto
      obtain s' calls' where r: "run k reply s = (s', calls')" by fastforce
      have "list_all (\<lambda>(_, k'). rank k' < d) calls'"
        using chain [OF r] Cons.prems(1) ck d by (fastforce simp: list_all_iff)
      then have "db_perform d run calls' (client, s') = db_perform d' run calls' (client, s')"
        using less.IH [of d calls' d'] Cons.prems(2) d by simp
      with Cons.IH Cons.prems show ?thesis
        by (simp add: ck i d r) (metis prod.collapse)
    qed
  qed
qed

lemma chain_perform:
  "(call, k') \<in> set (snd (traced run k reply st)) \<Longrightarrow> rank k' < rank k"
  using chain by (auto simp: traced_def split: prod.splits)

lemma perform_down:
  assumes "\<not> mConnected client" and "list_all (\<lambda>(_, k). rank k < depth) calls"
    and "balance st before (after + mset (map snd calls))"
  shows "fst (db_perform depth (traced run) calls (client, st)) = client \<and>
    balance (snd (db_perform depth (traced run) calls (client, st))) before after"
  using assms
proof (induction depth arbitrary: calls st after rule: less_induct)
  case (less depth)
  from less.prems show ?case
  proof (induction calls arbitrary: st)
    case Nil
    then show ?case by simp
  next
    case (Cons ck calls)
    obtain call k where ck: "ck = (call, k)" by fastforce
    obtain reply where i: "db_issue call k client = (Some (k, reply), client)"
      using db_issue_down [OF Cons.prems(1)] by blast
    obtain d where d: "depth = Suc d" using Cons.prems(2) ck by (cases depth) auto
    obtain st' calls' where r: "traced run k reply st = (st', calls')" by fastforce
    have "list_all (\<lambda>(_, k'). rank k' < d) calls'"
      using chain_perform [of _ _ k reply st] r Cons.prems(2) ck d by (fastforce simp: list_all_iff)
    moreover have "balance st' before (after + mset (map snd calls) + mset (map snd calls'))"
      using Cons.prems(3) r ck by (auto simp: balance_def traced_def split: prod.splits)
    ultimately have "fst (db_perform d (traced run) calls' (client, st')) = client \<and>
        balance (snd (db_perform d (traced run) calls' (client, st'))) before (after + mset (map snd calls))"
      using less.IH [of d calls' st' "after + mset (map snd calls)"] d Cons.prems(1) by simp
    with Cons.IH [of "snd (db_perform d (traced run) calls' (client, st'))"] Cons.prems show ?case
      by (auto simp: ck i r d) (metis prod.collapse)+
  qed
qed

lemma callback_down:
  assumes "\<not> mConnected client" and "rank (fst kr) \<le> depth"
    and "balance st before (add_mset (fst kr) after)"
  shows "fst (db_callback depth (traced run) kr (client, st)) = client \<and>
    balance (snd (db_callback depth (traced run) kr (client, st))) before after"
proof -
  obtain st' calls where r: "traced run (fst kr) (snd kr) st = (st', calls)" by fastforce
  have "list_all (\<lambda>(_, k'). rank k' < depth) calls"
    using chain_perform [of _ _ "fst kr" "snd kr" st] r assms(2) by (fastforce simp: list_all_iff)
  moreover have "balance st' before (after + mset (map snd calls))"
    using assms(3) r by (auto simp: balance_def traced_def split: prod.splits)
  ultimately show ?thesis
    using perform_down [of client depth calls st'] assms(1) r by (simp add: db_callback_def)
qed

lemma callback_up:
  assumes "mConnected client" and "pending_ok client"
    and "balance st before (add_mset (fst kr) (pending_tags client))"
    and "db_callback depth (traced run) kr (client, st) = (client', st')"
  shows "length (snd (snd st)) \<le> length (snd (snd st')) \<and>
    (unat (mNextRequestId client) + (length (snd (snd st')) - length (snd (snd st))) < 2 ^ 32 \<longrightarrow>
      balance st' before (pending_tags client') \<and> pending_ok client' \<and> unat (mNextRequestId client') =
        unat (mNextRequestId client) + (length (snd (snd st')) - length (snd (snd st))))"
proof -
  obtain s invoked made where st: "st = (s, invoked, made)" by (metis prod_cases3)
  obtain s1 calls where r: "run (fst kr) (snd kr) s = (s1, calls)" by fastforce
  let ?st1 = "(s1, invoked @ [fst kr], made @ map snd calls)"
  have "db_callback depth (traced run) kr (client, st) = db_perform depth (traced run) calls (client, ?st1)"
    by (simp add: db_callback_def traced_def st r)
  with assms(4) have p: "db_perform depth (traced run) calls (client, ?st1) = (client', st')" by simp
  moreover from this have st': "st' = ?st1"
    using db_perform_idle [OF assms(1), of depth "traced run" calls ?st1] by simp
  ultimately show ?thesis
    using db_perform_up [OF assms(1,2), of calls depth "traced run" ?st1] assms(3)
    by (auto simp: st balance_def)
qed

lemma take_reply_up:
  assumes "mConnected client" and "pending_ok client" and "balance st before (pending_tags client)"
    and "take_reply depth (traced run) message (client, st) = (client', st')"
  shows "length (snd (snd st)) \<le> length (snd (snd st')) \<and>
    (unat (mNextRequestId client) + (length (snd (snd st')) - length (snd (snd st))) < 2 ^ 32 \<longrightarrow>
      balance st' before (pending_tags client') \<and> pending_ok client' \<and> unat (mNextRequestId client') =
        unat (mNextRequestId client) + (length (snd (snd st')) - length (snd (snd st))))"
proof -
  obtain good requestId where q: "read_all reader_u32 (msg_payload message) = (good, requestId)" by fastforce
  show ?thesis
  proof (cases "if good then map_find requestId (mPending client) else None")
    case None
    then have "client' = client" and "st' = st"
      using assms(4) q by (auto simp: take_reply_def split: if_splits)
    with assms(2,3) show ?thesis by simp
  next
    case (Some h)
    let ?client = "client\<lparr>mPending := map_erase requestId (mPending client)\<rparr>"
    let ?kr = "run_handler h True (msg_type message) (msg_payload message)"
    have find: "good" "map_find requestId (mPending client) = Some h"
      using Some by (auto split: if_splits)
    have cb: "db_callback depth (traced run) ?kr (?client, st) = (client', st')"
      using assms(4) find q by (simp add: take_reply_def)
    have "pending_ok ?client"
      using assms(2) by (auto simp: pending_ok_def list_all_iff map_keys_find split: if_splits)
    moreover have "pending_tags client = add_mset (handler_tag h) (pending_tags ?client)"
      using pending_tags_erase [OF _ find(2)] assms(2) by (simp add: pending_ok_def)
    ultimately show ?thesis
      using callback_up [of ?client st before ?kr depth client' st'] cb assms(1,3) by simp
  qed
qed

lemma callback_made:
  "mConnected client \<Longrightarrow> length (snd (snd st)) \<le> length (snd (snd (snd (db_callback depth (traced run) kr (client, st)))))"
  by (auto simp: db_callback_def traced_def db_perform_idle split: prod.splits)

lemma take_reply_made:
  "mConnected client \<Longrightarrow> length (snd (snd st)) \<le> length (snd (snd (snd (take_reply depth (traced run) message (client, st)))))"
  by (auto simp: take_reply_def split: prod.splits option.splits intro: callback_made)

lemma dispatch_made:
  "mConnected (fst st) \<Longrightarrow> length (snd (snd (snd st))) \<le> length (snd (snd (snd (db_dispatch depth (traced run) st))))"
proof (induction st rule: db_dispatch_induct [where depth = depth and run = "traced run"])
  case (stop client s)
  then show ?case by (simp add: db_dispatch_stop)
next
  case (step client s stream message stream')
  then show ?case
    using take_reply_made [of "client\<lparr>mStream := Some stream'\<rparr>" s depth message]
    by (simp add: db_dispatch_step)
qed

lemma dispatch_up:
  assumes "mConnected (fst st)" and "pending_ok (fst st)" and "balance (snd st) before (pending_tags (fst st))"
    and "db_dispatch depth (traced run) st = st'"
    and "unat (mNextRequestId (fst st)) + (length (snd (snd (snd st'))) - length (snd (snd (snd st)))) < 2 ^ 32"
  shows "balance (snd st') before (pending_tags (fst st')) \<and> pending_ok (fst st')"
  using assms
proof (induction st rule: db_dispatch_induct [where depth = depth and run = "traced run"])
  case (stop client s)
  then show ?case by (auto simp: db_dispatch_stop)
next
  case (step client s stream message stream')
  let ?client = "client\<lparr>mStream := Some stream'\<rparr>"
  obtain client1 s1 where t: "take_reply depth (traced run) message (?client, s) = (client1, s1)"
    by (metis surj_pair)
  have d: "db_dispatch depth (traced run) (client1, s1) = st'"
    using step.prems(4) step.hyps t by (simp add: db_dispatch_step)
  have up: "mConnected client1"
    using take_reply_received(2) [of depth "traced run" message "(?client, s)"] t step.prems(1) by simp
  have made: "length (snd (snd s1)) \<le> length (snd (snd (snd st')))"
    using dispatch_made [of "(client1, s1)" depth] up d by simp
  have "pending_ok ?client" "balance s before (pending_tags ?client)" "mConnected ?client"
    using step.prems by (simp_all add: pending_ok_def pending_tags_def)
  with take_reply_up [OF this(3,1,2) t] step.prems(5) made
  have "balance s1 before (pending_tags client1) \<and> pending_ok client1 \<and>
      unat (mNextRequestId client1) + (length (snd (snd (snd st'))) - length (snd (snd s1))) < 2 ^ 32"
    by simp
  with step.IH up d t show ?case by simp
qed

lemma fail_all_down:
  assumes "\<not> mConnected client" and "list_all (\<lambda>(_, h). rank (handler_tag h) \<le> depth) hs"
    and "balance st before (mset (map (\<lambda>(_, h). handler_tag h) hs) + after)"
  shows "fst (fold (\<lambda>(i, h). db_callback depth (traced run) (run_handler h False 0 [])) hs (client, st)) = client \<and>
    balance (snd (fold (\<lambda>(i, h). db_callback depth (traced run) (run_handler h False 0 [])) hs (client, st))) before after"
  using assms
proof (induction hs arbitrary: st)
  case (Cons x hs)
  obtain i h where x: "x = (i, h)" by fastforce
  let ?st = "db_callback depth (traced run) (run_handler h False 0 []) (client, st)"
  have "fst ?st = client \<and> balance (snd ?st) before (mset (map (\<lambda>(_, h). handler_tag h) hs) + after)"
    using Cons.prems x by (intro callback_down) simp_all
  with Cons.IH [of "snd ?st"] Cons.prems x show ?case
    by simp (metis prod.collapse)
qed simp

text \<open>Over a whole \<open>poll\<close>: the callbacks run and the handlers still registered are together
  those registered before and those of the calls made meanwhile; after a lost connection none is
  left.\<close>

lemma poll_balance:
  assumes "pending_ok client" and "list_all (\<lambda>(_, h). rank (handler_tag h) \<le> depth) (mPending client)"
    and "db_poll depth (traced run) (client, (s, [], [])) = (up, client', (s', invoked, made))"
    and "unat (mNextRequestId client) + length made < 2 ^ 32"
  shows "mset invoked + pending_tags client' = pending_tags client + mset made"
    and "mConnected client \<and> mStream client \<noteq> None \<and> \<not> up \<Longrightarrow> mPending client' = []"
proof -
  have "(mset invoked + pending_tags client' = pending_tags client + mset made) \<and>
    (mConnected client \<and> mStream client \<noteq> None \<and> \<not> up \<longrightarrow> mPending client' = [])"
  proof (cases "mConnected client \<and> mStream client \<noteq> None")
    case False
    then show ?thesis using assms(3) by (auto simp: db_poll_def split: option.splits)
  next
    case True
    then obtain stream where m: "mStream client = Some stream" and c: "mConnected client" by blast
    obtain ok stream' where p: "pump stream = (ok, stream')" by fastforce
    show ?thesis
    proof (cases ok)
      case True
      let ?st = "(client\<lparr>mStream := Some stream'\<rparr>, (s, [], []))"
      have "up" and "db_dispatch depth (traced run) ?st = (client', (s', invoked, made))"
        using assms(3) m c p True by (auto simp: db_poll_def)
      with dispatch_up [of ?st "pending_tags client" depth "(client', (s', invoked, made))"] assms(1,4) c
      show ?thesis by (simp add: balance_def pending_ok_def pending_tags_def)
    next
      case False
      let ?client = "client\<lparr>mStream := Some stream', mConnected := False, mPending := []\<rparr>"
      have "\<not> up" and "fold (\<lambda>(i, h). db_callback depth (traced run) (run_handler h False 0 []))
          (mPending client) (?client, (s, [], [])) = (client', (s', invoked, made))"
        using assms(3) m c p False by (auto simp: db_poll_def failAllPending_def)
      with fail_all_down [of ?client depth "mPending client" "(s, [], [])" "pending_tags client" "{#}"] assms(2)
      show ?thesis by (auto simp: balance_def pending_tags_def)
    qed
  qed
  then show "mset invoked + pending_tags client' = pending_tags client + mset made"
    and "mConnected client \<and> mStream client \<noteq> None \<and> \<not> up \<Longrightarrow> mPending client' = []" by blast+
qed

end

end
