(* ===== verification/TcpServer.thy ===== *)
theory TcpServer
  imports Framing StdMap
begin

text \<open>
  \<^verbatim>\<open>server/common/src/tcp_server.cpp\<close>: the single-threaded TCP server the three services
  share. A callback is a function of the service's own state; what it does to the server
  (\<open>send\<close>, \<open>closeConnection\<close>: the only calls the services make from a callback) is the list of
  operations it returns, carried out in order right after it. What \<^verbatim>\<open>poll\<close> and \<^verbatim>\<open>accept\<close> report is an
  argument of each pass. The lemmas show that a connection id is never given out again, that
  every complete message reaches the callback once and in order, and that a connection is
  closed exactly once, after all callbacks of the pass.
\<close>

section \<open>State and callbacks\<close>

record Address =
  addr_ip :: u32
  addr_port :: u16

type_synonym ConnectionId = u64

record Connection =
  conn_stream :: MessageStream
  conn_peer :: Address

record TcpServer =
  mConnections :: "(ConnectionId, Connection) std_map"
  mClosing :: "ConnectionId list"
  mNextId :: ConnectionId

definition tcp_server :: TcpServer where
  "tcp_server = \<lparr>mConnections = [], mClosing = [], mNextId = 1\<rparr>"

datatype server_op = Send ConnectionId u16 bytes | CloseConnection ConnectionId

record 's Callbacks =
  onConnect :: "(ConnectionId \<Rightarrow> Address \<Rightarrow> 's \<Rightarrow> 's \<times> server_op list) option"
  onMessage :: "(ConnectionId \<Rightarrow> u16 \<Rightarrow> bytes \<Rightarrow> 's \<Rightarrow> 's \<times> server_op list) option"
  onDisconnect :: "(ConnectionId \<Rightarrow> 's \<Rightarrow> 's \<times> server_op list) option"

text \<open>What one pass learns from the kernel: whether the listener is readable and which
  connections it then accepts, and which open connections are readable.\<close>

record readiness =
  listener_readable :: bool
  accepted :: "(TcpSocket \<times> Address) list"
  readable :: "ConnectionId \<Rightarrow> bool"

section \<open>Operations\<close>

definition server_send :: "ConnectionId \<Rightarrow> u16 \<Rightarrow> bytes \<Rightarrow> TcpServer \<Rightarrow> TcpServer" where
  "server_send cid ty payload srv = (case map_find cid (mConnections srv) of
      None \<Rightarrow> srv
    | Some c \<Rightarrow> srv\<lparr>mConnections := map_modify cid
        (\<lambda>c. c\<lparr>conn_stream := send ty payload (conn_stream c)\<rparr>) (mConnections srv)\<rparr>)"

definition closeConnection :: "ConnectionId \<Rightarrow> TcpServer \<Rightarrow> TcpServer" where
  "closeConnection cid srv = srv\<lparr>mClosing := mClosing srv @ [cid]\<rparr>"

definition peer :: "ConnectionId \<Rightarrow> TcpServer \<Rightarrow> Address option" where
  "peer cid srv = map_option conn_peer (map_find cid (mConnections srv))"

definition connectionCount :: "TcpServer \<Rightarrow> nat" where
  "connectionCount srv = length (mConnections srv)"

fun server_step :: "server_op \<Rightarrow> TcpServer \<Rightarrow> TcpServer" where
  "server_step (Send cid ty payload) srv = server_send cid ty payload srv"
| "server_step (CloseConnection cid) srv = closeConnection cid srv"

definition server_steps :: "server_op list \<Rightarrow> TcpServer \<Rightarrow> TcpServer" where
  "server_steps = fold server_step"

text \<open>Calling a callback that may be unset.\<close>

definition call_back :: "('s \<Rightarrow> 's \<times> server_op list) option \<Rightarrow> TcpServer \<times> 's \<Rightarrow> TcpServer \<times> 's" where
  "call_back cb st = (case cb of
      None \<Rightarrow> st
    | Some f \<Rightarrow> (case f (snd st) of (s', ops) \<Rightarrow> (server_steps ops (fst st), s')))"

definition call_connect :: "'s Callbacks \<Rightarrow> ConnectionId \<Rightarrow> Address \<Rightarrow> TcpServer \<times> 's \<Rightarrow> TcpServer \<times> 's" where
  "call_connect cb cid from = call_back (map_option (\<lambda>f. f cid from) (onConnect cb))"

definition call_message :: "'s Callbacks \<Rightarrow> ConnectionId \<Rightarrow> Message \<Rightarrow> TcpServer \<times> 's \<Rightarrow> TcpServer \<times> 's" where
  "call_message cb cid m = call_back (map_option (\<lambda>f. f cid (msg_type m) (msg_payload m)) (onMessage cb))"

definition call_disconnect :: "'s Callbacks \<Rightarrow> ConnectionId \<Rightarrow> TcpServer \<times> 's \<Rightarrow> TcpServer \<times> 's" where
  "call_disconnect cb cid = call_back (map_option (\<lambda>f. f cid) (onDisconnect cb))"

text \<open>The accept loop of \<open>poll\<close>.\<close>

fun accept_all :: "'s Callbacks \<Rightarrow> (TcpSocket \<times> Address) list \<Rightarrow> TcpServer \<times> 's \<Rightarrow> TcpServer \<times> 's" where
  "accept_all cb [] st = st"
| "accept_all cb ((socket, from) # rest) (srv, s) =
     (let cid = mNextId srv;
          srv' = srv\<lparr>mNextId := cid + 1,
            mConnections := map_emplace cid \<lparr>conn_stream = message_stream socket, conn_peer = from\<rparr>
              (mConnections srv)\<rparr>
      in accept_all cb rest (call_connect cb cid from (srv', s)))"

section \<open>What the callbacks cannot touch\<close>

text \<open>The view of a server that \<open>send\<close> and \<open>closeConnection\<close> leave alone: which connections
  exist, who they are, what has been received on them and what is still to come.\<close>

definition receive_view :: "TcpServer \<Rightarrow> (ConnectionId, bytes \<times> bytes syscall list) std_map" where
  "receive_view srv = map_each (\<lambda>c. received (conn_stream c)) (mConnections srv)"

lemma server_step_next [simp]: "mNextId (server_step x srv) = mNextId srv"
  by (cases x) (auto simp: server_send_def closeConnection_def split: option.splits)

lemma server_step_view [simp]: "receive_view (server_step x srv) = receive_view srv"
  by (cases x) (auto simp: server_send_def closeConnection_def receive_view_def map_modify_def
      map_each_def split: option.splits)

lemma server_steps_next [simp]: "mNextId (server_steps ops srv) = mNextId srv"
  unfolding server_steps_def by (induction ops arbitrary: srv) simp_all

lemma server_steps_view [simp]: "receive_view (server_steps ops srv) = receive_view srv"
  unfolding server_steps_def by (induction ops arbitrary: srv) simp_all

lemma call_back_next [simp]: "mNextId (fst (call_back cb st)) = mNextId (fst st)"
  by (simp add: call_back_def split: option.splits prod.splits)

lemma call_back_view [simp]: "receive_view (fst (call_back cb st)) = receive_view (fst st)"
  by (simp add: call_back_def split: option.splits prod.splits)

lemma view_keys: "map_keys (mConnections srv) = map_keys (receive_view srv)"
  by (simp add: receive_view_def)

lemma view_find: "map_find cid (receive_view srv) =
    map_option (\<lambda>c. received (conn_stream c)) (map_find cid (mConnections srv))"
  by (simp add: receive_view_def)

lemma receive_view_closing [simp]: "receive_view (srv\<lparr>mClosing := x\<rparr>) = receive_view srv"
  by (simp add: receive_view_def)

definition set_stream :: "ConnectionId \<Rightarrow> MessageStream \<Rightarrow> TcpServer \<Rightarrow> TcpServer" where
  "set_stream cid stream srv = srv\<lparr>mConnections :=
     map_modify cid (\<lambda>c. c\<lparr>conn_stream := stream\<rparr>) (mConnections srv)\<rparr>"

lemma set_stream_next [simp]: "mNextId (set_stream cid stream srv) = mNextId srv"
  by (simp add: set_stream_def)

lemma set_stream_view [simp]:
  "receive_view (set_stream cid stream srv) = map_modify cid (\<lambda>_. received stream) (receive_view srv)"
  by (simp add: receive_view_def set_stream_def map_modify_def map_each_def case_prod_beta')

text \<open>How much is left to read on a connection; it shrinks with every message taken.\<close>

definition unread_bytes :: "ConnectionId \<Rightarrow> TcpServer \<Rightarrow> nat" where
  "unread_bytes cid srv = (case map_find cid (receive_view srv) of None \<Rightarrow> 0 | Some (b, _) \<Rightarrow> length b)"

lemma unread_bytes_less:
  assumes "map_find cid (mConnections srv) = Some c"
    and "next_message (conn_stream c) = (Some m, stream)"
  shows "unread_bytes cid (fst (call_back cb (set_stream cid stream srv, s))) < unread_bytes cid srv"
  using assms next_message_shorter [OF assms(2)]
  by (simp add: unread_bytes_def view_find received_def)

section \<open>One pass of the server\<close>

text \<open>The message loop of one connection. The connection is looked up again after each
  callback, as in the source.\<close>

function dispatch :: "'s Callbacks \<Rightarrow> ConnectionId \<Rightarrow> TcpServer \<times> 's \<Rightarrow> TcpServer \<times> 's" where
  "dispatch cb cid (srv, s) = (case map_find cid (mConnections srv) of
      None \<Rightarrow> (srv, s)
    | Some c \<Rightarrow> (case next_message (conn_stream c) of
        (None, _) \<Rightarrow> (srv, s)
      | (Some m, stream) \<Rightarrow>
          dispatch cb cid (call_message cb cid m (set_stream cid stream srv, s))))"
  by pat_completeness auto
termination
  by (relation "measure (\<lambda>(cb, cid, st). unread_bytes cid (fst st))")
    (auto simp: call_message_def intro: unread_bytes_less [OF _ sym])

declare dispatch.simps [simp del]

definition read_connection :: "'s Callbacks \<Rightarrow> readiness \<Rightarrow> ConnectionId \<Rightarrow> TcpServer \<times> 's \<Rightarrow> TcpServer \<times> 's" where
  "read_connection cb ready cid st = (case st of (srv, s) \<Rightarrow>
     if \<not> readable ready cid then st
     else (case map_find cid (mConnections srv) of
       None \<Rightarrow> st
     | Some c \<Rightarrow> (case pump (conn_stream c) of
         (False, stream) \<Rightarrow> (closeConnection cid (set_stream cid stream srv), s)
       | (True, stream) \<Rightarrow> dispatch cb cid (set_stream cid stream srv, s))))"

definition close_one :: "'s Callbacks \<Rightarrow> ConnectionId \<Rightarrow> TcpServer \<times> 's \<Rightarrow> TcpServer \<times> 's" where
  "close_one cb cid st = (case map_find cid (mConnections (fst st)) of
      None \<Rightarrow> st
    | Some _ \<Rightarrow> (case call_disconnect cb cid st of (srv, s) \<Rightarrow>
        (srv\<lparr>mConnections := map_erase cid (mConnections srv)\<rparr>, s)))"

definition poll :: "'s Callbacks \<Rightarrow> readiness \<Rightarrow> TcpServer \<times> 's \<Rightarrow> TcpServer \<times> 's" where
  "poll cb ready st =
     (let ids = map_keys (mConnections (fst st));
          st1 = (if listener_readable ready then accept_all cb (accepted ready) st else st);
          st2 = fold (read_connection cb ready) ids st1;
          st3 = fold (close_one cb) (mClosing (fst st2)) st2
      in ((fst st3)\<lparr>mClosing := []\<rparr>, snd st3))"

section \<open>What the service sees\<close>

datatype event =
    Connected ConnectionId Address
  | Received ConnectionId Message
  | Disconnected ConnectionId

fun handle_event :: "'s Callbacks \<Rightarrow> event \<Rightarrow> 's \<Rightarrow> 's" where
  "handle_event cb (Connected cid from) s =
     (case onConnect cb of None \<Rightarrow> s | Some f \<Rightarrow> fst (f cid from s))"
| "handle_event cb (Received cid m) s =
     (case onMessage cb of None \<Rightarrow> s | Some f \<Rightarrow> fst (f cid (msg_type m) (msg_payload m) s))"
| "handle_event cb (Disconnected cid) s =
     (case onDisconnect cb of None \<Rightarrow> s | Some f \<Rightarrow> fst (f cid s))"

fun accept_events :: "ConnectionId \<Rightarrow> (TcpSocket \<times> Address) list \<Rightarrow> event list" where
  "accept_events cid [] = []"
| "accept_events cid ((socket, from) # rest) = Connected cid from # accept_events (cid + 1) rest"

text \<open>The messages a stream yields when it is pumped once and read until nothing complete is left.\<close>

definition stream_messages :: "MessageStream \<Rightarrow> Message list" where
  "stream_messages stream = (case pump stream of (ok, s) \<Rightarrow> if ok then fst (drain s) else [])"

definition message_events :: "readiness \<Rightarrow> TcpServer \<Rightarrow> event list" where
  "message_events ready srv = concat (map (\<lambda>(cid, c).
     if readable ready cid then map (Received cid) (stream_messages (conn_stream c)) else [])
     (mConnections srv))"

lemma snd_call_connect [simp]: "snd (call_connect cb cid from st) = handle_event cb (Connected cid from) (snd st)"
  by (simp add: call_connect_def call_back_def split: option.splits prod.splits)

lemma snd_call_message [simp]: "snd (call_message cb cid m st) = handle_event cb (Received cid m) (snd st)"
  by (simp add: call_message_def call_back_def split: option.splits prod.splits)

lemma snd_call_disconnect [simp]: "snd (call_disconnect cb cid st) = handle_event cb (Disconnected cid) (snd st)"
  by (simp add: call_disconnect_def call_back_def split: option.splits prod.splits)

lemma fst_calls [simp]:
  "mNextId (fst (call_connect cb cid from st)) = mNextId (fst st)"
  "mNextId (fst (call_message cb cid m st)) = mNextId (fst st)"
  "mNextId (fst (call_disconnect cb cid st)) = mNextId (fst st)"
  "receive_view (fst (call_connect cb cid from st)) = receive_view (fst st)"
  "receive_view (fst (call_message cb cid m st)) = receive_view (fst st)"
  "receive_view (fst (call_disconnect cb cid st)) = receive_view (fst st)"
  by (simp_all add: call_connect_def call_message_def call_disconnect_def)

lemma stream_messages_received:
  "received s = received t \<Longrightarrow> stream_messages s = stream_messages t"
  using pump_received [of s t] drain_received [of "snd (pump s)" "snd (pump t)"]
  by (auto simp: stream_messages_def split: prod.splits)

text \<open>The message loop: the service handles the buffered messages in order, and nothing but the
  connection's own buffer changes in the receive view.\<close>

lemma dispatch_stop:
  "map_find cid (mConnections srv) = None \<Longrightarrow> dispatch cb cid (srv, s) = (srv, s)"
  "map_find cid (mConnections srv) = Some c \<Longrightarrow> next_message (conn_stream c) = (None, t) \<Longrightarrow>
     dispatch cb cid (srv, s) = (srv, s)"
  by (simp_all add: dispatch.simps)

lemma dispatch_step:
  "map_find cid (mConnections srv) = Some c \<Longrightarrow> next_message (conn_stream c) = (Some m, t) \<Longrightarrow>
     dispatch cb cid (srv, s) = dispatch cb cid (call_message cb cid m (set_stream cid t srv, s))"
  by (simp add: dispatch.simps)

lemma dispatch_induct [case_names none stop step]:
  assumes "\<And>cid srv s. map_find cid (mConnections srv) = None \<Longrightarrow> P cid (srv, s)"
    and "\<And>cid srv s c t. map_find cid (mConnections srv) = Some c \<Longrightarrow>
        next_message (conn_stream c) = (None, t) \<Longrightarrow> P cid (srv, s)"
    and "\<And>cid srv s c m t. map_find cid (mConnections srv) = Some c \<Longrightarrow>
        next_message (conn_stream c) = (Some m, t) \<Longrightarrow>
        P cid (call_message cb cid m (set_stream cid t srv, s)) \<Longrightarrow> P cid (srv, s)"
  shows "P cid st"
proof (induction "unread_bytes cid (fst st)" arbitrary: st rule: less_induct)
  case less
  obtain srv s where st: "st = (srv, s)" by fastforce
  show ?case
  proof (cases "map_find cid (mConnections srv)")
    case None
    then show ?thesis using assms(1) st by blast
  next
    case (Some c)
    obtain m t where n: "next_message (conn_stream c) = (m, t)" by fastforce
    show ?thesis
    proof (cases m)
      case None
      then show ?thesis using assms(2) Some n st by blast
    next
      case (Some x)
      have "P cid (call_message cb cid x (set_stream cid t srv, s))"
        using unread_bytes_less [OF \<open>map_find cid _ = _\<close>, of x t] n Some st
        by (intro less) (simp add: call_message_def)
      then show ?thesis using assms(3) \<open>map_find cid _ = _\<close> n Some st by blast
    qed
  qed
qed

lemma dispatch_frame:
  "mNextId (fst (dispatch cb cid st)) = mNextId (fst st) \<and>
   map_keys (receive_view (fst (dispatch cb cid st))) = map_keys (receive_view (fst st)) \<and>
   (\<forall>j. j \<noteq> cid \<longrightarrow> map_find j (receive_view (fst (dispatch cb cid st))) = map_find j (receive_view (fst st)))"
  by (induction cid st rule: dispatch_induct [where cb = cb]) (simp_all add: dispatch_stop dispatch_step)

lemma dispatch_service:
  "map_find cid (receive_view (fst st)) = Some (received stream) \<Longrightarrow>
   snd (dispatch cb cid st) = fold (handle_event cb) (map (Received cid) (fst (drain stream))) (snd st)"
proof (induction cid st arbitrary: stream rule: dispatch_induct [where cb = cb])
  case (none cid srv s)
  then show ?case by (simp add: view_find)
next
  case (stop cid srv s c t)
  then have "fst (next_message stream) = None"
    using next_message_received [of "conn_stream c" stream] by (simp add: view_find)
  with stop(1,2) show ?case
    by (subst drain.simps) (auto simp: dispatch_stop split: prod.splits)
next
  case (step cid srv s c m t)
  obtain m' t' where n: "next_message stream = (m', t')" by fastforce
  with step(1,2,4) have m': "m' = Some m" and eq: "received t = received t'"
    using next_message_received [of "conn_stream c" stream] by (simp_all add: view_find)
  then have "fst (drain stream) = m # fst (drain t')"
    using n by (subst drain.simps) (auto split: prod.splits)
  with step(1,2) step.IH [of t'] eq show ?case
    by (simp add: dispatch_step view_find)
qed

lemma read_connection_frame:
  "mNextId (fst (read_connection cb ready cid st)) = mNextId (fst st)"
  "map_keys (receive_view (fst (read_connection cb ready cid st))) = map_keys (receive_view (fst st))"
  "j \<noteq> cid \<Longrightarrow> map_find j (receive_view (fst (read_connection cb ready cid st))) =
      map_find j (receive_view (fst st))"
  by (cases st; auto simp: read_connection_def closeConnection_def dispatch_frame
      split: option.splits prod.splits bool.splits)+

definition connection_events :: "readiness \<Rightarrow> TcpServer \<Rightarrow> ConnectionId \<Rightarrow> event list" where
  "connection_events ready srv cid = (case map_find cid (mConnections srv) of
      None \<Rightarrow> []
    | Some c \<Rightarrow> if readable ready cid then map (Received cid) (stream_messages (conn_stream c)) else [])"

lemma connection_events_view:
  assumes "map_find cid (receive_view srv) = map_find cid (receive_view srv')"
  shows "connection_events ready srv cid = connection_events ready srv' cid"
  using assms
  by (cases "map_find cid (mConnections srv)"; cases "map_find cid (mConnections srv')")
    (auto simp: connection_events_def view_find dest: stream_messages_received)

lemma read_connection_service:
  "snd (read_connection cb ready cid st) = fold (handle_event cb) (connection_events ready (fst st) cid) (snd st)"
  by (cases st) (auto simp: read_connection_def connection_events_def stream_messages_def view_find
      dispatch_service split: option.splits prod.splits bool.splits)

lemma read_connections:
  assumes "distinct ids"
  shows "snd (fold (read_connection cb ready) ids st) =
      fold (handle_event cb) (concat (map (connection_events ready (fst st)) ids)) (snd st) \<and>
    mNextId (fst (fold (read_connection cb ready) ids st)) = mNextId (fst st) \<and>
    map_keys (receive_view (fst (fold (read_connection cb ready) ids st))) = map_keys (receive_view (fst st))"
  using assms
proof (induction ids arbitrary: st)
  case Nil
  then show ?case by simp
next
  case (Cons i ids)
  have "map (connection_events ready (fst (read_connection cb ready i st))) ids =
      map (connection_events ready (fst st)) ids"
    using Cons.prems by (auto intro!: connection_events_view read_connection_frame(3))
  with Cons show ?case
    by (simp add: read_connection_service read_connection_frame del: map_eq_conv)
qed

text \<open>A connection whose stream failed is asked to close.\<close>

definition stream_failed :: "readiness \<Rightarrow> TcpServer \<Rightarrow> ConnectionId \<Rightarrow> bool" where
  "stream_failed ready srv cid \<longleftrightarrow> readable ready cid \<and>
     (case map_find cid (mConnections srv) of None \<Rightarrow> False | Some c \<Rightarrow> \<not> fst (pump (conn_stream c)))"

lemma stream_failed_view:
  assumes "map_find cid (receive_view srv) = map_find cid (receive_view srv')"
  shows "stream_failed ready srv cid = stream_failed ready srv' cid"
  using assms
  by (auto simp: stream_failed_def view_find split: option.splits dest: pump_received)

lemma closing_server_steps: "set (mClosing srv) \<subseteq> set (mClosing (server_steps ops srv))"
  unfolding server_steps_def
proof (induction ops arbitrary: srv)
  case (Cons x ops)
  have "set (mClosing srv) \<subseteq> set (mClosing (server_step x srv))"
    by (cases x) (auto simp: server_send_def closeConnection_def split: option.splits)
  with Cons.IH [of "server_step x srv"] show ?case by simp
qed simp

lemma closing_call_back: "set (mClosing (fst st)) \<subseteq> set (mClosing (fst (call_back cb st)))"
  using closing_server_steps by (fastforce simp: call_back_def split: option.splits prod.splits)

lemma closing_dispatch: "set (mClosing (fst st)) \<subseteq> set (mClosing (fst (dispatch cb cid st)))"
proof (induction cid st rule: dispatch_induct [where cb = cb])
  case (step cid srv s c m t)
  moreover have "set (mClosing srv) \<subseteq> set (mClosing (fst (call_message cb cid m (set_stream cid t srv, s))))"
    using closing_call_back [of "(set_stream cid t srv, s)"] by (simp add: call_message_def set_stream_def)
  ultimately show ?case by (auto simp: dispatch_step)
qed (simp_all add: dispatch_stop)

lemma closing_read_connection:
  "set (mClosing (fst st)) \<subseteq> set (mClosing (fst (read_connection cb ready cid st)))"
  "stream_failed ready (fst st) cid \<Longrightarrow> cid \<in> set (mClosing (fst (read_connection cb ready cid st)))"
  using closing_dispatch [of "(set_stream cid stream (fst st), snd st)" cb cid for stream]
  by (cases st; fastforce simp: read_connection_def stream_failed_def closeConnection_def set_stream_def
      split: option.splits prod.splits bool.splits)+

lemma closing_read_connections:
  assumes "distinct ids"
  shows "set (mClosing (fst st)) \<union> {cid \<in> set ids. stream_failed ready (fst st) cid} \<subseteq>
     set (mClosing (fst (fold (read_connection cb ready) ids st)))"
  using assms
proof (induction ids arbitrary: st)
  case (Cons i ids)
  have "stream_failed ready (fst (read_connection cb ready i st)) j = stream_failed ready (fst st) j"
    if "j \<in> set ids" for j
    using that Cons.prems by (intro stream_failed_view read_connection_frame(3)) auto
  with Cons.IH [of "read_connection cb ready i st"] closing_read_connection(1) [of st cb ready i]
    closing_read_connection(2) [of ready st i cb]
  show ?case using Cons.prems by auto
qed simp

section \<open>Accepting and closing\<close>

text \<open>Ids in use are below the next one: the invariant of the connection table.\<close>

definition server_ok :: "TcpServer \<Rightarrow> bool" where
  "server_ok srv \<longleftrightarrow> map_ok (mConnections srv) \<and> list_all (\<lambda>k. k < mNextId srv) (map_keys (mConnections srv))"

lemma server_ok_view:
  "server_ok srv \<longleftrightarrow> map_ok (receive_view srv) \<and> list_all (\<lambda>k. k < mNextId srv) (map_keys (receive_view srv))"
  by (simp add: server_ok_def map_ok_def view_keys)

fun fresh_ids :: "ConnectionId \<Rightarrow> nat \<Rightarrow> ConnectionId list" where
  "fresh_ids cid 0 = []"
| "fresh_ids cid (Suc n) = cid # fresh_ids (cid + 1) n"

lemma map_assign_last:
  "list_all (\<lambda>j. j < k) (map_keys m) \<Longrightarrow> map_assign k v m = m @ [(k, v)]"
  by (induction k v m rule: map_assign.induct) (auto simp: map_keys_def)

lemma list_all_less_find:
  fixes k :: "'k::linorder"
  shows "list_all (\<lambda>j. j < k) (map_keys m) \<Longrightarrow> map_find k m = None"
  using map_keys_find [of k m] by (fastforce simp: list_all_iff)

lemma emplace_fresh:
  "list_all (\<lambda>j. j < k) (map_keys m) \<Longrightarrow> map_emplace k v m = m @ [(k, v)]"
  by (simp add: map_emplace_def list_all_less_find map_assign_last)

lemma map_find_append: "map_find k (m @ m') = (case map_find k m of None \<Rightarrow> map_find k m' | Some v \<Rightarrow> Some v)"
  by (simp add: map_find_def map_add_def split: option.splits)

lemma view_emplace_fresh:
  assumes "server_ok srv"
  shows "receive_view (srv\<lparr>mNextId := n, mConnections := map_emplace (mNextId srv) c (mConnections srv)\<rparr>) =
     receive_view srv @ [(mNextId srv, received (conn_stream c))]"
  using assms by (simp add: server_ok_def emplace_fresh receive_view_def map_each_def)

lemma no_wrap_step:
  fixes k :: u64
  assumes "unat k + Suc n < 2 ^ 64"
  shows "unat (k + 1) = Suc (unat k)" and "k < k + 1"
proof -
  show eq: "unat (k + 1) = Suc (unat k)"
    using assms by (simp add: unat_word_ariths)
  then show "k < k + 1" by (simp add: word_less_nat_alt)
qed

lemma server_ok_accept:
  assumes "server_ok srv" and "mNextId srv < mNextId srv + 1"
  shows "server_ok (srv\<lparr>mNextId := mNextId srv + 1,
     mConnections := map_emplace (mNextId srv) c (mConnections srv)\<rparr>)"
proof -
  have "k < mNextId srv + 1" if "k < mNextId srv" for k
    using that assms(2) by (rule less_trans)
  with assms show ?thesis
    by (auto simp: server_ok_def emplace_fresh map_keys_def map_ok_def list_all_iff sorted_wrt_append)
qed

lemma accept_all_spec:
  assumes "server_ok (fst st)" and "unat (mNextId (fst st)) + length new < 2 ^ 64"
  shows "server_ok (fst (accept_all cb new st)) \<and>
    mNextId (fst st) \<le> mNextId (fst (accept_all cb new st)) \<and>
    snd (accept_all cb new st) = fold (handle_event cb) (accept_events (mNextId (fst st)) new) (snd st) \<and>
    (\<forall>j. j < mNextId (fst st) \<longrightarrow>
       map_find j (receive_view (fst (accept_all cb new st))) = map_find j (receive_view (fst st))) \<and>
    map_keys (receive_view (fst (accept_all cb new st))) =
      map_keys (receive_view (fst st)) @ fresh_ids (mNextId (fst st)) (length new)"
  using assms
proof (induction cb new st rule: accept_all.induct)
  case (1 cb st)
  then show ?case by simp
next
  case (2 cb socket addr rest srv s)
  let ?id = "mNextId srv"
  let ?srv = "srv\<lparr>mNextId := ?id + 1,
    mConnections := map_emplace ?id \<lparr>conn_stream = message_stream socket, conn_peer = addr\<rparr> (mConnections srv)\<rparr>"
  let ?st = "call_connect cb ?id addr (?srv, s)"
  have wrap: "unat (?id + 1) = Suc (unat ?id)" "?id < ?id + 1"
    using "2.prems"(2) no_wrap_step [of ?id "length rest"] by simp_all
  have view: "receive_view (fst ?st) = receive_view srv @ [(?id, received (message_stream socket))]"
    using view_emplace_fresh [of srv] "2.prems"(1) by simp
  have keys: "map_keys (receive_view (fst ?st)) = map_keys (receive_view srv) @ [?id]"
    unfolding view by (simp add: map_keys_def)
  have ok: "server_ok (fst ?st)"
    using server_ok_accept [of srv] "2.prems"(1) wrap(2) by (simp add: server_ok_view)
  have "map_find j (receive_view (fst ?st)) = map_find j (receive_view srv)" if "j < ?id" for j
    unfolding view using that by (auto simp: map_find_append split: option.splits) (simp add: map_find_def)
  moreover have "j < ?id + 1" if "j < ?id" for j
    using that wrap(2) by (rule less_trans)
  ultimately show ?case
    using "2.IH" [OF refl refl ok] "2.prems" wrap keys
    by (auto simp: Let_def)
qed

text \<open>The ids closed at the end of a pass: each live one once, in the order first asked for.\<close>

fun closed_ids :: "ConnectionId list \<Rightarrow> ConnectionId list \<Rightarrow> ConnectionId list" where
  "closed_ids live [] = []"
| "closed_ids live (i # ids) =
     (if List.member live i then i # closed_ids (removeAll i live) ids else closed_ids live ids)"

lemma set_closed_ids: "set (closed_ids live ids) = set live \<inter> set ids"
  by (induction live ids rule: closed_ids.induct) auto

lemma distinct_closed_ids: "distinct (closed_ids live ids)"
  by (induction live ids rule: closed_ids.induct) (auto simp: set_closed_ids)

lemma close_one_live:
  assumes "map_find cid (mConnections (fst st)) \<noteq> None"
  shows "receive_view (fst (close_one cb cid st)) = map_erase cid (receive_view (fst st))"
    and "snd (close_one cb cid st) = handle_event cb (Disconnected cid) (snd st)"
    and "mNextId (fst (close_one cb cid st)) = mNextId (fst st)"
proof -
  obtain srv s where d: "call_disconnect cb cid st = (srv, s)" by fastforce
  then have "receive_view srv = receive_view (fst st)" "mNextId srv = mNextId (fst st)"
      "s = handle_event cb (Disconnected cid) (snd st)"
    by (metis fst_calls(3,6) fst_conv snd_call_disconnect snd_conv)+
  moreover have "receive_view (srv\<lparr>mConnections := map_erase cid (mConnections srv)\<rparr>) =
      map_erase cid (receive_view srv)"
    by (simp add: receive_view_def map_each_def map_erase_def filter_map comp_def case_prod_beta')
  ultimately show "receive_view (fst (close_one cb cid st)) = map_erase cid (receive_view (fst st))"
    and "snd (close_one cb cid st) = handle_event cb (Disconnected cid) (snd st)"
    and "mNextId (fst (close_one cb cid st)) = mNextId (fst st)"
    using assms d by (auto simp: close_one_def)
qed

lemma keys_erase_filter: "map_keys (map_erase k m) = removeAll k (map_keys m)"
  by (induction m) (auto simp: map_keys_def map_erase_def)

lemma close_all:
  "map_keys (receive_view (fst (fold (close_one cb) ids st))) =
     filter (\<lambda>k. k \<notin> set ids) (map_keys (receive_view (fst st))) \<and>
   mNextId (fst (fold (close_one cb) ids st)) = mNextId (fst st) \<and>
   snd (fold (close_one cb) ids st) =
     fold (handle_event cb) (map Disconnected (closed_ids (map_keys (receive_view (fst st))) ids)) (snd st)"
proof (induction ids arbitrary: st)
  case Nil
  then show ?case by simp
next
  case (Cons i ids)
  show ?case
  proof (cases "map_find i (mConnections (fst st))")
    case None
    then have "i \<notin> set (map_keys (receive_view (fst st)))"
      by (simp add: map_keys_find view_find)
    moreover have "close_one cb i st = st"
      using None by (simp add: close_one_def)
    ultimately show ?thesis
      using Cons.IH [of st] by (auto intro!: filter_cong)
  next
    case (Some c)
    then have "i \<in> set (map_keys (receive_view (fst st)))"
      by (simp add: map_keys_find view_find)
    with Some Cons.IH [of "close_one cb i st"] close_one_live [of i st cb] show ?thesis
      by (auto simp: keys_erase_filter removeAll_filter_not_eq conj_commute intro!: filter_cong)
  qed
qed

section \<open>A whole pass\<close>

definition newly_accepted :: "readiness \<Rightarrow> (TcpSocket \<times> Address) list" where
  "newly_accepted ready = (if listener_readable ready then accepted ready else [])"

lemma message_events_connections:
  assumes "map_ok (mConnections srv)"
  shows "message_events ready srv = concat (map (connection_events ready srv) (map_keys (mConnections srv)))"
proof -
  have "(\<lambda>(cid, c). if readable ready cid then map (Received cid) (stream_messages (conn_stream c)) else []) x =
      connection_events ready srv (fst x)" if "x \<in> set (mConnections srv)" for x
  proof -
    obtain cid c where x: "x = (cid, c)" by fastforce
    then have "map_find cid (mConnections srv) = Some c"
      using that map_find_in_set [OF assms] by blast
    then show ?thesis by (simp add: x connection_events_def)
  qed
  then show ?thesis
    by (auto simp: message_events_def map_keys_def intro!: arg_cong [of _ _ concat])
qed

lemma poll_spec:
  assumes ok: "server_ok srv"
    and wrap: "unat (mNextId srv) + length (newly_accepted ready) < 2 ^ 64"
    and poll: "poll cb ready (srv, s) = (srv', s')"
  obtains closed where "server_ok srv'" and "mClosing srv' = []"
    and "mNextId srv \<le> mNextId srv'" and "distinct closed"
    and "map_keys (mConnections srv') = filter (\<lambda>k. k \<notin> set closed)
        (map_keys (mConnections srv) @ fresh_ids (mNextId srv) (length (newly_accepted ready)))"
    and "set closed \<subseteq> set (map_keys (mConnections srv) @ fresh_ids (mNextId srv) (length (newly_accepted ready)))"
    and "s' = fold (handle_event cb) (accept_events (mNextId srv) (newly_accepted ready) @
        message_events ready srv @ map Disconnected closed) s"
    and "\<And>cid. stream_failed ready srv cid \<Longrightarrow> cid \<in> set closed"
proof -
  let ?ids = "map_keys (mConnections srv)"
  define st1 where "st1 = accept_all cb (newly_accepted ready) (srv, s)"
  define st2 where "st2 = fold (read_connection cb ready) ?ids st1"
  define st3 where "st3 = fold (close_one cb) (mClosing (fst st2)) st2"
  define closed where "closed = closed_ids (map_keys (receive_view (fst st2))) (mClosing (fst st2))"
  have eq: "srv' = (fst st3)\<lparr>mClosing := []\<rparr>" "s' = snd st3"
    using poll by (auto simp: poll_def Let_def st1_def st2_def st3_def newly_accepted_def split: if_splits)
  have st1: "server_ok (fst st1)" "mNextId srv \<le> mNextId (fst st1)"
    "snd st1 = fold (handle_event cb) (accept_events (mNextId srv) (newly_accepted ready)) s"
    "\<And>j. j < mNextId srv \<Longrightarrow> map_find j (receive_view (fst st1)) = map_find j (receive_view srv)"
    "map_keys (receive_view (fst st1)) = ?ids @ fresh_ids (mNextId srv) (length (newly_accepted ready))"
    using accept_all_spec [of "(srv, s)" "newly_accepted ready" cb] ok wrap
    by (simp_all add: st1_def view_keys)
  have below: "j < mNextId srv" if "j \<in> set ?ids" for j
    using ok that by (auto simp: server_ok_def list_all_iff)
  have dist: "distinct ?ids"
    using ok std.distinct_keys by (auto simp: server_ok_def)
  have "map (connection_events ready (fst st1)) ?ids = map (connection_events ready srv) ?ids"
    using st1(4) below by (auto intro!: connection_events_view)
  then have events: "concat (map (connection_events ready (fst st1)) ?ids) = message_events ready srv"
    using ok by (simp only: message_events_connections server_ok_def)
  note st2 = read_connections [OF dist, of cb ready st1, folded st2_def]
  note st3 = close_all [of cb "mClosing (fst st2)" st2, folded st3_def closed_def]
  have keys2: "map_keys (receive_view (fst st2)) = ?ids @ fresh_ids (mNextId srv) (length (newly_accepted ready))"
    using st2 st1(5) by simp
  have set_closed: "set closed = set (map_keys (receive_view (fst st2))) \<inter> set (mClosing (fst st2))"
    by (simp add: closed_def set_closed_ids)
  have keys3: "map_keys (receive_view (fst st3)) = filter (\<lambda>k. k \<notin> set closed)
      (map_keys (receive_view (fst st2)))"
    using st3 set_closed by (auto intro!: filter_cong)
  have "server_ok (fst st3)"
    using st1(1) st2 st3 keys3 by (auto simp: server_ok_view map_ok_def sorted_wrt_filter list_all_iff)
  then have "server_ok srv'" by (simp add: eq server_ok_def)
  moreover have "cid \<in> set closed" if "stream_failed ready srv cid" for cid
  proof -
    have "cid \<in> set ?ids"
      using that by (auto simp: stream_failed_def map_keys_find split: option.splits)
    moreover from this have "stream_failed ready (fst st1) cid"
      using that stream_failed_view st1(4) below by metis
    ultimately show ?thesis
      using closing_read_connections [OF dist, of st1 ready cb] keys2
      by (auto simp: set_closed simp flip: st2_def)
  qed
  ultimately show thesis
    using that [of closed] st1 st2 st3 keys2 keys3 events set_closed
    by (simp add: eq view_keys closed_def distinct_closed_ids)
qed

section \<open>The connection table as an interface\<close>

text \<open>What a service relies on when it keeps a connection id: an id is live only if it was live
  before the pass or is one of those handed out in it, and handed-out ids only grow.\<close>

locale connection_table =
  fixes ok :: "'srv \<Rightarrow> bool"
    and live :: "'srv \<Rightarrow> ConnectionId list"
    and next_id :: "'srv \<Rightarrow> ConnectionId"
    and pass :: "'in \<Rightarrow> 'srv \<Rightarrow> 'srv"
    and arrivals :: "'in \<Rightarrow> nat"
  assumes ok_pass: "ok t \<Longrightarrow> unat (next_id t) + arrivals i < 2 ^ 64 \<Longrightarrow> ok (pass i t)"
    and next_pass: "ok t \<Longrightarrow> unat (next_id t) + arrivals i < 2 ^ 64 \<Longrightarrow>
        next_id t \<le> next_id (pass i t) \<and> unat (next_id (pass i t)) = unat (next_id t) + arrivals i"
    and live_pass: "ok t \<Longrightarrow> unat (next_id t) + arrivals i < 2 ^ 64 \<Longrightarrow>
        k \<in> set (live (pass i t)) \<Longrightarrow> k \<in> set (live t) \<or> next_id t \<le> k"
begin

lemma stale_pass:
  assumes "ok t" and "unat (next_id t) + arrivals i < 2 ^ 64"
    and "k < next_id t" and "k \<notin> set (live t)"
  shows "k < next_id (pass i t) \<and> k \<notin> set (live (pass i t))"
  using assms next_pass live_pass by (meson leD less_le_trans)

lemma stale_passes:
  assumes "ok t" and "unat (next_id t) + sum_list (map arrivals ins) < 2 ^ 64"
    and "k < next_id t" and "k \<notin> set (live t)"
  shows "ok (fold pass ins t) \<and> k \<notin> set (live (fold pass ins t))"
  using assms
proof (induction ins arbitrary: t)
  case (Cons i ins)
  then have "unat (next_id t) + arrivals i < 2 ^ 64" by simp
  with Cons show ?case
    using stale_pass [of t i] ok_pass [of t i] next_pass [of t i] by simp
qed simp

end

lemma fold_next_accept:
  "unat (mNextId (fst st)) + length new < 2 ^ 64 \<Longrightarrow>
   unat (mNextId (fst (accept_all cb new st))) = unat (mNextId (fst st)) + length new"
proof (induction cb new st rule: accept_all.induct)
  case (2 cb socket addr rest srv s)
  then show ?case
    using no_wrap_step(1) [of "mNextId srv" "length rest"] by (simp add: Let_def)
qed simp

lemma poll_next:
  assumes "map_ok (mConnections (fst st))"
    and "unat (mNextId (fst st)) + length (newly_accepted ready) < 2 ^ 64"
  shows "unat (mNextId (fst (poll cb ready st))) = unat (mNextId (fst st)) + length (newly_accepted ready)"
  using fold_next_accept [of st "newly_accepted ready" cb] assms
    read_connections [OF std.distinct_keys, of "mConnections (fst st)" cb ready]
  by (auto simp: poll_def Let_def close_all newly_accepted_def)

lemma fresh_ids_ge:
  "unat cid + n < 2 ^ 64 \<Longrightarrow> k \<in> set (fresh_ids cid n) \<Longrightarrow> cid \<le> k"
proof (induction cid n rule: fresh_ids.induct)
  case (2 cid n)
  then show ?case
    using no_wrap_step [of cid n] by (auto dest: order.strict_implies_order intro: order.trans)
qed simp

interpretation poll_table: connection_table "\<lambda>st. server_ok (fst st)" "\<lambda>st. map_keys (mConnections (fst st))"
  "\<lambda>st. mNextId (fst st)" "poll cb" "\<lambda>ready. length (newly_accepted ready)" for cb :: "'s Callbacks"
proof unfold_locales
  fix t :: "TcpServer \<times> 's" and i :: readiness
  assume ok: "server_ok (fst t)" and wrap: "unat (mNextId (fst t)) + length (newly_accepted i) < 2 ^ 64"
  obtain srv' s' where p: "poll cb i (fst t, snd t) = (srv', s')" by fastforce
  then have p': "poll cb i t = (srv', s')" by simp
  obtain closed where spec: "server_ok srv'" "mNextId (fst t) \<le> mNextId srv'"
    "map_keys (mConnections srv') = filter (\<lambda>k. k \<notin> set closed)
        (map_keys (mConnections (fst t)) @ fresh_ids (mNextId (fst t)) (length (newly_accepted i)))"
    by (rule poll_spec [OF ok wrap p]) blast
  show "server_ok (fst (poll cb i t))" using spec(1) p' by simp
  show "mNextId (fst t) \<le> mNextId (fst (poll cb i t)) \<and>
      unat (mNextId (fst (poll cb i t))) = unat (mNextId (fst t)) + length (newly_accepted i)"
    using spec(2) p' poll_next [of t i cb] ok wrap by (auto simp: server_ok_def)
  show "k \<in> set (map_keys (mConnections (fst t))) \<or> mNextId (fst t) \<le> k"
    if "k \<in> set (map_keys (mConnections (fst (poll cb i t))))" for k
    using that spec(3) p' fresh_ids_ge [OF wrap, of k] by auto
qed

section \<open>Properties\<close>

text \<open>C25. A pass of the server gives its service exactly this sequence of calls: one \<open>onConnect\<close> per
  accepted connection in order, then for each readable connection in id order every message
  that is complete in its stream, in order, and last one \<open>onDisconnect\<close> for each connection
  removed. The connections afterwards are the old and new ones less the removed ones, and a
  connection whose stream failed is among those removed.\<close>

theorem poll_calls:
  assumes "server_ok srv" and "unat (mNextId srv) + length (newly_accepted ready) < 2 ^ 64"
    and "poll cb ready (srv, s) = (srv', s')"
  shows "server_ok srv' \<and> mClosing srv' = [] \<and>
    (\<exists>closed. distinct closed \<and>
      s' = fold (handle_event cb) (accept_events (mNextId srv) (newly_accepted ready) @
        message_events ready srv @ map Disconnected closed) s \<and>
      map_keys (mConnections srv') = filter (\<lambda>k. k \<notin> set closed)
        (map_keys (mConnections srv) @ fresh_ids (mNextId srv) (length (newly_accepted ready))) \<and>
      (\<forall>cid. stream_failed ready srv cid \<longrightarrow> cid \<in> set closed))"
  by (rule poll_spec [OF assms]) blast

definition sample_socket :: TcpSocket where
  "sample_socket = \<lparr>sock_recvs = [Ret [1, 0, 0, 0, 2, 0, 9], Ret [0, 0], Err EAGAIN, Ret []],
     sock_sends = [Ret 100], sock_sent = []\<rparr>"

definition echo_callbacks :: "(u64 \<times> u16) list Callbacks" where
  "echo_callbacks = \<lparr>onConnect = None,
     onMessage = Some (\<lambda>cid ty payload s. (s @ [(cid, ty)], [Send cid ty payload])),
     onDisconnect = Some (\<lambda>cid s. (s @ [(cid, 0)], []))\<rparr>"

definition sample_ready :: readiness where
  "sample_ready = \<lparr>listener_readable = True, accepted = [(sample_socket, \<lparr>addr_ip = 1, addr_port = 2\<rparr>)],
     readable = (\<lambda>_. True)\<rparr>"

definition sample_next :: readiness where
  "sample_next = sample_ready\<lparr>listener_readable := False\<rparr>"

lemma sample_passes:
  "map_keys (mConnections (fst (poll echo_callbacks sample_ready (tcp_server, [])))) = [1]"
  "snd (poll echo_callbacks sample_next (poll echo_callbacks sample_ready (tcp_server, []))) = [(1, 2)]"
  "map_keys (mConnections (fst (poll echo_callbacks sample_next (poll echo_callbacks sample_next
     (poll echo_callbacks sample_ready (tcp_server, [])))))) = []"
  by code_simp+

theorem poll_calls_witness:
  "\<exists>closed. snd (poll echo_callbacks sample_ready (tcp_server, [])) =
     fold (handle_event echo_callbacks) (Connected 1 \<lparr>addr_ip = 1, addr_port = 2\<rparr> # map Disconnected closed) []"
proof -
  have "server_ok tcp_server" by code_simp
  moreover have "unat (mNextId tcp_server) + length (newly_accepted sample_ready) < 2 ^ 64"
    by (simp add: tcp_server_def sample_ready_def newly_accepted_def)
  moreover have "accept_events (mNextId tcp_server) (newly_accepted sample_ready) =
      [Connected 1 \<lparr>addr_ip = 1, addr_port = 2\<rparr>]" and "message_events sample_ready tcp_server = []"
    by (simp_all add: tcp_server_def sample_ready_def newly_accepted_def message_events_def)
  ultimately show ?thesis
    using poll_calls [OF _ _ prod.collapse [symmetric], of tcp_server sample_ready echo_callbacks "[]"]
    by auto
qed

text \<open>A stale connection id can never address a new client: once an id below \<open>mNextId\<close> is not in
  the table, no sequence of passes, whatever arrives and whatever the callbacks do, brings it
  back, and sending to it does nothing (as long as fewer than \<open>2^64\<close> connections are accepted).\<close>

theorem stale_id_never_addresses:
  assumes "server_ok srv" and "cid < mNextId srv" and "map_find cid (mConnections srv) = None"
    and "unat (mNextId srv) + sum_list (map (\<lambda>r. length (newly_accepted r)) passes) < 2 ^ 64"
    and "fold (poll cb) passes (srv, s) = (srv', s')"
  shows "map_find cid (mConnections srv') = None \<and> server_send cid ty payload srv' = srv'"
proof -
  have "cid \<notin> set (map_keys (mConnections srv'))"
    using poll_table.stale_passes [of "(srv, s)" passes cid cb] assms by (simp add: map_keys_find)
  then show ?thesis
    by (simp add: map_keys_find server_send_def)
qed

theorem stale_id_never_addresses_witness:
  "map_find 1 (mConnections (fst (poll echo_callbacks sample_ready
     (\<lparr>mConnections = [], mClosing = [], mNextId = 2\<rparr>, [])))) = None"
proof -
  have "server_ok \<lparr>mConnections = [], mClosing = [], mNextId = 2\<rparr>" by code_simp
  then show ?thesis
    using stale_id_never_addresses [where passes = "[sample_ready]" and cid = 1 and cb = echo_callbacks
      and srv = "\<lparr>mConnections = [], mClosing = [], mNextId = 2\<rparr>" and s = "[]", OF _ _ _ _ prod.collapse [symmetric]]
    by (simp add: sample_ready_def newly_accepted_def)
qed

end
