(* ===== verification/Config.thy ===== *)
theory Config
  imports CText
begin

text \<open>
  \<^verbatim>\<open>server/common/include/serverutil/config.h\<close>: settings from the environment, which is the
  argument \<open>env\<close> (what \<^verbatim>\<open>getenv\<close> answers). \<^verbatim>\<open>strtoul\<close> works on a 64-bit \<^verbatim>\<open>unsigned long\<close>.
\<close>

type_synonym environment = "string \<Rightarrow> string option"

definition envString :: "environment \<Rightarrow> string \<Rightarrow> string \<Rightarrow> string" where
  "envString env name fallback = (case env name of
      None \<Rightarrow> fallback
    | Some value \<Rightarrow> if value \<noteq> [] then value else fallback)"

definition envPort :: "environment \<Rightarrow> string \<Rightarrow> u16 \<Rightarrow> u16" where
  "envPort env name fallback = (case env name of
      None \<Rightarrow> fallback
    | Some value \<Rightarrow>
        if value = [] then fallback
        else (let parsed = strtol value in
          if parsed > 0 \<and> parsed \<le> 65535 then word_of_int parsed else fallback))"

definition envUint :: "environment \<Rightarrow> string \<Rightarrow> u32 \<Rightarrow> u32" where
  "envUint env name fallback = (case env name of
      None \<Rightarrow> fallback
    | Some value \<Rightarrow> if value = [] then fallback else ucast (strtoull value))"

lemma envPort_given:
  assumes "env name = Some (to_string n)" and "0 < n" and "n \<le> 65535"
  shows "envPort env name fallback = word_of_nat n"
  using assms by (simp add: envPort_def strtol_to_string Let_def)

lemma envPort_nonzero: "fallback \<noteq> 0 \<Longrightarrow> envPort env name fallback \<noteq> 0"
  by (auto simp: envPort_def Let_def word_of_int_eq_0_iff dest: zdvd_imp_le split: option.splits)

lemma envUint_given:
  assumes "env name = Some (to_string n)" and "n < 2 ^ 32"
  shows "envUint env name fallback = word_of_nat n"
proof -
  have "(ucast (word_of_nat n :: u64) :: u32) = word_of_nat n"
    using assms(2) by (intro word_unat_eq_iff [THEN iffD2]) (simp add: unat_of_nat unsigned_ucast_eq take_bit_eq_mod)
  with assms show ?thesis by (simp add: envUint_def strtoull_to_string)
qed

end
