(* ===== verification/DbServer.thy ===== *)
theory DbServer
  imports Database DbClient TcpServer Config
begin

text \<open>
  \<^verbatim>\<open>server/dbserver/src/main.cpp\<close>: the service that turns RPCs into statements. One definition per
  request of the \<open>onMessage\<close> switch, the switch itself, the start-up, and the main loop with its
  purge counter; log lines are left out. The theory ends with the end-to-end statement: for
  every call of the client library, what the caller's callback receives is what the account and
  session store answers.
\<close>

section \<open>Requests\<close>

type_synonym 'w request_handler = "'w libpq \<Rightarrow> ConnectionId \<Rightarrow> u32 \<Rightarrow> ByteReader \<Rightarrow> 'w db_state \<Rightarrow>
    'w db_state \<times> server_op list"

definition db_reply_op :: "ConnectionId \<Rightarrow> DbMessage \<Rightarrow> (bytes \<Rightarrow> bytes) list \<Rightarrow> server_op list" where
  "db_reply_op cid ty ws = [Send cid (DbMessage_code ty) (writes ws [])]"

definition on_account_lookup :: "'w request_handler" where
  "on_account_lookup lib cid requestId reader st =
     (case run_state reader_string reader of (username, reader') \<Rightarrow>
      case (if mFailed reader' then ((False, False, empty_account), st)
            else findAccount lib username empty_account st) of
       ((ok, found, account), st') \<Rightarrow>
         (st', db_reply_op cid AccountLookupResponse
            [writer_u32 requestId, writer_u8 (if ok \<and> found then 1 else 0), writer_u64 (acc_id account),
             writer_string (acc_passwordHash account), writer_u8 (acc_permissionLevel account)]))"

definition on_admin_exists :: "'w request_handler" where
  "on_admin_exists lib cid requestId reader st =
     (case hasAdmin lib st of ((ok, found), st') \<Rightarrow>
        (st', db_reply_op cid AdminExistsResponse
           [writer_u32 requestId, writer_u8 (if ok \<and> found then 1 else 0)]))"

definition on_account_set_level :: "'w request_handler" where
  "on_account_set_level lib cid requestId reader st =
     (case run_state (do { username \<leftarrow> reader_string; level \<leftarrow> reader_u8;
                           State_Monad.return (username, level) }) reader of
       ((username, level), reader') \<Rightarrow>
       case (if mFailed reader' then ((False, False), st)
             else database_setPermissionLevel lib username level st) of
         ((ok, found), st') \<Rightarrow>
           (st', db_reply_op cid AccountSetLevelResponse
              [writer_u32 requestId,
               writer_u8 (DbResult_code (if \<not> ok then DbError else if \<not> found then DbNotFound else DbOk))]))"

definition on_account_create :: "bool \<Rightarrow> 'w request_handler" where
  "on_account_create with_level lib cid requestId reader st =
     (case run_state (do { username \<leftarrow> reader_string; passwordHash \<leftarrow> reader_string;
                           level \<leftarrow> (if with_level then reader_u8 else State_Monad.return 0);
                           State_Monad.return (username, passwordHash, level) }) reader of
       ((username, passwordHash, level), reader') \<Rightarrow>
       case (if mFailed reader' then ((False, False, 0), st)
             else database_createAccount lib username passwordHash 0 st) of
         ((ok, conflict, accountId), st') \<Rightarrow>
           (if ok \<and> \<not> conflict \<and> level \<noteq> 0 then snd (database_setPermissionLevel lib username level st') else st',
            db_reply_op cid AccountCreateResponse
              [writer_u32 requestId,
               writer_u8 (DbResult_code (if \<not> ok then DbError else if conflict then DbConflict else DbOk)),
               writer_u64 accountId]))"

definition on_account_delete :: "'w request_handler" where
  "on_account_delete lib cid requestId reader st =
     (case run_state reader_string reader of (username, reader') \<Rightarrow>
       case (if mFailed reader' then ((False, False), st) else database_deleteAccount lib username st) of
         ((ok, found), st') \<Rightarrow>
           (st', db_reply_op cid AccountDeleteResponse
              [writer_u32 requestId,
               writer_u8 (DbResult_code (if \<not> ok then DbError else if \<not> found then DbNotFound else DbOk))]))"

definition on_session_create :: "'w request_handler" where
  "on_session_create lib cid requestId reader st =
     (case run_state (do { accountId \<leftarrow> reader_u64; token \<leftarrow> reader_string; ttl \<leftarrow> reader_u32;
                           State_Monad.return (accountId, token, ttl) }) reader of
       ((accountId, token, ttl), reader') \<Rightarrow>
       case (if mFailed reader' then (False, st)
             else case database_createSession lib accountId token ttl st of
               (False, st1) \<Rightarrow> (False, st1)
             | (True, st1) \<Rightarrow> touchLastLogin lib accountId st1) of
         (ok, st') \<Rightarrow>
           (st', db_reply_op cid SessionCreateResponse
              [writer_u32 requestId, writer_u8 (DbResult_code (if ok then DbOk else DbError))]))"

definition on_session_lookup :: "'w request_handler" where
  "on_session_lookup lib cid requestId reader st =
     (case run_state reader_string reader of (token, reader') \<Rightarrow>
       case (if mFailed reader' then ((False, False, empty_session), st)
             else database_lookupSession lib token empty_session st) of
         ((ok, found, session), st') \<Rightarrow>
           (st', db_reply_op cid SessionLookupResponse
              [writer_u32 requestId, writer_u8 (if ok \<and> found then 1 else 0), writer_u64 (ses_accountId session),
               writer_string (ses_username session), writer_u8 (ses_permissionLevel session)]))"

definition on_session_delete :: "'w request_handler" where
  "on_session_delete lib cid requestId reader st =
     (case run_state reader_string reader of (token, reader') \<Rightarrow>
       case (if mFailed reader' then (False, st) else database_deleteSession lib token st) of
         (ok, st') \<Rightarrow>
           (st', db_reply_op cid SessionDeleteResponse
              [writer_u32 requestId, writer_u8 (DbResult_code (if ok then DbOk else DbError))]))"

fun db_switch :: "DbMessage \<Rightarrow> 'w request_handler option" where
  "db_switch AccountLookupRequest = Some on_account_lookup"
| "db_switch AdminExistsRequest = Some on_admin_exists"
| "db_switch AccountSetLevelRequest = Some on_account_set_level"
| "db_switch AccountCreateWithLevelRequest = Some (on_account_create True)"
| "db_switch AccountCreateRequest = Some (on_account_create False)"
| "db_switch AccountDeleteRequest = Some on_account_delete"
| "db_switch SessionCreateRequest = Some on_session_create"
| "db_switch SessionLookupRequest = Some on_session_lookup"
| "db_switch SessionDeleteRequest = Some on_session_delete"
| "db_switch _ = None"

definition db_onMessage :: "'w libpq \<Rightarrow> ConnectionId \<Rightarrow> u16 \<Rightarrow> bytes \<Rightarrow> 'w db_state \<Rightarrow>
    'w db_state \<times> server_op list" where
  "db_onMessage lib cid ty data st =
     (case run_state reader_u32 (byte_reader data (length data)) of (requestId, reader) \<Rightarrow>
        if mFailed reader then (st, [])
        else case db_switch (DbMessage_of ty) of
            None \<Rightarrow> (st, [])
          | Some handler \<Rightarrow> handler lib cid requestId reader st)"

section \<open>Start-up and main loop\<close>

definition buildConnInfo :: "environment \<Rightarrow> string" where
  "buildConnInfo env = ''host='' @ envString env ''PGHOST'' ''postgres''
     @ '' port='' @ to_string (unat (envPort env ''PGPORT'' 5432))
     @ '' dbname='' @ envString env ''PGDATABASE'' ''untitled''
     @ '' user='' @ envString env ''PGUSER'' ''untitled''
     @ '' password='' @ envString env ''PGPASSWORD'' ''untitled''
     @ '' connect_timeout=5''"

text \<open>The connection attempts until \<open>gRunning\<close> is cleared after \<open>attempts\<close> of them: \<open>None\<close> for the
  return with 0, otherwise whether the migration succeeded.\<close>

fun db_connect_loop :: "nat \<Rightarrow> 'w libpq \<Rightarrow> environment \<Rightarrow> 'w db_state \<Rightarrow> bool option \<times> 'w db_state" where
  "db_connect_loop 0 lib env st = (None, st)"
| "db_connect_loop (Suc attempts) lib env st = (case connect lib (buildConnInfo env) st of
      (True, st') \<Rightarrow> (case migrate lib st' of (ok, st'') \<Rightarrow> (Some ok, st''))
    | (False, st') \<Rightarrow> db_connect_loop attempts lib env st')"

definition db_callbacks :: "'w libpq \<Rightarrow> 'w db_state Callbacks" where
  "db_callbacks lib = \<lparr>onConnect = Some (\<lambda>_ _ st. (st, [])), onMessage = Some (db_onMessage lib),
     onDisconnect = Some (\<lambda>_ st. (st, []))\<rparr>"

text \<open>One turn of the main loop: a poll, and every 1500 turns (and on the first) a purge.\<close>

definition db_loop_turn :: "'w libpq \<Rightarrow> readiness \<Rightarrow> (TcpServer \<times> 'w db_state) \<times> int \<Rightarrow>
    (TcpServer \<times> 'w db_state) \<times> int" where
  "db_loop_turn lib ready st = (case st of ((srv, db), ticks) \<Rightarrow>
     case poll (db_callbacks lib) ready (srv, db) of (srv', db') \<Rightarrow>
       (let ticks' = ticks - 1 in
        if ticks' \<le> 0 then ((srv', snd (purgeExpiredSessions lib db')), 5 * 60 * 5)
        else ((srv', db'), ticks')))"

section \<open>The store the service implements\<close>

text \<open>What each call means on the tables: the reply its callback gets and the tables afterwards.\<close>

definition lookup_of :: "account_row \<Rightarrow> AccountLookup" where
  "lookup_of r = \<lparr>lookup_found = True, lookup_accountId = word_of_nat (row_id r),
     lookup_passwordHash = take kMaxStringLength (row_hash r), lookup_permissionLevel = word_of_nat (row_level r)\<rparr>"

definition session_lookup_of :: "account_row \<Rightarrow> SessionLookup" where
  "session_lookup_of r = \<lparr>session_found = True, session_accountId = word_of_nat (row_id r),
     session_username = take kMaxStringLength (row_username r), session_permissionLevel = word_of_nat (row_level r)\<rparr>"

definition spec_create :: "string \<Rightarrow> string \<Rightarrow> nat \<Rightarrow> tables \<Rightarrow> db_reply \<times> tables" where
  "spec_create username hash level t =
     (let t' = snd (insert_account username hash t) in
      if next_account_id t \<ge> 2 ^ 63 then (CreateReply True DbError 0, t)
      else if find_named username t \<noteq> None then (CreateReply True DbConflict 0, t')
      else (CreateReply True DbOk (word_of_nat (next_account_id t)),
            if level \<noteq> 0 then set_level username level t' else t'))"

fun spec_call :: "db_call \<Rightarrow> tables \<Rightarrow> db_reply \<times> tables" where
  "spec_call (LookupAccount username) t = (AccountReply True (case find_named (c_str username) t of
      None \<Rightarrow> no_account | Some r \<Rightarrow> lookup_of r), t)"
| "spec_call (CreateAccount username hash) t = spec_create (c_str username) (c_str hash) 0 t"
| "spec_call (CreateAccountWithLevel username hash level) t =
     spec_create (c_str username) (c_str hash) (unat level) t"
| "spec_call (DeleteAccount username) t =
     (ResultReply True (if find_named (c_str username) t = None then DbNotFound else DbOk),
      delete_named (c_str username) t)"
| "spec_call (SetPermissionLevel username level) t =
     (ResultReply True (if find_named (c_str username) t = None then DbNotFound else DbOk),
      set_level (c_str username) (unat level) t)"
| "spec_call AdminExists t = (ExistsReply True (list_ex (\<lambda>r. row_level r \<ge> 2) (accounts t)), t)"
| "spec_call (CreateSession account token ttl) t =
     (if res_status (fst (insert_session (c_str token) (unat account) (unat ttl) t)) = PGRES_COMMAND_OK
      then (ResultReply True DbOk,
            touch_login (unat account) (snd (insert_session (c_str token) (unat account) (unat ttl) t)))
      else (ResultReply True DbError, t))"
| "spec_call (LookupSession token) t = (SessionReply True (case find_session (c_str token) t of
      None \<Rightarrow> no_session | Some r \<Rightarrow> session_lookup_of r), t)"
| "spec_call (DeleteSession token) t = (ResultReply True DbOk, drop_session (c_str token) t)"

text \<open>Arguments that survive the wire and Postgres accepts as text.\<close>

definition clean :: "string \<Rightarrow> bool" where
  "clean s \<longleftrightarrow> string_fits s \<and> ascii_text (c_str s)"

fun call_ok :: "db_call \<Rightarrow> bool" where
  "call_ok (LookupAccount username) = clean username"
| "call_ok (CreateAccount username hash) = (clean username \<and> clean hash)"
| "call_ok (CreateAccountWithLevel username hash level) = (clean username \<and> clean hash)"
| "call_ok (DeleteAccount username) = clean username"
| "call_ok (SetPermissionLevel username level) = clean username"
| "call_ok AdminExists = True"
| "call_ok (CreateSession account token ttl) = clean token"
| "call_ok (LookupSession token) = clean token"
| "call_ok (DeleteSession token) = clean token"

definition request_payload :: "u32 \<Rightarrow> db_call \<Rightarrow> bytes" where
  "request_payload requestId call = writes (writer_u32 requestId # call_arguments call) []"

section \<open>Decoding requests and replies\<close>

lemma request_read:
  assumes "reads m bs v"
  obtains r r' where "run_state reader_u32 (byte_reader (writer_u32 requestId [] @ bs) (length (writer_u32 requestId [] @ bs))) = (requestId, r)"
    and "\<not> mFailed r" and "run_state m r = (v, r')" and "\<not> mFailed r'"
proof -
  let ?r = "byte_reader (writer_u32 requestId [] @ bs) (length (writer_u32 requestId [] @ bs))"
  let ?r1 = "?r\<lparr>mOffset := mOffset ?r + length (writer_u32 requestId [])\<rparr>"
  have u: "unread ?r = writer_u32 requestId [] @ bs" by simp
  have run: "run_state reader_u32 ?r = (requestId, ?r1)"
    by (rule readsD [OF u32_codec.reads_enc [OF TrueI] _ _ u]) simp_all
  have ok: "reader_ok ?r1" and u1: "unread ?r1 = bs @ []"
    using advance_unread [OF _ u] by simp_all
  have h: "\<not> mFailed ?r1" by simp
  have "run_state m ?r1 = (v, ?r1\<lparr>mOffset := mOffset ?r1 + length bs\<rparr>)"
    by (rule readsD [OF assms ok h u1])
  with run h that show thesis by simp
qed

lemma onMessage_request:
  assumes "reads m (concat (map (\<lambda>w. w []) (call_arguments call))) v"
    and "list_all appending (call_arguments call)"
    and "db_switch (call_type call) = Some handler"
    and "\<And>r r'. run_state m r = (v, r') \<Longrightarrow> \<not> mFailed r' \<Longrightarrow> P (handler lib cid requestId r st)"
  shows "P (db_onMessage lib cid (DbMessage_code (call_type call)) (request_payload requestId call) st)"
proof -
  let ?bs = "concat (map (\<lambda>w. w []) (call_arguments call))"
  have "request_payload requestId call = writer_u32 requestId [] @ ?bs"
    using assms(2) by (simp add: request_payload_def writes_concat)
  moreover obtain r r' where "run_state reader_u32 (byte_reader (writer_u32 requestId [] @ ?bs) (length (writer_u32 requestId [] @ ?bs))) = (requestId, r)"
    and "\<not> mFailed r" and "run_state m r = (v, r')" and "\<not> mFailed r'"
    by (rule request_read [OF assms(1)])
  moreover have "DbMessage_of (DbMessage_code (call_type call)) = call_type call"
    by (rule DbMessage_of_code) (cases call; simp)
  ultimately show ?thesis
    using assms(3) assms(4) [of r r'] by (simp add: db_onMessage_def)
qed

lemma DbResult_of_codes [simp]:
  "DbResult_of 0 = DbOk" "DbResult_of 1 = DbNotFound" "DbResult_of 2 = DbConflict" "DbResult_of 3 = DbError"
  by (simp_all add: DbResult_of_def)

lemma read_account_reply_payload:
  "read_all read_account_reply (writes [writer_u32 requestId, writer_u8 found, writer_u64 account,
     writer_string hash, writer_u8 level] []) =
   (True, \<lparr>lookup_found = (found \<noteq> 0), lookup_accountId = account,
      lookup_passwordHash = take kMaxStringLength hash, lookup_permissionLevel = level\<rparr>)"
  unfolding read_account_reply_def
  by (rule read_all_writes, simp, unfold concat_pieces)
    ((rule reads_bind, rule codec_reads(1-6) reads_string_take)+, rule reads_return_eq, simp)

lemma read_session_reply_payload:
  "read_all read_session_reply (writes [writer_u32 requestId, writer_u8 found, writer_u64 account,
     writer_string username, writer_u8 level] []) =
   (True, \<lparr>session_found = (found \<noteq> 0), session_accountId = account,
      session_username = take kMaxStringLength username, session_permissionLevel = level\<rparr>)"
  unfolding read_session_reply_def
  by (rule read_all_writes, simp, unfold concat_pieces)
    ((rule reads_bind, rule codec_reads(1-6) reads_string_take)+, rule reads_return_eq, simp)

lemma read_create_reply_payload:
  "read_all read_create_reply (writes [writer_u32 requestId, writer_u8 result, writer_u64 account] []) =
   (True, (DbResult_of result, account))"
  unfolding read_create_reply_def
  by (rule read_all_writes, simp, unfold concat_pieces)
    ((rule reads_bind, rule codec_reads(1-6) reads_string_take)+, rule reads_return_eq, simp)

lemma read_result_reply_payload:
  "read_all read_result_reply (writes [writer_u32 requestId, writer_u8 result] []) = (True, DbResult_of result)"
  unfolding read_result_reply_def
  by (rule read_all_writes, simp, unfold concat_pieces)
    ((rule reads_bind, rule codec_reads(1-6) reads_string_take)+, rule reads_return_eq, simp)

lemma read_exists_reply_payload:
  "read_all read_exists_reply (writes [writer_u32 requestId, writer_u8 found] []) = (True, found \<noteq> 0)"
  unfolding read_exists_reply_def
  by (rule read_all_writes, simp, unfold concat_pieces)
    ((rule reads_bind, rule codec_reads(1-6) reads_string_take)+, rule reads_return_eq, simp)

section \<open>End to end\<close>

text \<open>Each handler on a healthy Postgres, once the request's arguments have been read.\<close>

text \<open>What it means for one answer of the service to carry out a call: exactly one reply goes to the
  asking connection, it starts with the request id, the client library's handler decodes it to
  the specified reply, and the tables change as specified.\<close>

definition answers :: "ConnectionId \<Rightarrow> u32 \<Rightarrow> db_call \<Rightarrow> tables \<Rightarrow> tables \<Rightarrow> server_op list \<Rightarrow> bool" where
  "answers cid requestId call t t' ops \<longleftrightarrow> (\<exists>ty payload. ops = [Send cid ty payload] \<and>
     read_all reader_u32 payload = (True, requestId) \<and>
     snd (run_handler (call_handler call ()) True ty payload) = fst (spec_call call t) \<and>
     t' = snd (spec_call call t))"

lemma run_handler_call:
  "run_handler (call_handler call k) ok ty data = (k, snd (run_handler (call_handler call ()) ok ty data))"
  by (cases call) simp_all

lemma read_request_id: "list_all appending ws \<Longrightarrow> read_all reader_u32 (writes (writer_u32 requestId # ws) []) = (True, requestId)"
  using read_all_reads [OF u32_codec.reads_enc [OF TrueI], of requestId "concat (map (\<lambda>w. w []) ws)"]
  by (simp add: writes_concat del: writes.simps)

lemma answersI:
  assumes "list_all appending ws"
    and "snd (run_handler (call_handler call ()) True (DbMessage_code ty) (writes (writer_u32 requestId # ws) [])) =
      fst (spec_call call t)"
    and "t' = snd (spec_call call t)"
  shows "answers cid requestId call t t' (db_reply_op cid ty (writer_u32 requestId # ws))"
  using assms read_request_id [OF assms(1)] by (simp add: answers_def db_reply_op_def del: writes.simps)

lemmas reply_payloads = read_account_reply_payload read_session_reply_payload read_create_reply_payload
  read_result_reply_payload read_exists_reply_payload

context postgres
begin

definition serves :: "'w db_state \<times> server_op list \<Rightarrow> ConnectionId \<Rightarrow> u32 \<Rightarrow> db_call \<Rightarrow> tables \<Rightarrow> bool" where
  "serves result cid requestId call t \<longleftrightarrow> live (fst result) \<and> tables_ok (store (snd (fst result))) \<and>
     answers cid requestId call t (store (snd (fst result))) (snd result)"

lemma serve_lookupAccount:
  assumes "live st" and "tables_ok (store (snd st))" and "clean username"
    and "run_state reader_string r = (username, r')" and "\<not> mFailed r'"
  shows "serves (on_account_lookup lib cid requestId r st) cid requestId (LookupAccount username) (store (snd st))"
proof -
  have a: "ascii_text (c_str username)" using assms(3) by (simp add: clean_def)
  note f = findAccount_store [OF assms(1,2) a, of empty_account]
  obtain ok found account st' where d: "findAccount lib username empty_account st = ((ok, found, account), st')"
    by (metis prod_cases3 surj_pair)
  show ?thesis
    unfolding serves_def on_account_lookup_def
    using f d assms(2,4,5)
    by (auto intro!: answersI simp: reply_payloads no_account_def lookup_of_def account_of_def empty_account_def
        simp del: writes.simps split: option.splits)
qed

lemma serve_lookupSession:
  assumes "live st" and "tables_ok (store (snd st))" and "clean token"
    and "run_state reader_string r = (token, r')" and "\<not> mFailed r'"
  shows "serves (on_session_lookup lib cid requestId r st) cid requestId (LookupSession token) (store (snd st))"
proof -
  have a: "ascii_text (c_str token)" using assms(3) by (simp add: clean_def)
  note f = lookupSession_store [OF assms(1,2) a, of empty_session]
  obtain ok found session st' where d: "database_lookupSession lib token empty_session st = ((ok, found, session), st')"
    by (metis prod_cases3 surj_pair)
  show ?thesis
    unfolding serves_def on_session_lookup_def
    using f d assms(2,4,5)
    by (auto intro!: answersI simp: reply_payloads no_session_def session_lookup_of_def session_of_def
        empty_session_def simp del: writes.simps split: option.splits)
qed

lemma serve_adminExists:
  assumes "live st" and "tables_ok (store (snd st))"
  shows "serves (on_admin_exists lib cid requestId r st) cid requestId AdminExists (store (snd st))"
proof -
  obtain ok found st' where d: "hasAdmin lib st = ((ok, found), st')" by (metis surj_pair)
  with hasAdmin_store [OF assms(1)] assms(2) show ?thesis
    unfolding serves_def on_admin_exists_def
    by (auto intro!: answersI simp: reply_payloads simp del: writes.simps)
qed

lemma serve_setPermissionLevel:
  assumes "live st" and "tables_ok (store (snd st))" and "clean username"
    and "run_state (do { username \<leftarrow> reader_string; level \<leftarrow> reader_u8; State_Monad.return (username, level) }) r =
      ((username, level), r')" and "\<not> mFailed r'"
  shows "serves (on_account_set_level lib cid requestId r st) cid requestId (SetPermissionLevel username level) (store (snd st))"
proof -
  have a: "ascii_text (c_str username)" using assms(3) by (simp add: clean_def)
  note f = setPermissionLevel_store [OF assms(1) a, of level]
  have "unat level < 2 ^ LENGTH(8)" by (rule unsigned_less)
  then have ok: "tables_ok (set_level (c_str username) (unat level) (store (snd st)))"
    using assms(2) by (intro tables_ok_set_level) simp_all
  obtain ok found st' where d: "database_setPermissionLevel lib username level st = ((ok, found), st')"
    by (metis surj_pair)
  show ?thesis
    unfolding serves_def on_account_set_level_def assms(4)
    using f d assms(5) ok
    by (auto intro!: answersI simp: reply_payloads result_handler_def simp del: writes.simps)
qed

lemma serve_deleteAccount:
  assumes "live st" and "tables_ok (store (snd st))" and "clean username"
    and "run_state reader_string r = (username, r')" and "\<not> mFailed r'"
  shows "serves (on_account_delete lib cid requestId r st) cid requestId (DeleteAccount username) (store (snd st))"
proof -
  have a: "ascii_text (c_str username)" using assms(3) by (simp add: clean_def)
  note f = deleteAccount_store [OF assms(1) a]
  obtain ok found st' where d: "database_deleteAccount lib username st = ((ok, found), st')"
    by (metis surj_pair)
  show ?thesis
    unfolding serves_def on_account_delete_def
    using f d assms(4,5) tables_ok_delete [OF assms(2)]
    by (auto intro!: answersI simp: reply_payloads result_handler_def simp del: writes.simps)
qed

lemma serve_deleteSession:
  assumes "live st" and "tables_ok (store (snd st))" and "clean token"
    and "run_state reader_string r = (token, r')" and "\<not> mFailed r'"
  shows "serves (on_session_delete lib cid requestId r st) cid requestId (DeleteSession token) (store (snd st))"
proof -
  have a: "ascii_text (c_str token)" using assms(3) by (simp add: clean_def)
  note f = deleteSession_store [OF assms(1) a]
  obtain ok st' where d: "database_deleteSession lib token st = (ok, st')" by (metis surj_pair)
  show ?thesis
    unfolding serves_def on_session_delete_def
    using f d assms(4,5) tables_ok_drop_sessions(1) [OF assms(2)]
    by (auto intro!: answersI simp: reply_payloads result_handler_def simp del: writes.simps)
qed

lemma serve_createSession:
  assumes "live st" and "tables_ok (store (snd st))" and "clean token"
    and "run_state (do { accountId \<leftarrow> reader_u64; token \<leftarrow> reader_string; ttl \<leftarrow> reader_u32;
        State_Monad.return (accountId, token, ttl) }) r = ((accountId, token, ttl), r')" and "\<not> mFailed r'"
  shows "serves (on_session_create lib cid requestId r st) cid requestId (CreateSession accountId token ttl) (store (snd st))"
proof -
  let ?i = "insert_session (c_str token) (unat accountId) (unat ttl) (store (snd st))"
  have a: "ascii_text (c_str token)" using assms(3) by (simp add: clean_def)
  note f = createSession_store [OF assms(1) a, of accountId ttl]
  obtain ok st1 where c: "database_createSession lib accountId token ttl st = (ok, st1)" by (metis surj_pair)
  have ok1: "tables_ok (snd ?i)" by (rule tables_ok_insert_session [OF assms(2)])
  show ?thesis
  proof (cases ok)
    case True
    with f(1) c have "unat accountId < 2 ^ 63"
      by (auto simp: insert_session_def failure_def split: if_splits)
    moreover have "live st1" using f(2) c by simp
    ultimately have t: "fst (touchLastLogin lib accountId st1)" "live (snd (touchLastLogin lib accountId st1))"
      "store (snd (snd (touchLastLogin lib accountId st1))) = touch_login (unat accountId) (store (snd st1))"
      by (rule touchLastLogin_store [rotated -1])+
    obtain ok2 st2 where d: "touchLastLogin lib accountId st1 = (ok2, st2)" by (metis surj_pair)
    show ?thesis
      unfolding serves_def on_session_create_def assms(4)
      using True f c t d assms(5) tables_ok_touch [OF ok1]
      by (auto intro!: answersI simp: reply_payloads result_handler_def simp del: writes.simps)
  next
    case False
    with f(1) c have "snd ?i = store (snd st)"
      by (auto simp: insert_session_def command_def split: if_splits)
    with False show ?thesis
      unfolding serves_def on_session_create_def assms(4)
      using f c assms(2,5)
      by (auto intro!: answersI simp: reply_payloads result_handler_def simp del: writes.simps)
  qed
qed

lemma serve_createAccount:
  assumes "live st" and "tables_ok (store (snd st))" and "clean username" and "clean hash"
    and "run_state (do { username \<leftarrow> reader_string; passwordHash \<leftarrow> reader_string;
                           level \<leftarrow> (if with_level then reader_u8 else State_Monad.return 0);
                           State_Monad.return (username, passwordHash, level) }) r = ((username, hash, level), r')"
    and "\<not> mFailed r'"
    and "spec_call call (store (snd st)) = spec_create (c_str username) (c_str hash) (unat level) (store (snd st))"
    and "\<And>ty data. snd (run_handler (call_handler call ()) True ty data) = create_handler True ty data"
  shows "serves (on_account_create with_level lib cid requestId r st) cid requestId call (store (snd st))"
proof -
  have a: "ascii_text (c_str username)" "ascii_text (c_str hash)" using assms(3,4) by (simp_all add: clean_def)
  note f = createAccount_store [OF assms(1) a, of 0]
  obtain ok conflict accountId st1 where c: "database_createAccount lib username hash 0 st = ((ok, conflict, accountId), st1)"
    by (metis prod_cases3 surj_pair)
  have l1: "live st1" using f(2) c by simp
  note g = setPermissionLevel_store [OF l1 a(1), of level]
  have "unat level < 2 ^ LENGTH(8)" by (rule unsigned_less)
  then have ok2: "tables_ok (set_level (c_str username) (unat level) (store (snd st1)))"
    and ok1: "tables_ok (store (snd st1))"
    using tables_ok_insert_account [OF assms(2), of "c_str username" "c_str hash"] f(3) c
    by (simp_all add: tables_ok_set_level)
  have full: "snd (insert_account u h t) = t" if "next_account_id t \<ge> 2 ^ 63" for u h t
    using that by (simp add: insert_account_def)
  show ?thesis
    unfolding serves_def on_account_create_def assms(5)
    using f c g l1 ok1 ok2 assms(6)
    by (auto intro!: answersI simp: assms(7,8) reply_payloads create_handler_def spec_create_def full Let_def
        unat_eq_0 simp del: writes.simps split: if_splits)
qed

lemma serve_call:
  assumes "live st" and "tables_ok (store (snd st))" and "call_ok call"
  shows "serves (db_onMessage lib cid (DbMessage_code (call_type call)) (request_payload requestId call) st)
    cid requestId call (store (snd st))"
proof (cases call)
  case (LookupAccount u)
  then have c: "clean u" "string_fits u" using assms(3) by (simp_all add: clean_def)
  show ?thesis
    unfolding LookupAccount
    by (rule onMessage_request [where m = reader_string and v = u and handler = on_account_lookup])
      (simp_all add: c reads_string serve_lookupAccount [OF assms(1,2) c(1)])
next
  case (DeleteAccount u)
  then have c: "clean u" "string_fits u" using assms(3) by (simp_all add: clean_def)
  show ?thesis
    unfolding DeleteAccount
    by (rule onMessage_request [where m = reader_string and v = u and handler = on_account_delete])
      (simp_all add: c reads_string serve_deleteAccount [OF assms(1,2) c(1)])
next
  case (LookupSession u)
  then have c: "clean u" "string_fits u" using assms(3) by (simp_all add: clean_def)
  show ?thesis
    unfolding LookupSession
    by (rule onMessage_request [where m = reader_string and v = u and handler = on_session_lookup])
      (simp_all add: c reads_string serve_lookupSession [OF assms(1,2) c(1)])
next
  case (DeleteSession u)
  then have c: "clean u" "string_fits u" using assms(3) by (simp_all add: clean_def)
  show ?thesis
    unfolding DeleteSession
    by (rule onMessage_request [where m = reader_string and v = u and handler = on_session_delete])
      (simp_all add: c reads_string serve_deleteSession [OF assms(1,2) c(1)])
next
  case AdminExists
  show ?thesis
    unfolding AdminExists
    by (rule onMessage_request [where m = "State_Monad.return ()" and v = "()" and handler = on_admin_exists])
      (simp_all add: reads_return serve_adminExists [OF assms(1,2)])
next
  case (SetPermissionLevel u l)
  then have c: "clean u" "string_fits u" using assms(3) by (simp_all add: clean_def)
  have "reads (do { username \<leftarrow> reader_string; level \<leftarrow> reader_u8; State_Monad.return (username, level) })
      (concat (map (\<lambda>w. w []) (call_arguments call))) (u, l)"
    unfolding SetPermissionLevel call_arguments.simps concat_pieces
    by (rule reads_bind, rule reads_string, rule c, rule reads_bind, rule codec_reads, rule reads_return)
  then show ?thesis
    unfolding SetPermissionLevel
    by (rule onMessage_request [where handler = on_account_set_level])
      (simp_all add: serve_setPermissionLevel [OF assms(1,2) c(1)])
next
  case (CreateSession a u ttl)
  then have c: "clean u" "string_fits u" using assms(3) by (simp_all add: clean_def)
  have "reads (do { accountId \<leftarrow> reader_u64; token \<leftarrow> reader_string; ttl \<leftarrow> reader_u32;
        State_Monad.return (accountId, token, ttl) }) (concat (map (\<lambda>w. w []) (call_arguments call))) (a, u, ttl)"
    unfolding CreateSession call_arguments.simps concat_pieces
    by (rule reads_bind, rule codec_reads, rule reads_bind, rule reads_string, rule c, rule reads_bind,
        rule codec_reads, rule reads_return)
  then show ?thesis
    unfolding CreateSession
    by (rule onMessage_request [where handler = on_session_create])
      (simp_all add: serve_createSession [OF assms(1,2) c(1)])
next
  case (CreateAccount u h)
  then have c: "clean u" "clean h" "string_fits u" "string_fits h" using assms(3) by (simp_all add: clean_def)
  have "reads (do { username \<leftarrow> reader_string; passwordHash \<leftarrow> reader_string;
        level \<leftarrow> (if False then reader_u8 else State_Monad.return 0);
        State_Monad.return (username, passwordHash, level) }) (concat (map (\<lambda>w. w []) (call_arguments call))) (u, h, 0)"
    unfolding CreateAccount call_arguments.simps concat_pieces if_False
    by (rule reads_bind, rule reads_string, rule c, rule reads_bind, rule reads_string, rule c,
        rule reads_bind [where bs = "[]", simplified append_Nil], rule reads_return, rule reads_return)
  then show ?thesis
    unfolding CreateAccount
    by (rule onMessage_request [where handler = "on_account_create False"])
      (simp_all del: if_False add: serve_createAccount [OF assms(1,2) c(1,2)])
next
  case (CreateAccountWithLevel u h l)
  then have c: "clean u" "clean h" "string_fits u" "string_fits h" using assms(3) by (simp_all add: clean_def)
  have "reads (do { username \<leftarrow> reader_string; passwordHash \<leftarrow> reader_string;
        level \<leftarrow> (if True then reader_u8 else State_Monad.return 0);
        State_Monad.return (username, passwordHash, level) }) (concat (map (\<lambda>w. w []) (call_arguments call))) (u, h, l)"
    unfolding CreateAccountWithLevel call_arguments.simps concat_pieces if_True
    by (rule reads_bind, rule reads_string, rule c, rule reads_bind, rule reads_string, rule c,
        rule reads_bind, rule codec_reads, rule reads_return)
  then show ?thesis
    unfolding CreateAccountWithLevel
    by (rule onMessage_request [where handler = "on_account_create True"])
      (simp_all del: if_True add: serve_createAccount [OF assms(1,2) c(1,2)])
qed

end

section \<open>Properties\<close>

lemma db_issue_sends:
  assumes "mConnected client" and "mStream client = Some stream" and "stream_ok stream"
  shows "db_issue call k client = (None, client\<lparr>mNextRequestId := mNextRequestId client + 1,
      mStream := Some (send (DbMessage_code (call_type call)) (request_payload (mNextRequestId client) call) stream),
      mPending := map_emplace (mNextRequestId client) (call_handler call k) (mPending client)\<rparr>)"
    and "outstanding (send (DbMessage_code (call_type call)) (request_payload (mNextRequestId client) call) stream) =
      outstanding stream @ frame \<lparr>msg_type = DbMessage_code (call_type call),
        msg_payload = request_payload (mNextRequestId client) call\<rparr>"
  using assms
  by (simp_all add: db_issue_request db_request_def nextRequestId_def registerHandler_def stream_send_def
      request_payload_def send_outstanding)

lemma erase_emplaced:
  assumes "list_all (\<lambda>j. j < k) (map_keys m)"
  shows "map_erase k (map_emplace (k :: u32) v m) = m"
  using assms by (fastforce simp: emplace_fresh_id map_erase_def list_all_iff map_keys_def intro!: filter_True)

text \<open>C6. Database calls, end to end: for each of the nine calls of the client library, the request it
  puts on the wire makes the database server send exactly one reply to the asking connection,
  and that reply, taken in by the client, removes the registered handler and runs the caller's callback
  with exactly what the account and session store answers, the tables being changed exactly as
  the call means. Hypotheses: Postgres executes the statements as documented, the arguments
  are text it accepts and within the wire's string limit.\<close>

theorem rpc_end_to_end:
  assumes "postgres lib store" and "mConnection (fst st)" and "PQstatus_ok lib (snd st)"
    and "tables_ok (store (snd st))" and "call_ok call"
    and "mConnected client" and "mStream client = Some stream" and "stream_ok stream" and "pending_ok client"
    and "db_issue call k client = (now, client')"
    and "db_onMessage lib cid (DbMessage_code (call_type call))
           (request_payload (mNextRequestId client) call) st = (st', ops)"
  shows "now = None \<and>
    (\<exists>stream'. mStream client' = Some stream' \<and> outstanding stream' = outstanding stream @
       frame \<lparr>msg_type = DbMessage_code (call_type call), msg_payload = request_payload (mNextRequestId client) call\<rparr>) \<and>
    (\<exists>ty payload. ops = [Send cid ty payload] \<and>
       take_reply depth run \<lparr>msg_type = ty, msg_payload = payload\<rparr> (client', s) =
         db_callback depth run (k, fst (spec_call call (store (snd st)))) (client'\<lparr>mPending := mPending client\<rparr>, s)) \<and>
    store (snd st') = snd (spec_call call (store (snd st))) \<and> tables_ok (store (snd st'))"
proof -
  let ?id = "mNextRequestId client"
  note issue = db_issue_sends(1) [OF assms(6-8), of call k] db_issue_sends(2) [OF assms(6-8), of call]
  have client': "now = None" "client' = client\<lparr>mNextRequestId := ?id + 1,
      mStream := Some (send (DbMessage_code (call_type call)) (request_payload ?id call) stream),
      mPending := map_emplace ?id (call_handler call k) (mPending client)\<rparr>"
    using assms(10) issue(1) by simp_all
  have "postgres.serves lib store (st', ops) cid ?id call (store (snd st))"
    using postgres.serve_call [OF assms(1), of st call cid ?id] assms(2-5,11)
    by (simp add: postgres.live_def [OF assms(1)])
  then have srv: "tables_ok (store (snd st'))" "answers cid ?id call (store (snd st)) (store (snd st')) ops"
    by (simp_all add: postgres.serves_def [OF assms(1)])
  then obtain ty payload where ops: "ops = [Send cid ty payload]"
    and rid: "read_all reader_u32 payload = (True, ?id)"
    and reply: "run_handler (call_handler call k) True ty payload = (k, fst (spec_call call (store (snd st))))"
    and t': "store (snd st') = snd (spec_call call (store (snd st)))"
    by (auto simp: answers_def run_handler_call [of call k])
  have fresh: "list_all (\<lambda>j. j < ?id) (map_keys (mPending client))"
    using assms(9) by (simp add: pending_ok_def)
  then have "map_find ?id (mPending client) = None"
    using map_keys_find [of ?id "mPending client"] by (fastforce simp: list_all_iff)
  then have "map_find ?id (mPending client') = Some (call_handler call k)"
    and "map_erase ?id (mPending client') = mPending client"
    using erase_emplaced [OF fresh] client'(2) by simp_all
  then have "take_reply depth run \<lparr>msg_type = ty, msg_payload = payload\<rparr> (client', s) =
      db_callback depth run (k, fst (spec_call call (store (snd st)))) (client'\<lparr>mPending := mPending client\<rparr>, s)"
    by (simp add: take_reply_def rid reply)
  with client' issue(2) ops t' srv(1) show ?thesis by auto
qed

definition sample_tables :: tables where
  "sample_tables = \<lparr>accounts = [\<lparr>row_id = 3, row_username = ''Ada'', row_hash = ''h'', row_level = 2, row_last_login = None\<rparr>],
     sessions = [], next_account_id = 4, clock = 100\<rparr>"

definition sample_database :: "tables db_state" where
  "sample_database = (new_database\<lparr>mConnection := True\<rparr>, sample_tables)"

definition sample_stream :: MessageStream where
  "sample_stream = message_stream \<lparr>sock_recvs = [], sock_sends = [Ret 100], sock_sent = []\<rparr>"

definition sample_client :: "nat DbClient" where
  "sample_client = (db_client :: nat DbClient)\<lparr>mStream := Some sample_stream, mConnected := True\<rparr>"

lemma sample_database_ok: "mConnection (fst sample_database)" "PQstatus_ok pg_reference (snd sample_database)"
  "tables_ok (snd sample_database)"
  by (simp_all add: sample_database_def pg_reference_def tables_ok_def sample_tables_def)

theorem rpc_end_to_end_witness:
  "\<exists>ty payload. snd (db_onMessage pg_reference 5 (DbMessage_code AccountLookupRequest)
      (request_payload 1 (LookupAccount ''ADA'')) sample_database) = [Send 5 ty payload] \<and>
    fst (snd (take_reply 0 (\<lambda>k reply s. ((k, reply), [])) \<lparr>msg_type = ty, msg_payload = payload\<rparr>
      (snd (db_issue (LookupAccount ''ADA'') 9 sample_client), (0, ExistsReply False False)))) = 9"
proof -
  have "call_ok (LookupAccount ''ADA'')" by code_simp
  moreover have "mConnected sample_client" "mStream sample_client = Some sample_stream" "stream_ok sample_stream"
    "pending_ok sample_client" "mNextRequestId sample_client = 1"
    by (simp_all add: sample_client_def sample_stream_def pending_ok_def db_client_def map_keys_def)
  ultimately show ?thesis
    using rpc_end_to_end [OF pg.postgres_axioms sample_database_ok _ _ _ _ _
        prod.collapse [symmetric] prod.collapse [symmetric], of "LookupAccount ''ADA''" sample_client sample_stream
        9 5 0 "\<lambda>k reply s. ((k, reply), [])" "(0, ExistsReply False False)"]
    by (fastforce simp: db_callback_def)
qed

lemma find_session_row:
  assumes "find_session token t = Some r"
  obtains s where "s \<in> set (sessions t)" and "row_token s = token" and "row_expires s > clock t"
    and "r \<in> set (accounts t)" and "row_id r = row_account s"
proof -
  have "r \<in> set (live_session token t)"
    using assms by (auto simp: find_session_def split: list.splits)
  with that show thesis by (auto simp: live_session_def)
qed

lemma live_session_exists:
  assumes "tables_ok t"
  shows "live_session token t \<noteq> [] \<longleftrightarrow> (\<exists>s \<in> set (sessions t). row_token s = token \<and> row_expires s > clock t)"
proof -
  have "filter (\<lambda>a. row_id a = row_account s) (accounts t) \<noteq> []" if "s \<in> set (sessions t)" for s
    using assms that by (fastforce simp: tables_ok_def list_all_iff filter_empty_conv)
  then show ?thesis by (auto simp: live_session_def)
qed

section \<open>The life of a session\<close>

text \<open>What happens to the database server after a session has been stored: requests of any service, the purge
  of its main loop, and time passing on Postgres's clock. \<open>store\<close> reads the tables off the state of the world.\<close>

datatype db_event = Asked db_call | Purged | Waited

inductive db_life :: "'w libpq \<Rightarrow> ('w \<Rightarrow> tables) \<Rightarrow> 'w db_state \<Rightarrow> db_event list \<Rightarrow> 'w db_state \<Rightarrow> bool"
  for lib store st where
  life_start: "db_life lib store st [] st"
| life_asked: "db_life lib store st es st' \<Longrightarrow> call_ok call \<Longrightarrow>
    db_life lib store st (es @ [Asked call])
      (fst (db_onMessage lib cid (DbMessage_code (call_type call)) (request_payload requestId call) st'))"
| life_purged: "db_life lib store st es st' \<Longrightarrow>
    db_life lib store st (es @ [Purged]) (snd (purgeExpiredSessions lib st'))"
| life_waited: "db_life lib store st es (db, w) \<Longrightarrow> PQstatus_ok lib w' \<Longrightarrow>
    store w' = (store w)\<lparr>clock := t\<rparr> \<Longrightarrow> clock (store w) \<le> t \<Longrightarrow> db_life lib store st (es @ [Waited]) (db, w')"

text \<open>The requests that end a session: deleting it, or deleting the account it is for. (Names are compared
  without regard to case.)\<close>

fun ends_session :: "string \<Rightarrow> string \<Rightarrow> db_event \<Rightarrow> bool" where
  "ends_session token username (Asked (DeleteSession t)) \<longleftrightarrow> c_str t = token"
| "ends_session token username (Asked (DeleteAccount u)) \<longleftrightarrow> lower (c_str u) = lower username"
| "ends_session token username _ \<longleftrightarrow> False"

fun stores_session :: "string \<Rightarrow> db_event \<Rightarrow> bool" where
  "stores_session token (Asked (CreateSession account t ttl)) \<longleftrightarrow> c_str t = token"
| "stores_session token _ \<longleftrightarrow> False"

text \<open>What the tables hold of one session: its row, as long as nothing ended it (or it is expired and perhaps
  purged), with the row of its account; nothing once it was ended.\<close>

definition session_held :: "string \<Rightarrow> nat \<Rightarrow> int \<Rightarrow> string \<Rightarrow> bool \<Rightarrow> tables \<Rightarrow> bool" where
  "session_held token account expires username ended t \<longleftrightarrow>
     (\<forall>s \<in> set (sessions t). row_token s = token \<longrightarrow> row_account s = account \<and> row_expires s = expires) \<and>
     (if ended then token \<notin> row_token ` set (sessions t)
      else (\<exists>r \<in> set (accounts t). row_id r = account \<and> row_username r = username) \<and>
        (token \<in> row_token ` set (sessions t) \<or> expires \<le> clock t))"

lemma held_clock: "session_held token account expires username ended t \<Longrightarrow> clock t \<le> now \<Longrightarrow>
    session_held token account expires username ended (t\<lparr>clock := now\<rparr>)"
  by (auto simp: session_held_def)

lemma held_purge: "session_held token account expires username ended t \<Longrightarrow>
    session_held token account expires username ended (purge t)"
  by (auto simp: session_held_def purge_def image_iff) (metis linorder_not_le)

lemma held_accounts:
  assumes "session_held token account expires username ended t"
    and "sessions t' = sessions t" and "clock t' = clock t"
    and "\<And>r. r \<in> set (accounts t) \<Longrightarrow> \<exists>r' \<in> set (accounts t'). row_id r' = row_id r \<and> row_username r' = row_username r"
  shows "session_held token account expires username ended t'"
  using assms unfolding session_held_def by (auto split: if_splits; metis)

lemma held_set_level: "session_held token account expires username ended t \<Longrightarrow>
    session_held token account expires username ended (set_level u level t)"
  by (rule held_accounts, assumption)
    (simp_all add: set_level_def, rule_tac x = "if named u r then r\<lparr>row_level := level\<rparr> else r" in bexI, auto)

lemma held_touch: "session_held token account expires username ended t \<Longrightarrow>
    session_held token account expires username ended (touch_login n t)"
  by (rule held_accounts, assumption)
    (simp_all add: touch_login_def, rule_tac x = "if row_id r = n then r\<lparr>row_last_login := Some (clock t)\<rparr> else r" in bexI, auto)

lemma held_insert_account: "session_held token account expires username ended t \<Longrightarrow>
    session_held token account expires username ended (snd (insert_account u h t))"
  by (rule held_accounts, assumption) (auto simp: insert_account_def intro!: bexI)

lemma held_insert_session: "session_held token account expires username ended t \<Longrightarrow> token' \<noteq> token \<Longrightarrow>
    session_held token account expires username ended (snd (insert_session token' n ttl t))"
  by (auto simp: session_held_def insert_session_def)

lemma held_drop: "session_held token account expires username ended t \<Longrightarrow>
    session_held token account expires username (ended \<or> token' = token) (drop_session token' t)"
  by (auto simp: session_held_def drop_session_def image_iff)

lemma held_gone: "\<forall>s \<in> set (sessions t). row_token s \<noteq> token \<Longrightarrow> session_held token account expires username True t"
  by (auto simp: session_held_def)

lemma held_delete:
  assumes "session_held token account expires username ended t" and "tables_ok t"
  shows "session_held token account expires username (ended \<or> lower u = lower username) (delete_named u t)"
proof (cases ended)
  case True
  with assms(1) show ?thesis by (auto simp: session_held_def delete_named_def Let_def)
next
  case False
  then obtain r where r: "r \<in> set (accounts t)" "row_id r = account" "row_username r = username"
    and rows: "\<forall>s \<in> set (sessions t). row_token s = token \<longrightarrow> row_account s = account \<and> row_expires s = expires"
    using assms(1) by (auto simp: session_held_def)
  have only: "r' = r" if "r' \<in> set (accounts t)" "row_id r' = account" for r'
    using assms(2) r(1,2) that by (auto simp: tables_ok_def distinct_map dest: inj_onD)
  show ?thesis
  proof (cases "lower u = lower username")
    case True
    then have "account \<in> set (map row_id (filter (named u) (accounts t)))"
      using r by (force simp: named_def)
    then have "row_token s \<noteq> token" if "s \<in> set (sessions (delete_named u t))" for s
      using that rows by (auto simp: delete_named_def Let_def)
    then show ?thesis using True by (simp add: held_gone)
  next
    case other: False
    then have stays: "account \<notin> set (map row_id (filter (named u) (accounts t)))" and "\<not> named u r"
      using only r(3) by (auto simp: named_def)
    then have "r \<in> set (accounts (delete_named u t))"
      using r(1) by (simp add: delete_named_def Let_def)
    moreover have "{s \<in> set (sessions (delete_named u t)). row_token s = token} = {s \<in> set (sessions t). row_token s = token}"
      using rows stays by (auto simp: delete_named_def Let_def)
    then have same: "s \<in> set (sessions (delete_named u t)) \<and> row_token s = token \<longleftrightarrow> s \<in> set (sessions t) \<and> row_token s = token" for s
      by blast
    moreover have "clock (delete_named u t) = clock t"
      by (simp add: delete_named_def Let_def)
    moreover have "token \<in> row_token ` set (sessions (delete_named u t)) \<or> expires \<le> clock t"
    proof -
      have "token \<in> row_token ` set (sessions t) \<or> expires \<le> clock t"
        using assms(1) False by (simp add: session_held_def)
      then show ?thesis using same by (auto intro: rev_image_eqI)
    qed
    moreover have "\<forall>s \<in> set (sessions (delete_named u t)). row_token s = token \<longrightarrow> row_account s = account \<and> row_expires s = expires"
      using same rows by blast
    ultimately show ?thesis
      using other False r(2,3) unfolding session_held_def by auto
  qed
qed

lemma held_call:
  assumes "session_held token account expires username ended t" and "tables_ok t"
    and "\<not> stores_session token (Asked call)"
  shows "session_held token account expires username (ended \<or> ends_session token username (Asked call)) (snd (spec_call call t))"
  using assms
  by (cases call) (simp_all add: spec_create_def Let_def held_set_level held_touch held_insert_account
    held_insert_session held_drop held_delete)

context postgres
begin

lemma session_life:
  assumes "db_life lib store st es st'" and "live st" and "tables_ok (store (snd st))"
    and "session_held token account expires username False (store (snd st))"
    and "\<forall>e \<in> set es. \<not> stores_session token e"
  shows "live st' \<and> tables_ok (store (snd st')) \<and>
    session_held token account expires username (\<exists>e \<in> set es. ends_session token username e) (store (snd st'))"
  using assms
proof (induction rule: db_life.induct)
  case life_start
  then show ?case by simp
next
  case (life_asked es st' call cid requestId)
  then have IH: "live st'" "tables_ok (store (snd st'))"
    "session_held token account expires username (\<exists>e \<in> set es. ends_session token username e) (store (snd st'))"
    by simp_all
  from serve_call [OF IH(1,2) life_asked.hyps(2), of cid requestId] held_call [OF IH(3,2), of call] life_asked.prems
  show ?case by (auto simp: serves_def answers_def disj_commute)
next
  case (life_purged es st')
  then have IH: "live st'" "tables_ok (store (snd st'))"
    "session_held token account expires username (\<exists>e \<in> set es. ends_session token username e) (store (snd st'))"
    by simp_all
  then show ?case
    using purge_store [OF IH(1)] tables_ok_drop_sessions(2) [OF IH(2)] held_purge [OF IH(3)] by simp
next
  case (life_waited es db w w' t)
  then have IH: "live (db, w)" "tables_ok (store w)"
    "session_held token account expires username (\<exists>e \<in> set es. ends_session token username e) (store w)"
    by simp_all
  then show ?case
    using life_waited.hyps held_clock [OF IH(3), of t] by (simp add: live_def tables_ok_def)
qed

text \<open>The store answering a session request found no row of that token, and an account.\<close>

lemma created_session:
  assumes "live st" and "tables_ok (store (snd st))" and "call_ok (CreateSession account token ttl)"
    and "r \<in> set (accounts (store (snd st)))" and "row_id r = unat account"
    and "db_onMessage lib cid (DbMessage_code SessionCreateRequest)
      (request_payload requestId (CreateSession account token ttl)) st = (st1, [Send cid ty payload])"
    and "snd (run_handler (CreateSessionHandler ()) True ty payload) = ResultReply True DbOk"
  shows "live st1 \<and> tables_ok (store (snd st1)) \<and> clock (store (snd st1)) = clock (store (snd st)) \<and>
    session_held (c_str token) (unat account) (clock (store (snd st)) + int (unat ttl)) (row_username r) False (store (snd st1))"
proof -
  let ?t = "store (snd st)"
  have "serves (st1, [Send cid ty payload]) cid requestId (CreateSession account token ttl) ?t"
    using serve_call [OF assms(1-3), of cid requestId] assms(6) by simp
  then have "live st1" "tables_ok (store (snd st1))"
    and t1: "store (snd st1) = snd (spec_call (CreateSession account token ttl) ?t)"
    and "fst (spec_call (CreateSession account token ttl) ?t) = ResultReply True DbOk"
    using assms(7) by (auto simp: serves_def answers_def)
  moreover from this have "res_status (fst (insert_session (c_str token) (unat account) (unat ttl) ?t)) = PGRES_COMMAND_OK"
    by (auto split: if_splits)
  moreover from this have "\<forall>s \<in> set (sessions ?t). row_token s \<noteq> c_str token" and
    "snd (insert_session (c_str token) (unat account) (unat ttl) ?t) = ?t\<lparr>sessions := sessions ?t @
        [\<lparr>row_token = c_str token, row_account = unat account, row_expires = clock ?t + int (unat ttl)\<rparr>]\<rparr>"
    by (auto simp: insert_session_def failure_def image_iff split: if_splits)
  moreover from this have "session_held (c_str token) (unat account) (clock ?t + int (unat ttl)) (row_username r) False
      (snd (insert_session (c_str token) (unat account) (unat ttl) ?t))"
    using assms(4,5) by (auto simp: session_held_def)
  ultimately show ?thesis
    by (simp add: held_touch) (simp add: touch_login_def)
qed

end

lemma held_lookup:
  assumes "session_held token account expires username ended t" and "tables_ok t"
  shows "(find_session token t \<noteq> None \<longleftrightarrow> \<not> ended \<and> clock t < expires) \<and>
    (\<forall>r. find_session token t = Some r \<longrightarrow> r \<in> set (accounts t) \<and> row_id r = account \<and> row_username r = username)"
proof -
  have "find_session token t \<noteq> None \<longleftrightarrow> (\<exists>s \<in> set (sessions t). row_token s = token \<and> row_expires s > clock t)"
    using live_session_exists [OF assms(2), of token] by (auto simp: find_session_def split: list.splits)
  moreover have "\<dots> \<longleftrightarrow> \<not> ended \<and> clock t < expires"
    using assms(1) by (auto simp: session_held_def split: if_splits)
  moreover have "r \<in> set (accounts t) \<and> row_id r = account \<and> row_username r = username"
    if "find_session token t = Some r" for r
  proof -
    from that obtain s where s: "s \<in> set (sessions t)" "row_token s = token" "r \<in> set (accounts t)" "row_id r = row_account s"
      by (rule find_session_row)
    then have "row_id r = account" and "\<not> ended"
      using assms(1) by (auto simp: session_held_def split: if_splits)
    moreover from this obtain r' where "r' \<in> set (accounts t)" "row_id r' = account" "row_username r' = username"
      using assms(1) by (auto simp: session_held_def)
    ultimately show ?thesis
      using assms(2) s(3) by (auto simp: tables_ok_def distinct_map dest: inj_onD)
  qed
  ultimately show ?thesis by blast
qed

text \<open>C34. A session authorises its holder exactly while it should. On a healthy Postgres, let the database
  server have stored a session and answered Ok. Then, whatever requests of the services it carries out, whenever
  it purges and however long Postgres's clock runs (no other session being stored under the same
  token), it answers a lookup of the token: found exactly if no deletion of that session and no deletion
  of its account (under any spelling of its name) was asked for meanwhile and its time to live has not passed, and then
  with the id and name of the account it was stored for and the permission level the account has by then.\<close>

theorem session_lookup_exact:
  assumes "postgres lib store" and "mConnection (fst st)" and "PQstatus_ok lib (snd st)"
    and "tables_ok (store (snd st))" and "call_ok (CreateSession account token ttl)"
    and "r \<in> set (accounts (store (snd st)))" and "row_id r = unat account"
    and "db_onMessage lib cid (DbMessage_code SessionCreateRequest)
      (request_payload requestId (CreateSession account token ttl)) st = (st1, [Send cid ty payload])"
    and "snd (run_handler (CreateSessionHandler ()) True ty payload) = ResultReply True DbOk"
    and "db_life lib store st1 es st2" and "\<forall>e \<in> set es. \<not> stores_session (c_str token) e"
  shows "\<exists>st3 ty' payload' session. db_onMessage lib cid' (DbMessage_code SessionLookupRequest)
      (request_payload requestId' (LookupSession token)) st2 = (st3, [Send cid' ty' payload']) \<and>
    snd (run_handler (LookupSessionHandler ()) True ty' payload') = SessionReply True session \<and>
    store (snd st3) = store (snd st2) \<and>
    (session_found session \<longleftrightarrow> (\<forall>e \<in> set es. \<not> ends_session (c_str token) (row_username r) e) \<and>
       clock (store (snd st2)) < clock (store (snd st)) + int (unat ttl)) \<and>
    (session_found session \<longrightarrow> (\<exists>r2 \<in> set (accounts (store (snd st2))). row_id r2 = unat account \<and>
       row_username r2 = row_username r \<and> session = session_lookup_of r2))"
proof -
  note pg = assms(1)
  have live: "postgres.live lib st" using assms(2,3) by (simp add: postgres.live_def [OF pg])
  note first = postgres.created_session [OF pg live assms(4-9)]
  let ?ended = "\<exists>e \<in> set es. ends_session (c_str token) (row_username r) e"
  let ?t = "store (snd st2)"
  have live2: "postgres.live lib st2" and ok: "tables_ok ?t"
    and held: "session_held (c_str token) (unat account) (clock (store (snd st)) + int (unat ttl)) (row_username r) ?ended ?t"
    using postgres.session_life [OF pg assms(10) _ _ _ assms(11), of "unat account"] first by blast+
  obtain st3 ops where step: "db_onMessage lib cid' (DbMessage_code SessionLookupRequest)
      (request_payload requestId' (LookupSession token)) st2 = (st3, ops)" by fastforce
  have "postgres.serves lib store (st3, ops) cid' requestId' (LookupSession token) ?t"
    using postgres.serve_call [OF pg live2 ok, of "LookupSession token" cid' requestId'] assms(5) step by simp
  then obtain ty' payload' where "ops = [Send cid' ty' payload']" and "store (snd st3) = ?t"
    and reply: "snd (run_handler (LookupSessionHandler ()) True ty' payload') =
      SessionReply True (case find_session (c_str token) ?t of None \<Rightarrow> no_session | Some r \<Rightarrow> session_lookup_of r)"
    by (auto simp: postgres.serves_def [OF pg] answers_def)
  moreover note held_lookup [OF held ok]
  ultimately show ?thesis
    using step by (cases "find_session (c_str token) ?t") (auto simp: no_session_def session_lookup_of_def)
qed

definition sample_session_tables :: tables where
  "sample_session_tables = sample_tables\<lparr>sessions := [\<lparr>row_token = ''tok'', row_account = 3, row_expires = 101\<rparr>]\<rparr>"

lemma sample_session_ok: "tables_ok sample_session_tables"
  by (simp add: sample_session_tables_def sample_tables_def tables_ok_def)

definition sample_request :: "db_call \<Rightarrow> tables db_state \<Rightarrow> tables db_state \<times> server_op list" where
  "sample_request call st = db_onMessage pg_reference 5 (DbMessage_code (call_type call)) (request_payload 1 call) st"

text \<open>A session of one second: looked up at once, and after two seconds.\<close>

theorem session_lookup_exact_witness:
  "(\<exists>st3 ty payload session. sample_request (LookupSession ''tok'') (fst (sample_request (CreateSession 3 ''tok'' 1) sample_database)) =
     (st3, [Send 5 ty payload]) \<and> snd (run_handler (LookupSessionHandler ()) True ty payload) = SessionReply True session \<and>
     session_found session)"
proof -
  let ?create = "CreateSession 3 ''tok'' 1"
  have ok: "call_ok ?create" by code_simp
  have alive: "pg.live sample_database" using sample_database_ok by (simp add: pg.live_def)
  have row: "\<lparr>row_id = 3, row_username = ''Ada'', row_hash = ''h'', row_level = 2, row_last_login = None\<rparr> \<in> set (accounts (snd sample_database))"
    by (simp add: sample_database_def sample_tables_def)
  obtain st1 ops where made: "sample_request ?create sample_database = (st1, ops)" by fastforce
  have "pg.serves (st1, ops) 5 1 ?create (snd sample_database)"
    using pg.serve_call [OF alive sample_database_ok(3) ok, of 5 1] made by (simp add: sample_request_def)
  moreover have "fst (spec_call ?create (snd sample_database)) = ResultReply True DbOk"
    and "clock (snd (spec_call ?create (snd sample_database))) = clock (snd sample_database)"
    by (simp_all add: insert_session_def touch_login_def command_def sample_database_def sample_tables_def)
  ultimately obtain ty payload where stored: "ops = [Send 5 ty payload]"
    "snd (run_handler (CreateSessionHandler ()) True ty payload) = ResultReply True DbOk" 
    "clock (snd st1) = clock (snd sample_database)"
    by (auto simp: pg.serves_def answers_def simp del: spec_call.simps)
  have "clock (snd st1) < clock (snd sample_database) + int (unat (1 :: u32))" using stored(3) by simp
  moreover have "db_onMessage pg_reference 5 (DbMessage_code SessionCreateRequest) (request_payload 1 ?create) sample_database =
      (st1, [Send 5 ty payload])"
    using made stored(1) by (simp add: sample_request_def)
  note session_lookup_exact [OF pg.postgres_axioms sample_database_ok ok row _ this stored(2) life_start, of 5 1]
  ultimately obtain st3 ty' payload' session where
    "db_onMessage pg_reference 5 (DbMessage_code SessionLookupRequest) (request_payload 1 (LookupSession ''tok'')) st1 =
      (st3, [Send 5 ty' payload'])"
    "snd (run_handler (LookupSessionHandler ()) True ty' payload') = SessionReply True session" "session_found session"
    by auto
  then show ?thesis
    unfolding made fst_conv unfolding sample_request_def call_type.simps by blast
qed

text \<open>Session lookups fail closed, whatever Postgres and the network do: for any libpq and any
  request payload, if the reply tells the asking service that a session was found, then the
  request was well formed and the database returned a row for exactly that token.\<close>

theorem session_lookup_fails_closed:
  assumes "db_onMessage lib cid (DbMessage_code SessionLookupRequest) data st = (st', [Send cid' ty payload])"
    and "snd (run_handler (LookupSessionHandler ()) True ty payload) = SessionReply good session"
    and "session_found session"
  shows "\<exists>token result. read_all (do { _ \<leftarrow> reader_u32; reader_string }) data = (True, token) \<and>
    fst (db_query lib PGRES_TUPLES_OK sql_lookup_session [c_str token] st) = Some result \<and> res_rows result \<noteq> []"
proof -
  obtain requestId r where r: "run_state reader_u32 (byte_reader data (length data)) = (requestId, r)"
    by (metis surj_pair)
  obtain token r' where r': "run_state reader_string r = (token, r')" by (metis surj_pair)
  have r_ok: "\<not> mFailed r"
    using assms(1) r by (auto simp: db_onMessage_def split: if_splits)
  obtain ok found s0 st0 where d: "(if mFailed r' then ((False, False, empty_session), st)
      else database_lookupSession lib token empty_session st) = ((ok, found, s0), st0)"
    by (metis prod_cases3 surj_pair)
  have "DbMessage_of 106 = SessionLookupRequest" by (simp add: DbMessage_of_def)
  then have ops: "ty = 107" "payload = writes [writer_u32 requestId, writer_u8 (if ok \<and> found then 1 else 0),
      writer_u64 (ses_accountId s0), writer_string (ses_username s0), writer_u8 (ses_permissionLevel s0)] []"
    using assms(1) r r' r_ok d
    by (simp_all add: db_onMessage_def on_session_lookup_def db_reply_op_def del: writes.simps)
  then have "ok \<and> found"
    using assms(2,3) by (auto simp: read_session_reply_payload simp del: writes.simps split: if_splits)
  then have "\<not> mFailed r'" and "fst (database_lookupSession lib token empty_session st) = (True, True, s0)"
    using d by (auto split: if_splits)
  moreover from this have "\<exists>result. fst (db_query lib PGRES_TUPLES_OK sql_lookup_session [c_str token] st) = Some result \<and>
      res_rows result \<noteq> []"
    by (auto simp: fst_operations split: option.splits if_splits)
  ultimately show ?thesis
    using r r' by (auto simp: read_all_def)
qed

theorem session_lookup_fails_closed_witness:
  "\<exists>token result. read_all (do { _ \<leftarrow> reader_u32; reader_string }) (request_payload 8 (LookupSession ''tok'')) = (True, token) \<and>
    fst (db_query pg_reference PGRES_TUPLES_OK sql_lookup_session [c_str token]
      (new_database\<lparr>mConnection := True\<rparr>, sample_session_tables)) = Some result \<and> res_rows result \<noteq> []"
proof -
  let ?st = "(new_database\<lparr>mConnection := True\<rparr>, sample_session_tables)"
  have "call_ok (LookupSession ''tok'')" by code_simp
  moreover have "pg.live ?st" by (simp add: pg.live_def) (simp add: pg_reference_def)
  ultimately have "pg.serves (db_onMessage pg_reference 1 (DbMessage_code SessionLookupRequest)
      (request_payload 8 (LookupSession ''tok'')) ?st) 1 8 (LookupSession ''tok'') sample_session_tables"
    using pg.serve_call [of ?st "LookupSession ''tok''" 1 8] sample_session_ok by simp
  then obtain st' ty payload where "db_onMessage pg_reference 1 (DbMessage_code SessionLookupRequest)
      (request_payload 8 (LookupSession ''tok'')) ?st = (st', [Send 1 ty payload])"
    and "snd (run_handler (LookupSessionHandler ()) True ty payload) =
      fst (spec_call (LookupSession ''tok'') sample_session_tables)"
    by (auto simp: pg.serves_def answers_def) (metis prod.collapse)
  moreover have "fst (spec_call (LookupSession ''tok'') sample_session_tables) =
      SessionReply True \<lparr>session_found = True, session_accountId = 3, session_username = ''Ada'', session_permissionLevel = 2\<rparr>"
    by code_simp
  ultimately show ?thesis
    using session_lookup_fails_closed [of pg_reference 1 "request_payload 8 (LookupSession ''tok'')" ?st st' 1 ty payload]
    by simp
qed

end
