(* ===== verification/Sodium.thy ===== *)
theory Sodium
  imports Prelude
begin

text \<open>
  libsodium, which is outside the repository: a record of the functions the servers call, over a
  random state of any type. \<open>randombytes\<close> is \<^verbatim>\<open>randombytes_buf\<close>, \<open>pwhash_str\<close> is \<^verbatim>\<open>crypto_pwhash_str\<close>
  with the text it leaves in the buffer (\<open>None\<close> when it fails), \<open>pwhash_str_verify\<close> is
  \<^verbatim>\<open>crypto_pwhash_str_verify\<close>.
\<close>

record 'r sodium =
  randombytes :: "nat \<Rightarrow> 'r \<Rightarrow> bytes \<times> 'r"
  pwhash_str :: "string \<Rightarrow> 'r \<Rightarrow> string option \<times> 'r"
  pwhash_str_verify :: "string \<Rightarrow> string \<Rightarrow> bool"

end
