(* ===== verification/AuthServer.thy ===== *)
theory AuthServer
  imports DbClient TcpServer Config Sodium
begin

text \<open>
  \<^verbatim>\<open>server/authserver/src/main.cpp\<close>: logins, registrations and privileged account commands. Each
  nested lambda of the source is a constructor of \<open>auth_tag\<close> carrying what the lambda captures,
  and \<open>auth_run\<close> is its body. libsodium is outside the repository and
  is the parameter \<open>sodium\<close>. Sends go to an outbox that the loop hands to the TCP
  server in order. The lemmas show who can get a Success out of the service: the step relation
  \<open>auth_reach\<close> lets messages and database replies arrive in any order.
\<close>

section \<open>The configuration\<close>

record AuthConfig =
  worldHost :: string
  worldPort :: u16
  sessionTtl :: u32

definition auth_config :: "environment \<Rightarrow> AuthConfig" where
  "auth_config env = \<lparr>worldHost = envString env ''WORLD_PUBLIC_HOST'' ''127.0.0.1'',
     worldPort = envPort env ''WORLD_SERVER_PORT'' 7002,
     sessionTtl = envUint env ''SESSION_TTL_SECONDS'' 120\<rparr>"

record 'r auth_state =
  outbox :: "server_op list"
  rng :: 'r

definition kTokenBytes :: nat where
  "kTokenBytes = 32"

definition kMinPasswordLength :: nat where
  "kMinPasswordLength = 6"

definition kMaxUsernameLength :: nat where
  "kMaxUsernameLength = 32"

definition hex_digit :: "byte \<Rightarrow> char" where
  "hex_digit b = ''0123456789abcdef'' ! unat b"

definition token_of_bytes :: "bytes \<Rightarrow> string" where
  "token_of_bytes raw = concat (map (\<lambda>b. [hex_digit (drop_bit 4 b), hex_digit (b AND 0x0F)]) raw)"

definition generateToken :: "'r sodium \<Rightarrow> 'r auth_state \<Rightarrow> string \<times> 'r auth_state" where
  "generateToken lib s = (case randombytes lib kTokenBytes (rng s) of
     (raw, r) \<Rightarrow> (token_of_bytes raw, s\<lparr>rng := r\<rparr>))"

definition hashPassword :: "'r sodium \<Rightarrow> string \<Rightarrow> 'r auth_state \<Rightarrow> string option \<times> 'r auth_state" where
  "hashPassword lib password s = (case pwhash_str lib password (rng s) of
     (hashed, r) \<Rightarrow> (map_option c_str hashed, s\<lparr>rng := r\<rparr>))"

definition verifyPassword :: "'r sodium \<Rightarrow> string \<Rightarrow> string \<Rightarrow> bool" where
  "verifyPassword lib hash password = pwhash_str_verify lib (c_str hash) password"

definition allowed_char :: "char \<Rightarrow> bool" where
  "allowed_char c \<longleftrightarrow> (let n = (of_char c :: nat) in
     (97 \<le> n \<and> n \<le> 122) \<or> (65 \<le> n \<and> n \<le> 90) \<or> (48 \<le> n \<and> n \<le> 57) \<or> c = CHR ''_'' \<or> c = CHR ''-'')"

definition validUsername :: "string \<Rightarrow> bool" where
  "validUsername username \<longleftrightarrow>
     \<not> (username = [] \<or> length username > kMaxUsernameLength) \<and> list_all allowed_char username"

section \<open>Responses\<close>

definition post :: "server_op \<Rightarrow> 'r auth_state \<Rightarrow> 'r auth_state" where
  "post op s = s\<lparr>outbox := outbox s @ [op]\<rparr>"

definition login_response :: "AuthResult \<Rightarrow> string \<Rightarrow> string \<Rightarrow> u16 \<Rightarrow> u64 \<Rightarrow> u8 \<Rightarrow> bytes" where
  "login_response result token host port accountId level = writes
     [writer_u8 (AuthResult_code result), writer_string token, writer_string host, writer_u16 port,
      writer_u64 accountId, writer_u8 level] []"

definition sendLoginResponse ::
  "ConnectionId \<Rightarrow> AuthResult \<Rightarrow> string \<Rightarrow> string \<Rightarrow> u16 \<Rightarrow> u64 \<Rightarrow> u8 \<Rightarrow> 'r auth_state \<Rightarrow> 'r auth_state" where
  "sendLoginResponse cid result token host port accountId level =
     post (Send cid (AuthMessage_code LoginResponse) (login_response result token host port accountId level))"

definition sendAdminResponse :: "ConnectionId \<Rightarrow> AuthMessage \<Rightarrow> AuthResult \<Rightarrow> 'r auth_state \<Rightarrow> 'r auth_state" where
  "sendAdminResponse cid ty result =
     post (Send cid (AuthMessage_code ty) (writes [writer_u8 (AuthResult_code result)] []))"

definition sendRegisterResponse :: "ConnectionId \<Rightarrow> AuthResult \<Rightarrow> 'r auth_state \<Rightarrow> 'r auth_state" where
  "sendRegisterResponse cid result =
     post (Send cid (AuthMessage_code RegisterResponse) (writes [writer_u8 (AuthResult_code result)] []))"

section \<open>The database callbacks\<close>

datatype auth_tag =
    LoginLookup ConnectionId (tag_password: string) (tag_username: string)
  | LoginSession ConnectionId (tag_token: string) u64 u8
  | RegisterCreate ConnectionId
  | AdminLookup ConnectionId AuthMessage AuthMessage (tag_target: string) string u8
  | AdminCreate ConnectionId AuthMessage
  | AdminDelete ConnectionId AuthMessage
  | AdminSetLevel ConnectionId AuthMessage
  | StartupAdminExists
  | StartupDelete

text \<open>The replies a login's lookup can get: the same answer for an unknown user and a wrong password.\<close>

definition on_login_lookup :: "'r sodium \<Rightarrow> AuthConfig \<Rightarrow> ConnectionId \<Rightarrow> string \<Rightarrow> bool \<Rightarrow> AccountLookup \<Rightarrow>
    'r auth_state \<Rightarrow> 'r auth_state \<times> (db_call \<times> auth_tag) list" where
  "on_login_lookup lib cfg cid password ok account s =
     (if \<not> ok then (sendLoginResponse cid AuthServerError [] [] 0 0 0 s, [])
      else if \<not> lookup_found account \<or> \<not> verifyPassword lib (lookup_passwordHash account) password
      then (sendLoginResponse cid InvalidCredentials [] [] 0 0 0 s, [])
      else case generateToken lib s of (token, s') \<Rightarrow>
        (s', [(CreateSession (lookup_accountId account) token (sessionTtl cfg),
               LoginSession cid token (lookup_accountId account) (lookup_permissionLevel account))]))"

definition on_login_session :: "AuthConfig \<Rightarrow> ConnectionId \<Rightarrow> string \<Rightarrow> u64 \<Rightarrow> u8 \<Rightarrow> bool \<Rightarrow> DbResult \<Rightarrow>
    'r auth_state \<Rightarrow> 'r auth_state" where
  "on_login_session cfg cid token accountId level sessionOk result s =
     (if \<not> sessionOk \<or> result \<noteq> DbOk then sendLoginResponse cid AuthServerError [] [] 0 0 0 s
      else sendLoginResponse cid AuthSuccess token (worldHost cfg) (worldPort cfg) accountId level s)"

definition on_register_create :: "ConnectionId \<Rightarrow> bool \<Rightarrow> DbResult \<Rightarrow> 'r auth_state \<Rightarrow> 'r auth_state" where
  "on_register_create cid ok result s =
     (if \<not> ok then sendRegisterResponse cid AuthServerError s
      else if result = DbConflict then sendRegisterResponse cid AccountExists s
      else sendRegisterResponse cid AuthSuccess s)"

definition on_admin_lookup :: "'r sodium \<Rightarrow> ConnectionId \<Rightarrow> AuthMessage \<Rightarrow> AuthMessage \<Rightarrow> string \<Rightarrow> string \<Rightarrow> u8 \<Rightarrow>
    bool \<Rightarrow> SessionLookup \<Rightarrow> 'r auth_state \<Rightarrow> 'r auth_state \<times> (db_call \<times> auth_tag) list" where
  "on_admin_lookup lib cid cmd responseType target password level ok session s =
     (if \<not> ok then (sendAdminResponse cid responseType AuthServerError s, [])
      else if \<not> session_found session then (sendAdminResponse cid responseType SessionExpired s, [])
      else if session_permissionLevel session < PermissionLevel_code Admin
      then (sendAdminResponse cid responseType InsufficientPermission s, [])
      else if cmd = AdminAccountCreateRequest then
        (if \<not> validUsername target \<or> length password < kMinPasswordLength \<or> level > PermissionLevel_code Admin
         then (sendAdminResponse cid responseType MalformedRequest s, [])
         else case hashPassword lib password s of
            (None, s') \<Rightarrow> (sendAdminResponse cid responseType AuthServerError s', [])
          | (Some hash, s') \<Rightarrow> (s', [(CreateAccountWithLevel target hash level, AdminCreate cid responseType)]))
      else if cmd = AdminAccountDeleteRequest then (s, [(DeleteAccount target, AdminDelete cid responseType)])
      else if level > PermissionLevel_code Admin then (sendAdminResponse cid responseType MalformedRequest s, [])
      else (s, [(SetPermissionLevel target level, AdminSetLevel cid responseType)]))"

definition on_admin_create :: "ConnectionId \<Rightarrow> AuthMessage \<Rightarrow> bool \<Rightarrow> DbResult \<Rightarrow> 'r auth_state \<Rightarrow> 'r auth_state" where
  "on_admin_create cid responseType created result s =
     (if \<not> created then sendAdminResponse cid responseType AuthServerError s
      else if result = DbConflict then sendAdminResponse cid responseType AccountExists s
      else sendAdminResponse cid responseType AuthSuccess s)"

text \<open>The lambdas of the delete and the set-level command, which read alike.\<close>

definition on_admin_change :: "ConnectionId \<Rightarrow> AuthMessage \<Rightarrow> bool \<Rightarrow> DbResult \<Rightarrow> 'r auth_state \<Rightarrow> 'r auth_state" where
  "on_admin_change cid responseType done result s =
     (if \<not> done then sendAdminResponse cid responseType AuthServerError s
      else if result = DbNotFound then sendAdminResponse cid responseType NoSuchAccount s
      else sendAdminResponse cid responseType AuthSuccess s)"

definition auth_run :: "'r sodium \<Rightarrow> AuthConfig \<Rightarrow> (auth_tag, 'r auth_state) service" where
  "auth_run lib cfg k reply s = (case k of
      LoginLookup cid password username \<Rightarrow> (case reply of
          AccountReply ok account \<Rightarrow> on_login_lookup lib cfg cid password ok account s
        | _ \<Rightarrow> (s, []))
    | LoginSession cid token accountId level \<Rightarrow> (case reply of
          ResultReply ok result \<Rightarrow> (on_login_session cfg cid token accountId level ok result s, [])
        | _ \<Rightarrow> (s, []))
    | RegisterCreate cid \<Rightarrow> (case reply of
          CreateReply ok result accountId \<Rightarrow> (on_register_create cid ok result s, [])
        | _ \<Rightarrow> (s, []))
    | AdminLookup cid cmd responseType target password level \<Rightarrow> (case reply of
          SessionReply ok session \<Rightarrow>
            on_admin_lookup lib cid cmd responseType target password level ok session s
        | _ \<Rightarrow> (s, []))
    | AdminCreate cid responseType \<Rightarrow> (case reply of
          CreateReply ok result accountId \<Rightarrow> (on_admin_create cid responseType ok result s, [])
        | _ \<Rightarrow> (s, []))
    | AdminDelete cid responseType \<Rightarrow> (case reply of
          ResultReply ok result \<Rightarrow> (on_admin_change cid responseType ok result s, [])
        | _ \<Rightarrow> (s, []))
    | AdminSetLevel cid responseType \<Rightarrow> (case reply of
          ResultReply ok result \<Rightarrow> (on_admin_change cid responseType ok result s, [])
        | _ \<Rightarrow> (s, []))
    | StartupAdminExists \<Rightarrow> (case reply of
          ExistsReply ok found \<Rightarrow> (s, [(DeleteAccount ''bootstrap'', StartupDelete)])
        | _ \<Rightarrow> (s, []))
    | StartupDelete \<Rightarrow> (s, []))"

section \<open>Messages\<close>

definition read_credentials :: "(ByteReader, u32 \<times> string \<times> string) state" where
  "read_credentials = do {
     version \<leftarrow> reader_u32;
     username \<leftarrow> reader_string;
     password \<leftarrow> reader_string;
     State_Monad.return (version, username, password)
   }"

definition on_login_request :: "ConnectionId \<Rightarrow> bytes \<Rightarrow> 'r auth_state \<Rightarrow>
    'r auth_state \<times> (db_call \<times> auth_tag) list" where
  "on_login_request cid data s = (case read_all read_credentials data of
     (good, version, username, password) \<Rightarrow>
       if \<not> good then (sendLoginResponse cid MalformedRequest [] [] 0 0 0 s, [])
       else if version \<noteq> kProtocolVersion then (sendLoginResponse cid AuthVersionMismatch [] [] 0 0 0 s, [])
       else (s, [(LookupAccount username, LoginLookup cid password username)]))"

definition on_register_request :: "'r sodium \<Rightarrow> ConnectionId \<Rightarrow> bytes \<Rightarrow> 'r auth_state \<Rightarrow>
    'r auth_state \<times> (db_call \<times> auth_tag) list" where
  "on_register_request lib cid data s = (case read_all read_credentials data of
     (good, version, username, password) \<Rightarrow>
       if \<not> good then (sendRegisterResponse cid MalformedRequest s, [])
       else if version \<noteq> kProtocolVersion then (sendRegisterResponse cid AuthVersionMismatch s, [])
       else if \<not> validUsername username \<or> length password < kMinPasswordLength
       then (sendRegisterResponse cid MalformedRequest s, [])
       else case hashPassword lib password s of
          (None, s') \<Rightarrow> (sendRegisterResponse cid AuthServerError s', [])
        | (Some hash, s') \<Rightarrow> (s', [(CreateAccount username hash, RegisterCreate cid)]))"

definition read_admin :: "AuthMessage \<Rightarrow> (ByteReader, string \<times> string \<times> string \<times> u8) state" where
  "read_admin cmd = do {
     token \<leftarrow> reader_string;
     target \<leftarrow> reader_string;
     password \<leftarrow> (if cmd = AdminAccountCreateRequest then reader_string else State_Monad.return []);
     level \<leftarrow> (if cmd = AdminAccountCreateRequest \<or> cmd = AdminSetLevelRequest
               then reader_u8 else State_Monad.return 0);
     State_Monad.return (token, target, password, level)
   }"

definition admin_response_type :: "AuthMessage \<Rightarrow> AuthMessage" where
  "admin_response_type cmd =
     (if cmd = AdminAccountCreateRequest then AdminAccountCreateResponse
      else if cmd = AdminAccountDeleteRequest then AdminAccountDeleteResponse
      else AdminSetLevelResponse)"

definition on_admin_request :: "AuthMessage \<Rightarrow> ConnectionId \<Rightarrow> bytes \<Rightarrow> 'r auth_state \<Rightarrow>
    'r auth_state \<times> (db_call \<times> auth_tag) list" where
  "on_admin_request cmd cid data s = (case read_all (read_admin cmd) data of
     (good, token, target, password, level) \<Rightarrow>
       if \<not> good \<or> target = [] then (sendAdminResponse cid (admin_response_type cmd) MalformedRequest s, [])
       else (s, [(LookupSession token,
                  AdminLookup cid cmd (admin_response_type cmd) target password level)]))"

definition auth_message :: "'r sodium \<Rightarrow> ConnectionId \<Rightarrow> u16 \<Rightarrow> bytes \<Rightarrow> 'r auth_state \<Rightarrow>
    'r auth_state \<times> (db_call \<times> auth_tag) list" where
  "auth_message lib cid ty data s =
     (let cmd = AuthMessage_of ty in
      if cmd = LoginRequest then on_login_request cid data s
      else if cmd = RegisterRequest then on_register_request lib cid data s
      else if cmd = AdminAccountCreateRequest \<or> cmd = AdminAccountDeleteRequest \<or> cmd = AdminSetLevelRequest
      then on_admin_request cmd cid data s
      else (s, []))"

section \<open>The process\<close>

text \<open>A callback of this service makes at most one further call, whose callback makes none but for
  the start-up pair: two levels of nesting are enough.\<close>

definition kAuthDepth :: nat where
  "kAuthDepth = 2"

definition auth_onMessage :: "'r sodium \<Rightarrow> AuthConfig \<Rightarrow> ConnectionId \<Rightarrow> u16 \<Rightarrow> bytes \<Rightarrow>
    auth_tag DbClient \<times> 'r auth_state \<Rightarrow> (auth_tag DbClient \<times> 'r auth_state) \<times> server_op list" where
  "auth_onMessage lib cfg cid ty data st = (case st of (db, s) \<Rightarrow>
     case auth_message lib cid ty data (s\<lparr>outbox := []\<rparr>) of (s1, calls) \<Rightarrow>
       case db_perform kAuthDepth (auth_run lib cfg) calls (db, s1) of (db', s2) \<Rightarrow>
         ((db', s2\<lparr>outbox := []\<rparr>), outbox s2))"

definition auth_callbacks :: "'r sodium \<Rightarrow> AuthConfig \<Rightarrow> (auth_tag DbClient \<times> 'r auth_state) Callbacks" where
  "auth_callbacks lib cfg = \<lparr>onConnect = Some (\<lambda>_ _ st. (st, [])), onMessage = Some (auth_onMessage lib cfg),
     onDisconnect = None\<rparr>"

definition auth_startup :: "'r sodium \<Rightarrow> AuthConfig \<Rightarrow> auth_tag DbClient \<times> 'r auth_state \<Rightarrow>
    auth_tag DbClient \<times> 'r auth_state" where
  "auth_startup lib cfg = db_perform kAuthDepth (auth_run lib cfg) [(AdminExists, StartupAdminExists)]"

text \<open>One turn of the main loop. \<open>reconnect\<close> is what each attempt to reach the database server came to;
  \<open>None\<close> is a turn stuck in these attempts for good.\<close>

definition auth_turn :: "'r sodium \<Rightarrow> AuthConfig \<Rightarrow> readiness \<Rightarrow> (nat \<Rightarrow> bool \<times> TcpSocket option) \<Rightarrow>
    TcpServer \<times> (auth_tag DbClient \<times> 'r auth_state) \<Rightarrow>
    (TcpServer \<times> (auth_tag DbClient \<times> 'r auth_state)) option" where
  "auth_turn lib cfg ready reconnect st =
     (case poll (auth_callbacks lib cfg) ready st of (srv, db, s) \<Rightarrow>
      case db_poll kAuthDepth (auth_run lib cfg) (db, s\<lparr>outbox := []\<rparr>) of (up, db', s') \<Rightarrow>
        map_option (\<lambda>db''. (server_steps (outbox s') srv, db'', s'\<lparr>outbox := []\<rparr>))
          (if up then Some db' else db_reconnect reconnect 0 db'))"

fun auth_rank :: "auth_tag \<Rightarrow> nat" where
  "auth_rank (LoginLookup _ _ _) = 1"
| "auth_rank (AdminLookup _ _ _ _ _ _) = 1"
| "auth_rank StartupAdminExists = 1"
| "auth_rank _ = 0"

lemma auth_run_rank:
  assumes "auth_run lib cfg k reply s = (s', calls)" and "(call, k') \<in> set calls"
  shows "auth_rank k' < auth_rank k"
  using assms
  by (cases k; cases reply)
    (auto simp: auth_run_def on_login_lookup_def on_admin_lookup_def split: if_splits prod.splits option.splits)

interpretation auth_service: ranked_service "auth_run lib cfg" auth_rank for lib :: "'r sodium" and cfg
  by unfold_locales (rule auth_run_rank)

section \<open>Messages and replies in any order\<close>

text \<open>The service between the network and the database client: what was asked and by whom, which
  callbacks are outstanding, which calls were made and which replies came. A callback gets a
  reply of the kind its call produces.\<close>

record 'r auth_world =
  aw_state :: "'r auth_state"
  aw_waiting :: "auth_tag list"
  aw_calls :: "(db_call \<times> auth_tag) list"
  aw_asked :: "(ConnectionId \<times> u16 \<times> bytes) list"
  aw_replied :: "(auth_tag \<times> db_reply) list"

definition reply_fits :: "auth_tag \<Rightarrow> db_reply \<Rightarrow> bool" where
  "reply_fits k reply = (case reply of
      AccountReply _ _ \<Rightarrow> (case k of LoginLookup _ _ _ \<Rightarrow> True | _ \<Rightarrow> False)
    | CreateReply _ _ _ \<Rightarrow> (case k of RegisterCreate _ \<Rightarrow> True | AdminCreate _ _ \<Rightarrow> True | _ \<Rightarrow> False)
    | ResultReply _ _ \<Rightarrow> (case k of LoginSession _ _ _ _ \<Rightarrow> True | AdminDelete _ _ \<Rightarrow> True
        | AdminSetLevel _ _ \<Rightarrow> True | StartupDelete \<Rightarrow> True | _ \<Rightarrow> False)
    | ExistsReply _ _ \<Rightarrow> (case k of StartupAdminExists \<Rightarrow> True | _ \<Rightarrow> False)
    | SessionReply _ _ \<Rightarrow> (case k of AdminLookup _ _ _ _ _ _ \<Rightarrow> True | _ \<Rightarrow> False))"

definition auth_start :: "'r \<Rightarrow> 'r auth_world" where
  "auth_start r = \<lparr>aw_state = \<lparr>outbox = [], rng = r\<rparr>, aw_waiting = [StartupAdminExists],
     aw_calls = [(AdminExists, StartupAdminExists)], aw_asked = [], aw_replied = []\<rparr>"

definition auth_ask :: "ConnectionId \<Rightarrow> u16 \<Rightarrow> bytes \<Rightarrow> 'r sodium \<Rightarrow> 'r auth_world \<Rightarrow> 'r auth_world" where
  "auth_ask cid ty data lib w = (case auth_message lib cid ty data (aw_state w) of (s', calls) \<Rightarrow>
     w\<lparr>aw_state := s', aw_waiting := aw_waiting w @ map snd calls, aw_calls := aw_calls w @ calls,
       aw_asked := aw_asked w @ [(cid, ty, data)]\<rparr>)"

definition auth_answer :: "auth_tag \<Rightarrow> db_reply \<Rightarrow> 'r sodium \<Rightarrow> AuthConfig \<Rightarrow> 'r auth_world \<Rightarrow> 'r auth_world" where
  "auth_answer k reply lib cfg w = (case auth_run lib cfg k reply (aw_state w) of (s', calls) \<Rightarrow>
     w\<lparr>aw_state := s', aw_waiting := remove1 k (aw_waiting w) @ map snd calls, aw_calls := aw_calls w @ calls,
       aw_replied := aw_replied w @ [(k, reply)]\<rparr>)"

inductive auth_reach :: "'r sodium \<Rightarrow> AuthConfig \<Rightarrow> 'r auth_world \<Rightarrow> bool" for lib cfg where
  start: "auth_reach lib cfg (auth_start r)"
| message: "auth_reach lib cfg w \<Longrightarrow> auth_reach lib cfg (auth_ask cid ty data lib w)"
| reply: "auth_reach lib cfg w \<Longrightarrow> k \<in> set (aw_waiting w) \<Longrightarrow> reply_fits k answer \<Longrightarrow>
    auth_reach lib cfg (auth_answer k answer lib cfg w)"

text \<open>Why each tag is there: the record that must already exist when a callback is outstanding or
  has run, when a call was made, and when a message was sent.\<close>

fun tag_justified :: "'r sodium \<Rightarrow> AuthConfig \<Rightarrow> 'r auth_world \<Rightarrow> auth_tag \<Rightarrow> bool" where
  "tag_justified lib cfg w (LoginLookup cid password username) =
     (\<exists>data. (cid, AuthMessage_code LoginRequest, data) \<in> set (aw_asked w) \<and>
        read_all read_credentials data = (True, kProtocolVersion, username, password))"
| "tag_justified lib cfg w (LoginSession cid token accountId level) =
     (\<exists>password username account. (LoginLookup cid password username, AccountReply True account) \<in> set (aw_replied w) \<and>
        lookup_found account \<and> verifyPassword lib (lookup_passwordHash account) password \<and>
        accountId = lookup_accountId account \<and> level = lookup_permissionLevel account \<and>
        (CreateSession accountId token (sessionTtl cfg), LoginSession cid token accountId level) \<in> set (aw_calls w))"
| "tag_justified lib cfg w (AdminLookup cid cmd responseType target password level) =
     (responseType = admin_response_type cmd \<and>
      (\<exists>data token. (cid, AuthMessage_code cmd, data) \<in> set (aw_asked w) \<and>
        read_all (read_admin cmd) data = (True, token, target, password, level) \<and>
        (LookupSession token, AdminLookup cid cmd responseType target password level) \<in> set (aw_calls w)))"
| "tag_justified lib cfg w (AdminCreate cid ty) = (ty \<in> range admin_response_type)"
| "tag_justified lib cfg w (AdminDelete cid ty) = (ty \<in> range admin_response_type)"
| "tag_justified lib cfg w (AdminSetLevel cid ty) = (ty \<in> range admin_response_type)"
| "tag_justified lib cfg w _ = True"

text \<open>Where a tag's response goes, and what a response looks like.\<close>

fun tag_connection :: "auth_tag \<Rightarrow> ConnectionId option" where
  "tag_connection (LoginLookup cid _ _) = Some cid"
| "tag_connection (LoginSession cid _ _ _) = Some cid"
| "tag_connection (RegisterCreate cid) = Some cid"
| "tag_connection (AdminLookup cid _ _ _ _ _) = Some cid"
| "tag_connection (AdminCreate cid _) = Some cid"
| "tag_connection (AdminDelete cid _) = Some cid"
| "tag_connection (AdminSetLevel cid _) = Some cid"
| "tag_connection _ = None"

text \<open>A response other than a successful login: its type is not the login response, or its result
  byte is not Success.\<close>

definition not_login_success :: "u16 \<Rightarrow> bytes \<Rightarrow> bool" where
  "not_login_success ty payload \<longleftrightarrow>
     ty \<noteq> AuthMessage_code LoginResponse \<or> payload = [] \<or> hd payload \<noteq> AuthResult_code AuthSuccess"

lemma login_response_head: "\<exists>rest. login_response result token host port accountId level = AuthResult_code result # rest"
  unfolding login_response_def
  by (subst writes_concat, simp) (simp add: writer_u8_def writer_raw_def)

lemma not_login_success_login:
  "not_login_success (AuthMessage_code LoginResponse) (login_response result token host port accountId level) \<longleftrightarrow>
   AuthResult_code result \<noteq> AuthResult_code AuthSuccess"
  using login_response_head [of result token host port accountId level] by (auto simp: not_login_success_def)

lemmas not_login_success_code = not_login_success_login [simplified]

lemma not_login_success_other:
  "not_login_success (AuthMessage_code RegisterResponse) payload"
  "not_login_success (AuthMessage_code (admin_response_type cmd)) payload"
  by (auto simp: not_login_success_def admin_response_type_def)

lemmas auth_sends = sendLoginResponse_def sendAdminResponse_def sendRegisterResponse_def post_def

lemma outbox_rng [simp]: "outbox (s\<lparr>rng := r\<rparr>) = outbox s"
  by simp

text \<open>A message either is answered at once, or leads to one database call for its connection, or is
  of no known type and ignored.\<close>

definition known_request :: "u16 \<Rightarrow> bool" where
  "known_request ty \<longleftrightarrow> AuthMessage_of ty \<in> {LoginRequest, RegisterRequest, AdminAccountCreateRequest,
     AdminAccountDeleteRequest, AdminSetLevelRequest}"

lemma hashPassword_outbox: "hashPassword lib password s = (h, s') \<Longrightarrow> outbox s' = outbox s"
  by (auto simp: hashPassword_def split: prod.splits)

lemma generateToken_outbox: "generateToken lib s = (t, s') \<Longrightarrow> outbox s' = outbox s"
  by (auto simp: generateToken_def split: prod.splits)

lemma login_request_outcome:
  assumes "on_login_request cid data s = (s', calls)"
  shows "(\<exists>payload. outbox s' = outbox s @ [Send cid (AuthMessage_code LoginResponse) payload] \<and> calls = [] \<and>
       not_login_success (AuthMessage_code LoginResponse) payload) \<or>
     (s' = s \<and> (\<exists>username password. calls = [(LookupAccount username, LoginLookup cid password username)] \<and>
       read_all read_credentials data = (True, kProtocolVersion, username, password)))"
proof -
  obtain good version username password where r: "read_all read_credentials data = (good, version, username, password)"
    by (metis prod_cases4)
  show ?thesis
    using assms
    by (auto simp: on_login_request_def r auth_sends not_login_success_code split: if_splits)
qed

lemma register_request_outcome:
  assumes "on_register_request lib cid data s = (s', calls)"
  shows "(\<exists>payload. outbox s' = outbox s @ [Send cid (AuthMessage_code RegisterResponse) payload] \<and> calls = []) \<or>
     (outbox s' = outbox s \<and> (\<exists>username hash. calls = [(CreateAccount username hash, RegisterCreate cid)] \<and>
       validUsername username))"
proof -
  obtain good version username password where r: "read_all read_credentials data = (good, version, username, password)"
    by (metis prod_cases4)
  show ?thesis
    using assms
    by (auto simp: on_register_request_def r auth_sends hashPassword_outbox split: if_splits option.splits prod.splits)
qed

lemma admin_request_outcome:
  assumes "on_admin_request cmd cid data s = (s', calls)"
  shows "(\<exists>payload. outbox s' = outbox s @ [Send cid (AuthMessage_code (admin_response_type cmd)) payload] \<and> calls = []) \<or>
     (s' = s \<and> (\<exists>token target password level.
        calls = [(LookupSession token, AdminLookup cid cmd (admin_response_type cmd) target password level)] \<and>
        read_all (read_admin cmd) data = (True, token, target, password, level)))"
proof -
  obtain good token target password level where r: "read_all (read_admin cmd) data = (good, token, target, password, level)"
    by (metis prod_cases5)
  show ?thesis
    using assms by (auto simp: on_admin_request_def r auth_sends split: if_splits)
qed

lemma admin_lookup_outcome:
  assumes "on_admin_lookup lib cid cmd rt target password level ok session s = (s', calls)"
  shows "(\<exists>payload. outbox s' = outbox s @ [Send cid (AuthMessage_code rt) payload] \<and> calls = []) \<or>
     (outbox s' = outbox s \<and> ok \<and> session_found session \<and>
      PermissionLevel_code Admin \<le> session_permissionLevel session \<and>
      ((\<exists>hash. calls = [(CreateAccountWithLevel target hash level, AdminCreate cid rt)] \<and> validUsername target) \<or>
       calls = [(DeleteAccount target, AdminDelete cid rt)] \<or>
       calls = [(SetPermissionLevel target level, AdminSetLevel cid rt)]))"
  using assms
  by (auto simp: on_admin_lookup_def auth_sends hashPassword_outbox not_less
      split: if_splits option.splits prod.splits)

lemma login_lookup_outcome:
  assumes "on_login_lookup lib cfg cid password ok account s = (s', calls)"
  shows "(\<exists>payload. outbox s' = outbox s @ [Send cid (AuthMessage_code LoginResponse) payload] \<and> calls = [] \<and>
       not_login_success (AuthMessage_code LoginResponse) payload) \<or>
     (outbox s' = outbox s \<and> ok \<and> lookup_found account \<and>
      verifyPassword lib (lookup_passwordHash account) password \<and>
      (\<exists>token. calls = [(CreateSession (lookup_accountId account) token (sessionTtl cfg),
         LoginSession cid token (lookup_accountId account) (lookup_permissionLevel account))]))"
  using assms
  by (auto simp: on_login_lookup_def auth_sends generateToken_outbox not_login_success_code
      split: if_splits prod.splits)

section \<open>The invariant\<close>

definition grows :: "'r auth_world \<Rightarrow> 'r auth_world \<Rightarrow> bool" where
  "grows w w' \<longleftrightarrow> set (aw_asked w) \<subseteq> set (aw_asked w') \<and> set (aw_replied w) \<subseteq> set (aw_replied w') \<and>
     set (aw_calls w) \<subseteq> set (aw_calls w')"

lemma tag_justified_mono: "grows w w' \<Longrightarrow> tag_justified lib cfg w k \<Longrightarrow> tag_justified lib cfg w' k"
  by (cases k) (fastforce simp: grows_def)+

definition sent_justified :: "AuthConfig \<Rightarrow> 'r auth_world \<Rightarrow> server_op \<Rightarrow> bool" where
  "sent_justified cfg w op = (case op of
      CloseConnection _ \<Rightarrow> False
    | Send cid ty payload \<Rightarrow> not_login_success ty payload \<or>
        (\<exists>token accountId level. ty = AuthMessage_code LoginResponse \<and>
           payload = login_response AuthSuccess token (worldHost cfg) (worldPort cfg) accountId level \<and>
           (LoginSession cid token accountId level, ResultReply True DbOk) \<in> set (aw_replied w)))"

definition privileged :: "db_call \<Rightarrow> bool" where
  "privileged call = (case call of CreateAccountWithLevel _ _ _ \<Rightarrow> True | DeleteAccount _ \<Rightarrow> True
     | SetPermissionLevel _ _ \<Rightarrow> True | _ \<Rightarrow> False)"

fun call_target :: "db_call \<Rightarrow> string" where
  "call_target (CreateAccountWithLevel username _ _) = username"
| "call_target (DeleteAccount username) = username"
| "call_target (SetPermissionLevel username _) = username"
| "call_target _ = []"

definition call_justified :: "'r auth_world \<Rightarrow> db_call \<times> auth_tag \<Rightarrow> bool" where
  "call_justified w ck = (case ck of (call, k) \<Rightarrow> privileged call \<longrightarrow>
     (call = DeleteAccount ''bootstrap'' \<and> k = StartupDelete) \<or>
     (\<exists>cid cmd rt password level session. tag_connection k = Some cid \<and>
        (AdminLookup cid cmd rt (call_target call) password level, SessionReply True session) \<in> set (aw_replied w) \<and>
        session_found session \<and> PermissionLevel_code Admin \<le> session_permissionLevel session))"

definition world_ok :: "'r sodium \<Rightarrow> AuthConfig \<Rightarrow> 'r auth_world \<Rightarrow> bool" where
  "world_ok lib cfg w \<longleftrightarrow>
     (\<forall>k \<in> set (aw_waiting w). tag_justified lib cfg w k) \<and>
     (\<forall>(k, r) \<in> set (aw_replied w). tag_justified lib cfg w k) \<and>
     (\<forall>op \<in> set (outbox (aw_state w)). sent_justified cfg w op) \<and>
     (\<forall>ck \<in> set (aw_calls w). call_justified w ck)"

lemma sent_justified_mono: "grows w w' \<Longrightarrow> sent_justified cfg w op \<Longrightarrow> sent_justified cfg w' op"
  unfolding sent_justified_def grows_def by (cases op; simp; blast)

lemma call_justified_mono: "grows w w' \<Longrightarrow> call_justified w ck \<Longrightarrow> call_justified w' ck"
  by (cases ck) (fastforce simp: call_justified_def grows_def)

text \<open>One step: the old records stay, and only what is new has to be justified.\<close>

lemma world_ok_step:
  assumes "world_ok lib cfg w" and "grows w w'"
    and "set (aw_waiting w') \<subseteq> set (aw_waiting w) \<union> snd ` set calls"
    and "set (aw_calls w') \<subseteq> set (aw_calls w) \<union> set calls"
    and "set (aw_replied w') \<subseteq> set (aw_replied w) \<union> {(k, r) | k r. k \<in> set (aw_waiting w)}"
    and "set (outbox (aw_state w')) \<subseteq> set (outbox (aw_state w)) \<union> set sent"
    and "list_all (sent_justified cfg w') sent"
    and "list_all (\<lambda>(call, k). call_justified w' (call, k) \<and> tag_justified lib cfg w' k) calls"
  shows "world_ok lib cfg w'"
proof -
  note mono = tag_justified_mono [OF assms(2)] sent_justified_mono [OF assms(2)] call_justified_mono [OF assms(2)]
  have w: "tag_justified lib cfg w' k" if "k \<in> set (aw_waiting w)" for k
    using assms(1) that mono(1) by (simp add: world_ok_def)
  have "tag_justified lib cfg w' k" if "k \<in> set (aw_waiting w')" for k
    using that assms(3,8) w by (fastforce simp: list_all_iff)
  moreover have "tag_justified lib cfg w' k" if "(k, r) \<in> set (aw_replied w')" for k r
  proof -
    have "(k, r) \<in> set (aw_replied w) \<or> k \<in> set (aw_waiting w)"
      using that assms(5) by blast
    then show ?thesis
      using assms(1) w mono(1) unfolding world_ok_def by blast
  qed
  moreover have "sent_justified cfg w' op" if "op \<in> set (outbox (aw_state w'))" for op
    using that assms(1,6,7) mono(2) unfolding world_ok_def list_all_iff by blast
  moreover have "call_justified w' ck" if "ck \<in> set (aw_calls w')" for ck
  proof (cases "ck \<in> set calls")
    case True
    with assms(8) show ?thesis by (cases ck) (auto simp: list_all_iff)
  next
    case False
    with that assms(4) have "ck \<in> set (aw_calls w)" by blast
    with assms(1) mono(3) show ?thesis unfolding world_ok_def by blast
  qed
  ultimately show ?thesis by (auto simp: world_ok_def)
qed

lemma world_ok_ask:
  assumes "world_ok lib cfg w"
  shows "world_ok lib cfg (auth_ask cid ty data lib w)"
proof -
  obtain s' calls where m: "auth_message lib cid ty data (aw_state w) = (s', calls)" by fastforce
  let ?w = "auth_ask cid ty data lib w"
  have w: "?w = w\<lparr>aw_state := s', aw_waiting := aw_waiting w @ map snd calls, aw_calls := aw_calls w @ calls,
       aw_asked := aw_asked w @ [(cid, ty, data)]\<rparr>"
    by (simp add: auth_ask_def m)
  have cmd: "AuthMessage_code (AuthMessage_of ty) = ty" by simp
  have "\<exists>sent. outbox s' = outbox (aw_state w) @ sent \<and> list_all (sent_justified cfg ?w) sent \<and>
      list_all (\<lambda>(call, k). call_justified ?w (call, k) \<and> tag_justified lib cfg ?w k) calls"
  proof -
    consider (login) "AuthMessage_of ty = LoginRequest" "on_login_request cid data (aw_state w) = (s', calls)"
      | (register) "on_register_request lib cid data (aw_state w) = (s', calls)"
      | (admin) "on_admin_request (AuthMessage_of ty) cid data (aw_state w) = (s', calls)"
      | (other) "s' = aw_state w" "calls = []"
      using m unfolding auth_message_def Let_def
      by (cases "AuthMessage_of ty = LoginRequest"; cases "AuthMessage_of ty = RegisterRequest";
          cases "AuthMessage_of ty = AdminAccountCreateRequest \<or> AuthMessage_of ty = AdminAccountDeleteRequest \<or>
            AuthMessage_of ty = AdminSetLevelRequest") simp_all
    then show ?thesis
    proof cases
      case login
      have "AuthMessage_code LoginRequest = ty"
        using cmd unfolding login(1) .
      then have "(cid, AuthMessage_code LoginRequest, data) \<in> set (aw_asked ?w)"
        by (simp only: w) simp
      with login_request_outcome [OF login(2)] show ?thesis
        by (auto simp: sent_justified_def call_justified_def privileged_def)
    next
      case register
      from register_request_outcome [OF this] show ?thesis
        by (auto simp: sent_justified_def call_justified_def privileged_def not_login_success_other [simplified])
    next
      case admin
      have "(cid, AuthMessage_code (AuthMessage_of ty), data) \<in> set (aw_asked ?w)" "set calls \<subseteq> set (aw_calls ?w)"
        using cmd by (simp_all add: w)
      with admin_request_outcome [OF admin] show ?thesis
        by (fastforce simp: sent_justified_def call_justified_def privileged_def not_login_success_other)
    next
      case other
      then show ?thesis by simp
    qed
  qed
  then obtain sent where sent: "outbox s' = outbox (aw_state w) @ sent" "list_all (sent_justified cfg ?w) sent"
    and calls: "list_all (\<lambda>(call, k). call_justified ?w (call, k) \<and> tag_justified lib cfg ?w k) calls"
    by blast
  show ?thesis
    by (rule world_ok_step [OF assms _ _ _ _ _ sent(2) calls]) (auto simp: w grows_def sent(1))
qed

lemma world_ok_answer:
  assumes "world_ok lib cfg w" and "k \<in> set (aw_waiting w)" and "reply_fits k reply"
  shows "world_ok lib cfg (auth_answer k reply lib cfg w)"
proof -
  obtain s' calls where m: "auth_run lib cfg k reply (aw_state w) = (s', calls)" by fastforce
  let ?w = "auth_answer k reply lib cfg w"
  have w: "?w = w\<lparr>aw_state := s', aw_waiting := remove1 k (aw_waiting w) @ map snd calls, aw_calls := aw_calls w @ calls,
       aw_replied := aw_replied w @ [(k, reply)]\<rparr>"
    by (simp add: auth_answer_def m)
  have j: "tag_justified lib cfg w k" using assms(1,2) by (simp add: world_ok_def)
  have new: "(k, reply) \<in> set (aw_replied ?w)" "set calls \<subseteq> set (aw_calls ?w)" by (simp_all add: w)
  have "\<exists>sent. outbox s' = outbox (aw_state w) @ sent \<and> list_all (sent_justified cfg ?w) sent \<and>
      list_all (\<lambda>(call, k). call_justified ?w (call, k) \<and> tag_justified lib cfg ?w k) calls"
  proof (cases k)
    case (LoginLookup cid password username)
    then obtain ok account where r: "reply = AccountReply ok account"
      using assms(3) by (cases reply) (auto simp: reply_fits_def)
    with m LoginLookup have "on_login_lookup lib cfg cid password ok account (aw_state w) = (s', calls)"
      by (simp add: auth_run_def)
    from login_lookup_outcome [OF this] show ?thesis
      using new r LoginLookup
      by (fastforce simp: sent_justified_def call_justified_def privileged_def)
  next
    case (LoginSession cid token accountId level)
    then obtain ok result where r: "reply = ResultReply ok result"
      using assms(3) by (cases reply) (auto simp: reply_fits_def)
    with m LoginSession have "s' = on_login_session cfg cid token accountId level ok result (aw_state w)" "calls = []"
      by (simp_all add: auth_run_def)
    then show ?thesis
      using new r LoginSession
      by (auto simp: on_login_session_def auth_sends sent_justified_def not_login_success_code split: if_splits)
  next
    case (AdminLookup cid cmd rt target password level)
    then obtain ok session where r: "reply = SessionReply ok session"
      using assms(3) by (cases reply) (auto simp: reply_fits_def)
    with m AdminLookup have "on_admin_lookup lib cid cmd rt target password level ok session (aw_state w) = (s', calls)"
      by (simp add: auth_run_def)
    from admin_lookup_outcome [OF this] show ?thesis
      using new r AdminLookup j
      by (fastforce simp: sent_justified_def call_justified_def privileged_def not_login_success_other)
  next
    case (RegisterCreate cid)
    then show ?thesis
      using m assms(3)
      by (cases reply) (auto simp: reply_fits_def auth_run_def on_register_create_def auth_sends
          sent_justified_def not_login_success_other [simplified] split: if_splits)
  next
    case (AdminCreate cid rt)
    then show ?thesis
      using m assms(3) j
      by (cases reply) (auto simp: reply_fits_def auth_run_def on_admin_create_def auth_sends
          sent_justified_def not_login_success_other split: if_splits)
  next
    case (AdminDelete cid rt)
    then show ?thesis
      using m assms(3) j
      by (cases reply) (auto simp: reply_fits_def auth_run_def on_admin_change_def auth_sends
          sent_justified_def not_login_success_other split: if_splits)
  next
    case (AdminSetLevel cid rt)
    then show ?thesis
      using m assms(3) j
      by (cases reply) (auto simp: reply_fits_def auth_run_def on_admin_change_def auth_sends
          sent_justified_def not_login_success_other split: if_splits)
  next
    case StartupAdminExists
    then show ?thesis
      using m assms(3)
      by (cases reply) (auto simp: reply_fits_def auth_run_def call_justified_def)
  next
    case StartupDelete
    then show ?thesis
      using m by (auto simp: auth_run_def)
  qed
  then obtain sent where sent: "outbox s' = outbox (aw_state w) @ sent" "list_all (sent_justified cfg ?w) sent"
    and calls: "list_all (\<lambda>(call, k). call_justified ?w (call, k) \<and> tag_justified lib cfg ?w k) calls"
    by blast
  have "set (remove1 k (aw_waiting w)) \<subseteq> set (aw_waiting w)" by (rule set_remove1_subset)
  then show ?thesis
    by (intro world_ok_step [OF assms(1) _ _ _ _ _ sent(2) calls]) (auto simp: w grows_def sent(1) assms(2))
qed

lemma reach_ok: "auth_reach lib cfg w \<Longrightarrow> world_ok lib cfg w"
proof (induction rule: auth_reach.induct)
  case (start r)
  then show ?case by (simp add: world_ok_def auth_start_def call_justified_def privileged_def)
qed (simp_all add: world_ok_ask world_ok_answer)

section \<open>One response per request\<close>

fun op_to :: "ConnectionId \<Rightarrow> server_op \<Rightarrow> bool" where
  "op_to cid (Send c _ _) = (c = cid)"
| "op_to cid (CloseConnection c) = (c = cid)"

definition responses :: "ConnectionId \<Rightarrow> 'r auth_world \<Rightarrow> nat" where
  "responses cid w = length (filter (op_to cid) (outbox (aw_state w)))"

definition in_progress :: "ConnectionId \<Rightarrow> 'r auth_world \<Rightarrow> nat" where
  "in_progress cid w = length (filter (\<lambda>k. tag_connection k = Some cid) (aw_waiting w))"

definition requests :: "ConnectionId \<Rightarrow> 'r auth_world \<Rightarrow> nat" where
  "requests cid w = length (filter (\<lambda>(c, ty, _). c = cid \<and> known_request ty) (aw_asked w))"

text \<open>Either one message goes out to the connection, or one call for it is started.\<close>

definition one_move :: "ConnectionId \<Rightarrow> 'r auth_state \<Rightarrow> 'r auth_state \<Rightarrow> (db_call \<times> auth_tag) list \<Rightarrow> bool" where
  "one_move cid s s' calls \<longleftrightarrow>
     (\<exists>ty payload. outbox s' = outbox s @ [Send cid ty payload] \<and> calls = []) \<or>
     (outbox s' = outbox s \<and> (\<exists>call k. calls = [(call, k)] \<and> tag_connection k = Some cid))"

lemma message_one_move:
  assumes "auth_message lib cid ty data s = (s', calls)"
  shows "if known_request ty then one_move cid s s' calls else s' = s \<and> calls = []"
proof (cases "known_request ty")
  case False
  with assms show ?thesis by (auto simp: auth_message_def Let_def known_request_def)
next
  case True
  then consider "on_login_request cid data s = (s', calls)" | "on_register_request lib cid data s = (s', calls)"
    | "on_admin_request (AuthMessage_of ty) cid data s = (s', calls)"
    using assms by (auto simp: auth_message_def Let_def known_request_def)
  then have "one_move cid s s' calls"
  proof cases
    case 1
    from login_request_outcome [OF this] show ?thesis by (auto simp: one_move_def)
  next
    case 2
    from register_request_outcome [OF this] show ?thesis by (auto simp: one_move_def)
  next
    case 3
    from admin_request_outcome [OF this] show ?thesis by (auto simp: one_move_def)
  qed
  with True show ?thesis by simp
qed

lemma run_one_move:
  assumes "auth_run lib cfg k reply s = (s', calls)" and "reply_fits k reply"
  shows "case tag_connection k of Some cid \<Rightarrow> one_move cid s s' calls
     | None \<Rightarrow> outbox s' = outbox s \<and> list_all (\<lambda>(_, k). tag_connection k = None) calls"
proof (cases k)
  case (LoginLookup cid password username)
  with assms obtain ok account where "on_login_lookup lib cfg cid password ok account s = (s', calls)"
    by (cases reply) (auto simp: reply_fits_def auth_run_def)
  from login_lookup_outcome [OF this] LoginLookup show ?thesis by (auto simp: one_move_def)
next
  case (AdminLookup cid cmd rt target password level)
  with assms obtain ok session
    where "on_admin_lookup lib cid cmd rt target password level ok session s = (s', calls)"
    by (cases reply) (auto simp: reply_fits_def auth_run_def)
  from admin_lookup_outcome [OF this] AdminLookup show ?thesis by (auto simp: one_move_def)
qed (use assms in \<open>cases reply; auto simp: reply_fits_def auth_run_def one_move_def on_login_session_def
      on_register_create_def on_admin_create_def on_admin_change_def auth_sends split: if_splits\<close>)+

lemma length_filter_remove1:
  "k \<in> set xs \<Longrightarrow> length (filter P xs) = length (filter P (remove1 k xs)) + (if P k then 1 else 0)"
  by (induction xs) auto

lemma reach_balanced: "auth_reach lib cfg w \<Longrightarrow> responses cid w + in_progress cid w = requests cid w"
proof (induction rule: auth_reach.induct)
  case (start r)
  then show ?case by (simp add: responses_def in_progress_def requests_def auth_start_def)
next
  case (message w c ty data)
  obtain s' calls where m: "auth_message lib c ty data (aw_state w) = (s', calls)" by fastforce
  from message_one_move [OF m] message.IH show ?case
    by (auto simp: auth_ask_def m responses_def in_progress_def requests_def one_move_def split: if_splits)
next
  case (reply w k answer)
  obtain s' calls where m: "auth_run lib cfg k answer (aw_state w) = (s', calls)" by fastforce
  have none: "filter ((\<lambda>k. tag_connection k = Some cid) \<circ> snd) calls = []"
    if "list_all (\<lambda>(_, k). tag_connection k = None) calls"
    using that by (induction calls) auto
  from run_one_move [OF m reply.hyps(3)] reply.IH
    length_filter_remove1 [OF reply.hyps(2), of "\<lambda>k. tag_connection k = Some cid"]
  show ?case
    by (auto simp: auth_answer_def m responses_def in_progress_def requests_def one_move_def none
        split: option.splits if_splits)
qed

section \<open>A sample run\<close>

definition sample_sodium :: "nat sodium" where
  "sample_sodium = \<lparr>randombytes = (\<lambda>n r. (replicate n (word_of_nat r), Suc r)),
     pwhash_str = (\<lambda>password r. (Some (''h:'' @ password), Suc r)),
     pwhash_str_verify = (\<lambda>hash password. hash = ''h:'' @ password)\<rparr>"

definition sample_config :: AuthConfig where
  "sample_config = auth_config (\<lambda>_. None)"

definition sample_login :: bytes where
  "sample_login = writes [writer_u32 kProtocolVersion, writer_string ''Ada'', writer_string ''secret''] []"

definition sample_lookup :: AccountLookup where
  "sample_lookup = \<lparr>lookup_found = True, lookup_accountId = 3, lookup_passwordHash = ''h:secret'',
     lookup_permissionLevel = 2\<rparr>"

definition sample_token :: string where
  "sample_token = replicate 64 (CHR ''0'')"

definition sample_asked :: "nat auth_world" where
  "sample_asked = auth_ask 4 (AuthMessage_code LoginRequest) sample_login sample_sodium (auth_start 0)"

definition sample_found :: "nat auth_world" where
  "sample_found = auth_answer (LoginLookup 4 ''secret'' ''Ada'') (AccountReply True sample_lookup)
     sample_sodium sample_config sample_asked"

definition sample_world :: "nat auth_world" where
  "sample_world = auth_answer (LoginSession 4 sample_token 3 2) (ResultReply True DbOk)
     sample_sodium sample_config sample_found"

lemma sample_reach: "auth_reach sample_sodium sample_config sample_world"
proof -
  have "LoginLookup 4 ''secret'' ''Ada'' \<in> set (aw_waiting sample_asked)" by code_simp
  moreover have "LoginSession 4 sample_token 3 2 \<in> set (aw_waiting sample_found)" by code_simp
  ultimately show ?thesis
    unfolding sample_world_def sample_found_def sample_asked_def
    by (intro auth_reach.intros) (simp_all add: reply_fits_def)
qed

definition sample_admin :: "nat auth_world" where
  "sample_admin = auth_answer
     (AdminLookup 4 AdminSetLevelRequest AdminSetLevelResponse ''Bob'' [] 1)
     (SessionReply True \<lparr>session_found = True, session_accountId = 3, session_username = ''Ada'',
        session_permissionLevel = 2\<rparr>) sample_sodium sample_config
     (auth_ask 4 (AuthMessage_code AdminSetLevelRequest)
        (writes [writer_string ''tok'', writer_string ''Bob'', writer_u8 1] []) sample_sodium (auth_start 0))"

lemma sample_admin_reach: "auth_reach sample_sodium sample_config sample_admin"
proof -
  have "AdminLookup 4 AdminSetLevelRequest AdminSetLevelResponse ''Bob'' [] 1 \<in>
      set (aw_waiting (auth_ask 4 (AuthMessage_code AdminSetLevelRequest)
        (writes [writer_string ''tok'', writer_string ''Bob'', writer_u8 1] []) sample_sodium (auth_start 0)))"
    by code_simp
  then show ?thesis
    unfolding sample_admin_def by (intro auth_reach.intros) (simp_all add: reply_fits_def)
qed

section \<open>Properties\<close>

text \<open>C3. Nobody logs in without the password: whatever messages and database replies arrive in
  whatever order, if a Success login response was sent to a connection, then that same
  connection asked to log in with a name and password, the account the database found for the name
  verified that password, and the session whose token the response carries was stored for that
  very account with the configured lifetime.\<close>

theorem login_success_authentic:
  assumes "auth_reach lib cfg w"
    and "Send cid (AuthMessage_code LoginResponse) payload \<in> set (outbox (aw_state w))"
    and "payload \<noteq> []" and "hd payload = AuthResult_code AuthSuccess"
  shows "\<exists>data username password account token.
    (cid, AuthMessage_code LoginRequest, data) \<in> set (aw_asked w) \<and>
    read_all read_credentials data = (True, kProtocolVersion, username, password) \<and>
    (LoginLookup cid password username, AccountReply True account) \<in> set (aw_replied w) \<and>
    lookup_found account \<and> verifyPassword lib (lookup_passwordHash account) password \<and>
    (CreateSession (lookup_accountId account) token (sessionTtl cfg),
      LoginSession cid token (lookup_accountId account) (lookup_permissionLevel account)) \<in> set (aw_calls w) \<and>
    (LoginSession cid token (lookup_accountId account) (lookup_permissionLevel account),
      ResultReply True DbOk) \<in> set (aw_replied w) \<and>
    payload = login_response AuthSuccess token (worldHost cfg) (worldPort cfg)
      (lookup_accountId account) (lookup_permissionLevel account)"
proof -
  note ok = reach_ok [OF assms(1), unfolded world_ok_def]
  then have "sent_justified cfg w (Send cid (AuthMessage_code LoginResponse) payload)"
    using assms(2) by blast
  moreover have "\<not> not_login_success (AuthMessage_code LoginResponse) payload"
    using assms(3,4) by (simp add: not_login_success_def)
  ultimately obtain token accountId level
    where p: "payload = login_response AuthSuccess token (worldHost cfg) (worldPort cfg) accountId level"
      and r: "(LoginSession cid token accountId level, ResultReply True DbOk) \<in> set (aw_replied w)"
    by (auto simp: sent_justified_def)
  from ok r have "tag_justified lib cfg w (LoginSession cid token accountId level)" by blast
  then obtain password username account
    where a: "(LoginLookup cid password username, AccountReply True account) \<in> set (aw_replied w)"
      "lookup_found account" "verifyPassword lib (lookup_passwordHash account) password"
      "accountId = lookup_accountId account" "level = lookup_permissionLevel account"
      "(CreateSession accountId token (sessionTtl cfg), LoginSession cid token accountId level) \<in> set (aw_calls w)"
    by auto
  from ok a(1) have "tag_justified lib cfg w (LoginLookup cid password username)" by blast
  then obtain data where "(cid, AuthMessage_code LoginRequest, data) \<in> set (aw_asked w)"
    "read_all read_credentials data = (True, kProtocolVersion, username, password)"
    unfolding tag_justified.simps by blast
  with a p r show ?thesis by blast
qed

theorem login_success_authentic_witness:
  "\<exists>username password account. (LoginLookup 4 password username, AccountReply True account) \<in> set (aw_replied sample_world) \<and>
     verifyPassword sample_sodium (lookup_passwordHash account) password"
proof -
  let ?payload = "login_response AuthSuccess sample_token (worldHost sample_config) (worldPort sample_config) 3 2"
  have "Send 4 (AuthMessage_code LoginResponse) ?payload \<in> set (outbox (aw_state sample_world))"
    and "?payload \<noteq> []" and "hd ?payload = AuthResult_code AuthSuccess"
    by code_simp+
  from login_success_authentic [OF sample_reach this] show ?thesis by blast
qed

text \<open>C8. Privileged commands are authorised: every account creation with a level, deletion and level
  change the service asks of the database (the start-up removal of the account named
  \<^verbatim>\<open>bootstrap\<close> apart) was asked for by a connection that presented a session token, the
  database resolved that token to an account with the Admin level, and the command acts on the account
  that connection named.\<close>

theorem privileged_calls_authorised:
  assumes "auth_reach lib cfg w" and "(call, k) \<in> set (aw_calls w)" and "privileged call"
    and "(call, k) \<noteq> (DeleteAccount ''bootstrap'', StartupDelete)"
  shows "\<exists>cid cmd data token password level session. tag_connection k = Some cid \<and>
    (cid, AuthMessage_code cmd, data) \<in> set (aw_asked w) \<and>
    read_all (read_admin cmd) data = (True, token, call_target call, password, level) \<and>
    (LookupSession token, AdminLookup cid cmd (admin_response_type cmd) (call_target call) password level)
      \<in> set (aw_calls w) \<and>
    (AdminLookup cid cmd (admin_response_type cmd) (call_target call) password level, SessionReply True session)
      \<in> set (aw_replied w) \<and>
    session_found session \<and> PermissionLevel_code Admin \<le> session_permissionLevel session"
proof -
  note ok = reach_ok [OF assms(1), unfolded world_ok_def]
  then have "call_justified w (call, k)" using assms(2) by blast
  then obtain cid cmd rt password level session where c: "tag_connection k = Some cid"
    "(AdminLookup cid cmd rt (call_target call) password level, SessionReply True session) \<in> set (aw_replied w)"
    "session_found session" "PermissionLevel_code Admin \<le> session_permissionLevel session"
    using assms(3,4) by (auto simp: call_justified_def)
  from ok c(2) have "tag_justified lib cfg w (AdminLookup cid cmd rt (call_target call) password level)" by blast
  then show ?thesis
    using c unfolding tag_justified.simps by blast
qed

theorem privileged_calls_authorised_witness:
  "\<exists>session level password. (AdminLookup 4 AdminSetLevelRequest AdminSetLevelResponse ''Bob'' password level,
     SessionReply True session) \<in> set (aw_replied sample_admin) \<and> PermissionLevel_code Admin \<le> session_permissionLevel session"
proof -
  have "(SetPermissionLevel ''Bob'' 1, AdminSetLevel 4 AdminSetLevelResponse) \<in> set (aw_calls sample_admin)"
    and "map fst (aw_replied sample_admin) = [AdminLookup 4 AdminSetLevelRequest AdminSetLevelResponse ''Bob'' [] 1]"
    by code_simp+
  with privileged_calls_authorised [OF sample_admin_reach this(1)] show ?thesis
    by (fastforce simp: privileged_def dest: arg_cong [where f = set])
qed

text \<open>Every request is answered exactly once: for each connection, the responses sent to it and
  its requests still waiting for the database add up to the requests of a known type it has made.\<close>

theorem auth_one_response:
  assumes "auth_reach lib cfg w"
  shows "responses cid w + in_progress cid w = requests cid w"
  using reach_balanced [OF assms] .

theorem auth_one_response_witness:
  "responses 4 sample_world + in_progress 4 sample_world = requests 4 sample_world \<and> requests 4 sample_world = 1"
proof -
  have "requests 4 sample_world = 1" by code_simp
  with auth_one_response [OF sample_reach, of 4] show ?thesis by simp
qed

text \<open>C26. The database callbacks of the auth server run exactly once: over a poll of the database
  connection, the callbacks run and those still registered are together the ones registered before
  and those of the calls made meanwhile, and a lost connection leaves none behind.\<close>

theorem auth_callbacks_exactly_once:
  assumes "pending_ok client"
    and "db_poll kAuthDepth (traced (auth_run lib cfg)) (client, (s, [], [])) = (up, client', (s', invoked, made))"
    and "unat (mNextRequestId client) + length made < 2 ^ 32"
  shows "mset invoked + pending_tags client' = pending_tags client + mset made \<and>
    (mConnected client \<and> mStream client \<noteq> None \<and> \<not> up \<longrightarrow> mPending client' = [])"
proof -
  have "auth_rank k \<le> kAuthDepth" for k
    by (cases k) (simp_all add: kAuthDepth_def)
  then have "list_all (\<lambda>(_, h). auth_rank (handler_tag h) \<le> kAuthDepth) (mPending client)"
    by (simp add: list_all_iff)
  from auth_service.poll_balance [OF assms(1) this assms(2,3)] show ?thesis by blast
qed

definition sample_dropped :: "auth_tag DbClient" where
  "sample_dropped = \<lparr>mStream = Some (message_stream \<lparr>sock_recvs = [Ret []], sock_sends = [], sock_sent = []\<rparr>),
     mPending = [(7, LookupAccountHandler (LoginLookup 4 ''secret'' ''Ada''))], mNextRequestId = 8, mConnected = True\<rparr>"

theorem auth_callbacks_exactly_once_witness:
  "fst (snd (snd (snd (db_poll kAuthDepth (traced (auth_run sample_sodium sample_config))
     (sample_dropped, (\<lparr>outbox = [], rng = 0\<rparr>, [], []))))))
   = [LoginLookup 4 ''secret'' ''Ada'']"
proof -
  let ?p = "db_poll kAuthDepth (traced (auth_run sample_sodium sample_config))
     (sample_dropped, (\<lparr>outbox = [], rng = 0\<rparr>, [], []))"
  obtain up client' s' invoked made where p: "?p = (up, client', (s', invoked, made))"
    by (metis prod_cases5)
  have "fst ?p = False" and "snd (snd (snd (snd ?p))) = []" by code_simp+
  with p have "\<not> up" "made = []" by simp_all
  moreover have "pending_ok sample_dropped" "pending_tags sample_dropped = {#LoginLookup 4 ''secret'' ''Ada''#}"
    by (simp_all add: sample_dropped_def pending_ok_def pending_tags_def map_ok_def map_keys_def)
  ultimately have "mset invoked = {#LoginLookup 4 ''secret'' ''Ada''#}"
    using auth_callbacks_exactly_once [OF _ p] by (auto simp: sample_dropped_def pending_tags_def)
  then show ?thesis using p by simp
qed

end
