(* ===== verification/Ieee.thy ===== *)
theory Ieee
  imports Prelude
begin

text \<open>
  IEEE 754 binary32 and binary64 arithmetic as the C++ sources use it on \<^verbatim>\<open>float\<close> and
  \<^verbatim>\<open>double\<close>: values are bit patterns, an operation decodes them, computes the exact result and
  rounds it once, to nearest with ties to even, overflowing to infinity and underflowing through
  the subnormals. No contraction into fused operations and no wider intermediate results are
  assumed. The only freedom the standard leaves, the bits of a NaN result, is fixed to the positive quiet NaN;
  the sources never look at them. The transcendental functions are not here: they are libm's and
  stay parameters of the definitions that call them.
\<close>

section \<open>Formats and decoding\<close>

record format =
  fraction_bits :: nat
  exponent_bits :: nat

definition binary32 :: format where
  "binary32 = \<lparr>fraction_bits = 23, exponent_bits = 8\<rparr>"

definition binary64 :: format where
  "binary64 = \<lparr>fraction_bits = 52, exponent_bits = 11\<rparr>"

text \<open>\<open>Finite s m e\<close> is \<open>m * 2 ^ e\<close> with \<open>m \<ge> 0\<close>, negative when \<open>s\<close>. Bit patterns and significands
  are integers.\<close>

datatype fp = NaN | Infinite bool | Finite bool int int

definition bias :: "format \<Rightarrow> int" where
  "bias f = 2 ^ (exponent_bits f - 1) - 1"

text \<open>The exponent of the smallest subnormal.\<close>

definition least_exponent :: "format \<Rightarrow> int" where
  "least_exponent f = 1 - bias f - int (fraction_bits f)"

definition infinity_bits :: "format \<Rightarrow> int" where
  "infinity_bits f = (2 ^ exponent_bits f - 1) * 2 ^ fraction_bits f"

definition sign_bits :: "format \<Rightarrow> int" where
  "sign_bits f = 2 ^ (fraction_bits f + exponent_bits f)"

definition decode_bits :: "format \<Rightarrow> int \<Rightarrow> fp" where
  "decode_bits f n =
     (let fraction = n mod 2 ^ fraction_bits f;
          ex = n div 2 ^ fraction_bits f mod 2 ^ exponent_bits f;
          s = odd (n div 2 ^ (fraction_bits f + exponent_bits f))
      in if ex = 2 ^ exponent_bits f - 1 then (if fraction = 0 then Infinite s else NaN)
         else if ex = 0 then Finite s fraction (least_exponent f)
         else Finite s (2 ^ fraction_bits f + fraction) (ex - 1 + least_exponent f))"

section \<open>Rounding\<close>

function bit_length :: "int \<Rightarrow> int" where
  "bit_length n = (if n \<le> 0 then 0 else 1 + bit_length (n div 2))"
  by pat_completeness auto
termination
  by (relation "measure nat") auto

declare bit_length.simps [simp del]

text \<open>\<open>m * 2 ^ e\<close> in units of \<open>2 ^ q\<close>, to nearest, ties to even.\<close>

definition round_unit :: "int \<Rightarrow> int \<Rightarrow> int \<Rightarrow> int" where
  "round_unit m e q =
     (if q \<le> e then m * 2 ^ nat (e - q)
      else (let d = 2 ^ nat (q - e); r = m div d; rest = m mod d in
        if 2 * rest > d \<or> (2 * rest = d \<and> odd r) then r + 1 else r))"

text \<open>The unit in the last place for \<open>m * 2 ^ e\<close>.\<close>

definition last_place :: "format \<Rightarrow> int \<Rightarrow> int \<Rightarrow> int" where
  "last_place f m e = max (e + bit_length m - int (fraction_bits f + 1)) (least_exponent f)"

text \<open>A carry out of the significand moves to the next exponent by itself: the exponent field and
  the fraction are one number.\<close>

definition round_magnitude :: "format \<Rightarrow> int \<Rightarrow> int \<Rightarrow> int" where
  "round_magnitude f m e =
     (if m = 0 then 0
      else (let q = last_place f m e in
        min (infinity_bits f) ((q - least_exponent f) * 2 ^ fraction_bits f + round_unit m e q)))"

definition sign_field :: "format \<Rightarrow> bool \<Rightarrow> int" where
  "sign_field f s = (if s then sign_bits f else 0)"

definition encode_bits :: "format \<Rightarrow> fp \<Rightarrow> int" where
  "encode_bits f x = (case x of
      NaN \<Rightarrow> infinity_bits f + 2 ^ (fraction_bits f - 1)
    | Infinite s \<Rightarrow> sign_field f s + infinity_bits f
    | Finite s m e \<Rightarrow> sign_field f s + round_magnitude f m e)"

text \<open>\<open>float\<close> and \<open>double\<close> as words.\<close>

definition fp32 :: "f32 \<Rightarrow> fp" where
  "fp32 x = decode_bits binary32 (uint x)"

definition of_fp32 :: "fp \<Rightarrow> f32" where
  "of_fp32 x = word_of_int (encode_bits binary32 x)"

definition fp64 :: "f64 \<Rightarrow> fp" where
  "fp64 x = decode_bits binary64 (uint x)"

definition of_fp64 :: "fp \<Rightarrow> f64" where
  "of_fp64 x = word_of_int (encode_bits binary64 x)"

section \<open>Exact operations\<close>

definition signed :: "bool \<Rightarrow> int \<Rightarrow> int" where
  "signed s m = (if s then - m else m)"

text \<open>A sum of finite numbers over their common exponent; an exact zero is positive unless both
  terms are negative zeros.\<close>

fun fp_add :: "fp \<Rightarrow> fp \<Rightarrow> fp" where
  "fp_add NaN y = NaN"
| "fp_add x NaN = NaN"
| "fp_add (Infinite s) (Infinite t) = (if s = t then Infinite s else NaN)"
| "fp_add (Infinite s) (Finite _ _ _) = Infinite s"
| "fp_add (Finite _ _ _) (Infinite t) = Infinite t"
| "fp_add (Finite s m e) (Finite t n d) =
     (let q = min e d;
          v = signed s m * 2 ^ nat (e - q) + signed t n * 2 ^ nat (d - q)
      in if v = 0 then Finite (s \<and> t \<and> m = 0 \<and> n = 0) 0 q else Finite (v < 0) (abs v) q)"

fun fp_neg :: "fp \<Rightarrow> fp" where
  "fp_neg NaN = NaN"
| "fp_neg (Infinite s) = Infinite (\<not> s)"
| "fp_neg (Finite s m e) = Finite (\<not> s) m e"

definition fp_sub :: "fp \<Rightarrow> fp \<Rightarrow> fp" where
  "fp_sub x y = fp_add x (fp_neg y)"

fun fp_mul :: "fp \<Rightarrow> fp \<Rightarrow> fp" where
  "fp_mul NaN y = NaN"
| "fp_mul x NaN = NaN"
| "fp_mul (Infinite s) (Infinite t) = Infinite (s \<noteq> t)"
| "fp_mul (Infinite s) (Finite t n d) = (if n = 0 then NaN else Infinite (s \<noteq> t))"
| "fp_mul (Finite s m e) (Infinite t) = (if m = 0 then NaN else Infinite (s \<noteq> t))"
| "fp_mul (Finite s m e) (Finite t n d) = Finite (s \<noteq> t) (m * n) (e + d)"

text \<open>A quotient to \<open>p\<close> extra bits with the remainder folded into a last sticky bit, so that the
  one rounding that follows is that of the exact quotient.\<close>

definition sticky_quotient :: "nat \<Rightarrow> int \<Rightarrow> int \<Rightarrow> int \<times> int" where
  "sticky_quotient p m n =
     (let k = p + nat (bit_length n); q = m * 2 ^ k div n; rest = m * 2 ^ k mod n
      in (2 * q + (if rest = 0 then 0 else 1), - int k - 1))"

fun fp_div :: "nat \<Rightarrow> fp \<Rightarrow> fp \<Rightarrow> fp" where
  "fp_div p NaN y = NaN"
| "fp_div p x NaN = NaN"
| "fp_div p (Infinite s) (Infinite t) = NaN"
| "fp_div p (Infinite s) (Finite t n d) = Infinite (s \<noteq> t)"
| "fp_div p (Finite s m e) (Infinite t) = Finite (s \<noteq> t) 0 0"
| "fp_div p (Finite s m e) (Finite t n d) =
     (if n = 0 then (if m = 0 then NaN else Infinite (s \<noteq> t))
      else case sticky_quotient p m n of (q, k) \<Rightarrow> Finite (s \<noteq> t) q (e - d + k))"

function integer_sqrt :: "int \<Rightarrow> int" where
  "integer_sqrt n = (if n \<le> 0 then 0
     else (let r = 2 * integer_sqrt (n div 4) in if (r + 1) * (r + 1) \<le> n then r + 1 else r))"
  by pat_completeness auto
termination
  by (relation "measure nat") auto

declare integer_sqrt.simps [simp del]

fun fp_sqrt :: "nat \<Rightarrow> fp \<Rightarrow> fp" where
  "fp_sqrt p NaN = NaN"
| "fp_sqrt p (Infinite s) = (if s then NaN else Infinite False)"
| "fp_sqrt p (Finite s m e) =
     (if m = 0 then Finite s 0 e
      else if s then NaN
      else (let m1 = (if even e then m else 2 * m);
                e1 = (if even e then e else e - 1);
                m2 = m1 * 4 ^ p;
                r = integer_sqrt m2
            in Finite False (2 * r + (if r * r = m2 then 0 else 1)) (e1 div 2 - int p - 1)))"

text \<open>\<^verbatim>\<open>std::floor\<close>: exact, keeping the sign of zero.\<close>

fun fp_floor :: "fp \<Rightarrow> fp" where
  "fp_floor NaN = NaN"
| "fp_floor (Infinite s) = Infinite s"
| "fp_floor (Finite s m e) =
     (if e \<ge> 0 \<or> m = 0 then Finite s m e
      else (let v = signed s m div 2 ^ nat (- e) in Finite s (abs v) 0))"

fun fp_trunc :: "fp \<Rightarrow> int option" where
  "fp_trunc NaN = None"
| "fp_trunc (Infinite s) = None"
| "fp_trunc (Finite s m e) = Some (signed s (if e \<ge> 0 then m * 2 ^ nat e else m div 2 ^ nat (- e)))"

section \<open>Comparison\<close>

fun fp_less :: "fp \<Rightarrow> fp \<Rightarrow> bool" where
  "fp_less NaN y = False"
| "fp_less x NaN = False"
| "fp_less (Infinite s) (Infinite t) = (s \<and> \<not> t)"
| "fp_less (Infinite s) (Finite _ _ _) = s"
| "fp_less (Finite _ _ _) (Infinite t) = (\<not> t)"
| "fp_less (Finite s m e) (Finite t n d) =
     (let q = min e d in signed s m * 2 ^ nat (e - q) < signed t n * 2 ^ nat (d - q))"

fun fp_eq :: "fp \<Rightarrow> fp \<Rightarrow> bool" where
  "fp_eq NaN y = False"
| "fp_eq x NaN = False"
| "fp_eq (Infinite s) (Infinite t) = (s = t)"
| "fp_eq (Infinite s) (Finite _ _ _) = False"
| "fp_eq (Finite _ _ _) (Infinite t) = False"
| "fp_eq (Finite s m e) (Finite t n d) =
     (let q = min e d in signed s m * 2 ^ nat (e - q) = signed t n * 2 ^ nat (d - q))"

section \<open>The operators of float\<close>

definition fadd :: "f32 \<Rightarrow> f32 \<Rightarrow> f32" where "fadd x y = of_fp32 (fp_add (fp32 x) (fp32 y))"
definition fsub :: "f32 \<Rightarrow> f32 \<Rightarrow> f32" where "fsub x y = of_fp32 (fp_sub (fp32 x) (fp32 y))"
definition fmul :: "f32 \<Rightarrow> f32 \<Rightarrow> f32" where "fmul x y = of_fp32 (fp_mul (fp32 x) (fp32 y))"
definition fdiv :: "f32 \<Rightarrow> f32 \<Rightarrow> f32" where "fdiv x y = of_fp32 (fp_div 26 (fp32 x) (fp32 y))"
definition fsqrt :: "f32 \<Rightarrow> f32" where "fsqrt x = of_fp32 (fp_sqrt 26 (fp32 x))"
definition ffloor :: "f32 \<Rightarrow> f32" where "ffloor x = of_fp32 (fp_floor (fp32 x))"
definition fneg :: "f32 \<Rightarrow> f32" where "fneg x = x XOR 0x80000000"
definition flt :: "f32 \<Rightarrow> f32 \<Rightarrow> bool" where "flt x y = fp_less (fp32 x) (fp32 y)"
definition feq :: "f32 \<Rightarrow> f32 \<Rightarrow> bool" where "feq x y = fp_eq (fp32 x) (fp32 y)"
definition fle :: "f32 \<Rightarrow> f32 \<Rightarrow> bool" where "fle x y \<longleftrightarrow> flt x y \<or> feq x y"
definition fnan :: "f32 \<Rightarrow> bool" where "fnan x \<longleftrightarrow> fp32 x = NaN"

definition f_of_int :: "int \<Rightarrow> f32" where
  "f_of_int i = of_fp32 (Finite (i < 0) (abs i) 0)"

text \<open>A decimal literal \<open>n / d\<close>.\<close>

definition f_ratio :: "int \<Rightarrow> int \<Rightarrow> f32" where
  "f_ratio n d = (case sticky_quotient 26 (abs n) d of (q, k) \<Rightarrow> of_fp32 (Finite (n < 0) q k))"

text \<open>\<^verbatim>\<open>static_cast<int32_t>\<close>: toward zero. Out of range it is undefined in C++; the x86-64
  conversion answers \<^verbatim>\<open>0x80000000\<close>.\<close>

definition f_to_i32 :: "f32 \<Rightarrow> 32 word" where
  "f_to_i32 x = (case fp_trunc (fp32 x) of
      None \<Rightarrow> 0x80000000
    | Some i \<Rightarrow> if - (2 ^ 31) \<le> i \<and> i < 2 ^ 31 then word_of_int i else 0x80000000)"

definition dadd :: "f64 \<Rightarrow> f64 \<Rightarrow> f64" where "dadd x y = of_fp64 (fp_add (fp64 x) (fp64 y))"
definition dsub :: "f64 \<Rightarrow> f64 \<Rightarrow> f64" where "dsub x y = of_fp64 (fp_sub (fp64 x) (fp64 y))"
definition dmul :: "f64 \<Rightarrow> f64 \<Rightarrow> f64" where "dmul x y = of_fp64 (fp_mul (fp64 x) (fp64 y))"
definition ddiv :: "f64 \<Rightarrow> f64 \<Rightarrow> f64" where "ddiv x y = of_fp64 (fp_div 55 (fp64 x) (fp64 y))"
definition dlt :: "f64 \<Rightarrow> f64 \<Rightarrow> bool" where "dlt x y = fp_less (fp64 x) (fp64 y)"
definition deq :: "f64 \<Rightarrow> f64 \<Rightarrow> bool" where "deq x y = fp_eq (fp64 x) (fp64 y)"
definition dle :: "f64 \<Rightarrow> f64 \<Rightarrow> bool" where "dle x y \<longleftrightarrow> dlt x y \<or> deq x y"
definition d_of_int :: "int \<Rightarrow> f64" where "d_of_int i = of_fp64 (Finite (i < 0) (abs i) 0)"
definition d_ratio :: "int \<Rightarrow> int \<Rightarrow> f64" where
  "d_ratio n d = (case sticky_quotient 55 (abs n) d of (q, k) \<Rightarrow> of_fp64 (Finite (n < 0) q k))"
definition d_of_f :: "f32 \<Rightarrow> f64" where "d_of_f x = of_fp64 (fp32 x)"
definition f_of_d :: "f64 \<Rightarrow> f32" where "f_of_d x = of_fp32 (fp64 x)"

end
