(* ===== verification/Terrain.thy ===== *)
theory Terrain
  imports Ieee
begin

text \<open>
  \<^verbatim>\<open>common/terrain/src/heightfield.cpp\<close>: the procedural ground both ends of the game stand on, in
  binary32 arithmetic, operation by operation. Nothing of it is a parameter: the height is a
  function of the position alone.
\<close>

definition kWorldSize :: f32 where "kWorldSize = f_of_int 1024"
definition kHalfWorld :: f32 where "kHalfWorld = fmul kWorldSize (f_ratio 5 10)"
definition kMeshResolution :: int where "kMeshResolution = 512"
definition kAmplitude :: f32 where "kAmplitude = f_of_int 110"

definition kSeed :: u32 where "kSeed = 0x9E3779B9"
definition kBaseWavelength :: f32 where "kBaseWavelength = f_of_int 340"
definition kOctaves :: nat where "kOctaves = 5"
definition kLacunarity :: f32 where "kLacunarity = f_ratio 203 100"
definition kGain :: f32 where "kGain = f_ratio 5 10"

text \<open>The integer mixing of \<open>hash\<close>, then its conversion.\<close>

definition hash_bits :: "32 word \<Rightarrow> 32 word \<Rightarrow> u32" where
  "hash_bits x y =
     (let h = kSeed;
          h = h XOR (x * 0x85EBCA6B);
          h = h XOR (y * 0xC2B2AE35);
          h = h XOR drop_bit 15 h;
          h = h * 0x2545F491;
          h = h XOR drop_bit 13 h;
          h = h * 0x3B9ACB93;
          h = h XOR drop_bit 16 h
      in h)"

definition hash :: "32 word \<Rightarrow> 32 word \<Rightarrow> f32" where
  "hash x y = fdiv (f_of_int (uint (hash_bits x y AND 0x00FFFFFF))) (f_of_int 0x01000000)"

definition fade :: "f32 \<Rightarrow> f32" where
  "fade t = fmul (fmul (fmul t t) t)
     (fadd (fmul t (fsub (fmul t (f_of_int 6)) (f_of_int 15))) (f_of_int 10))"

definition valueNoise :: "f32 \<Rightarrow> f32 \<Rightarrow> f32" where
  "valueNoise x y =
     (let floorX = ffloor x;
          floorY = ffloor y;
          cellX = f_to_i32 floorX;
          cellY = f_to_i32 floorY;
          fx = fade (fsub x floorX);
          fy = fade (fsub y floorY);
          topLeft = hash cellX cellY;
          topRight = hash (cellX + 1) cellY;
          bottomLeft = hash cellX (cellY + 1);
          bottomRight = hash (cellX + 1) (cellY + 1);
          top = fadd topLeft (fmul (fsub topRight topLeft) fx);
          bottom = fadd bottomLeft (fmul (fsub bottomRight bottomLeft) fx)
      in fadd top (fmul (fsub bottom top) fy))"

text \<open>The octave loop: \<open>n\<close> octaves to go.\<close>

fun octaves :: "nat \<Rightarrow> f32 \<Rightarrow> f32 \<Rightarrow> f32 \<Rightarrow> f32 \<Rightarrow> f32 \<Rightarrow> f32 \<Rightarrow> f32 \<times> f32" where
  "octaves 0 x z frequency amplitude acc normalisation = (acc, normalisation)"
| "octaves (Suc n) x z frequency amplitude acc normalisation =
     octaves n x z (fmul frequency kLacunarity) (fmul amplitude kGain)
       (fadd acc (fmul (valueNoise (fmul x frequency) (fmul z frequency)) amplitude))
       (fadd normalisation amplitude)"

definition rawHeight :: "f32 \<Rightarrow> f32 \<Rightarrow> f32" where
  "rawHeight x z =
     (case octaves kOctaves x z (fdiv (f_of_int 1) kBaseWavelength) (f_of_int 1) (f_of_int 0) (f_of_int 0) of
       (acc, normalisation) \<Rightarrow>
         let unit = fsub (fmul (fdiv acc normalisation) (f_of_int 2)) (f_of_int 1)
         in fmul (fmul unit kAmplitude) (f_ratio 5 10))"

definition kSmoothRadius :: f32 where
  "kSmoothRadius = fmul (fdiv kWorldSize (f_of_int kMeshResolution)) (f_ratio 5 10)"

definition heightAt :: "f32 \<Rightarrow> f32 \<Rightarrow> f32" where
  "heightAt x z =
     (let centre = rawHeight x z;
          left = rawHeight (fsub x kSmoothRadius) z;
          right = rawHeight (fadd x kSmoothRadius) z;
          back = rawHeight x (fsub z kSmoothRadius);
          front = rawHeight x (fadd z kSmoothRadius)
      in fadd (fmul centre (f_ratio 5 10))
           (fmul (fadd (fadd (fadd left right) back) front) (f_ratio 125 1000)))"

definition kStep :: f32 where
  "kStep = fdiv kWorldSize (f_of_int kMeshResolution)"

definition normalAt :: "f32 \<Rightarrow> f32 \<Rightarrow> f32 \<times> f32 \<times> f32" where
  "normalAt x z =
     (let dx = fsub (heightAt (fadd x kStep) z) (heightAt (fsub x kStep) z);
          dz = fsub (heightAt x (fadd z kStep)) (heightAt x (fsub z kStep));
          nx = fneg dx;
          ny = fmul (f_of_int 2) kStep;
          nz = fneg dz;
          len = fsqrt (fadd (fadd (fmul nx nx) (fmul ny ny)) (fmul nz nz))
      in (fdiv nx len, fdiv ny len, fdiv nz len))"

end
