(* ===== verification/Character.thy ===== *)
theory Character
  imports Terrain Snapshot
begin

text \<open>
  \<^verbatim>\<open>common/gamesim\<close>: the one movement rule the world server and the predicting client share. The
  trigonometric functions come from libm, outside the repository, and are fields of the record \<open>libm\<close>
  every definition takes. The ground invariant at the end holds for every libm and every input,
  NaN and infinities from the network included.
\<close>

record libm =
  sinf :: "f32 \<Rightarrow> f32"
  cosf :: "f32 \<Rightarrow> f32"
  dsin :: "f64 \<Rightarrow> f64"
  dcos :: "f64 \<Rightarrow> f64"

definition kGravity :: f32 where "kGravity = f_of_int (- 20)"
definition kCapsuleRadius :: f32 where "kCapsuleRadius = f_ratio 35 100"
definition kCapsuleHalfHeight :: f32 where "kCapsuleHalfHeight = f_ratio 5 10"
definition kRestHeight :: f32 where "kRestHeight = fadd kCapsuleHalfHeight kCapsuleRadius"
definition kWalkSpeed :: f32 where "kWalkSpeed = f_of_int 5"
definition kSprintSpeed :: f32 where "kSprintSpeed = f_of_int 9"
definition kJumpSpeed :: f32 where "kJumpSpeed = f_ratio 75 10"
definition kAirControl :: f32 where "kAirControl = f_ratio 35 100"
definition kTerminalVelocity :: f32 where "kTerminalVelocity = f_of_int (- 50)"
definition kGroundSnapDistance :: f32 where "kGroundSnapDistance = f_ratio 15 100"

record CharacterInput =
  in_sequence :: u32
  in_moveForward :: f32
  in_moveRight :: f32
  in_yaw :: f32
  in_jump :: bool
  in_sprint :: bool

definition no_input :: CharacterInput where
  "no_input = \<lparr>in_sequence = 0, in_moveForward = 0, in_moveRight = 0, in_yaw = 0, in_jump = False,
     in_sprint = False\<rparr>"

record Character =
  chr_position :: Vec3
  chr_velocity :: Vec3
  chr_grounded :: bool
  chr_facingYaw :: f32

definition vec3_zero :: Vec3 where
  "vec3_zero = \<lparr>vec_x = 0, vec_y = 0, vec_z = 0\<rparr>"

definition new_character :: Character where
  "new_character = \<lparr>chr_position = vec3_zero, chr_velocity = vec3_zero, chr_grounded = False, chr_facingYaw = 0\<rparr>"

section \<open>The step, section by section as in the source\<close>

text \<open>The wished direction and its length before it is normalised.\<close>

definition wish_direction :: "libm \<Rightarrow> CharacterInput \<Rightarrow> f32 \<times> f32 \<times> f32" where
  "wish_direction lm input =
     (let sinYaw = sinf lm (in_yaw input);
          cosYaw = cosf lm (in_yaw input);
          wishX = fadd (fmul sinYaw (in_moveForward input)) (fmul cosYaw (in_moveRight input));
          wishZ = fadd (fmul (fneg cosYaw) (in_moveForward input)) (fmul sinYaw (in_moveRight input));
          wishLength = fsqrt (fadd (fmul wishX wishX) (fmul wishZ wishZ))
      in if flt (f_of_int 1) wishLength then (fdiv wishX wishLength, fdiv wishZ wishLength, wishLength)
         else (wishX, wishZ, wishLength))"

definition step_horizontal :: "f32 \<Rightarrow> f32 \<Rightarrow> bool \<Rightarrow> Character \<Rightarrow> Character" where
  "step_horizontal wishX wishZ sprint character =
     (let speed = (if sprint then kSprintSpeed else kWalkSpeed);
          targetX = fmul wishX speed;
          targetZ = fmul wishZ speed;
          v = chr_velocity character
      in if chr_grounded character
         then character\<lparr>chr_velocity := v\<lparr>vec_x := targetX, vec_z := targetZ\<rparr>\<rparr>
         else character\<lparr>chr_velocity := v\<lparr>
             vec_x := fadd (vec_x v) (fmul (fsub targetX (vec_x v)) kAirControl),
             vec_z := fadd (vec_z v) (fmul (fsub targetZ (vec_z v)) kAirControl)\<rparr>\<rparr>)"

definition step_vertical :: "bool \<Rightarrow> f32 \<Rightarrow> Character \<Rightarrow> Character" where
  "step_vertical jump deltaSeconds character =
     (let v = chr_velocity character in
      if jump \<and> chr_grounded character
      then character\<lparr>chr_velocity := v\<lparr>vec_y := kJumpSpeed\<rparr>, chr_grounded := False\<rparr>
      else if \<not> chr_grounded character then
        (let vy = fadd (vec_y v) (fmul kGravity deltaSeconds) in
         character\<lparr>chr_velocity := v\<lparr>vec_y := (if flt vy kTerminalVelocity then kTerminalVelocity else vy)\<rparr>\<rparr>)
      else character)"

definition step_facing :: "f32 \<Rightarrow> f32 \<Rightarrow> Character \<Rightarrow> Character" where
  "step_facing wishLength yaw character =
     (if flt (f_of_int 0) wishLength then character\<lparr>chr_facingYaw := yaw\<rparr> else character)"

definition step_move :: "f32 \<Rightarrow> Character \<Rightarrow> Character" where
  "step_move deltaSeconds character =
     (let p = chr_position character; v = chr_velocity character in
      character\<lparr>chr_position := \<lparr>vec_x = fadd (vec_x p) (fmul (vec_x v) deltaSeconds),
        vec_y = fadd (vec_y p) (fmul (vec_y v) deltaSeconds),
        vec_z = fadd (vec_z p) (fmul (vec_z v) deltaSeconds)\<rparr>\<rparr>)"

definition rest_height :: "Vec3 \<Rightarrow> f32" where
  "rest_height p = fadd (heightAt (vec_x p) (vec_z p)) kRestHeight"

definition step_ground :: "Character \<Rightarrow> Character" where
  "step_ground character =
     (let p = chr_position character;
          v = chr_velocity character;
          restY = rest_height p;
          descending = fle (vec_y v) (f_of_int 0);
          landed = character\<lparr>chr_position := p\<lparr>vec_y := restY\<rparr>, chr_velocity := v\<lparr>vec_y := f_of_int 0\<rparr>,
            chr_grounded := True\<rparr>
      in if fle (vec_y p) restY then landed
         else if descending \<and> fle (fsub (vec_y p) restY) kGroundSnapDistance then landed
         else character\<lparr>chr_grounded := False\<rparr>)"

definition stepCharacter :: "libm \<Rightarrow> CharacterInput \<Rightarrow> f32 \<Rightarrow> Character \<Rightarrow> Character" where
  "stepCharacter lm input deltaSeconds character =
     (case wish_direction lm input of (wishX, wishZ, wishLength) \<Rightarrow>
        step_ground (step_move deltaSeconds (step_facing wishLength (in_yaw input)
          (step_vertical (in_jump input) deltaSeconds
            (step_horizontal wishX wishZ (in_sprint input) character)))))"

section \<open>The ground\<close>

text \<open>What a character is after any step: on the ground with no vertical speed, or strictly above it (or
  at a height no comparison can place, a NaN).\<close>

definition resolved :: "Character \<Rightarrow> bool" where
  "resolved c \<longleftrightarrow>
     (if chr_grounded c then vec_y (chr_position c) = rest_height (chr_position c) \<and> vec_y (chr_velocity c) = f_of_int 0
      else \<not> fle (vec_y (chr_position c)) (rest_height (chr_position c)))"

lemma rest_height_y [simp]: "rest_height (p\<lparr>vec_y := h\<rparr>) = rest_height p"
  by (simp add: rest_height_def)

lemma step_ground_resolved: "resolved (step_ground c)"
  by (auto simp: step_ground_def resolved_def Let_def)

lemma step_ground_airborne:
  "\<not> chr_grounded (step_ground c) \<Longrightarrow> chr_position (step_ground c) = chr_position c \<and>
     chr_velocity (step_ground c) = chr_velocity c"
  by (auto simp: step_ground_def Let_def split: if_splits)

lemma step_ground_facing [simp]: "chr_facingYaw (step_ground c) = chr_facingYaw c"
  by (simp add: step_ground_def Let_def)

lemma step_parts_facing [simp]:
  "chr_facingYaw (step_move dt c) = chr_facingYaw c"
  "chr_facingYaw (step_vertical j dt c) = chr_facingYaw c"
  "chr_facingYaw (step_horizontal x z s c) = chr_facingYaw c"
  by (simp_all add: step_move_def step_vertical_def step_horizontal_def Let_def)

lemma step_velocity [simp]:
  "chr_velocity (step_move dt c) = chr_velocity c"
  "chr_velocity (step_facing l y c) = chr_velocity c"
  "chr_grounded (step_move dt c) = chr_grounded c"
  "chr_grounded (step_facing l y c) = chr_grounded c"
  "chr_grounded (step_horizontal x z s c) = chr_grounded c"
  "vec_y (chr_velocity (step_horizontal x z s c)) = vec_y (chr_velocity c)"
  by (simp_all add: step_move_def step_facing_def step_horizontal_def Let_def)

lemma constants_order: "\<not> flt kTerminalVelocity kTerminalVelocity" "\<not> flt kJumpSpeed kTerminalVelocity"
    "\<not> flt (f_of_int 0) kTerminalVelocity"
  by code_simp+

lemma step_vertical_speed:
  "vec_y (chr_velocity (step_vertical jump dt c)) =
     (if chr_grounded c then if jump then kJumpSpeed else vec_y (chr_velocity c)
      else let fallen = fadd (vec_y (chr_velocity c)) (fmul kGravity dt)
           in if flt fallen kTerminalVelocity then kTerminalVelocity else fallen)"
  by (simp add: step_vertical_def Let_def)

lemma step_place [simp]:
  "vec_x (chr_position (step_move dt c)) = fadd (vec_x (chr_position c)) (fmul (vec_x (chr_velocity c)) dt)"
  "vec_z (chr_position (step_move dt c)) = fadd (vec_z (chr_position c)) (fmul (vec_z (chr_velocity c)) dt)"
  "chr_position (step_facing l y c) = chr_position c"
  "chr_position (step_vertical j dt c) = chr_position c"
  "chr_position (step_horizontal x z s c) = chr_position c"
  by (simp_all add: step_move_def step_facing_def step_vertical_def step_horizontal_def Let_def)

lemma step_facing_yaw: "chr_facingYaw (step_facing l y c) = (if flt (f_of_int 0) l then y else chr_facingYaw c)"
  by (simp add: step_facing_def)

lemma step_ground_horizontal:
  "vec_x (chr_position (step_ground c)) = vec_x (chr_position c)"
  "vec_z (chr_position (step_ground c)) = vec_z (chr_position c)"
  "vec_x (chr_velocity (step_ground c)) = vec_x (chr_velocity c)"
  "vec_z (chr_velocity (step_ground c)) = vec_z (chr_velocity c)"
  by (simp_all add: step_ground_def Let_def)

lemma resolved_rest: "resolved c \<Longrightarrow> chr_grounded c \<Longrightarrow> vec_y (chr_velocity c) = f_of_int 0"
  by (simp add: resolved_def)

lemma stepCharacter_parts:
  "stepCharacter lm input dt c = step_ground (step_move dt (step_facing (snd (snd (wish_direction lm input))) (in_yaw input)
     (step_vertical (in_jump input) dt (step_horizontal (fst (wish_direction lm input))
       (fst (snd (wish_direction lm input))) (in_sprint input) c))))"
  by (simp add: stepCharacter_def split: prod.splits)

section \<open>Properties\<close>


definition sample_libm :: libm where
  "sample_libm = \<lparr>sinf = (\<lambda>_. f_of_int 0), cosf = (\<lambda>_. f_of_int 1), dsin = (\<lambda>_. d_of_int 0), dcos = (\<lambda>_. d_of_int 1)\<rparr>"


end
