(* ===== verification/Simulation.thy ===== *)
theory Simulation
  imports Character StdMap Protocol "HOL-Library.Multiset"
begin

text \<open>
  \<^verbatim>\<open>server/worldserver/src/simulation.cpp\<close>: the authoritative world. The two clocks it reads are
  arguments: \<open>now\<close> is \<open>realSeconds()\<close>, \<open>wall\<close> the local hour, minute and second. The lemmas give
  the invariant of the player table (entity ids are distinct, above the scenery and never
  reused), what a step does to a player, what a snapshot contains, and the world clock.
\<close>

definition kSpawnClearance :: f32 where "kSpawnClearance = f_ratio 2 10"
definition kCubeSize :: f32 where "kCubeSize = f_of_int 1"
definition kSpinRadiansPerSecond :: f32 where "kSpinRadiansPerSecond = f_ratio 6 10"
definition kStrafeAmplitude :: f32 where "kStrafeAmplitude = f_of_int 3"
definition kStrafeRadiansPerSecond :: f32 where "kStrafeRadiansPerSecond = f_ratio 8 10"
definition kCubeEntityId :: u32 where "kCubeEntityId = 1"
definition kFirstPlayerEntityId :: u32 where "kFirstPlayerEntityId = 1000"

record Player =
  ply_entityId :: u32
  ply_character :: Character
  ply_input :: CharacterInput
  ply_lastInputSequence :: u32

record Simulation =
  mPlayers :: "(u64, Player) std_map"
  mNextPlayerEntityId :: u32
  mCubePosition :: Vec3
  mCubeRotation :: Quat
  mCubeVelocity :: Vec3
  mTick :: u32
  mElapsed :: f64
  mTimeOfDay :: f32
  mAnchorRealSeconds :: f64
  mAnchorTimeOfDay :: f32
  mTimeSpeed :: f32

definition identity_quat :: Quat where
  "identity_quat = \<lparr>quat_x = 0, quat_y = 0, quat_z = 0, quat_w = f_of_int 1\<rparr>"

definition new_simulation :: Simulation where
  "new_simulation = \<lparr>mPlayers = [], mNextPlayerEntityId = kFirstPlayerEntityId, mCubePosition = vec3_zero,
     mCubeRotation = identity_quat, mCubeVelocity = vec3_zero, mTick = 0, mElapsed = 0,
     mTimeOfDay = f_ratio 3 10, mAnchorRealSeconds = 0, mAnchorTimeOfDay = 0, mTimeSpeed = f_of_int 1\<rparr>"

section \<open>The clock\<close>

type_synonym wall_clock = "int \<times> int \<times> int"

definition wallClockTimeOfDay :: "wall_clock \<Rightarrow> f32" where
  "wallClockTimeOfDay wall = (case wall of (hour, minute, second) \<Rightarrow>
     fdiv (f_of_int (hour * 3600 + minute * 60 + second)) (f_of_int 86400))"

definition reanchor :: "f64 \<Rightarrow> Simulation \<Rightarrow> Simulation" where
  "reanchor now sim = sim\<lparr>mAnchorRealSeconds := now, mAnchorTimeOfDay := mTimeOfDay sim\<rparr>"

definition wrap_day :: "f32 \<Rightarrow> f32" where
  "wrap_day t = fsub t (ffloor t)"

definition setTimeOfDay :: "f64 \<Rightarrow> f32 \<Rightarrow> Simulation \<Rightarrow> Simulation" where
  "setTimeOfDay now timeOfDay sim = reanchor now (sim\<lparr>mTimeOfDay := wrap_day timeOfDay\<rparr>)"

definition setTimeSpeed :: "f64 \<Rightarrow> f32 \<Rightarrow> Simulation \<Rightarrow> Simulation" where
  "setTimeSpeed now speed sim = (reanchor now sim)\<lparr>mTimeSpeed := speed\<rparr>"

definition resetClock :: "f64 \<Rightarrow> wall_clock \<Rightarrow> Simulation \<Rightarrow> Simulation" where
  "resetClock now wall sim =
     reanchor now (sim\<lparr>mTimeSpeed := f_of_int 1, mTimeOfDay := wallClockTimeOfDay wall\<rparr>)"

definition sim_init :: "f32 \<Rightarrow> f64 \<Rightarrow> wall_clock \<Rightarrow> Simulation \<Rightarrow> Simulation" where
  "sim_init timeSpeed now wall sim =
     (resetClock now wall (sim\<lparr>mTimeSpeed := (if flt (f_of_int 0) timeSpeed then timeSpeed else f_of_int 1)\<rparr>))
       \<lparr>mCubePosition := \<lparr>vec_x = f_of_int 0,
          vec_y = fadd (heightAt (f_of_int 0) (f_of_int 0)) (fmul kCubeSize (f_ratio 5 10)),
          vec_z = f_of_int 0\<rparr>\<rparr>"

definition sim_shutdown :: "Simulation \<Rightarrow> Simulation" where
  "sim_shutdown sim = sim\<lparr>mPlayers := []\<rparr>"

section \<open>Players\<close>

definition spawn_character :: "libm \<Rightarrow> nat \<Rightarrow> Character" where
  "spawn_character lm playersBefore =
     (let angle = fmul (f_of_int (int playersBefore)) (f_ratio 12 10);
          spawnX = fmul (cosf lm angle) (f_of_int 3);
          spawnZ = fadd (f_of_int 6) (fmul (sinf lm angle) (f_of_int 2))
      in new_character\<lparr>chr_position := \<lparr>vec_x = spawnX,
           vec_y = fadd (fadd (heightAt spawnX spawnZ) kRestHeight) kSpawnClearance, vec_z = spawnZ\<rparr>\<rparr>)"

definition addPlayer :: "libm \<Rightarrow> u64 \<Rightarrow> Simulation \<Rightarrow> u32 \<times> Simulation" where
  "addPlayer lm playerId sim = (case map_find playerId (mPlayers sim) of
      Some player \<Rightarrow> (ply_entityId player, sim)
    | None \<Rightarrow>
        (let player = \<lparr>ply_entityId = mNextPlayerEntityId sim,
               ply_character = spawn_character lm (length (mPlayers sim)), ply_input = no_input,
               ply_lastInputSequence = 0\<rparr>
         in (ply_entityId player, sim\<lparr>mNextPlayerEntityId := mNextPlayerEntityId sim + 1,
               mPlayers := map_emplace playerId player (mPlayers sim)\<rparr>)))"

definition removePlayer :: "u64 \<Rightarrow> Simulation \<Rightarrow> Simulation" where
  "removePlayer playerId sim = sim\<lparr>mPlayers := map_erase playerId (mPlayers sim)\<rparr>"

definition setInput :: "u64 \<Rightarrow> CharacterInput \<Rightarrow> Simulation \<Rightarrow> Simulation" where
  "setInput playerId input sim = (case map_find playerId (mPlayers sim) of
      None \<Rightarrow> sim
    | Some player \<Rightarrow>
        if in_sequence input \<noteq> 0 \<and> in_sequence input < in_sequence (ply_input player) then sim
        else sim\<lparr>mPlayers := map_modify playerId (\<lambda>p. p\<lparr>ply_input := input\<rparr>) (mPlayers sim)\<rparr>)"

definition playerCount :: "Simulation \<Rightarrow> nat" where
  "playerCount sim = length (mPlayers sim)"

section \<open>Stepping\<close>

definition step_player :: "libm \<Rightarrow> f32 \<Rightarrow> Player \<Rightarrow> Player" where
  "step_player lm deltaSeconds player = player\<lparr>
     ply_character := stepCharacter lm (ply_input player) deltaSeconds (ply_character player),
     ply_lastInputSequence := in_sequence (ply_input player),
     ply_input := (ply_input player)\<lparr>in_jump := False\<rparr>\<rparr>"

definition step_clock :: "f64 \<Rightarrow> Simulation \<Rightarrow> Simulation" where
  "step_clock now sim =
     (let elapsed = dsub now (mAnchorRealSeconds sim);
          t = fadd (mAnchorTimeOfDay sim)
                (f_of_d (ddiv (dmul elapsed (d_of_f (mTimeSpeed sim))) (d_of_int 86400)))
      in sim\<lparr>mTimeOfDay := wrap_day t\<rparr>)"

definition step_cube :: "libm \<Rightarrow> Simulation \<Rightarrow> Simulation" where
  "step_cube lm sim =
     (let phase = dmul (mElapsed sim) (d_of_f kStrafeRadiansPerSecond);
          x = fmul kStrafeAmplitude (f_of_d (dsin lm phase));
          y = fadd (heightAt x (vec_z (mCubePosition sim))) (fmul kCubeSize (f_ratio 5 10));
          vx = fmul (fmul kStrafeAmplitude kStrafeRadiansPerSecond) (f_of_d (dcos lm phase));
          angle = dmul (mElapsed sim) (d_of_f kSpinRadiansPerSecond)
      in sim\<lparr>mCubePosition := (mCubePosition sim)\<lparr>vec_x := x, vec_y := y\<rparr>,
           mCubeVelocity := (mCubeVelocity sim)\<lparr>vec_x := vx\<rparr>,
           mCubeRotation := \<lparr>quat_x = f_of_int 0, quat_y = f_of_d (dsin lm (dmul angle (d_ratio 5 10))),
             quat_z = f_of_int 0, quat_w = f_of_d (dcos lm (dmul angle (d_ratio 5 10)))\<rparr>\<rparr>)"

definition sim_step :: "libm \<Rightarrow> f32 \<Rightarrow> f64 \<Rightarrow> Simulation \<Rightarrow> Simulation" where
  "sim_step lm deltaSeconds now sim =
     (let sim1 = step_clock now (sim\<lparr>mElapsed := dadd (mElapsed sim) (d_of_f deltaSeconds), mTick := mTick sim + 1\<rparr>);
          sim2 = sim1\<lparr>mPlayers := map_each (step_player lm deltaSeconds) (mPlayers sim1)\<rparr>
      in step_cube lm sim2)"

section \<open>Snapshots\<close>

definition cube_state :: "Simulation \<Rightarrow> EntityState" where
  "cube_state sim = \<lparr>ent_id = kCubeEntityId, ent_type = EntityType_code Cube, ent_position = mCubePosition sim,
     ent_rotation = mCubeRotation sim, ent_velocity = mCubeVelocity sim,
     ent_angularVelocity = \<lparr>vec_x = f_of_int 0, vec_y = kSpinRadiansPerSecond, vec_z = f_of_int 0\<rparr>,
     ent_lastInputSequence = 0\<rparr>"

definition player_state :: "libm \<Rightarrow> Player \<Rightarrow> EntityState" where
  "player_state lm player =
     (let facing = chr_facingYaw (ply_character player) in
      \<lparr>ent_id = ply_entityId player, ent_type = EntityType_code PlayerEntity,
       ent_position = chr_position (ply_character player),
       ent_rotation = \<lparr>quat_x = f_of_int 0, quat_y = sinf lm (fmul (fneg facing) (f_ratio 5 10)), quat_z = f_of_int 0,
         quat_w = cosf lm (fmul facing (f_ratio 5 10))\<rparr>,
       ent_velocity = chr_velocity (ply_character player), ent_angularVelocity = vec3_zero,
       ent_lastInputSequence = ply_lastInputSequence player\<rparr>)"

text \<open>\<open>serverTimeMs\<close> is the caller's to set; it is left as it was.\<close>

definition buildSnapshot :: "libm \<Rightarrow> Simulation \<Rightarrow> Snapshot \<Rightarrow> Snapshot" where
  "buildSnapshot lm sim out = out\<lparr>snap_tick := mTick sim, snap_timeOfDay := mTimeOfDay sim,
     snap_entities := cube_state sim # map (\<lambda>(_, player). player_state lm player) (mPlayers sim)\<rparr>"

section \<open>The player table\<close>

definition entity_ids :: "Simulation \<Rightarrow> u32 list" where
  "entity_ids sim = map (\<lambda>(_, player). ply_entityId player) (mPlayers sim)"

definition sim_ok :: "Simulation \<Rightarrow> bool" where
  "sim_ok sim \<longleftrightarrow> map_ok (mPlayers sim) \<and> distinct (entity_ids sim) \<and>
     kFirstPlayerEntityId \<le> mNextPlayerEntityId sim \<and>
     list_all (\<lambda>i. kFirstPlayerEntityId \<le> i \<and> i < mNextPlayerEntityId sim) (entity_ids sim)"

lemma entity_ids_modify:
  "(\<And>p. ply_entityId (f p) = ply_entityId p) \<Longrightarrow>
   map (\<lambda>(_, p). ply_entityId p) (map_modify k f m) = map (\<lambda>(_, p). ply_entityId p) m"
  by (induction m) (auto simp: map_modify_def)

lemma entity_ids_each:
  "(\<And>p. ply_entityId (f p) = ply_entityId p) \<Longrightarrow>
   map (\<lambda>(_, p). ply_entityId p) (map_each f m) = map (\<lambda>(_, p). ply_entityId p) m"
  by (induction m) (auto simp: map_each_def)

lemma sim_ok_new: "sim_ok new_simulation"
  by (simp add: sim_ok_def new_simulation_def entity_ids_def)

lemma sim_ok_remove: "sim_ok sim \<Longrightarrow> sim_ok (removePlayer k sim)"
  by (auto simp: sim_ok_def removePlayer_def entity_ids_def map_erase_def list_all_iff distinct_map_filter
      simp del: map_ok_erase) (metis map_erase_def map_ok_erase)

lemma sim_ok_input: "sim_ok sim \<Longrightarrow> sim_ok (setInput k i sim)"
  by (simp add: sim_ok_def setInput_def entity_ids_def entity_ids_modify split: option.splits)

lemma sim_ok_clock:
  "sim_ok (reanchor now sim) = sim_ok sim" "sim_ok (setTimeOfDay now t sim) = sim_ok sim"
  "sim_ok (setTimeSpeed now v sim) = sim_ok sim" "sim_ok (resetClock now wall sim) = sim_ok sim"
  "sim_ok (sim_init v now wall sim) = sim_ok sim"
  by (simp_all add: sim_ok_def entity_ids_def reanchor_def setTimeOfDay_def setTimeSpeed_def resetClock_def
      sim_init_def)

lemma sim_ok_step: "sim_ok sim \<Longrightarrow> sim_ok (sim_step lm dt now sim)"
  by (simp add: sim_ok_def sim_step_def step_clock_def step_cube_def Let_def entity_ids_def entity_ids_each
      step_player_def)


section \<open>Any sequence of operations\<close>

datatype sim_op =
    AddPlayer u64
  | RemovePlayer u64
  | SetInput u64 CharacterInput
  | Step f32 f64
  | SetTimeOfDay f64 f32
  | SetTimeSpeed f64 f32
  | ResetClock f64 wall_clock
  | Shutdown

fun sim_apply :: "libm \<Rightarrow> sim_op \<Rightarrow> Simulation \<Rightarrow> Simulation" where
  "sim_apply lm (AddPlayer playerId) = (\<lambda>sim. snd (addPlayer lm playerId sim))"
| "sim_apply lm (RemovePlayer playerId) = removePlayer playerId"
| "sim_apply lm (SetInput playerId input) = setInput playerId input"
| "sim_apply lm (Step deltaSeconds now) = sim_step lm deltaSeconds now"
| "sim_apply lm (SetTimeOfDay now t) = setTimeOfDay now t"
| "sim_apply lm (SetTimeSpeed now v) = setTimeSpeed now v"
| "sim_apply lm (ResetClock now wall) = resetClock now wall"
| "sim_apply lm Shutdown = sim_shutdown"

fun additions :: "sim_op list \<Rightarrow> nat" where
  "additions [] = 0"
| "additions (AddPlayer _ # ops) = Suc (additions ops)"
| "additions (_ # ops) = additions ops"

lemma ids_emplace:
  "map_find k m = None \<Longrightarrow>
   mset (map (\<lambda>(_, p). ply_entityId p) (map_emplace k v m)) = add_mset (ply_entityId v) (mset (map (\<lambda>(_, p). ply_entityId p) m))"
  by (induction m) (auto simp: map_emplace_def map_find_def split: if_splits)

lemma word_Suc_less: "unat (n :: u32) + 1 < 2 ^ 32 \<Longrightarrow> n < n + 1 \<and> unat (n + 1) = unat n + 1"
  by (simp add: word_less_nat_alt unat_add_lem [THEN iffD1] unat_word_ariths)

lemma sim_okI:
  assumes "map_ok (mPlayers sim)" and "distinct (entity_ids sim)" and "kFirstPlayerEntityId \<le> mNextPlayerEntityId sim"
    and "\<And>i. i \<in> set (entity_ids sim) \<Longrightarrow> kFirstPlayerEntityId \<le> i \<and> i < mNextPlayerEntityId sim"
  shows "sim_ok sim"
  using assms by (simp add: sim_ok_def list_all_iff)

lemma sim_ok_add:
  assumes "sim_ok sim" and "unat (mNextPlayerEntityId sim) + 1 < 2 ^ 32"
  shows "sim_ok (snd (addPlayer lm k sim))"
proof (cases "map_find k (mPlayers sim)")
  case None
  let ?v = "\<lparr>ply_entityId = mNextPlayerEntityId sim, ply_character = spawn_character lm (length (mPlayers sim)),
    ply_input = no_input, ply_lastInputSequence = 0\<rparr>"
  let ?ids = "map (\<lambda>(_, p). ply_entityId p) (map_emplace k ?v (mPlayers sim))"
  have ids: "mset ?ids = add_mset (mNextPlayerEntityId sim) (mset (entity_ids sim))"
    using ids_emplace [OF None, of ?v] by (simp add: entity_ids_def)
  have fresh: "mNextPlayerEntityId sim < mNextPlayerEntityId sim + 1"
    using word_Suc_less [OF assms(2)] by blast
  have inv: "distinct (entity_ids sim)" "kFirstPlayerEntityId \<le> mNextPlayerEntityId sim" "map_ok (mPlayers sim)"
    "\<forall>i \<in> set (entity_ids sim). kFirstPlayerEntityId \<le> i \<and> i < mNextPlayerEntityId sim"
    using assms(1) by (simp_all add: sim_ok_def list_all_iff)
  have "mset ?ids = mset (mNextPlayerEntityId sim # entity_ids sim)"
    unfolding ids by simp
  then have "distinct ?ids = distinct (mNextPlayerEntityId sim # entity_ids sim)"
    by (rule mset_eq_imp_distinct_iff)
  then have "distinct ?ids"
    using inv(1,4) by auto
  moreover have "set ?ids = insert (mNextPlayerEntityId sim) (set (entity_ids sim))"
    using arg_cong [OF ids, of set_mset] by simp
  moreover have "kFirstPlayerEntityId \<le> i \<and> i < mNextPlayerEntityId sim + 1" if "i \<in> set ?ids" for i
  proof -
    from that calculation(2) have "i = mNextPlayerEntityId sim \<or> i \<in> set (entity_ids sim)" by (simp only: insert_iff)
    then show ?thesis using inv(2,4) fresh by (elim disjE) (simp, meson less_trans)
  qed
  moreover have "kFirstPlayerEntityId \<le> mNextPlayerEntityId sim + 1"
    using inv(2) fresh by (meson less_imp_le order.trans)
  moreover have after: "snd (addPlayer lm k sim) = sim\<lparr>mNextPlayerEntityId := mNextPlayerEntityId sim + 1,
      mPlayers := map_emplace k ?v (mPlayers sim)\<rparr>" (is "_ = ?sim")
    using None by (simp add: addPlayer_def Let_def)
  moreover have "entity_ids ?sim = ?ids" "mNextPlayerEntityId ?sim = mNextPlayerEntityId sim + 1" "map_ok (mPlayers ?sim)"
    using inv(3) by (simp_all add: entity_ids_def)
  ultimately show ?thesis
    unfolding after by (intro sim_okI) metis+
next
  case (Some p)
  then show ?thesis using assms(1) by (simp add: addPlayer_def)
qed

lemma sim_ok_shutdown: "sim_ok sim \<Longrightarrow> sim_ok (sim_shutdown sim)"
  by (simp add: sim_ok_def sim_shutdown_def entity_ids_def)

lemma sim_apply_next:
  "mNextPlayerEntityId (sim_apply lm x sim) =
     (case x of AddPlayer k \<Rightarrow> (case map_find k (mPlayers sim) of None \<Rightarrow> mNextPlayerEntityId sim + 1
        | Some _ \<Rightarrow> mNextPlayerEntityId sim) | _ \<Rightarrow> mNextPlayerEntityId sim)"
  by (cases x) (auto simp: addPlayer_def removePlayer_def setInput_def sim_step_def step_clock_def step_cube_def
      setTimeOfDay_def setTimeSpeed_def resetClock_def reanchor_def sim_shutdown_def Let_def split: option.splits)

lemma sim_ok_apply:
  assumes "sim_ok sim" and "unat (mNextPlayerEntityId sim) + additions (x # ops) < 2 ^ 32"
  shows "sim_ok (sim_apply lm x sim) \<and> unat (mNextPlayerEntityId (sim_apply lm x sim)) + additions ops < 2 ^ 32 \<and>
    mNextPlayerEntityId sim \<le> mNextPlayerEntityId (sim_apply lm x sim)"
proof (cases x)
  case (AddPlayer k)
  then show ?thesis
    using assms sim_ok_add [OF assms(1), of lm k] word_Suc_less [of "mNextPlayerEntityId sim"]
    unfolding sim_apply_next by (cases "map_find k (mPlayers sim)") auto
qed (use assms in \<open>simp_all add: sim_apply_next sim_ok_remove sim_ok_input sim_ok_step sim_ok_clock sim_ok_shutdown
  del: sim_apply.simps, simp_all add: sim_ok_remove sim_ok_input sim_ok_step sim_ok_clock sim_ok_shutdown\<close>)

lemma sim_ok_run:
  assumes "sim_ok sim" and "unat (mNextPlayerEntityId sim) + additions ops < 2 ^ 32"
  shows "sim_ok (fold (sim_apply lm) ops sim) \<and> mNextPlayerEntityId sim \<le> mNextPlayerEntityId (fold (sim_apply lm) ops sim)"
  using assms
proof (induction ops arbitrary: sim)
  case (Cons x ops)
  have step: "sim_ok (sim_apply lm x sim)" "unat (mNextPlayerEntityId (sim_apply lm x sim)) + additions ops < 2 ^ 32"
    "mNextPlayerEntityId sim \<le> mNextPlayerEntityId (sim_apply lm x sim)"
    using sim_ok_apply [OF Cons.prems] by blast+
  show ?case using Cons.IH [OF step(1,2)] step(3) by auto
qed simp

text \<open>The ids a run gives out: one for each addition of a player that is not there yet, what
  \<open>addPlayer\<close> returns for it.\<close>

fun given_ids :: "libm \<Rightarrow> sim_op list \<Rightarrow> Simulation \<Rightarrow> u32 list" where
  "given_ids lm [] sim = []"
| "given_ids lm (x # ops) sim =
     (case x of AddPlayer k \<Rightarrow> if map_find k (mPlayers sim) = None then [fst (addPlayer lm k sim)] else [] | _ \<Rightarrow> []) @
     given_ids lm ops (sim_apply lm x sim)"

lemma given_ids_fresh:
  assumes "sim_ok sim" and "unat (mNextPlayerEntityId sim) + additions ops < 2 ^ 32"
  shows "distinct (given_ids lm ops sim) \<and> (\<forall>i \<in> set (given_ids lm ops sim). mNextPlayerEntityId sim \<le> i)"
  using assms
proof (induction ops arbitrary: sim)
  case (Cons x ops)
  let ?sim = "sim_apply lm x sim"
  have step: "sim_ok ?sim" "unat (mNextPlayerEntityId ?sim) + additions ops < 2 ^ 32"
    "mNextPlayerEntityId sim \<le> mNextPlayerEntityId ?sim"
    using sim_ok_apply [OF Cons.prems] by blast+
  have later: "distinct (given_ids lm ops ?sim)" "\<forall>i \<in> set (given_ids lm ops ?sim). mNextPlayerEntityId ?sim \<le> i"
    using Cons.IH [OF step(1,2)] by blast+
  show ?case
  proof (cases "\<exists>k. x = AddPlayer k \<and> map_find k (mPlayers sim) = None")
    case True
    then obtain k where x: "x = AddPlayer k" and new: "map_find k (mPlayers sim) = None" by blast
    have "mNextPlayerEntityId sim < mNextPlayerEntityId ?sim"
      using word_Suc_less [of "mNextPlayerEntityId sim"] Cons.prems(2) x new by (simp add: sim_apply_next del: sim_apply.simps)
    moreover have "given_ids lm (x # ops) sim = mNextPlayerEntityId sim # given_ids lm ops ?sim"
      using x new by (simp add: addPlayer_def Let_def)
    ultimately show ?thesis using later by (auto dest: less_le_trans less_imp_le)
  next
    case False
    then have "given_ids lm (x # ops) sim = given_ids lm ops ?sim"
      by (cases x) auto
    then show ?thesis using later step(3) by (auto dest: order.trans)
  qed
qed simp

lemma erased_ids: "set (map (\<lambda>(_, p). ply_entityId p) (map_erase k m)) \<subseteq> set (map (\<lambda>(_, p). ply_entityId p) m)"
  by (auto simp: map_erase_def)

lemma sim_apply_ids:
  "set (entity_ids (sim_apply lm x sim)) \<subseteq> set (entity_ids sim) \<union>
     set (case x of AddPlayer k \<Rightarrow> if map_find k (mPlayers sim) = None then [fst (addPlayer lm k sim)] else [] | _ \<Rightarrow> [])"
proof (cases x)
  case (AddPlayer k)
  show ?thesis
  proof (cases "map_find k (mPlayers sim)")
    case None
    let ?v = "\<lparr>ply_entityId = mNextPlayerEntityId sim, ply_character = spawn_character lm (length (mPlayers sim)),
      ply_input = no_input, ply_lastInputSequence = 0\<rparr>"
    have "set (map (\<lambda>(_, p). ply_entityId p) (map_emplace k ?v (mPlayers sim))) =
        insert (mNextPlayerEntityId sim) (set (entity_ids sim))"
      using arg_cong [OF ids_emplace [OF None, of ?v], of set_mset] by (simp add: entity_ids_def)
    with None AddPlayer show ?thesis by (simp add: addPlayer_def Let_def entity_ids_def)
  qed (simp add: AddPlayer addPlayer_def)
next
  case (RemovePlayer k)
  then show ?thesis using erased_ids [of k "mPlayers sim"] by (simp add: entity_ids_def removePlayer_def)
qed (auto simp: entity_ids_def setInput_def entity_ids_modify entity_ids_each step_player_def sim_step_def step_clock_def
  step_cube_def setTimeOfDay_def setTimeSpeed_def resetClock_def reanchor_def sim_shutdown_def Let_def
  simp del: set_map split: option.splits)

lemma run_ids:
  "set (entity_ids (fold (sim_apply lm) ops sim)) \<subseteq> set (entity_ids sim) \<union> set (given_ids lm ops sim)"
proof (induction ops arbitrary: sim)
  case (Cons x ops)
  show ?case using Cons.IH [of "sim_apply lm x sim"] sim_apply_ids [of lm x sim] by auto
qed simp

lemma snapshot_ids:
  "map ent_id (snap_entities (buildSnapshot lm sim out)) = kCubeEntityId # entity_ids sim"
  by (simp add: buildSnapshot_def cube_state_def player_state_def entity_ids_def Let_def case_prod_beta')

section \<open>Inputs\<close>

lemma setInput_find:
  assumes "map_find k (mPlayers sim) = Some player"
  shows "map_find k (mPlayers (setInput k input sim)) =
     Some (if in_sequence input \<noteq> 0 \<and> in_sequence input < in_sequence (ply_input player) then player
       else player\<lparr>ply_input := input\<rparr>)"
  using assms by (simp add: setInput_def)

lemma setInput_other: "j \<noteq> k \<Longrightarrow> map_find j (mPlayers (setInput k input sim)) = map_find j (mPlayers sim)"
  by (simp add: setInput_def split: option.splits)

text \<open>The input that stands after a run of datagrams: an older sequence number never replaces a newer one.\<close>

definition newest :: "CharacterInput \<Rightarrow> CharacterInput \<Rightarrow> CharacterInput" where
  "newest input current = (if in_sequence input < in_sequence current then current else input)"

lemma foldr_max_acc: "foldr max xs (max x (y :: 'a :: linorder)) = max x (foldr max xs y)"
  by (induction xs) (simp_all add: max.left_commute)

lemma newest_max: "in_sequence (newest input current) = max (in_sequence input) (in_sequence current)"
  by (auto simp: newest_def max_def)

lemma newest_sequence: "in_sequence (fold newest inputs i) = foldr max (map in_sequence inputs) (in_sequence i)"
  by (induction inputs rule: rev_induct) (simp_all add: newest_max foldr_append foldr_max_acc)

lemma newest_mem: "fold newest inputs i = i \<or> fold newest inputs i \<in> set inputs"
proof (induction inputs arbitrary: i)
  case (Cons x xs)
  then show ?case using Cons.IH [of "newest x i"] by (auto simp: newest_def)
qed simp

lemma setInput_run:
  assumes "map_find k (mPlayers sim) = Some player" and "\<forall>i \<in> set inputs. in_sequence i \<noteq> 0"
  shows "map_find k (mPlayers (fold (setInput k) inputs sim)) =
      Some (player\<lparr>ply_input := fold newest inputs (ply_input player)\<rparr>)"
  using assms
proof (induction inputs arbitrary: sim player)
  case (Cons x xs)
  have "map_find k (mPlayers (setInput k x sim)) = Some (player\<lparr>ply_input := newest x (ply_input player)\<rparr>)"
    using Cons.prems by (simp add: setInput_find newest_def)
  from Cons.IH [OF this] Cons.prems(2) show ?case by simp
qed simp

text \<open>An input numbered 0 skips the comparison, whatever stands.\<close>

lemma setInput_some:
  assumes "map_find k (mPlayers sim) = Some player"
  shows "\<exists>i. map_find k (mPlayers (fold (setInput k) inputs sim)) = Some (player\<lparr>ply_input := i\<rparr>)"
  using assms
proof (induction inputs arbitrary: sim player)
  case Nil
  then show ?case by (intro exI [of _ "ply_input player"]) simp
next
  case (Cons x xs)
  obtain i where "map_find k (mPlayers (setInput k x sim)) = Some (player\<lparr>ply_input := i\<rparr>)"
    using setInput_find [OF Cons.prems, of x]
    by (cases "in_sequence x \<noteq> 0 \<and> in_sequence x < in_sequence (ply_input player)")
      (auto intro: that [of "ply_input player"] that [of x])
  from Cons.IH [OF this] show ?case by simp
qed

lemma setInput_reset:
  assumes "map_find k (mPlayers sim) = Some player" and "earlier \<noteq> []" and "in_sequence (last earlier) = 0"
  shows "map_find k (mPlayers (fold (setInput k) earlier sim)) = Some (player\<lparr>ply_input := last earlier\<rparr>)"
proof -
  obtain i where "map_find k (mPlayers (fold (setInput k) (butlast earlier) sim)) = Some (player\<lparr>ply_input := i\<rparr>)"
    using setInput_some [OF assms(1)] by blast
  moreover have "fold (setInput k) earlier sim = setInput k (last earlier) (fold (setInput k) (butlast earlier) sim)"
    using assms(2) by (subst append_butlast_last_id [OF assms(2), symmetric]) (simp only: fold_append fold_simps o_apply)
  ultimately show ?thesis using assms(3) by (simp add: setInput_find)
qed

lemma setInput_run_other: "j \<noteq> k \<Longrightarrow> map_find j (mPlayers (fold (setInput k) inputs sim)) = map_find j (mPlayers sim)"
  by (induction inputs arbitrary: sim) (simp_all add: setInput_other)

lemma step_find:
  "map_find k (mPlayers (sim_step lm dt now sim)) = map_option (step_player lm dt) (map_find k (mPlayers sim))"
  by (simp add: sim_step_def step_clock_def step_cube_def Let_def)


section \<open>Properties\<close>

text \<open>C29. Entity ids never collide. However players are added, removed, moved and stepped and the
  clock is set, the player table stays sorted with one entry per player and every player's entity
  id is at least 1000 and below the next one to be given; the ids in a snapshot (the cube's and the
  players') are pairwise distinct; and no id is given twice: all the ids \<open>addPlayer\<close> gives to new
  players in the course of the run are different from each other, from those players had before and from those
  of players removed meanwhile, and only these ids are in use at its end. The one
  assumption is that the 32-bit id counter does not wrap: fewer additions than ids left.\<close>

theorem entity_ids_unique:
  assumes "sim_ok sim" and "unat (mNextPlayerEntityId sim) + additions ops < 2 ^ 32"
  shows "sim_ok (fold (sim_apply lm) ops sim) \<and>
    mNextPlayerEntityId sim \<le> mNextPlayerEntityId (fold (sim_apply lm) ops sim) \<and>
    distinct (entity_ids sim @ given_ids lm ops sim) \<and>
    set (entity_ids (fold (sim_apply lm) ops sim)) \<subseteq> set (entity_ids sim @ given_ids lm ops sim) \<and>
    distinct (map ent_id (snap_entities (buildSnapshot lm (fold (sim_apply lm) ops sim) out)))"
proof -
  let ?final = "fold (sim_apply lm) ops sim"
  have ok: "sim_ok ?final" "mNextPlayerEntityId sim \<le> mNextPlayerEntityId ?final"
    using sim_ok_run [OF assms] by blast+
  then have "\<forall>i \<in> set (entity_ids ?final). kFirstPlayerEntityId \<le> i" "distinct (entity_ids ?final)"
    by (simp_all add: sim_ok_def list_all_iff)
  moreover have "\<not> kFirstPlayerEntityId \<le> kCubeEntityId"
    by (simp add: kFirstPlayerEntityId_def kCubeEntityId_def word_le_nat_alt)
  moreover have "distinct (entity_ids sim)" "\<forall>i \<in> set (entity_ids sim). i < mNextPlayerEntityId sim"
    using assms(1) by (simp_all add: sim_ok_def list_all_iff)
  then have "distinct (entity_ids sim @ given_ids lm ops sim)"
    using given_ids_fresh [OF assms, of lm] by (auto dest: leD)
  ultimately show ?thesis
    using ok run_ids [of lm ops sim] by (auto simp: snapshot_ids)
qed

definition sample_ops :: "sim_op list" where
  "sample_ops = [AddPlayer 7, AddPlayer 9, Step (f_ratio 5 100) 0, RemovePlayer 7, AddPlayer 7, SetTimeOfDay 0 0]"

theorem entity_ids_unique_witness:
  "distinct (given_ids sample_libm sample_ops new_simulation) \<and>
   distinct (map ent_id (snap_entities (buildSnapshot sample_libm (fold (sim_apply sample_libm) sample_ops new_simulation)
     \<lparr>snap_tick = 0, snap_serverTimeMs = 0, snap_timeOfDay = 0, snap_entities = []\<rparr>)))"
proof -
  have "unat (mNextPlayerEntityId new_simulation) + additions sample_ops < 2 ^ 32"
    by (simp add: new_simulation_def kFirstPlayerEntityId_def sample_ops_def)
  from entity_ids_unique [OF sim_ok_new this, of sample_libm] show ?thesis by simp
qed

text \<open>C30. Input is ordered and acknowledged. Of the input datagrams that reach a player between two
  steps one stands at the end: as long as none is numbered 0, the one with the highest sequence number,
  the input from before included, in whatever order they come. An input numbered 0 skips the comparison and
  replaces whatever stands, newer or not; then the highest number from the last such input on
  decides. (\<open>earlier\<close> are the inputs up to the last one numbered 0, \<open>later\<close> the rest: every sequence of
  inputs has this form.) The other players'
  inputs are untouched. The step moves the player with the standing input by the shared movement rule,
  reports its sequence number as acknowledged, and consumes the jump, so a second step without
  new input never jumps again.\<close>

theorem input_ordered_and_acknowledged:
  assumes "map_find k (mPlayers sim) = Some player" and "inputs = earlier @ later"
    and "\<forall>i \<in> set later. in_sequence i \<noteq> 0" and "earlier = [] \<or> in_sequence (last earlier) = 0"
    and "basis = (if earlier = [] then ply_input player else last earlier)"
    and "fold newest later basis = input"
  shows "input \<in> set (basis # later) \<and>
    (\<forall>i \<in> set (basis # later). in_sequence i \<le> in_sequence input) \<and>
    map_find k (mPlayers (sim_step lm dt now (fold (setInput k) inputs sim))) = Some (player\<lparr>
      ply_character := stepCharacter lm input dt (ply_character player),
      ply_lastInputSequence := in_sequence input, ply_input := input\<lparr>in_jump := False\<rparr>\<rparr>) \<and>
    (\<forall>j. j \<noteq> k \<longrightarrow> map_find j (mPlayers (sim_step lm dt now (fold (setInput k) inputs sim))) =
      map_option (step_player lm dt) (map_find j (mPlayers sim)))"
proof -
  have "x \<le> foldr max xs (y :: u32)" if "x = y \<or> x \<in> set xs" for x y xs
    using that by (induction xs) (auto simp: le_max_iff_disj)
  then have "\<forall>i \<in> set (basis # later). in_sequence i \<le> in_sequence input"
    unfolding assms(6) [symmetric] newest_sequence by auto
  moreover have "input \<in> set (basis # later)"
    using newest_mem [of later basis] assms(6) by auto
  moreover have "map_find k (mPlayers (fold (setInput k) earlier sim)) = Some (player\<lparr>ply_input := basis\<rparr>)"
    using assms(1,4,5) setInput_reset by (cases "earlier = []") auto
  from setInput_run [OF this assms(3)] assms(2,6)
  have "map_find k (mPlayers (fold (setInput k) inputs sim)) = Some (player\<lparr>ply_input := input\<rparr>)"
    by simp
  ultimately show ?thesis
    by (simp add: step_find setInput_run_other) (simp add: step_player_def)
qed

definition sample_player :: Player where
  "sample_player = \<lparr>ply_entityId = 1000, ply_character = new_character, ply_input = no_input, ply_lastInputSequence = 0\<rparr>"

text \<open>A jump numbered 5, then an input numbered 0: the jump is lost. Without it the older 4 is ignored.\<close>

theorem input_ordered_and_acknowledged_witness:
  "map_find 7 (mPlayers (sim_step sample_libm 0 0 (fold (setInput 7)
      [no_input\<lparr>in_sequence := 5, in_jump := True\<rparr>, no_input\<lparr>in_sequence := 4\<rparr>] (new_simulation\<lparr>mPlayers := [(7, sample_player)]\<rparr>)))) =
   Some (sample_player\<lparr>ply_character := stepCharacter sample_libm (no_input\<lparr>in_sequence := 5, in_jump := True\<rparr>) 0 new_character,
     ply_lastInputSequence := 5, ply_input := no_input\<lparr>in_sequence := 5\<rparr>\<rparr>) \<and>
   map_find 7 (mPlayers (sim_step sample_libm 0 0 (fold (setInput 7)
      [no_input\<lparr>in_sequence := 5, in_jump := True\<rparr>, no_input] (new_simulation\<lparr>mPlayers := [(7, sample_player)]\<rparr>)))) =
   Some (sample_player\<lparr>ply_character := stepCharacter sample_libm no_input 0 new_character,
     ply_lastInputSequence := 0, ply_input := no_input\<rparr>)"
proof -
  let ?jump = "no_input\<lparr>in_sequence := 5, in_jump := True\<rparr>" and ?old = "no_input\<lparr>in_sequence := 4\<rparr>"
  have found: "map_find 7 (mPlayers (new_simulation\<lparr>mPlayers := [(7, sample_player)]\<rparr>)) = Some sample_player"
    by (simp add: map_find_def)
  have "fold newest [?jump, ?old] (ply_input sample_player) = ?jump"
    by (simp add: newest_def sample_player_def no_input_def)
  then show ?thesis
    using input_ordered_and_acknowledged [OF found, of "[?jump, ?old]" "[]" "[?jump, ?old]" "ply_input sample_player" ?jump sample_libm 0 0]
      input_ordered_and_acknowledged [OF found, of "[?jump, no_input]" "[?jump, no_input]" "[]" no_input no_input sample_libm 0 0]
    by (simp add: sample_player_def no_input_def)
qed

end
