(* ===== verification/IeeeOrder.thy ===== *)
theory IeeeOrder
  imports Ieee Complex_Main
begin

text \<open>
  What rounding keeps: the order of the exact results. A finite number means a real, rounding to
  nearest is monotone, and a bit pattern rounds back to itself, so non-negative numbers compare
  like their bit patterns and a bound on an exact result is a bound on the rounded one. The tick
  loop's bound and the range of the world clock rest on these lemmas.
\<close>

section \<open>Meaning\<close>

definition magnitude :: "int \<Rightarrow> int \<Rightarrow> real" where
  "magnitude m e = of_int m * 2 powi e"

fun meaning :: "fp \<Rightarrow> real" where
  "meaning (Finite s m e) = (if s then - magnitude m e else magnitude m e)"
| "meaning _ = 0"

lemma magnitude_signed: "(if s then - magnitude m e else magnitude m e) = magnitude (signed s m) e"
  by (simp add: magnitude_def signed_def)

lemma magnitude_shift: "q \<le> e \<Longrightarrow> magnitude m e = magnitude (m * 2 ^ nat (e - q)) q"
proof -
  assume "q \<le> e"
  then have "(2 :: real) powi e = 2 ^ nat (e - q) * 2 powi q"
    using power_int_add [of "2 :: real" "e - q" q] by (simp add: power_int_nonneg_exp)
  then show ?thesis by (simp add: magnitude_def)
qed

lemma magnitude_add: "magnitude (m + n) e = magnitude m e + magnitude n e"
  by (simp add: magnitude_def distrib_right)

lemma magnitude_le_iff: "magnitude m e \<le> magnitude n e \<longleftrightarrow> m \<le> n"
  by (simp add: magnitude_def)

lemma magnitude_less_iff: "magnitude m e < magnitude n e \<longleftrightarrow> m < n"
  by (simp add: magnitude_def)

lemma magnitude_eq_iff: "magnitude m e = magnitude n e \<longleftrightarrow> m = n"
  by (simp add: magnitude_def)

lemma fp_less_meaning: "fp_less (Finite s m e) (Finite t n d) \<longleftrightarrow> meaning (Finite s m e) < meaning (Finite t n d)"
  by (simp add: Let_def magnitude_signed magnitude_shift [of "min e d" e] magnitude_shift [of "min e d" d]
      magnitude_less_iff del: fp_less.simps(4)) 

lemma fp_eq_meaning: "fp_eq (Finite s m e) (Finite t n d) \<longleftrightarrow> meaning (Finite s m e) = meaning (Finite t n d)"
  by (simp add: Let_def magnitude_signed magnitude_shift [of "min e d" e] magnitude_shift [of "min e d" d]
      magnitude_eq_iff)

lemma fp_add_meaning:
  assumes "fp_add (Finite s m e) (Finite t n d) = r"
  shows "\<exists>v q. r = Finite v q (min e d) \<and> meaning r = meaning (Finite s m e) + meaning (Finite t n d) \<and> 0 \<le> q \<and>
    (v \<longrightarrow> s \<and> t \<or> meaning r < 0)"
proof -
  define q where "q = min e d"
  define v where "v = signed s m * 2 ^ nat (e - q) + signed t n * 2 ^ nat (d - q)"
  have total: "magnitude v q = meaning (Finite s m e) + meaning (Finite t n d)"
  proof -
    have "magnitude v q = magnitude (signed s m * 2 ^ nat (e - q)) q + magnitude (signed t n * 2 ^ nat (d - q)) q"
      unfolding v_def by (rule magnitude_add)
    also have "\<dots> = magnitude (signed s m) e + magnitude (signed t n) d"
      using magnitude_shift [of q e] magnitude_shift [of q d] by (simp add: q_def)
    finally show ?thesis by (simp add: magnitude_signed)
  qed
  have r: "r = (if v = 0 then Finite (s \<and> t \<and> m = 0 \<and> n = 0) 0 q else Finite (v < 0) (abs v) q)"
    using assms [symmetric] by (simp add: Let_def v_def q_def)
  have "meaning r = magnitude v q"
    unfolding r by (auto simp: magnitude_def)
  moreover have "v < 0 \<Longrightarrow> magnitude v q < 0"
    by (simp add: magnitude_def mult_neg_pos)
  ultimately show ?thesis
    using total r by (auto simp: q_def)
qed

section \<open>Rounding to an integer\<close>

definition rne :: "real \<Rightarrow> int" where
  "rne x = (if x - of_int \<lfloor>x\<rfloor> > 1 / 2 \<or> (x - of_int \<lfloor>x\<rfloor> = 1 / 2 \<and> odd \<lfloor>x\<rfloor>) then \<lfloor>x\<rfloor> + 1 else \<lfloor>x\<rfloor>)"

lemma rne_of_int [simp]: "rne (of_int i) = i"
  by (simp add: rne_def)

lemma rne_mono: "x \<le> y \<Longrightarrow> rne x \<le> rne y"
proof -
  assume xy: "x \<le> y"
  then have "\<lfloor>x\<rfloor> \<le> \<lfloor>y\<rfloor>" by (rule floor_mono)
  then consider "\<lfloor>x\<rfloor> = \<lfloor>y\<rfloor>" | "\<lfloor>x\<rfloor> + 1 \<le> \<lfloor>y\<rfloor>" by linarith
  then show ?thesis
    by cases (use xy in \<open>auto simp: rne_def\<close>)
qed

lemma round_unit_rne:
  assumes "0 \<le> m"
  shows "round_unit m e q = rne (magnitude m (e - q))"
proof (cases "q \<le> e")
  case True
  then have "magnitude m (e - q) = of_int (m * 2 ^ nat (e - q))"
    by (simp add: magnitude_def power_int_nonneg_exp)
  with True show ?thesis by (simp only: round_unit_def rne_of_int if_True)
next
  case False
  define d :: int where "d = 2 ^ nat (q - e)"
  have d: "0 < d" by (simp add: d_def)
  have mag: "magnitude m (e - q) = of_int m / of_int d"
    using False power_int_minus_divide [of "2 :: real" "q - e"]
    by (simp add: magnitude_def d_def power_int_nonneg_exp)
  have fl: "\<lfloor>magnitude m (e - q)\<rfloor> = m div d"
    unfolding mag by (rule floor_divide_of_int_eq)
  have split: "(of_int m :: real) = of_int d * of_int (m div d) + of_int (m mod d)"
    by (metis mult_div_mod_eq of_int_add of_int_mult)
  then have rest: "magnitude m (e - q) - of_int (m div d) = of_int (m mod d) / of_int d"
    using d unfolding mag by (simp add: field_simps)
  have half: "magnitude m (e - q) - of_int (m div d) > 1 / 2 \<longleftrightarrow> 2 * (m mod d) > d"
    "magnitude m (e - q) - of_int (m div d) = 1 / 2 \<longleftrightarrow> 2 * (m mod d) = d"
  proof -
    have "a / b > 1 / 2 \<longleftrightarrow> b < 2 * a" "a / b = 1 / 2 \<longleftrightarrow> 2 * a = b" if "0 < b" for a b :: real
      using that by (simp_all add: field_simps) (metis mult.commute)
    then have "of_int (m mod d) / (of_int d :: real) > 1 / 2 \<longleftrightarrow> of_int d < (of_int (2 * (m mod d)) :: real)"
      "of_int (m mod d) / (of_int d :: real) = 1 / 2 \<longleftrightarrow> of_int (2 * (m mod d)) = (of_int d :: real)"
      using d by simp_all
    then show "magnitude m (e - q) - of_int (m div d) > 1 / 2 \<longleftrightarrow> 2 * (m mod d) > d"
      "magnitude m (e - q) - of_int (m div d) = 1 / 2 \<longleftrightarrow> 2 * (m mod d) = d"
      unfolding rest of_int_less_iff of_int_eq_iff by blast+
  qed
  show ?thesis
    using False unfolding rne_def fl half by (simp add: round_unit_def Let_def d_def)
qed

section \<open>Rounding to a format\<close>

lemma bit_length_pos:
  "0 < n \<Longrightarrow> 1 \<le> bit_length n \<and> 2 ^ nat (bit_length n - 1) \<le> n \<and> n < 2 ^ nat (bit_length n)"
proof (induction n rule: bit_length.induct)
  case (1 n)
  show ?case
  proof (cases "n = 1")
    case True
    have "bit_length 1 = 1" by (simp add: bit_length.simps)
    with True show ?thesis by simp
  next
    case False
    with "1.prems" have h: "0 < n div 2" "\<not> n \<le> 0" by linarith+
    let ?b = "bit_length (n div 2)"
    from "1.IH" [OF h(2,1)] have b: "1 \<le> ?b" "2 ^ nat (?b - 1) \<le> n div 2" "n div 2 < 2 ^ nat ?b" by blast+
    have "bit_length n = 1 + ?b"
      using h by (subst bit_length.simps) simp
    moreover have "(2 :: int) ^ nat ?b = 2 * 2 ^ nat (?b - 1)" "(2 :: int) ^ nat (1 + ?b) = 2 * 2 ^ nat ?b"
      using b(1) by (simp_all add: nat_add_distrib nat_diff_distrib flip: power_Suc)
    moreover have "2 * k \<le> n \<and> n < 4 * k" if "k \<le> n div 2" "n div 2 < 2 * k" for k using that by linarith
    ultimately show ?thesis
      using b by (simp add: add_diff_eq)
  qed
qed

text \<open>The binade of a positive magnitude.\<close>

lemma magnitude_binade:
  assumes "0 < m"
  shows "2 powi (e + bit_length m - 1) \<le> magnitude m e" and "magnitude m e < 2 powi (e + bit_length m)"
proof -
  have b: "1 \<le> bit_length m" "2 ^ nat (bit_length m - 1) \<le> m" "m < 2 ^ nat (bit_length m)"
    using bit_length_pos [OF assms] by blast+
  have split: "(2 :: real) powi (e + k) = of_int (2 ^ nat k) * 2 powi e" if "0 \<le> k" for k
    using that by (simp add: power_int_add power_int_nonneg_exp)
  show "2 powi (e + bit_length m - 1) \<le> magnitude m e"
    using split [of "bit_length m - 1"] b(1,2)
    by (simp add: magnitude_def add_diff_eq del: of_int_power of_int_numeral) 
  show "magnitude m e < 2 powi (e + bit_length m)"
    using split [of "bit_length m"] b(1,3)
    by (simp add: magnitude_def del: of_int_power of_int_numeral)
qed

lemma magnitude_scale: "magnitude m (e - q) = magnitude m e / 2 powi q"
  by (simp add: magnitude_def power_int_diff)

definition rounded_bits :: "format \<Rightarrow> int \<Rightarrow> int \<Rightarrow> int" where
  "rounded_bits f m e = (last_place f m e - least_exponent f) * 2 ^ fraction_bits f + round_unit m e (last_place f m e)"

lemma round_magnitude_eq: "round_magnitude f m e = (if m = 0 then 0 else min (infinity_bits f) (rounded_bits f m e))"
  by (simp add: round_magnitude_def rounded_bits_def Let_def)

lemma last_place_ge: "least_exponent f \<le> last_place f m e"
  by (simp add: last_place_def)

lemma rounded_bits_nonneg: "0 < m \<Longrightarrow> 0 \<le> rounded_bits f m e"
proof -
  assume "0 < m"
  then have "0 \<le> round_unit m e (last_place f m e)"
    using rne_mono [of 0 "magnitude m (e - last_place f m e)"] rne_of_int [of 0]
    by (simp add: round_unit_rne magnitude_def)
  then show ?thesis using last_place_ge [of f m e] by (simp add: rounded_bits_def)
qed

lemma rounded_bits_mono:
  assumes "0 < m" and "0 < n" and le: "magnitude m e \<le> magnitude n d"
  shows "rounded_bits f m e \<le> rounded_bits f n d"
proof -
  let ?F = "fraction_bits f" and ?q = "last_place f m e" and ?r = "last_place f n d"
  have "2 powi (e + bit_length m - 1) < (2 :: real) powi (d + bit_length n)"
    using magnitude_binade(1) [OF assms(1), of e] le magnitude_binade(2) [OF assms(2), of d] by linarith
  then have top: "e + bit_length m \<le> d + bit_length n"
    using power_int_increasing [of "d + bit_length n" "e + bit_length m - 1" "2 :: real"] by force
  have R: "round_unit m e ?q = rne (magnitude m e / 2 powi ?q)" "round_unit n d ?r = rne (magnitude n d / 2 powi ?r)"
    using assms by (simp_all add: round_unit_rne magnitude_scale)
  show ?thesis
  proof (cases "?q = ?r")
    case True
    have "rne (magnitude m e / 2 powi ?q) \<le> rne (magnitude n d / 2 powi ?q)"
      by (rule rne_mono) (simp add: le divide_right_mono)
    then show ?thesis using True R unfolding rounded_bits_def by simp
  next
    case False
    then have q: "?q + 1 \<le> ?r" and r: "?r = d + bit_length n - int (?F + 1)"
      using top by (auto simp: last_place_def max_def split: if_splits)
    have "magnitude m e < 2 powi (e + bit_length m)"
      by (rule magnitude_binade(2)) (rule assms)
    also have "\<dots> \<le> 2 powi (int (?F + 1) + ?q)"
      by (rule power_int_increasing) (simp_all add: last_place_def)
    finally have "magnitude m e / 2 powi ?q \<le> of_int (2 ^ (?F + 1))"
      by (simp add: power_int_add field_simps)
    from rne_mono [OF this] have lo: "round_unit m e ?q \<le> 2 ^ (?F + 1)"
      unfolding R rne_of_int .
    have "(2 :: real) powi (int ?F + ?r) \<le> magnitude n d"
      using magnitude_binade(1) [OF assms(2), of d] unfolding r by (simp add: algebra_simps)
    then have "of_int (2 ^ ?F) \<le> magnitude n d / 2 powi ?r"
      by (simp add: power_int_add field_simps)
    from rne_mono [OF this] have hi: "2 ^ ?F \<le> round_unit n d ?r"
      unfolding R rne_of_int .
    have "(?q + 1 - least_exponent f) * 2 ^ ?F \<le> (?r - least_exponent f) * 2 ^ ?F"
      using q by (intro mult_right_mono) auto
    with lo hi show ?thesis
      unfolding rounded_bits_def by (simp add: algebra_simps)
  qed
qed

lemma infinity_bits_nonneg: "0 \<le> infinity_bits f"
  by (simp add: infinity_bits_def)

lemma round_magnitude_nonneg: "0 \<le> m \<Longrightarrow> 0 \<le> round_magnitude f m e"
  using rounded_bits_nonneg [of m f e] infinity_bits_nonneg [of f] by (auto simp: round_magnitude_eq)

lemma round_magnitude_mono:
  assumes "0 \<le> m" and "0 \<le> n" and "magnitude m e \<le> magnitude n d"
  shows "round_magnitude f m e \<le> round_magnitude f n d"
proof (cases "m = 0")
  case True
  then show ?thesis using round_magnitude_nonneg [OF assms(2), of f d] by (simp add: round_magnitude_eq [of f 0])
next
  case False
  then have m: "0 < m" using assms(1) by simp
  then have "0 < magnitude m e" by (simp add: magnitude_def)
  then have n: "0 < n"
    using assms by (cases "n = 0") (auto simp: magnitude_def)
  show ?thesis
    using m n rounded_bits_mono [OF m n assms(3), of f] by (simp add: round_magnitude_eq)
qed

section \<open>Bit patterns\<close>

text \<open>A pattern below infinity decodes to a number that rounds back to the pattern, so such patterns
  are ordered like the numbers.\<close>

lemma bit_length_unique:
  assumes "2 ^ k \<le> n" and "n < 2 ^ Suc k"
  shows "bit_length n = int (Suc k)"
proof -
  have n: "0 < n" using assms(1) by (meson less_le_trans zero_less_numeral zero_less_power)
  have b: "1 \<le> bit_length n" "2 ^ nat (bit_length n - 1) \<le> n" "n < 2 ^ nat (bit_length n)"
    using bit_length_pos [OF n] by blast+
  have "(2 :: int) ^ k < 2 ^ nat (bit_length n)" using assms(1) b(3) by linarith
  then have "k < nat (bit_length n)" by (simp only: power_strict_increasing_iff one_less_numeral_iff semiring_norm)
  moreover have "(2 :: int) ^ nat (bit_length n - 1) < 2 ^ Suc k" using assms(2) b(2) by linarith
  then have "nat (bit_length n - 1) < Suc k" by (simp only: power_strict_increasing_iff one_less_numeral_iff semiring_norm)
  ultimately show ?thesis using b(1) by linarith
qed

lemma bit_length_le: "0 \<le> n \<Longrightarrow> n < 2 ^ k \<Longrightarrow> bit_length n \<le> int k"
proof (cases "n = 0")
  case False
  assume n: "0 \<le> n" "n < 2 ^ k"
  then have "2 ^ nat (bit_length n - 1) \<le> n" using bit_length_pos [of n] False by simp
  then have "(2 :: int) ^ nat (bit_length n - 1) < 2 ^ k" using n(2) by linarith
  then have "nat (bit_length n - 1) < k" by (simp only: power_strict_increasing_iff one_less_numeral_iff semiring_norm)
  then show ?thesis by linarith
qed (simp add: bit_length.simps)

definition pattern :: "format \<Rightarrow> int \<Rightarrow> bool" where
  "pattern f n \<longleftrightarrow> 0 \<le> n \<and> n < infinity_bits f"

lemma decode_pattern:
  assumes "pattern f n"
  obtains m e where "decode_bits f n = Finite False m e" and "0 \<le> m" and "least_exponent f \<le> e" and "round_magnitude f m e = n"
proof -
  let ?F = "fraction_bits f" and ?E = "exponent_bits f"
  define fr where "fr = n mod 2 ^ ?F"
  define ex where "ex = n div 2 ^ ?F"
  have n: "n = ex * 2 ^ ?F + fr" unfolding ex_def fr_def by (rule div_mult_mod_eq [symmetric])
  have fr: "0 \<le> fr" "fr < 2 ^ ?F"
    by (simp_all add: fr_def)
  have bounds: "0 \<le> n" "n < (2 ^ ?E - 1) * 2 ^ ?F" using assms by (simp_all add: pattern_def infinity_bits_def)
  have "ex * 2 ^ ?F \<le> n" using fr(1) by (subst n) simp
  then have "ex * 2 ^ ?F < (2 ^ ?E - 1) * 2 ^ ?F" using bounds(2) by (rule le_less_trans)
  then have ex_less: "ex < 2 ^ ?E - 1" by (rule mult_right_less_imp_less) simp
  have "0 \<le> ex" unfolding ex_def using bounds(1) by (simp add: pos_imp_zdiv_nonneg_iff)
  note ex = this ex_less
  have "n div 2 ^ (?F + ?E) = ex div 2 ^ ?E"
    by (simp add: ex_def power_add zdiv_zmult2_eq)
  then have sign: "n div 2 ^ (?F + ?E) = 0" and expo: "ex mod 2 ^ ?E = ex"
    using ex by simp_all
  have inf: "min (infinity_bits f) n = n" using assms by (simp add: pattern_def)
  show thesis
  proof (cases "ex = 0")
    case True
    have "decode_bits f n = Finite False fr (least_exponent f)"
      using True ex(2) sign expo by (simp add: decode_bits_def Let_def flip: ex_def fr_def)
    moreover have "round_magnitude f fr (least_exponent f) = n"
    proof (cases "fr = 0")
      case False
      have "bit_length fr \<le> int ?F" using bit_length_le fr by blast
      then have "last_place f fr (least_exponent f) = least_exponent f" by (simp add: last_place_def)
      then show ?thesis
        using False True n inf by (simp add: round_magnitude_eq rounded_bits_def round_unit_def)
    qed (use True n in \<open>simp add: round_magnitude_eq\<close>)
    ultimately show thesis using that fr by blast
  next
    case False
    let ?m = "2 ^ ?F + fr" and ?e = "ex - 1 + least_exponent f"
    have "decode_bits f n = Finite False ?m ?e"
      using False ex(2) sign expo by (simp add: decode_bits_def Let_def flip: ex_def fr_def)
    moreover have "round_magnitude f ?m ?e = n"
    proof -
      have "bit_length ?m = int (Suc ?F)" by (rule bit_length_unique) (use fr in simp_all)
      then have "last_place f ?m ?e = ?e" using False ex(1) by (simp add: last_place_def)
      then have "rounded_bits f ?m ?e = (ex - 1) * 2 ^ ?F + ?m" by (simp add: rounded_bits_def round_unit_def)
      also have "\<dots> = n" by (subst n) (simp add: algebra_simps)
      finally have "rounded_bits f ?m ?e = n" .
      then show ?thesis
        using inf fr(1) by (simp add: round_magnitude_eq add_nonneg_eq_0_iff)
    qed
    ultimately show thesis using that [of ?m ?e] fr ex(1) False by simp
  qed
qed

lemma pattern_mono:
  assumes "pattern f n" and "pattern f k" and "n \<le> k"
  shows "meaning (decode_bits f n) \<le> meaning (decode_bits f k)"
proof -
  obtain m e where d: "decode_bits f n = Finite False m e" "0 \<le> m" "round_magnitude f m e = n"
    using decode_pattern [OF assms(1)] by blast
  obtain m' e' where d': "decode_bits f k = Finite False m' e'" "0 \<le> m'" "round_magnitude f m' e' = k"
    using decode_pattern [OF assms(2)] by blast
  show ?thesis
  proof (rule ccontr)
    assume "\<not> ?thesis"
    then have less: "magnitude m' e' < magnitude m e" using d d' by simp
    then have "k \<le> n" using round_magnitude_mono [of m' m e' e f] d d' by simp
    with assms(3) have "n = k" by simp
    with d(1) d'(1) less show False by simp
  qed
qed

lemma pattern_mono_iff:
  assumes "pattern f n" and "pattern f k"
  shows "n \<le> k \<longleftrightarrow> meaning (decode_bits f n) \<le> meaning (decode_bits f k)"
proof
  assume le: "meaning (decode_bits f n) \<le> meaning (decode_bits f k)"
  obtain m e where d: "decode_bits f n = Finite False m e" "0 \<le> m" "round_magnitude f m e = n"
    using decode_pattern [OF assms(1)] by blast
  obtain m' e' where d': "decode_bits f k = Finite False m' e'" "0 \<le> m'" "round_magnitude f m' e' = k"
    using decode_pattern [OF assms(2)] by blast
  show "n \<le> k" using round_magnitude_mono [of m m' e e' f] le d d' by simp
qed (rule pattern_mono [OF assms])

lemma zdiv_less:
  fixes n d k :: int
  assumes "0 < d" and "n < k * d"
  shows "n div d < k"
proof -
  have "n div d * d \<le> n" using assms(1) by (simp add: minus_mod_eq_div_mult [symmetric])
  then have "n div d * d < k * d" using assms(2) by (rule le_less_trans)
  then show ?thesis using assms(1) by (simp add: mult_less_cancel_right)
qed

lemma decode_nonneg: "decode_bits f n = Finite s m e \<Longrightarrow> 0 \<le> m"
  by (auto simp: decode_bits_def Let_def split: if_splits)

lemma decode_positive_pattern:
  assumes "decode_bits f n = Finite False m e" and "0 \<le> n" and "n < 2 * sign_bits f"
  shows "pattern f n"
proof -
  let ?F = "fraction_bits f" and ?E = "exponent_bits f"
  have "n < 2 * 2 ^ (?F + ?E)" using assms(3) by (simp add: sign_bits_def)
  then have "n div 2 ^ (?F + ?E) < 2"
    by (intro zdiv_less) simp_all
  moreover have "0 \<le> n div 2 ^ (?F + ?E)" using assms(2) by (simp add: pos_imp_zdiv_nonneg_iff)
  moreover have "even (n div 2 ^ (?F + ?E))"
    using assms(1) by (auto simp: decode_bits_def Let_def split: if_splits)
  moreover have "k = 0" if "k < 2" "0 \<le> k" "even k" for k :: int using that by presburger
  ultimately have "n div 2 ^ (?F + ?E) = 0" by blast
  then have "n div 2 ^ ?F div 2 ^ ?E = 0" by (simp add: power_add zdiv_zmult2_eq)
  moreover have "0 \<le> n div 2 ^ ?F" using assms(2) by (simp add: pos_imp_zdiv_nonneg_iff)
  ultimately have top: "n div 2 ^ ?F < 2 ^ ?E" "0 \<le> n div 2 ^ ?F"
    using div_mult_mod_eq [of "n div 2 ^ ?F" "2 ^ ?E"] pos_mod_bound [of "2 ^ ?E" "n div 2 ^ ?F"] by simp_all
  have "n div 2 ^ ?F \<noteq> 2 ^ ?E - 1"
    using assms(1) top by (auto simp: decode_bits_def Let_def split: if_splits)
  with top have "n div 2 ^ ?F + 1 \<le> 2 ^ ?E - 1" by linarith
  then have "(n div 2 ^ ?F + 1) * 2 ^ ?F \<le> infinity_bits f"
    unfolding infinity_bits_def by (rule mult_right_mono) simp
  moreover have "n < (n div 2 ^ ?F + 1) * 2 ^ ?F"
  proof -
    have "n = n div 2 ^ ?F * 2 ^ ?F + n mod 2 ^ ?F" by (rule div_mult_mod_eq [symmetric])
    also have "\<dots> < n div 2 ^ ?F * 2 ^ ?F + 2 ^ ?F" by simp
    finally show ?thesis by (simp add: distrib_right)
  qed
  ultimately show ?thesis using assms(2) unfolding pattern_def by (blast intro: less_le_trans)
qed

lemma round_magnitude_le_infinity: "round_magnitude f m e \<le> infinity_bits f"
  using infinity_bits_nonneg [of f] by (simp add: round_magnitude_eq)

section \<open>Comparing with constants\<close>

text \<open>A number between two positive constants is a pattern between theirs; this excludes NaN and the
  infinities.\<close>

lemma between_patterns:
  assumes "pattern f lo" and "0 < lo" and "pattern f hi" and "0 \<le> n" and "n < 2 * sign_bits f"
    and "fp_less (decode_bits f lo) (decode_bits f n) \<or> fp_eq (decode_bits f lo) (decode_bits f n)"
    and "\<not> fp_less (decode_bits f hi) (decode_bits f n)"
  shows "pattern f n \<and> lo \<le> n \<and> n \<le> hi"
proof -
  obtain m e where lo: "decode_bits f lo = Finite False m e" using decode_pattern [OF assms(1)] by blast
  obtain m' e' where hi: "decode_bits f hi = Finite False m' e'" using decode_pattern [OF assms(3)] by blast
  have zero: "pattern f 0" using assms(1,2) by (simp add: pattern_def)
  have "meaning (decode_bits f 0) = 0"
    using decode_pattern [OF zero] by (auto simp: decode_bits_def Let_def magnitude_def)
  then have pos: "0 < meaning (decode_bits f lo)"
    using pattern_mono_iff [OF assms(1) zero] assms(2) by simp
  show ?thesis
  proof (cases "decode_bits f n")
    case (Finite s k d)
    have le: "meaning (decode_bits f lo) \<le> meaning (decode_bits f n)"
      using assms(6) unfolding lo Finite fp_less_meaning fp_eq_meaning by linarith
    have ge: "meaning (decode_bits f n) \<le> meaning (decode_bits f hi)"
      using assms(7) unfolding hi Finite fp_less_meaning by linarith
    have "0 \<le> magnitude k d" using decode_nonneg [OF Finite] by (simp add: magnitude_def)
    then have "\<not> s" using le pos Finite by auto
    then have "pattern f n" using decode_positive_pattern [of f n k d] Finite assms(4,5) by simp
    then show ?thesis using pattern_mono_iff assms(1,3) le ge by blast
  qed (use assms(6,7) lo hi in auto)
qed

lemma pattern_order:
  assumes "pattern f lo" and "pattern f n"
  shows "fp_less (decode_bits f lo) (decode_bits f n) \<or> fp_eq (decode_bits f lo) (decode_bits f n) \<longleftrightarrow> lo \<le> n"
proof -
  obtain m e where lo: "decode_bits f lo = Finite False m e" using decode_pattern [OF assms(1)] by blast
  obtain m' e' where n: "decode_bits f n = Finite False m' e'" using decode_pattern [OF assms(2)] by blast
  show ?thesis
    using pattern_mono_iff [OF assms] unfolding lo n fp_less_meaning fp_eq_meaning by linarith
qed

section \<open>Subtraction\<close>

text \<open>The exact difference of ordered patterns, and its rounding.\<close>

lemma difference_exact:
  assumes "pattern f n" and "pattern f t" and "t \<le> n"
  shows "\<exists>q d. fp_sub (decode_bits f n) (decode_bits f t) = Finite False q d \<and> 0 \<le> q \<and>
    magnitude q d = meaning (decode_bits f n) - meaning (decode_bits f t)"
proof -
  obtain m e where n: "decode_bits f n = Finite False m e" using decode_pattern [OF assms(1)] by blast
  obtain k d where t: "decode_bits f t = Finite False k d" using decode_pattern [OF assms(2)] by blast
  have le: "meaning (decode_bits f t) \<le> meaning (decode_bits f n)"
    using pattern_mono assms by blast
  obtain v q where r: "fp_add (Finite False m e) (Finite True k d) = Finite v q (min e d)" "0 \<le> q"
      "meaning (Finite v q (min e d)) = meaning (Finite False m e) + meaning (Finite True k d)"
      "v \<longrightarrow> meaning (Finite v q (min e d)) < 0"
    using fp_add_meaning [OF refl, of False m e True k d] by metis
  have "\<not> v" using r(3,4) le n t by auto
  with r n t show ?thesis
    by (intro exI [of _ q] exI [of _ "min e d"]) (simp add: fp_sub_def)
qed

lemma rounded_difference_mono:
  assumes "pattern f n" and "pattern f k" and "pattern f t" and "t \<le> n" and "n \<le> k"
  shows "\<exists>q d q' d'. fp_sub (decode_bits f n) (decode_bits f t) = Finite False q d \<and> 0 \<le> q \<and>
    fp_sub (decode_bits f k) (decode_bits f t) = Finite False q' d' \<and> 0 \<le> q' \<and>
    round_magnitude f q d \<le> round_magnitude f q' d'"
proof -
  obtain q d where q: "fp_sub (decode_bits f n) (decode_bits f t) = Finite False q d" "0 \<le> q"
      "magnitude q d = meaning (decode_bits f n) - meaning (decode_bits f t)"
    using difference_exact [OF assms(1,3,4)] by blast
  obtain q' d' where q': "fp_sub (decode_bits f k) (decode_bits f t) = Finite False q' d'" "0 \<le> q'"
      "magnitude q' d' = meaning (decode_bits f k) - meaning (decode_bits f t)"
    using difference_exact [OF assms(2,3)] assms(4,5) by force
  have "magnitude q d \<le> magnitude q' d'"
    unfolding q(3) q'(3) using pattern_mono [OF assms(1,2,5)] by simp
  with q q' show ?thesis using round_magnitude_mono by blast
qed

section \<open>Doubles\<close>

lemma binary64_bits: "infinity_bits binary64 = 0x7FF0000000000000" "sign_bits binary64 = 0x8000000000000000"
  by (simp_all add: infinity_bits_def sign_bits_def binary64_def)

definition dpattern :: "f64 \<Rightarrow> bool" where
  "dpattern x = pattern binary64 (uint x)"

lemma uint_of_fp64: "0 \<le> m \<Longrightarrow> uint (of_fp64 (Finite False m e)) = round_magnitude binary64 m e"
  using round_magnitude_nonneg [of m binary64 e] round_magnitude_le_infinity [of binary64 m e]
  by (simp add: of_fp64_def encode_bits_def sign_field_def binary64_bits uint_word_of_int mod_pos_pos_trivial)

lemma dsub_mono:
  assumes "dpattern x" and "dpattern y" and "dpattern t" and "uint t \<le> uint x" and "uint x \<le> uint y"
  shows "uint (dsub x t) \<le> uint (dsub y t)"
  using rounded_difference_mono [of binary64 "uint x" "uint y" "uint t"] assms
  by (auto simp: dsub_def fp64_def dpattern_def uint_of_fp64)

lemma dle_between:
  assumes "dpattern lo" and "0 < uint lo" and "dpattern hi" and "dle lo x" and "\<not> dlt hi x"
  shows "dpattern x \<and> uint lo \<le> uint x \<and> uint x \<le> uint hi"
proof -
  have "uint x < 2 * sign_bits binary64" using uint_lt2p [of x] by (simp add: binary64_bits)
  with between_patterns [of binary64 "uint lo" "uint hi" "uint x"] assms show ?thesis
    by (simp add: dpattern_def dle_def dlt_def deq_def fp64_def)
qed

lemma dle_patterns: "dpattern x \<Longrightarrow> dpattern y \<Longrightarrow> dle x y \<longleftrightarrow> uint x \<le> uint y"
  using pattern_order [of binary64 "uint x" "uint y"] by (simp add: dpattern_def dle_def dlt_def deq_def fp64_def)

lemma dpattern_below: "uint x \<le> uint y \<Longrightarrow> dpattern y \<Longrightarrow> dpattern x"
  by (simp add: dpattern_def pattern_def)

end
