(* ===== verification/WorldClock.thy ===== *)
theory WorldClock
  imports Simulation IeeeOrder
begin

text \<open>
  The world clock stays within a day: subtracting its own floor from a finite number gives, after
  rounding, a number between zero and one, both included; only a NaN or an infinity can spoil it.
\<close>

section \<open>Numbers the format holds exactly\<close>

lemma decode_fields:
  assumes "0 \<le> r" and "r < 2 ^ (fraction_bits f + 1)" and "least_exponent f \<le> q"
    and "q = least_exponent f \<or> 2 ^ fraction_bits f \<le> r"
    and "(q - least_exponent f) * 2 ^ fraction_bits f + r < infinity_bits f"
  shows "\<exists>m e. decode_bits f ((q - least_exponent f) * 2 ^ fraction_bits f + r) = Finite False m e \<and> magnitude m e = magnitude r q"
proof -
  let ?F = "fraction_bits f" and ?E = "exponent_bits f" and ?k = "q - least_exponent f"
  let ?n = "?k * 2 ^ ?F + r"
  have "pattern f ?n" using assms by (simp add: pattern_def)
  then obtain m e where d: "decode_bits f ?n = Finite False m e" using decode_pattern by blast
  have lo: "?n mod 2 ^ ?F = r mod 2 ^ ?F" and hi: "?n div 2 ^ ?F = ?k + r div 2 ^ ?F"
    by (simp_all add: mod_mult_self3 div_mult_self3)
  have "?n div 2 ^ ?F < 2 ^ ?E"
    using zdiv_less [of "2 ^ ?F" ?n "2 ^ ?E - 1"] assms(5) by (simp add: infinity_bits_def)
  moreover have "0 \<le> ?n div 2 ^ ?F" using assms(1,3) by (simp add: pos_imp_zdiv_nonneg_iff)
  ultimately have ex: "?n div 2 ^ ?F mod 2 ^ ?E = ?k + r div 2 ^ ?F" using hi by simp
  have mag: "magnitude m e = (if ?k + r div 2 ^ ?F = 0 then magnitude (r mod 2 ^ ?F) (least_exponent f)
      else magnitude (2 ^ ?F + r mod 2 ^ ?F) (?k + r div 2 ^ ?F - 1 + least_exponent f))"
    using d unfolding decode_bits_def Let_def ex lo by (auto split: if_splits)
  show ?thesis
  proof (cases "r < 2 ^ ?F")
    case True
    with assms have "?k = 0" "r div 2 ^ ?F = 0" "r mod 2 ^ ?F = r" by auto
    with mag d show ?thesis by auto
  next
    case False
    then have "r = 2 ^ ?F + (r - 2 ^ ?F)" "0 \<le> r - 2 ^ ?F" "r - 2 ^ ?F < 2 ^ ?F" using assms(2) by auto
    then have one: "r div 2 ^ ?F = 1" "r mod 2 ^ ?F = r - 2 ^ ?F"
      by (metis div_add_self1 div_pos_pos_trivial add_0 zero_less_numeral zero_less_power less_irrefl)
        (metis \<open>0 \<le> r - 2 ^ ?F\<close> \<open>r - 2 ^ ?F < 2 ^ ?F\<close> minus_mod_self2 mod_pos_pos_trivial)
    have "?k + 1 \<noteq> 0" using assms(3) by linarith
    with mag d one show ?thesis by (intro exI [of _ m] exI [of _ e]) simp
  qed
qed

lemma round_exact:
  assumes "0 \<le> m" and "m < 2 ^ (fraction_bits f + 1)" and "least_exponent f \<le> e" and "round_magnitude f m e < infinity_bits f"
  shows "\<exists>m' e'. decode_bits f (round_magnitude f m e) = Finite False m' e' \<and> magnitude m' e' = magnitude m e"
proof (cases "m = 0")
  case True
  have "pattern f 0" using assms(4) round_magnitude_nonneg [OF assms(1), of f e] by (simp add: pattern_def)
  then obtain m' e' where "decode_bits f 0 = Finite False m' e'" using decode_pattern by blast
  moreover from this have "m' = 0" by (auto simp: decode_bits_def Let_def split: if_splits)
  ultimately show ?thesis using True by (simp add: round_magnitude_eq magnitude_def)
next
  case False
  let ?F = "fraction_bits f" and ?q = "last_place f m e"
  have m: "0 < m" using False assms(1) by simp
  have b: "1 \<le> bit_length m" "2 ^ nat (bit_length m - 1) \<le> m" "m < 2 ^ nat (bit_length m)"
    using bit_length_pos [OF m] by blast+
  have bl: "bit_length m \<le> int (?F + 1)" using bit_length_le [OF assms(1,2)] .
  then have q: "?q \<le> e" using assms(3) by (simp add: last_place_def)
  define r where "r = m * 2 ^ nat (e - ?q)"
  have bits: "round_magnitude f m e = (?q - least_exponent f) * 2 ^ ?F + r"
    using assms(4) False q by (auto simp: round_magnitude_eq rounded_bits_def round_unit_def r_def min_def split: if_splits)
  have small: "r < 2 ^ (?F + 1)"
  proof -
    have "e - ?q \<le> int (?F + 1) - bit_length m" by (simp add: last_place_def)
    then have "nat (bit_length m) + nat (e - ?q) \<le> ?F + 1" using q b(1) by linarith
    then have "(2 :: int) ^ (nat (bit_length m) + nat (e - ?q)) \<le> 2 ^ (?F + 1)" by (intro power_increasing) simp_all
    moreover have "r < 2 ^ nat (bit_length m) * 2 ^ nat (e - ?q)" unfolding r_def using b(3) by simp
    ultimately show ?thesis by (simp add: power_add)
  qed
  have big: "?q = least_exponent f \<or> 2 ^ ?F \<le> r"
  proof (cases "?q = least_exponent f")
    case False
    then have "nat (bit_length m - 1) + nat (e - ?q) = ?F" using q b(1) by (auto simp: last_place_def max_def split: if_splits)
    then have "(2 :: int) ^ ?F = 2 ^ nat (bit_length m - 1) * 2 ^ nat (e - ?q)" by (simp flip: power_add)
    then show ?thesis unfolding r_def using b(2) by simp
  qed simp
  have "magnitude r ?q = magnitude m e" unfolding r_def using magnitude_shift [OF q, of m] by simp
  then show ?thesis
    using decode_fields [OF _ small last_place_ge big] bits assms(1,4) by (simp add: r_def)
qed

section \<open>Signs\<close>

lemma decode_sign:
  assumes "pattern f n" and "decode_bits f n = Finite False m e"
  shows "decode_bits f (sign_bits f + n) = Finite True m e"
proof -
  let ?F = "fraction_bits f" and ?E = "exponent_bits f"
  have n: "0 \<le> n" "n < 2 ^ (?F + ?E)"
    using assms(1) less_trans [OF _ mult_strict_right_mono [of "2 ^ ?E - 1" "2 ^ ?E" "2 ^ ?F :: int"], of n]
    by (simp_all add: pattern_def infinity_bits_def power_add mult.commute)
  have lo: "(sign_bits f + n) mod 2 ^ ?F = n mod 2 ^ ?F"
    by (simp add: sign_bits_def power_add)
  have mid: "(sign_bits f + n) div 2 ^ ?F mod 2 ^ ?E = n div 2 ^ ?F mod 2 ^ ?E"
  proof -
    have "(sign_bits f + n) div 2 ^ ?F = 2 ^ ?E + n div 2 ^ ?F" by (simp add: sign_bits_def power_add)
    then show ?thesis by simp
  qed
  have "(sign_bits f + n) div 2 ^ (?F + ?E) = 1 + n div 2 ^ (?F + ?E)" by (simp add: sign_bits_def)
  moreover have "n div 2 ^ (?F + ?E) = 0" using n by simp
  ultimately have hi: "odd ((sign_bits f + n) div 2 ^ (?F + ?E))" by simp
  show ?thesis
    using assms(2) hi unfolding decode_bits_def lo mid by (auto simp: Let_def split: if_splits)
qed

lemma binary32_bits: "infinity_bits binary32 = 0x7F800000" "sign_bits binary32 = 0x80000000" "fraction_bits binary32 = 23"
    "least_exponent binary32 = - 149" "exponent_bits binary32 = 8"
  by (simp_all add: infinity_bits_def sign_bits_def binary32_def least_exponent_def bias_def)

lemma uint_of_fp32: "0 \<le> m \<Longrightarrow> uint (of_fp32 (Finite s m e)) = sign_field binary32 s + round_magnitude binary32 m e"
  using round_magnitude_nonneg [of m binary32 e] round_magnitude_le_infinity [of binary32 m e]
  unfolding of_fp32_def encode_bits_def fp.case uint_word_of_int
  by (subst mod_pos_pos_trivial) (auto simp: sign_field_def binary32_bits)

text \<open>A number a float holds exactly survives being stored in one.\<close>

lemma fp32_exact:
  assumes "0 \<le> m" and "m \<le> 2 ^ 23" and "- 149 \<le> e" and "e \<le> 0"
  shows "\<exists>m' e'. fp32 (of_fp32 (Finite s m e)) = Finite s m' e' \<and> magnitude m' e' = magnitude m e"
proof -
  have "magnitude m e \<le> magnitude (2 ^ 23) 0"
  proof -
    have "(2 :: real) powi e \<le> 2 powi 0" using assms(4) by (intro power_int_increasing) simp_all
    then show ?thesis using assms(1,2) unfolding magnitude_def by (intro mult_mono) simp_all
  qed
  from round_magnitude_mono [OF assms(1) _ this, of binary32]
  have "round_magnitude binary32 m e \<le> round_magnitude binary32 (2 ^ 23) 0" by simp
  also have "\<dots> < infinity_bits binary32" by code_simp
  finally have below: "round_magnitude binary32 m e < infinity_bits binary32" .
  obtain m' e' where d: "decode_bits binary32 (round_magnitude binary32 m e) = Finite False m' e'" "magnitude m' e' = magnitude m e"
    using round_exact [of m binary32 e] assms below by (auto simp: binary32_bits)
  have p: "pattern binary32 (round_magnitude binary32 m e)"
    using below round_magnitude_nonneg [OF assms(1)] by (simp add: pattern_def)
  show ?thesis
    using d decode_sign [OF p d(1)] by (cases s) (simp_all add: fp32_def uint_of_fp32 assms(1) sign_field_def)
qed

lemma decode_range:
  assumes "decode_bits f n = Finite s m e"
  shows "0 \<le> m \<and> m < 2 ^ (fraction_bits f + 1) \<and> least_exponent f \<le> e"
proof -
  let ?fr = "n mod 2 ^ fraction_bits f" and ?ex = "n div 2 ^ fraction_bits f mod 2 ^ exponent_bits f"
  have fr: "0 \<le> ?fr" "?fr < 2 ^ fraction_bits f" and ex: "0 \<le> ?ex" by simp_all
  have "m = ?fr \<and> e = least_exponent f \<or>
      ?ex \<noteq> 0 \<and> m = 2 ^ fraction_bits f + ?fr \<and> e = ?ex - 1 + least_exponent f"
    using assms by (simp add: decode_bits_def Let_def split: if_splits)
  moreover have "(2 :: int) ^ (fraction_bits f + 1) = 2 ^ fraction_bits f + 2 ^ fraction_bits f" "(0 :: int) < 2 ^ fraction_bits f"
    by simp_all
  ultimately show ?thesis
    using fr ex by (elim disjE conjE) linarith+
qed

lemma decode_unsign:
  assumes "decode_bits f k = Finite True m e" and "0 \<le> k" and "k < 2 * sign_bits f"
  shows "\<exists>n. k = sign_bits f + n \<and> pattern f n \<and> decode_bits f n = Finite False m e"
proof -
  let ?F = "fraction_bits f" and ?E = "exponent_bits f"
  define n where "n = k - sign_bits f"
  have k: "k = sign_bits f + n" by (simp add: n_def)
  have odd: "odd (k div 2 ^ (?F + ?E))" using assms(1) by (auto simp: decode_bits_def Let_def split: if_splits)
  have "\<not> k < sign_bits f"
  proof
    assume "k < sign_bits f"
    then have "k div 2 ^ (?F + ?E) = 0" using assms(2) by (simp add: sign_bits_def)
    with odd show False by simp
  qed
  then have n: "0 \<le> n" "n < sign_bits f" using assms(3) by (simp_all add: n_def)
  have lo: "k mod 2 ^ ?F = n mod 2 ^ ?F" unfolding k by (simp add: sign_bits_def power_add)
  have "k div 2 ^ ?F = 2 ^ ?E + n div 2 ^ ?F" unfolding k by (simp add: sign_bits_def power_add)
  then have mid: "k div 2 ^ ?F mod 2 ^ ?E = n div 2 ^ ?F mod 2 ^ ?E" by simp
  have "n div 2 ^ (?F + ?E) = 0" using n by (simp add: sign_bits_def)
  then have d: "decode_bits f n = Finite False m e"
    using assms(1) unfolding decode_bits_def lo mid by (auto simp: Let_def split: if_splits)
  have "pattern f n" using decode_positive_pattern [OF d n(1)] n by simp
  with d k show ?thesis by blast
qed

lemma fp32_unsigned:
  assumes "fp32 t = Finite s m e"
  shows "\<exists>n. pattern binary32 n \<and> decode_bits binary32 n = Finite False m e \<and> round_magnitude binary32 m e = n"
proof -
  have "uint t < 2 * sign_bits binary32" using uint_lt2p [of t] by (simp add: binary32_bits)
  then obtain n where n: "pattern binary32 n" "decode_bits binary32 n = Finite False m e"
    using assms decode_unsign [of binary32 "uint t" m e] decode_positive_pattern [of binary32 "uint t" m e]
    by (cases s) (auto simp: fp32_def)
  moreover obtain m' e' where "decode_bits binary32 n = Finite False m' e'" "round_magnitude binary32 m' e' = n"
    using decode_pattern [OF n(1)] by blast
  ultimately show ?thesis by auto
qed

lemma fp32_again:
  assumes "fp32 t = Finite s m e"
  shows "fp32 (of_fp32 (Finite s m e)) = Finite s m e"
proof -
  obtain n where n: "pattern binary32 n" "decode_bits binary32 n = Finite False m e" "round_magnitude binary32 m e = n"
    using fp32_unsigned [OF assms] by blast
  have "0 \<le> m" using decode_nonneg [OF n(2)] .
  then show ?thesis
    using n decode_sign [OF n(1,2)] by (cases s) (simp_all add: fp32_def uint_of_fp32 sign_field_def)
qed

lemma half_div:
  fixes m :: int
  assumes "0 \<le> m" and "m < 2 ^ 24" and "0 < k"
  shows "\<bar>m div 2 ^ k\<bar> \<le> 2 ^ 23 \<and> \<bar>(- m) div 2 ^ k\<bar> \<le> 2 ^ 23 \<and> 0 \<le> m div 2 ^ k \<and> (- m) div 2 ^ k \<le> 0"
proof -
  obtain j where k: "k = Suc j" using assms(3) by (cases k) auto
  have "x div 2 ^ k = x div 2 div 2 ^ j" for x :: int unfolding k by (simp add: zdiv_zmult2_eq)
  moreover have "0 \<le> m div 2" "m div 2 \<le> 2 ^ 23" "- (2 ^ 23) \<le> (- m) div 2" "(- m) div 2 \<le> 0" using assms by simp_all
  moreover have "0 \<le> x div 2 ^ j \<and> x div 2 ^ j \<le> x" if "0 \<le> x" for x :: int
    using that zdiv_mono2 [of x 1 "2 ^ j"] by (simp add: pos_imp_zdiv_nonneg_iff)
  moreover have "x \<le> x div 2 ^ j \<and> x div 2 ^ j \<le> 0" if "x \<le> 0" for x :: int
    using that zdiv_mono2_neg [of x 1 "2 ^ j"] by (cases "x = 0") (simp_all add: div_nonpos_pos_le0)
  ultimately show ?thesis by (smt (verit))
qed

lemma ffloor_meaning:
  assumes "fp32 t = Finite s m e"
  shows "\<exists>m' e'. fp32 (ffloor t) = Finite s m' e' \<and> meaning (Finite s m' e') = of_int \<lfloor>meaning (Finite s m e)\<rfloor>"
proof (cases "e \<ge> 0 \<or> m = 0")
  case True
  then have "meaning (Finite s m e) = of_int (signed s m * 2 ^ nat e)"
    by (auto simp: magnitude_def signed_def power_int_nonneg_exp)
  then have "of_int \<lfloor>meaning (Finite s m e)\<rfloor> = meaning (Finite s m e)" by (simp only: floor_of_int)
  moreover have "fp32 (ffloor t) = Finite s m e"
    using True fp32_again [OF assms] by (auto simp: ffloor_def assms)
  ultimately show ?thesis by metis
next
  case False
  let ?k = "nat (- e)" and ?v = "signed s m div 2 ^ nat (- e)"
  have range: "0 \<le> m" "m < 2 ^ 24" "0 < ?k"
    using decode_range [of binary32 "uint t" s m e] assms False by (simp_all add: fp32_def binary32_bits)
  have v: "\<bar>?v\<bar> \<le> 2 ^ 23" "(if s then - \<bar>?v\<bar> else \<bar>?v\<bar>) = ?v"
    using half_div [OF range] by (auto simp: signed_def)
  have "meaning (Finite s m e) = of_int (signed s m) / of_int (2 ^ ?k)"
    using False power_int_minus_divide [of "2 :: real" "- e"]
    by (simp add: magnitude_def signed_def power_int_nonneg_exp)
  then have fl: "\<lfloor>meaning (Finite s m e)\<rfloor> = ?v" by (simp only: floor_divide_of_int_eq)
  obtain m' e' where d: "fp32 (of_fp32 (Finite s \<bar>?v\<bar> 0)) = Finite s m' e'" "magnitude m' e' = magnitude \<bar>?v\<bar> 0"
    using fp32_exact [of "\<bar>?v\<bar>" 0 s] v(1) by auto
  have "meaning (Finite s m' e') = of_int (if s then - \<bar>?v\<bar> else \<bar>?v\<bar>)"
    using d(2) by (simp add: magnitude_def)
  then show ?thesis using False d fl v(2) by (simp add: ffloor_def assms Let_def)
qed

section \<open>Into the day\<close>

lemma wrap_day_finite:
  assumes "fp32 t = Finite s m e"
  shows "wrap_day t \<le> 0x3F800000"
proof -
  obtain m' e' where fl: "fp32 (ffloor t) = Finite s m' e'"
      "meaning (Finite s m' e') = of_int \<lfloor>meaning (Finite s m e)\<rfloor>"
    using ffloor_meaning [OF assms] by blast
  obtain v q where r: "fp_add (Finite s m e) (Finite (\<not> s) m' e') = Finite v q (min e e')" "0 \<le> q"
      "meaning (Finite v q (min e e')) = meaning (Finite s m e) + meaning (Finite (\<not> s) m' e')"
      "v \<longrightarrow> s \<and> \<not> s \<or> meaning (Finite v q (min e e')) < 0"
    using fp_add_meaning [OF refl, of s m e "\<not> s" m' e'] by metis
  have "meaning (Finite (\<not> s) m' e') = - meaning (Finite s m' e')" by simp
  then have range: "0 \<le> meaning (Finite v q (min e e'))" "meaning (Finite v q (min e e')) < 1"
    unfolding r(3) fl(2) by linarith+
  then have "\<not> v" using r(4) by linarith
  then have "magnitude q (min e e') \<le> magnitude 1 0" using range by (simp add: magnitude_def)
  then have "round_magnitude binary32 q (min e e') \<le> round_magnitude binary32 1 0"
    using round_magnitude_mono [of q 1] r(2) by simp
  also have "\<dots> = 0x3F800000" by code_simp
  finally have "uint (of_fp32 (Finite v q (min e e'))) \<le> 0x3F800000"
    using \<open>\<not> v\<close> r(2) by (simp add: uint_of_fp32 sign_field_def)
  moreover have "wrap_day t = of_fp32 (Finite v q (min e e'))"
    using assms fl(1) r(1) by (simp add: wrap_day_def fsub_def fp_sub_def del: fp_add.simps)
  ultimately show ?thesis by (simp add: word_le_def)
qed

lemma fnan_of_NaN: "fnan (of_fp32 NaN)"
  by (simp add: fnan_def) code_simp

lemma ffloor_special: "fp32 t = NaN \<Longrightarrow> fp32 (ffloor t) = NaN"
    "fp32 t = Infinite s \<Longrightarrow> fp32 (ffloor t) = Infinite s"
  by (simp_all add: ffloor_def, code_simp) (cases s; simp; code_simp)

lemma wrap_day_range: "fnan (wrap_day t) \<or> wrap_day t \<le> 0x3F800000"
proof (cases "fp32 t")
  case (Infinite s)
  then have "wrap_day t = of_fp32 NaN" using ffloor_special(2) [OF Infinite] by (simp add: wrap_day_def fsub_def fp_sub_def)
  then show ?thesis using fnan_of_NaN by simp
next
  case NaN
  then have "wrap_day t = of_fp32 NaN" by (simp add: wrap_day_def fsub_def fp_sub_def)
  then show ?thesis using fnan_of_NaN by simp
qed (use wrap_day_finite in blast)

section \<open>Properties\<close>

text \<open>C33. The world clock stays within a day. After setting the time of day, and after every step of the
  simulation whatever the clock speed and the time passed, the time of day is a number from 0 to 1
  (as bit patterns of non-negative floats, at most that of 1), unless it is NaN, which only a NaN
  or an infinity fed into the clock produces. The bound 1 is attained: a negative time of day too small to
  matter wraps to exactly one, not below it.\<close>

theorem time_of_day_in_range:
  "(\<forall>sim now t. fnan (mTimeOfDay (setTimeOfDay now t sim)) \<or> mTimeOfDay (setTimeOfDay now t sim) \<le> 0x3F800000) \<and>
   (\<forall>sim now dt. fnan (mTimeOfDay (sim_step lm dt now sim)) \<or> mTimeOfDay (sim_step lm dt now sim) \<le> 0x3F800000) \<and>
   f_of_int 1 = 0x3F800000 \<and> mTimeOfDay (setTimeOfDay 0 0xB2000000 new_simulation) = f_of_int 1"
proof (intro conjI allI)
  show "fnan (mTimeOfDay (setTimeOfDay now t sim)) \<or> mTimeOfDay (setTimeOfDay now t sim) \<le> 0x3F800000" for sim now t
    using wrap_day_range [of t] by (simp add: setTimeOfDay_def reanchor_def)
  show "fnan (mTimeOfDay (sim_step lm dt now sim)) \<or> mTimeOfDay (sim_step lm dt now sim) \<le> 0x3F800000" for sim now dt
    using wrap_day_range by (simp add: sim_step_def step_clock_def step_cube_def Let_def)
  show "f_of_int 1 = 0x3F800000" by code_simp
  have "wrap_day 0xB2000000 = f_of_int 1" by code_simp
  then show "mTimeOfDay (setTimeOfDay 0 0xB2000000 new_simulation) = f_of_int 1"
    by (simp add: setTimeOfDay_def reanchor_def)
qed

end
