(* ===== verification/Udp.thy ===== *)
theory Udp
  imports TcpServer CText
begin

text \<open>
  The UDP half of \<^verbatim>\<open>common/net/src/socket.cpp\<close> and the address conversions. As for TCP, what the
  kernel will answer is part of the socket's state. The lemmas show that addresses survive the
  conversion to the kernel's byte order, and which datagrams a drain loop hands over.
\<close>

section \<open>Addresses\<close>

record sockaddr_in =
  sin_port :: u16
  sin_addr :: u32

text \<open>Network byte order on a little-endian host: the bytes reversed.\<close>

definition htons :: "u16 \<Rightarrow> u16" where
  "htons x = push_bit 8 x OR drop_bit 8 x"

definition htonl :: "u32 \<Rightarrow> u32" where
  "htonl x = push_bit 24 (take_bit 8 x) OR push_bit 16 (take_bit 8 (drop_bit 8 x)) OR
     push_bit 8 (take_bit 8 (drop_bit 16 x)) OR take_bit 8 (drop_bit 24 x)"

definition toSockaddr :: "Address \<Rightarrow> sockaddr_in" where
  "toSockaddr address = \<lparr>sin_port = htons (addr_port address), sin_addr = htonl (addr_ip address)\<rparr>"

definition fromSockaddr :: "sockaddr_in \<Rightarrow> Address" where
  "fromSockaddr addr = \<lparr>addr_ip = htonl (sin_addr addr), addr_port = htons (sin_port addr)\<rparr>"

definition address_string :: "Address \<Rightarrow> string" where
  "address_string a =
     (let octet = \<lambda>n. to_string (unat (drop_bit n (addr_ip a) AND 0xFF)) in
      octet 24 @ ''.'' @ octet 16 @ ''.'' @ octet 8 @ ''.'' @ octet 0 @ '':'' @ to_string (unat (addr_port a)))"

text \<open>\<open>Address::resolve\<close>: what \<^verbatim>\<open>getaddrinfo\<close> answered for the host is the argument.\<close>

definition resolve :: "sockaddr_in option \<Rightarrow> u16 \<Rightarrow> Address option" where
  "resolve results port = (case results of
      None \<Rightarrow> None
    | Some addr \<Rightarrow> Some \<lparr>addr_ip = htonl (sin_addr addr), addr_port = port\<rparr>)"

lemma htons_htons [simp]: "htons (htons x) = x"
  unfolding htons_def by (rule bit_word_eqI) (auto simp: bit_simps)

lemma htonl_bit:
  fixes x :: u32
  assumes "n < 32"
  shows "bit (htonl x) n = bit x (if n < 8 then n + 24 else if n < 16 then n + 8 else if n < 24 then n - 8 else n - 24)"
  using assms unfolding htonl_def by (auto simp: bit_simps add.commute)

lemma htonl_htonl [simp]: "htonl (htonl x) = x"
proof (rule bit_word_eqI)
  fix n assume n: "n < LENGTH(32)"
  then consider "n < 8" | "8 \<le> n" "n < 16" | "16 \<le> n" "n < 24" | "24 \<le> n" "n < 32"
    by fastforce
  then show "bit (htonl (htonl x)) n = bit x n"
    by cases (simp_all add: htonl_bit less_diff_conv2)
qed

lemma fromSockaddr_toSockaddr [simp]: "fromSockaddr (toSockaddr a) = a"
  by (simp add: fromSockaddr_def toSockaddr_def)

lemma toSockaddr_fromSockaddr [simp]: "toSockaddr (fromSockaddr a) = a"
  by (simp add: fromSockaddr_def toSockaddr_def)

section \<open>Sockets\<close>

record UdpSocket =
  udp_recvs :: "(bytes \<times> sockaddr_in) syscall list"
  udp_sends :: "unit syscall list"
  udp_sent :: "(sockaddr_in \<times> bytes) list"

text \<open>\<^verbatim>\<open>::recvfrom\<close> cuts a datagram to the buffer; the rest of it is lost.\<close>

definition receiveFrom :: "nat \<Rightarrow> UdpSocket \<Rightarrow> bool \<times> (bytes \<times> Address) option \<times> UdpSocket" where
  "receiveFrom capacity s = (case udp_recvs s of
      [] \<Rightarrow> (wouldBlock EWOULDBLOCK, None, s)
    | Ret (data, source) # rest \<Rightarrow>
        (True, Some (take capacity data, fromSockaddr source), s\<lparr>udp_recvs := rest\<rparr>)
    | Err e # rest \<Rightarrow> (wouldBlock e \<or> e = ECONNREFUSED, None, s\<lparr>udp_recvs := rest\<rparr>))"

definition sendTo :: "bytes \<Rightarrow> Address \<Rightarrow> UdpSocket \<Rightarrow> bool \<times> UdpSocket" where
  "sendTo data to s = (case udp_sends s of
      [] \<Rightarrow> (wouldBlock EWOULDBLOCK, s)
    | Ret _ # rest \<Rightarrow> (True, s\<lparr>udp_sends := rest, udp_sent := udp_sent s @ [(toSockaddr to, data)]\<rparr>)
    | Err e # rest \<Rightarrow> (wouldBlock e, s\<lparr>udp_sends := rest\<rparr>))"

text \<open>The drain loop of the world server and the client: until nothing is pending, an error, or an
  empty datagram.\<close>

function udp_drain :: "nat \<Rightarrow> UdpSocket \<Rightarrow> (bytes \<times> Address) list \<times> UdpSocket" where
  "udp_drain capacity s = (case receiveFrom capacity s of
      (True, Some (data, source), s') \<Rightarrow>
        if data = [] then ([], s')
        else (case udp_drain capacity s' of (rest, s'') \<Rightarrow> ((data, source) # rest, s''))
    | (_, _, s') \<Rightarrow> ([], s'))"
  by pat_completeness auto
termination
  by (relation "measure (\<lambda>(_, s). length (udp_recvs s))")
    (auto simp: receiveFrom_def split: list.splits syscall.splits prod.splits)

declare udp_drain.simps [simp del]

text \<open>A run of pending datagrams is handed over in order, each cut to the buffer, up to the first
  that is empty or an error.\<close>

lemma udp_drain_pending:
  assumes "udp_recvs s = map Ret pending" and "\<forall>(data, _) \<in> set pending. data \<noteq> []" and "0 < capacity"
  shows "udp_drain capacity s =
     (map (\<lambda>(data, source). (take capacity data, fromSockaddr source)) pending, s\<lparr>udp_recvs := []\<rparr>)"
  using assms
proof (induction pending arbitrary: s)
  case Nil
  then show ?case by (subst udp_drain.simps) (simp add: receiveFrom_def wouldBlock_def)
next
  case (Cons d pending)
  obtain data source where d: "d = (data, source)" by fastforce
  let ?s = "s\<lparr>udp_recvs := map Ret pending\<rparr>"
  have "receiveFrom capacity s = (True, Some (take capacity data, fromSockaddr source), ?s)"
    using Cons.prems d by (simp add: receiveFrom_def)
  moreover have "udp_drain capacity ?s =
      (map (\<lambda>(data, source). (take capacity data, fromSockaddr source)) pending, ?s\<lparr>udp_recvs := []\<rparr>)"
    using Cons.prems by (intro Cons.IH) auto
  ultimately show ?case
    using Cons.prems d by (subst udp_drain.simps) simp
qed

lemma udp_drain_short: "(data, source) \<in> set (fst (udp_drain capacity s)) \<Longrightarrow> data \<noteq> [] \<and> length data \<le> capacity"
proof (induction capacity s rule: udp_drain.induct)
  case (1 capacity s)
  obtain ok d s' where r: "receiveFrom capacity s = (ok, d, s')" by (metis prod_cases3)
  show ?case
  proof (cases "ok \<and> d \<noteq> None \<and> fst (the d) \<noteq> []")
    case True
    then obtain bs a where d: "ok" "d = Some (bs, a)" "bs \<noteq> []" by auto
    have "length bs \<le> capacity"
      using r d by (auto simp: receiveFrom_def split: list.splits syscall.splits)
    moreover have "(data, source) = (bs, a) \<or> (data, source) \<in> set (fst (udp_drain capacity s'))"
      using "1.prems" r d by (subst (asm) udp_drain.simps) (auto split: prod.splits)
    ultimately show ?thesis
      using "1.IH" [OF r [symmetric]] d by auto
  next
    case False
    then have "udp_drain capacity s = ([], s')"
      by (subst udp_drain.simps) (auto simp: r split: option.splits bool.splits prod.splits)
    with "1.prems" show ?thesis by simp
  qed
qed

end
