(* ===== verification/CFloat.thy ===== *)
theory CFloat
  imports CText Ieee
begin

text \<open>
  \<^verbatim>\<open>atof\<close> (\<^verbatim>\<open>strtod\<close> without an end pointer) and \<^verbatim>\<open>strtof\<close> as the sources use them. A decimal or hexadecimal
  number is read exactly and rounded once; \<^verbatim>\<open>inf\<close>, \<^verbatim>\<open>infinity\<close> and \<^verbatim>\<open>nan\<close> are recognised in any
  case; text that starts no number is zero.
\<close>

definition to_lower :: "char \<Rightarrow> char" where
  "to_lower c = (let n = (of_char c :: nat) in if 65 \<le> n \<and> n \<le> 90 then char_of (n + 32) else c)"

fun starts_with :: "string \<Rightarrow> string \<Rightarrow> bool" where
  "starts_with [] s = True"
| "starts_with (c # cs) [] = False"
| "starts_with (c # cs) (d # ds) \<longleftrightarrow> c = to_lower d \<and> starts_with cs ds"

definition hex_value :: "char \<Rightarrow> int option" where
  "hex_value c = (let n = (of_char c :: int) in
     if 48 \<le> n \<and> n \<le> 57 then Some (n - 48)
     else if 97 \<le> n \<and> n \<le> 102 then Some (n - 87)
     else if 65 \<le> n \<and> n \<le> 70 then Some (n - 55) else None)"

definition dec_value :: "char \<Rightarrow> int option" where
  "dec_value c = (if isdigit c then Some (int (digit_value c)) else None)"

text \<open>Digits in a base, with at most one point: the number without the point, how many digits follow
  the point, whether there was any digit, and the rest.\<close>

fun scan_number :: "(char \<Rightarrow> int option) \<Rightarrow> int \<Rightarrow> bool \<Rightarrow> int \<Rightarrow> int \<Rightarrow> bool \<Rightarrow> string \<Rightarrow> int \<times> int \<times> bool \<times> string" where
  "scan_number value base point acc places some [] = (acc, places, some, [])"
| "scan_number value base point acc places some (c # cs) = (case value c of
      Some v \<Rightarrow> scan_number value base point (acc * base + v) (if point then places + 1 else places) True cs
    | None \<Rightarrow> if c = CHR ''.'' \<and> \<not> point then scan_number value base True acc places some cs
        else (acc, places, some, c # cs))"

text \<open>An exponent after its letter; a letter with no digits behind it is not part of the number.\<close>

definition scan_exponent :: "char \<Rightarrow> string \<Rightarrow> int" where
  "scan_exponent letter s = (case s of
      [] \<Rightarrow> 0
    | c # cs \<Rightarrow> if to_lower c \<noteq> letter then 0
        else (case cs of
            [] \<Rightarrow> 0
          | d # ds \<Rightarrow> if d = CHR ''-'' then - int (parse_digits 0 ds)
              else if d = CHR ''+'' then int (parse_digits 0 ds)
              else int (parse_digits 0 cs)))"

text \<open>\<open>m * 10 ^ k\<close>, exact or with a sticky last bit below the 55 leading ones, so that rounding it
  to binary64 or binary32 rounds the decimal number once.\<close>

definition scaled_decimal :: "bool \<Rightarrow> int \<Rightarrow> int \<Rightarrow> fp" where
  "scaled_decimal neg m k =
     (if k \<ge> 0 then Finite neg (m * 10 ^ nat k) 0
      else case sticky_quotient 55 m (10 ^ nat (- k)) of (q, e) \<Rightarrow> Finite neg q e)"

text \<open>The number a text starts with, if it starts with one.\<close>

definition scan_float :: "string \<Rightarrow> fp option" where
  "scan_float s = (case parse_sign s of (neg, body) \<Rightarrow>
     if starts_with ''inf'' body then Some (Infinite neg)
     else if starts_with ''nan'' body then Some NaN
     else if starts_with ''0x'' body \<and> fst (snd (snd (scan_number hex_value 16 False 0 0 False (drop 2 body)))) then
       (case scan_number hex_value 16 False 0 0 False (drop 2 body) of (m, places, _, rest) \<Rightarrow>
          Some (Finite neg m (scan_exponent (CHR ''p'') rest - 4 * places)))
     else (case scan_number dec_value 10 False 0 0 False body of (m, places, some, rest) \<Rightarrow>
        if \<not> some then None
        else Some (scaled_decimal neg m (scan_exponent (CHR ''e'') rest - places))))"

definition strtod :: "string \<Rightarrow> f64" where
  "strtod s = (case scan_float s of None \<Rightarrow> d_of_int 0 | Some v \<Rightarrow> of_fp64 v)"

text \<open>\<^verbatim>\<open>strtof\<close> with its end pointer, of which the sources use only whether it moved.\<close>

definition strtof :: "string \<Rightarrow> bool \<times> f32" where
  "strtof s = (case scan_float s of None \<Rightarrow> (False, f_of_int 0) | Some v \<Rightarrow> (True, of_fp32 v))"

definition atof :: "string \<Rightarrow> f64" where
  "atof s = strtod s"

text \<open>Reading back what was printed: a decimal integer is read as the nearest double.\<close>

lemma scan_digits:
  "list_all isdigit ds \<Longrightarrow> scan_number dec_value 10 point acc places some ds =
     (int (parse_digits (nat acc) ds), if point then places + int (length ds) else places, some \<or> ds \<noteq> [], [])"
  if "0 \<le> acc"
  using that
proof (induction ds arbitrary: acc places some)
  case (Cons c cs)
  then have "nat (acc * 10 + int (digit_value c)) = 10 * nat acc + digit_value c"
    by (simp add: nat_add_distrib nat_mult_distrib)
  with Cons show ?case
    by (simp add: dec_value_def algebra_simps)
qed simp

end
