(* ===== verification/WorldServer.thy ===== *)
theory WorldServer
  imports Simulation Snapshot DbClient TcpServer Udp Config CFloat Sodium "HOL-Library.Signed_Division"
begin

text \<open>
  \<^verbatim>\<open>server/worldserver/src/main.cpp\<close>: joining, administration, the console, the UDP stream and the
  fixed-step loop. The lambdas given to the database client are constructors of \<open>world_tag\<close> and
  \<open>world_run\<close> is their bodies. TCP sends go to \<open>world_outbox\<close> and datagrams handed to the socket
  to \<open>udpOut\<close>, in order; what the console prints is \<open>console\<close>. Clocks are arguments: \<open>steady\<close> counts
  nanoseconds of \<^verbatim>\<open>steady_clock\<close>, \<open>realNow\<close> and \<open>wallNow\<close> are what the simulation reads.
\<close>

section \<open>State\<close>

record Clocks =
  steady :: int
  realNow :: f64
  wallNow :: wall_clock

definition monotonicSeconds :: "Clocks \<Rightarrow> f64" where
  "monotonicSeconds tm = ddiv (d_of_int (steady tm)) (d_of_int 1000000000)"

definition nowMs :: "Clocks \<Rightarrow> u64" where
  "nowMs tm = word_of_int (steady tm div 1000000)"

record WorldPlayer =
  wp_playerId :: u64
  wp_accountId :: u64
  wp_username :: string
  wp_token :: string
  wp_connection :: ConnectionId
  wp_udpBound :: bool
  wp_udpAddress :: Address
  wp_outgoingSequence :: u32
  wp_lastUdpPacket :: int

record DelayedPacket =
  dp_dueAt :: f64
  dp_address :: Address
  dp_data :: bytes

record DelayedInput =
  di_dueAt :: f64
  di_playerId :: u64
  di_input :: CharacterInput

record WorldConfig =
  cfg_tcpPort :: u16
  cfg_udpPort :: u16
  cfg_dbHost :: string
  cfg_dbPort :: u16
  cfg_udpTimeoutSeconds :: u32

definition world_config :: "environment \<Rightarrow> WorldConfig" where
  "world_config env = \<lparr>cfg_tcpPort = envPort env ''WORLD_SERVER_PORT'' 7002,
     cfg_udpPort = envPort env ''WORLD_UDP_PORT'' 7003, cfg_dbHost = envString env ''DB_SERVER_HOST'' ''dbserver'',
     cfg_dbPort = envPort env ''DB_SERVER_PORT'' 7000,
     cfg_udpTimeoutSeconds = envUint env ''UDP_TIMEOUT_SECONDS'' 30\<rparr>"

definition config_timeSpeed :: "environment \<Rightarrow> f32" where
  "config_timeSpeed env =
     (let dayLength = envUint env ''DAY_LENGTH_SECONDS'' 0 in
      if dayLength > 0 then fdiv (f_of_int 86400) (f_of_int (uint dayLength))
      else case env ''TIME_SPEED'' of Some text \<Rightarrow> f_of_d (atof text) | None \<Rightarrow> f_of_int 1)"

text \<open>What the console prints: the fixed help text, the two status lines and the latency line with their
  arguments, or a line of text (without its newline).\<close>

datatype console_line =
    Prompt
  | Help
  | Status int int f32 nat u32 u32
  | Latency u32 u32
  | Text string

record 'r world_state =
  simulation :: Simulation
  simulatedLatencyMs :: u32
  delayedOutgoing :: "DelayedPacket list"
  delayedInputs :: "DelayedInput list"
  playersByConnection :: "(ConnectionId, WorldPlayer) std_map"
  connectionByPlayer :: "(u64, ConnectionId) std_map"
  nextPlayerId :: u64
  world_outbox :: "server_op list"
  udpOut :: "(Address \<times> bytes) list"
  console :: "console_line list"
  world_rng :: 'r

definition world_start :: "environment \<Rightarrow> Clocks \<Rightarrow> 'r \<Rightarrow> 'r world_state" where
  "world_start env tm r = \<lparr>simulation = sim_init (config_timeSpeed env) (realNow tm) (wallNow tm) new_simulation,
     simulatedLatencyMs = 0, delayedOutgoing = [], delayedInputs = [], playersByConnection = [],
     connectionByPlayer = [], nextPlayerId = 1, world_outbox = [], udpOut = [],
     console = [Text ''world server console -- 'help' for commands'', Prompt], world_rng = r\<rparr>"

section \<open>Helpers\<close>

fun difference_bits :: "byte \<Rightarrow> bytes \<Rightarrow> bytes \<Rightarrow> byte" where
  "difference_bits acc (x # xs) (y # ys) = difference_bits (acc OR (x XOR y)) xs ys"
| "difference_bits acc _ _ = acc"

definition constantTimeEquals :: "string \<Rightarrow> string \<Rightarrow> bool" where
  "constantTimeEquals a b \<longleftrightarrow>
     (if length a \<noteq> length b then False else difference_bits 0 (string_bytes a) (string_bytes b) = 0)"

text \<open>\<^verbatim>\<open>std::clamp\<close>: a NaN compares with nothing and passes.\<close>

definition f_clamp :: "f32 \<Rightarrow> f32 \<Rightarrow> f32 \<Rightarrow> f32" where
  "f_clamp v lo hi = (if flt v lo then lo else if flt hi v then hi else v)"

definition world_post :: "server_op \<Rightarrow> 'r world_state \<Rightarrow> 'r world_state" where
  "world_post op s = s\<lparr>world_outbox := world_outbox s @ [op]\<rparr>"

definition print :: "console_line list \<Rightarrow> 'r world_state \<Rightarrow> 'r world_state" where
  "print ls s = s\<lparr>console := console s @ ls\<rparr>"

definition quoted :: "string \<Rightarrow> string" where
  "quoted name = [CHR 0x27] @ c_str name @ [CHR 0x27]"

definition join_response :: "JoinResult \<Rightarrow> u64 \<Rightarrow> u16 \<Rightarrow> string \<Rightarrow> u32 \<Rightarrow> bytes" where
  "join_response result playerId udpPort username entityId = writes
     [writer_u8 (JoinResult_code result), writer_u64 playerId, writer_u16 udpPort, writer_string username,
      writer_u32 entityId] []"

definition sendJoinResponse :: "ConnectionId \<Rightarrow> JoinResult \<Rightarrow> u64 \<Rightarrow> u16 \<Rightarrow> string \<Rightarrow> u32 \<Rightarrow>
    'r world_state \<Rightarrow> 'r world_state" where
  "sendJoinResponse cid result playerId udpPort username entityId =
     world_post (Send cid (WorldMessage_code JoinResponse) (join_response result playerId udpPort username entityId))"

definition findPlayerByUdp :: "Address \<Rightarrow> 'r world_state \<Rightarrow> (ConnectionId \<times> WorldPlayer) option" where
  "findPlayerByUdp source s =
     find (\<lambda>(_, player). wp_udpBound player \<and> wp_udpAddress player = source) (playersByConnection s)"

definition world_removePlayer :: "ConnectionId \<Rightarrow> 'r world_state \<Rightarrow> 'r world_state" where
  "world_removePlayer cid s = (case map_find cid (playersByConnection s) of
      None \<Rightarrow> s
    | Some player \<Rightarrow> s\<lparr>simulation := removePlayer (wp_playerId player) (simulation s),
        connectionByPlayer := map_erase (wp_playerId player) (connectionByPlayer s),
        playersByConnection := map_erase cid (playersByConnection s)\<rparr>)"

section \<open>The database callbacks\<close>

datatype world_tag =
    JoinLookup ConnectionId string
  | LatencyLookup ConnectionId u32
  | TimeLookup ConnectionId WorldMessage TimeCommand f32
  | SessionDeleted
  | ConsoleCreate string u8
  | ConsoleDelete string
  | ConsoleLevel string u8

definition on_join_lookup :: "libm \<Rightarrow> WorldConfig \<Rightarrow> Clocks \<Rightarrow> ConnectionId \<Rightarrow> string \<Rightarrow> bool \<Rightarrow> SessionLookup \<Rightarrow>
    'r world_state \<Rightarrow> 'r world_state \<times> (db_call \<times> world_tag) list" where
  "on_join_lookup lm cfg tm cid token ok session s =
     (if \<not> ok then (sendJoinResponse cid JoinServerError 0 0 [] 0 s, [])
      else if \<not> session_found session then (sendJoinResponse cid InvalidSession 0 0 [] 0 s, [])
      else
        (let playerId = nextPlayerId s;
             player = \<lparr>wp_playerId = playerId, wp_accountId = session_accountId session,
               wp_username = session_username session, wp_token = token, wp_connection = cid, wp_udpBound = False,
               wp_udpAddress = \<lparr>addr_ip = 0, addr_port = 0\<rparr>, wp_outgoingSequence = 0,
               wp_lastUdpPacket = steady tm\<rparr>;
             s1 = s\<lparr>nextPlayerId := playerId + 1, connectionByPlayer := map_assign playerId cid (connectionByPlayer s),
               playersByConnection := map_emplace cid player (playersByConnection s)\<rparr>
         in case addPlayer lm playerId (simulation s1) of (entityId, sim) \<Rightarrow>
           (sendJoinResponse cid JoinSuccess playerId (cfg_udpPort cfg) (session_username session) entityId
              (s1\<lparr>simulation := sim\<rparr>), [(DeleteSession token, SessionDeleted)])))"

definition reply_latency :: "ConnectionId \<Rightarrow> u8 \<Rightarrow> 'r world_state \<Rightarrow> 'r world_state" where
  "reply_latency cid result s = world_post (Send cid (WorldMessage_code AdminSetLatencyResponse)
     (writes [writer_u8 result, writer_u32 (simulatedLatencyMs s)] [])) s"

definition on_latency_lookup :: "ConnectionId \<Rightarrow> u32 \<Rightarrow> bool \<Rightarrow> SessionLookup \<Rightarrow> 'r world_state \<Rightarrow> 'r world_state" where
  "on_latency_lookup cid milliseconds ok session s =
     (if \<not> ok \<or> \<not> session_found session then reply_latency cid 1 s
      else if session_permissionLevel session < PermissionLevel_code GameMaster then reply_latency cid 2 s
      else reply_latency cid 0 (s\<lparr>simulatedLatencyMs := min milliseconds 2000\<rparr>))"

definition time_response_type :: "WorldMessage \<Rightarrow> WorldMessage" where
  "time_response_type command =
     (if command = AdminSetTimeRequest then AdminSetTimeResponse else AdminStatusResponse)"

definition reply_time :: "ConnectionId \<Rightarrow> WorldMessage \<Rightarrow> u8 \<Rightarrow> 'r world_state \<Rightarrow> 'r world_state" where
  "reply_time cid responseType result s = world_post (Send cid (WorldMessage_code responseType)
     (writes ([writer_u8 result, writer_f32 (mTimeOfDay (simulation s)), writer_f32 (mTimeSpeed (simulation s))] @
        (if responseType = AdminStatusResponse
         then [writer_u16 (word_of_nat (playerCount (simulation s))), writer_u32 (mTick (simulation s)),
           writer_u32 (simulatedLatencyMs s)] else [])) [])) s"

definition run_time_command :: "Clocks \<Rightarrow> TimeCommand \<Rightarrow> f32 \<Rightarrow> Simulation \<Rightarrow> Simulation" where
  "run_time_command tm timeCommand v sim =
     (if timeCommand = TimeReset then resetClock (realNow tm) (wallNow tm) sim
      else if timeCommand = TimeSpeed then setTimeSpeed (realNow tm) (f_clamp v (f_of_int 0) (f_of_int 20000)) sim
      else setTimeOfDay (realNow tm) v sim)"

definition on_time_lookup :: "Clocks \<Rightarrow> ConnectionId \<Rightarrow> WorldMessage \<Rightarrow> TimeCommand \<Rightarrow> f32 \<Rightarrow> bool \<Rightarrow> SessionLookup \<Rightarrow>
    'r world_state \<Rightarrow> 'r world_state" where
  "on_time_lookup tm cid command timeCommand v ok session s =
     (let reply = reply_time cid (time_response_type command) in
      if \<not> ok \<or> \<not> session_found session then reply 1 s
      else if session_permissionLevel session < PermissionLevel_code GameMaster then reply 2 s
      else reply 0 (if command = AdminSetTimeRequest
        then s\<lparr>simulation := run_time_command tm timeCommand v (simulation s)\<rparr> else s))"

text \<open>The console's callbacks only print.\<close>

definition on_console_create :: "string \<Rightarrow> u8 \<Rightarrow> bool \<Rightarrow> DbResult \<Rightarrow> 'r world_state \<Rightarrow> 'r world_state" where
  "on_console_create name level ok result = print
     [if \<not> ok \<or> result = DbError then Text ''  failed''
      else if result = DbConflict then Text (''  account '' @ quoted name @ '' already exists'')
      else Text (''  created account '' @ quoted name @ '' at level '' @ to_string (unat level)), Prompt]"

definition on_console_delete :: "string \<Rightarrow> bool \<Rightarrow> DbResult \<Rightarrow> 'r world_state \<Rightarrow> 'r world_state" where
  "on_console_delete name ok result = print
     [if \<not> ok then Text ''  failed''
      else if result = DbNotFound then Text ''  no such account''
      else Text (''  deleted account '' @ quoted name), Prompt]"

definition on_console_level :: "string \<Rightarrow> u8 \<Rightarrow> bool \<Rightarrow> DbResult \<Rightarrow> 'r world_state \<Rightarrow> 'r world_state" where
  "on_console_level name level ok result = print
     [if \<not> ok then Text ''  failed''
      else if result = DbNotFound then Text ''  no such account''
      else Text (''  '' @ quoted name @ '' is now level '' @ to_string (unat level)), Prompt]"

definition world_run :: "libm \<Rightarrow> WorldConfig \<Rightarrow> Clocks \<Rightarrow> (world_tag, 'r world_state) service" where
  "world_run lm cfg tm k reply s = (case k of
      JoinLookup cid token \<Rightarrow> (case reply of
          SessionReply ok session \<Rightarrow> on_join_lookup lm cfg tm cid token ok session s
        | _ \<Rightarrow> (s, []))
    | LatencyLookup cid milliseconds \<Rightarrow> (case reply of
          SessionReply ok session \<Rightarrow> (on_latency_lookup cid milliseconds ok session s, [])
        | _ \<Rightarrow> (s, []))
    | TimeLookup cid command timeCommand v \<Rightarrow> (case reply of
          SessionReply ok session \<Rightarrow> (on_time_lookup tm cid command timeCommand v ok session s, [])
        | _ \<Rightarrow> (s, []))
    | SessionDeleted \<Rightarrow> (s, [])
    | ConsoleCreate name level \<Rightarrow> (case reply of
          CreateReply ok result accountId \<Rightarrow> (on_console_create name level ok result s, [])
        | _ \<Rightarrow> (s, []))
    | ConsoleDelete name \<Rightarrow> (case reply of
          ResultReply ok result \<Rightarrow> (on_console_delete name ok result s, [])
        | _ \<Rightarrow> (s, []))
    | ConsoleLevel name level \<Rightarrow> (case reply of
          ResultReply ok result \<Rightarrow> (on_console_level name level ok result s, [])
        | _ \<Rightarrow> (s, [])))"

section \<open>TCP messages\<close>

definition read_join :: "(ByteReader, u32 \<times> string) state" where
  "read_join = do {
     version \<leftarrow> reader_u32;
     token \<leftarrow> reader_string;
     State_Monad.return (version, token)
   }"

definition on_join_request :: "ConnectionId \<Rightarrow> bytes \<Rightarrow> 'r world_state \<Rightarrow> 'r world_state \<times> (db_call \<times> world_tag) list" where
  "on_join_request cid data s = (case read_all read_join data of (good, version, token) \<Rightarrow>
     if \<not> good then (sendJoinResponse cid JoinServerError 0 0 [] 0 s, [])
     else if version \<noteq> kProtocolVersion then (sendJoinResponse cid JoinVersionMismatch 0 0 [] 0 s, [])
     else if map_count cid (playersByConnection s) then (s, [])
     else (s, [(LookupSession token, JoinLookup cid token)]))"

definition read_latency :: "(ByteReader, string \<times> u32) state" where
  "read_latency = do {
     token \<leftarrow> reader_string;
     milliseconds \<leftarrow> reader_u32;
     State_Monad.return (token, milliseconds)
   }"

definition on_latency_request :: "ConnectionId \<Rightarrow> bytes \<Rightarrow> 'r world_state \<Rightarrow> 'r world_state \<times> (db_call \<times> world_tag) list" where
  "on_latency_request cid data s = (case read_all read_latency data of (good, token, milliseconds) \<Rightarrow>
     if \<not> good then (reply_latency cid 1 s, [])
     else (s, [(LookupSession token, LatencyLookup cid milliseconds)]))"

definition read_time :: "WorldMessage \<Rightarrow> (ByteReader, string \<times> TimeCommand \<times> f32) state" where
  "read_time command = do {
     token \<leftarrow> reader_string;
     timeCommand \<leftarrow> (if command = AdminSetTimeRequest
        then do { c \<leftarrow> reader_u8; State_Monad.return (TimeCommand_of c) } else State_Monad.return TimeSet);
     v \<leftarrow> (if command = AdminSetTimeRequest then reader_f32 else State_Monad.return (f_of_int 0));
     State_Monad.return (token, timeCommand, v)
   }"

definition on_time_request :: "WorldMessage \<Rightarrow> ConnectionId \<Rightarrow> bytes \<Rightarrow> 'r world_state \<Rightarrow>
    'r world_state \<times> (db_call \<times> world_tag) list" where
  "on_time_request command cid data s = (case read_all (read_time command) data of (good, token, timeCommand, v) \<Rightarrow>
     if \<not> good then (reply_time cid (time_response_type command) 1 s, [])
     else (s, [(LookupSession token, TimeLookup cid command timeCommand v)]))"

definition on_logout_request :: "ConnectionId \<Rightarrow> 'r world_state \<Rightarrow> 'r world_state" where
  "on_logout_request cid s =
     world_removePlayer cid (world_post (Send cid (WorldMessage_code LogoutResponse) []) s)"

definition world_message :: "ConnectionId \<Rightarrow> u16 \<Rightarrow> bytes \<Rightarrow> 'r world_state \<Rightarrow>
    'r world_state \<times> (db_call \<times> world_tag) list" where
  "world_message cid ty data s =
     (let command = WorldMessage_of ty in
      if command = JoinRequest then on_join_request cid data s
      else if command = AdminSetLatencyRequest then on_latency_request cid data s
      else if command = AdminSetTimeRequest \<or> command = AdminStatusRequest then on_time_request command cid data s
      else if command = LogoutRequest then (on_logout_request cid s, [])
      else (s, []))"

section \<open>The console\<close>

text \<open>\<^verbatim>\<open>console.cpp\<close>: the reader thread appends lines, the world takes them one by one.\<close>

record ConsoleInput =
  mLines :: "string list"

definition console_append :: "string \<Rightarrow> ConsoleInput \<Rightarrow> ConsoleInput" where
  "console_append line c = c\<lparr>mLines := mLines c @ [line]\<rparr>"

definition console_next :: "ConsoleInput \<Rightarrow> string option \<times> ConsoleInput" where
  "console_next c = (case mLines c of [] \<Rightarrow> (None, c) | line # rest \<Rightarrow> (Some line, c\<lparr>mLines := rest\<rparr>))"

definition status_minutes :: "f32 \<Rightarrow> int" where
  "status_minutes timeOfDay =
     sint (f_to_i32 (fadd (fmul (fmul timeOfDay (f_of_int 24)) (f_of_int 60)) (f_ratio 5 10))) smod (24 * 60)"

definition printStatus :: "'r world_state \<Rightarrow> 'r world_state" where
  "printStatus s = (let minutes = status_minutes (mTimeOfDay (simulation s)) in
     print [Status (minutes sdiv 60) (minutes smod 60) (mTimeSpeed (simulation s)) (playerCount (simulation s))
       (mTick (simulation s)) (simulatedLatencyMs s)] s)"

definition expected_time :: console_line where
  "expected_time = Text ''  expected HH:MM in 24 hour form''"

definition console_set_time :: "Clocks \<Rightarrow> string \<Rightarrow> 'r world_state \<Rightarrow> 'r world_state" where
  "console_set_time tm text s =
     (if CHR '':'' \<notin> set text then print [expected_time] s
      else
        (let hours = sint (atoi (c_str (takeWhile (\<lambda>c. c \<noteq> CHR '':'') text)));
             mins = sint (atoi (c_str (drop 1 (dropWhile (\<lambda>c. c \<noteq> CHR '':'') text))))
         in if hours < 0 \<or> hours > 23 \<or> mins < 0 \<or> mins > 59 then print [expected_time] s
            else printStatus (s\<lparr>simulation := setTimeOfDay (realNow tm)
              (fdiv (f_of_int (hours * 60 + mins)) (fmul (f_of_int 24) (f_of_int 60))) (simulation s)\<rparr>)))"

definition console_latency :: "string list \<Rightarrow> 'r world_state \<Rightarrow> 'r world_state" where
  "console_latency ws s =
     (if length ws \<ge> 3 \<and> ws ! 1 = ''set'' then
        (let latency = min (atoi (c_str (ws ! 2))) 2000 in
         print [Latency latency (latency * 2)] (s\<lparr>simulatedLatencyMs := latency\<rparr>))
      else print [Text ''  usage: latency set <milliseconds>''] s)"

definition console_time :: "Clocks \<Rightarrow> string list \<Rightarrow> 'r world_state \<Rightarrow> 'r world_state" where
  "console_time tm ws s =
     (if length ws = 1 then printStatus s
      else if ws ! 1 = ''reset'' then
        printStatus (s\<lparr>simulation := resetClock (realNow tm) (wallNow tm) (simulation s)\<rparr>)
      else if ws ! 1 = ''set'' \<and> length ws \<ge> 3 then console_set_time tm (ws ! 2) s
      else if ws ! 1 = ''speed'' \<and> length ws \<ge> 3 then
        printStatus (s\<lparr>simulation := setTimeSpeed (realNow tm)
          (f_clamp (f_of_d (atof (c_str (ws ! 2)))) (f_of_int 0) (f_of_int 20000)) (simulation s)\<rparr>)
      else print [Text ''  usage: time | time set <HH:MM> | time speed <x> | time reset''] s)"

definition account_usage :: "console_line list" where
  "account_usage = [Text ''  usage: account create <name> <password> [level]'',
     Text ''         account delete <name>'', Text ''         account level <name> <0|1|2>'']"

text \<open>The account commands return whether they end without a prompt of their own.\<close>

definition console_account :: "'r sodium \<Rightarrow> string list \<Rightarrow> 'r world_state \<Rightarrow> 'r world_state \<times> (db_call \<times> world_tag) list" where
  "console_account lib ws s =
     (if length ws \<ge> 4 \<and> ws ! 1 = ''create'' then
        (let level = (if length ws \<ge> 5 then ucast (atoi (c_str (ws ! 4))) else 0) :: u8;
             refused = print [Text ''  password too short, or hashing failed'', Prompt]
         in if length (ws ! 3) < 6 then (refused s, [])
            else case pwhash_str lib (ws ! 3) (world_rng s) of
                (None, r) \<Rightarrow> (refused (s\<lparr>world_rng := r\<rparr>), [])
              | (Some hashed, r) \<Rightarrow> (s\<lparr>world_rng := r\<rparr>,
                  [(CreateAccountWithLevel (ws ! 2) (c_str hashed) level, ConsoleCreate (ws ! 2) level)]))
      else if length ws \<ge> 3 \<and> ws ! 1 = ''delete'' then (s, [(DeleteAccount (ws ! 2), ConsoleDelete (ws ! 2))])
      else if length ws \<ge> 4 \<and> ws ! 1 = ''level'' then
        (let level = ucast (atoi (c_str (ws ! 3))) :: u8 in
         if level > PermissionLevel_code Admin then (print [Text ''  level must be 0, 1 or 2'', Prompt] s, [])
         else (s, [(SetPermissionLevel (ws ! 2) level, ConsoleLevel (ws ! 2) level)]))
      else (print (account_usage @ [Prompt]) s, []))"

definition runConsoleCommand :: "'r sodium \<Rightarrow> Clocks \<Rightarrow> string \<Rightarrow> 'r world_state \<Rightarrow>
    'r world_state \<times> (db_call \<times> world_tag) list" where
  "runConsoleCommand lib tm line s = (case words line of
      [] \<Rightarrow> (print [Prompt] s, [])
    | command # rest \<Rightarrow>
        (let ws = command # rest in
         if command = ''help'' \<or> command = ''?'' then (print [Help, Prompt] s, [])
         else if command = ''status'' then (print [Prompt] (printStatus s), [])
         else if command = ''latency'' then (print [Prompt] (console_latency ws s), [])
         else if command = ''time'' then (print [Prompt] (console_time tm ws s), [])
         else if command = ''account'' then console_account lib ws s
         else (print [Text (''  unknown command '' @ quoted command @ '' -- try '' @ quoted ''help''), Prompt] s, [])))"

section \<open>Datagrams\<close>

definition read_hello :: "(ByteReader, u64 \<times> string) state" where
  "read_hello = do {
     playerId \<leftarrow> reader_u64;
     token \<leftarrow> reader_string;
     State_Monad.return (playerId, token)
   }"

definition read_input :: "(ByteReader, u64 \<times> CharacterInput \<times> u8) state" where
  "read_input = do {
     claimedId \<leftarrow> reader_u64;
     sequence \<leftarrow> reader_u32;
     moveForward \<leftarrow> reader_f32;
     moveRight \<leftarrow> reader_f32;
     yaw \<leftarrow> reader_f32;
     buttons \<leftarrow> reader_u8;
     State_Monad.return (claimedId, no_input\<lparr>in_sequence := sequence, in_moveForward := moveForward,
       in_moveRight := moveRight, in_yaw := yaw\<rparr>, buttons)
   }"

definition on_client_hello :: "Clocks \<Rightarrow> Address \<Rightarrow> bytes \<Rightarrow> 'r world_state \<Rightarrow> 'r world_state" where
  "on_client_hello tm source body s = (case read_all read_hello body of (good, playerId, token) \<Rightarrow>
     if \<not> good then s
     else case map_find playerId (connectionByPlayer s) of
        None \<Rightarrow> s
      | Some connection \<Rightarrow> (case map_find connection (playersByConnection s) of
          None \<Rightarrow> s
        | Some player \<Rightarrow>
            if \<not> constantTimeEquals (wp_token player) token then s
            else s\<lparr>playersByConnection := map_modify connection (\<lambda>p. p\<lparr>wp_udpBound := True,
              wp_udpAddress := source, wp_lastUdpPacket := steady tm\<rparr>) (playersByConnection s)\<rparr>))"

definition sanitise_input :: "u8 \<Rightarrow> CharacterInput \<Rightarrow> CharacterInput" where
  "sanitise_input buttons input = input\<lparr>
     in_moveForward := f_clamp (in_moveForward input) (f_of_int (- 1)) (f_of_int 1),
     in_moveRight := f_clamp (in_moveRight input) (f_of_int (- 1)) (f_of_int 1),
     in_jump := (buttons AND kInputJump \<noteq> 0), in_sprint := (buttons AND kInputSprint \<noteq> 0)\<rparr>"

definition latency_due :: "Clocks \<Rightarrow> u32 \<Rightarrow> f64" where
  "latency_due tm latency = dadd (monotonicSeconds tm) (ddiv (d_of_int (uint latency)) (d_of_int 1000))"

definition accept_input :: "Clocks \<Rightarrow> u64 \<Rightarrow> CharacterInput \<Rightarrow> 'r world_state \<Rightarrow> 'r world_state" where
  "accept_input tm playerId input s =
     (if simulatedLatencyMs s > 0
      then s\<lparr>delayedInputs := delayedInputs s @ [\<lparr>di_dueAt = latency_due tm (simulatedLatencyMs s),
        di_playerId = playerId, di_input = input\<rparr>]\<rparr>
      else s\<lparr>simulation := setInput playerId input (simulation s)\<rparr>)"

definition on_client_datagram :: "Clocks \<Rightarrow> Address \<Rightarrow> WorldMessage \<Rightarrow> bytes \<Rightarrow> 'r world_state \<Rightarrow> 'r world_state" where
  "on_client_datagram tm source ty body s = (case findPlayerByUdp source s of
      None \<Rightarrow> s
    | Some (connection, player) \<Rightarrow>
        (let s1 = s\<lparr>playersByConnection :=
               map_modify connection (\<lambda>p. p\<lparr>wp_lastUdpPacket := steady tm\<rparr>) (playersByConnection s)\<rparr>
         in if ty \<noteq> ClientInput then s1
            else case read_all read_input body of (good, claimedId, input, buttons) \<Rightarrow>
              if \<not> good \<or> claimedId \<noteq> wp_playerId player then s1
              else accept_input tm (wp_playerId player) (sanitise_input buttons input) s1))"

definition on_datagram :: "Clocks \<Rightarrow> bytes \<times> Address \<Rightarrow> 'r world_state \<Rightarrow> 'r world_state" where
  "on_datagram tm d s = (case d of (data, source) \<Rightarrow>
     case readUdpHeader data (length data) \<lparr>hdr_type = 0, hdr_sequence = 0\<rparr> 0 of (ok, header, bodyOffset) \<Rightarrow>
       if \<not> ok then s
       else if WorldMessage_of (hdr_type header) = ClientHello
       then on_client_hello tm source (drop bodyOffset data) s
       else on_client_datagram tm source (WorldMessage_of (hdr_type header)) (drop bodyOffset data) s)"

text \<open>The drain loop; each datagram is handled at its own time.\<close>

fun on_datagrams :: "(nat \<Rightarrow> Clocks) \<Rightarrow> nat \<Rightarrow> (bytes \<times> Address) list \<Rightarrow> 'r world_state \<Rightarrow> 'r world_state" where
  "on_datagrams clock i [] s = s"
| "on_datagrams clock i (d # ds) s = on_datagrams clock (Suc i) ds (on_datagram (clock i) d s)"

section \<open>Ticks\<close>

definition tickSeconds :: f64 where
  "tickSeconds = ddiv (d_of_int 1) (d_of_int kServerTickHz)"

definition snapshot_packet :: "bytes \<Rightarrow> WorldPlayer \<Rightarrow> bytes" where
  "snapshot_packet body player =
     writeUdpHeader [] (WorldMessage_code SnapshotMessage) (wp_outgoingSequence player) @ body"

definition bound_players :: "'r world_state \<Rightarrow> WorldPlayer list" where
  "bound_players s = filter wp_udpBound (map snd (playersByConnection s))"

text \<open>One tick: the step, the snapshot, and a packet to every player that has bound an address.\<close>

definition world_tick :: "libm \<Rightarrow> Clocks \<Rightarrow> 'r world_state \<Rightarrow> 'r world_state" where
  "world_tick lm tm s =
     (let sim = sim_step lm (f_of_d tickSeconds) (realNow tm) (simulation s);
          snapshot = (buildSnapshot lm sim \<lparr>snap_tick = 0, snap_serverTimeMs = 0, snap_timeOfDay = 0,
            snap_entities = []\<rparr>)\<lparr>snap_serverTimeMs := nowMs tm\<rparr>;
          body = encodeSnapshot snapshot [];
          packets = map (\<lambda>player. (wp_udpAddress player, snapshot_packet body player)) (bound_players s);
          s1 = s\<lparr>simulation := sim, playersByConnection := map_each (\<lambda>player.
            if wp_udpBound player then player\<lparr>wp_outgoingSequence := wp_outgoingSequence player + 1\<rparr> else player)
            (playersByConnection s)\<rparr>
      in if simulatedLatencyMs s > 0
         then s1\<lparr>delayedOutgoing := delayedOutgoing s1 @ map (\<lambda>(address, data).
           \<lparr>dp_dueAt = latency_due tm (simulatedLatencyMs s), dp_address = address, dp_data = data\<rparr>) packets\<rparr>
         else s1\<lparr>udpOut := udpOut s1 @ packets\<rparr>)"

text \<open>The accumulator after real time has passed, capped.\<close>

definition accumulate :: "int \<Rightarrow> int \<Rightarrow> f64 \<Rightarrow> f64" where
  "accumulate previous now accumulator =
     (let a = dadd accumulator (ddiv (d_of_int (now - previous)) (d_of_int 1000000000)) in
      if dlt (d_ratio 25 100) a then d_ratio 25 100 else a)"

text \<open>The catch-up loop, with fuel; \<open>None\<close> would mean that the fuel ran out.\<close>

fun world_ticks :: "nat \<Rightarrow> libm \<Rightarrow> (nat \<Rightarrow> Clocks) \<Rightarrow> f64 \<Rightarrow> 'r world_state \<Rightarrow> (f64 \<times> 'r world_state) option" where
  "world_ticks 0 lm clock accumulator s = (if dle tickSeconds accumulator then None else Some (accumulator, s))"
| "world_ticks (Suc fuel) lm clock accumulator s =
     (if dle tickSeconds accumulator
      then world_ticks fuel lm (\<lambda>i. clock (Suc i)) (dsub accumulator tickSeconds) (world_tick lm (clock 0) s)
      else Some (accumulator, s))"

definition kTickFuel :: nat where
  "kTickFuel = 15"

section \<open>The simulated link\<close>

fun release_inputs :: "f64 \<Rightarrow> DelayedInput list \<Rightarrow> Simulation \<Rightarrow> DelayedInput list \<times> Simulation" where
  "release_inputs now [] sim = ([], sim)"
| "release_inputs now (d # ds) sim =
     (if dle (di_dueAt d) now then release_inputs now ds (setInput (di_playerId d) (di_input d) sim)
      else (d # ds, sim))"

fun release_packets :: "f64 \<Rightarrow> DelayedPacket list \<Rightarrow> (Address \<times> bytes) list \<Rightarrow>
    DelayedPacket list \<times> (Address \<times> bytes) list" where
  "release_packets now [] out = ([], out)"
| "release_packets now (d # ds) out =
     (if dle (dp_dueAt d) now then release_packets now ds (out @ [(dp_address d, dp_data d)])
      else (d # ds, out))"

definition release_delayed :: "Clocks \<Rightarrow> 'r world_state \<Rightarrow> 'r world_state" where
  "release_delayed tm s =
     (case release_inputs (monotonicSeconds tm) (delayedInputs s) (simulation s) of (inputs, sim) \<Rightarrow>
      case release_packets (monotonicSeconds tm) (delayedOutgoing s) (udpOut s) of (packets, out) \<Rightarrow>
        s\<lparr>delayedInputs := inputs, simulation := sim, delayedOutgoing := packets, udpOut := out\<rparr>)"

section \<open>Silent players\<close>

definition timed_out :: "WorldConfig \<Rightarrow> Clocks \<Rightarrow> 'r world_state \<Rightarrow> ConnectionId list" where
  "timed_out cfg tm s =
     (let deadline = steady tm - uint (cfg_udpTimeoutSeconds cfg) * 1000000000 in
      map fst (filter (\<lambda>(_, player). wp_udpBound player \<and> wp_lastUdpPacket player < deadline)
        (playersByConnection s)))"

definition drop_silent :: "WorldConfig \<Rightarrow> Clocks \<Rightarrow> 'r world_state \<Rightarrow> 'r world_state" where
  "drop_silent cfg tm s =
     fold (\<lambda>cid s. world_post (CloseConnection cid) (world_removePlayer cid s)) (timed_out cfg tm s) s"

section \<open>The process\<close>

text \<open>A callback of this service makes at most one further call, whose callback makes none.\<close>

definition kWorldDepth :: nat where
  "kWorldDepth = 2"

definition world_onMessage :: "libm \<Rightarrow> WorldConfig \<Rightarrow> Clocks \<Rightarrow> ConnectionId \<Rightarrow> u16 \<Rightarrow> bytes \<Rightarrow>
    world_tag DbClient \<times> 'r world_state \<Rightarrow> (world_tag DbClient \<times> 'r world_state) \<times> server_op list" where
  "world_onMessage lm cfg tm cid ty data st = (case st of (db, s) \<Rightarrow>
     case world_message cid ty data (s\<lparr>world_outbox := []\<rparr>) of (s1, calls) \<Rightarrow>
       case db_perform kWorldDepth (world_run lm cfg tm) calls (db, s1) of (db', s2) \<Rightarrow>
         ((db', s2\<lparr>world_outbox := []\<rparr>), world_outbox s2))"

definition world_callbacks :: "libm \<Rightarrow> WorldConfig \<Rightarrow> Clocks \<Rightarrow> (world_tag DbClient \<times> 'r world_state) Callbacks" where
  "world_callbacks lm cfg tm = \<lparr>onConnect = None, onMessage = Some (world_onMessage lm cfg tm),
     onDisconnect = Some (\<lambda>cid (db, s). ((db, world_removePlayer cid s), []))\<rparr>"

record 'r world_process =
  proc_server :: TcpServer
  proc_db :: "world_tag DbClient"
  proc_state :: "'r world_state"
  proc_console :: ConsoleInput
  proc_udp :: UdpSocket
  proc_previous :: int
  proc_accumulator :: f64

text \<open>What a turn learns from outside: the kernel's answers, for each attempt to reach the database server
  whether the process still runs and what the attempt gave, and the clock at each place that reads it.\<close>

record turn_input =
  turn_ready :: readiness
  turn_reconnect :: "nat \<Rightarrow> bool \<times> TcpSocket option"
  turn_poll :: Clocks
  turn_db :: Clocks
  turn_console :: "nat \<Rightarrow> Clocks"
  turn_udp :: "nat \<Rightarrow> Clocks"
  turn_now :: int
  turn_ticks :: "nat \<Rightarrow> Clocks"
  turn_release :: Clocks
  turn_deadline :: Clocks

definition world_command :: "'r sodium \<Rightarrow> libm \<Rightarrow> WorldConfig \<Rightarrow> Clocks \<Rightarrow> string \<Rightarrow>
    world_tag DbClient \<times> 'r world_state \<Rightarrow> world_tag DbClient \<times> 'r world_state" where
  "world_command lib lm cfg tm line st = (case st of (db, s) \<Rightarrow>
     case runConsoleCommand lib tm line s of (s1, calls) \<Rightarrow>
       db_perform kWorldDepth (world_run lm cfg tm) calls (db, s1))"

fun run_console :: "'r sodium \<Rightarrow> libm \<Rightarrow> WorldConfig \<Rightarrow> (nat \<Rightarrow> Clocks) \<Rightarrow> nat \<Rightarrow> string list \<Rightarrow>
    world_tag DbClient \<times> 'r world_state \<Rightarrow> world_tag DbClient \<times> 'r world_state" where
  "run_console lib lm cfg clock i [] st = st"
| "run_console lib lm cfg clock i (line # ls) st =
     run_console lib lm cfg clock (Suc i) ls (world_command lib lm cfg (clock i) line st)"

text \<open>\<open>None\<close> is a turn that does not end: stuck in the reconnect loop, or out of ticks.\<close>

definition world_turn :: "'r sodium \<Rightarrow> libm \<Rightarrow> WorldConfig \<Rightarrow> turn_input \<Rightarrow> 'r world_process \<Rightarrow> 'r world_process option" where
  "world_turn lib lm cfg t p =
     (case poll (world_callbacks lm cfg (turn_poll t)) (turn_ready t) (proc_server p, proc_db p, proc_state p) of
        (server, db, s) \<Rightarrow>
      case db_poll kWorldDepth (world_run lm cfg (turn_db t)) (db, s\<lparr>world_outbox := []\<rparr>) of (up, db1, s1) \<Rightarrow>
      case (if up then Some db1 else db_reconnect (turn_reconnect t) 0 db1) of None \<Rightarrow> None | Some db2 \<Rightarrow>
      case run_console lib lm cfg (turn_console t) 0 (mLines (proc_console p)) (db2, s1) of (db3, s2) \<Rightarrow>
      case udp_drain 2048 (proc_udp p) of (datagrams, udp) \<Rightarrow>
      let s3 = on_datagrams (turn_udp t) 0 datagrams s2;
          accumulator = accumulate (proc_previous p) (turn_now t) (proc_accumulator p)
      in case world_ticks kTickFuel lm (turn_ticks t) accumulator s3 of
           None \<Rightarrow> None
         | Some (accumulator', s4) \<Rightarrow>
             let s5 = drop_silent cfg (turn_deadline t) (release_delayed (turn_release t) s4) in
             Some \<lparr>proc_server = server_steps (world_outbox s5) server, proc_db = db3,
               proc_state = s5\<lparr>world_outbox := [], udpOut := []\<rparr>, proc_console = \<lparr>mLines = []\<rparr>,
               proc_udp = fold (\<lambda>(to, data) u. snd (sendTo data to u)) (udpOut s5) udp,
               proc_previous = turn_now t, proc_accumulator = accumulator'\<rparr>)"

fun world_rank :: "world_tag \<Rightarrow> nat" where
  "world_rank (JoinLookup _ _) = 1"
| "world_rank _ = 0"

lemma world_run_rank:
  assumes "world_run lm cfg tm k reply s = (s', calls)" and "(call, k') \<in> set calls"
  shows "world_rank k' < world_rank k"
  using assms
  by (cases k; cases reply) (auto simp: world_run_def on_join_lookup_def Let_def split: if_splits prod.splits)

interpretation world_service: ranked_service "world_run lm cfg tm" world_rank for lm cfg tm
  by unfold_locales (rule world_run_rank)

end
