(* ===== verification/WorldLoop.thy ===== *)
theory WorldLoop
  imports WorldServer IeeeOrder
begin

text \<open>
  The catch-up loop of the world server ends: however long the process was stalled, the capped
  accumulator allows at most fifteen ticks, so \<open>kTickFuel\<close> is never used up and a turn of the main
  loop always produces its next state.
\<close>

section \<open>The bound\<close>

text \<open>The largest accumulator after \<open>k\<close> ticks.\<close>

fun tick_bound :: "nat \<Rightarrow> f64" where
  "tick_bound 0 = d_ratio 25 100"
| "tick_bound (Suc k) = dsub (tick_bound k) tickSeconds"

definition tick_bounds :: "int list" where
  "tick_bounds = [4598175219545276416, 4597574739594960350, 4596974259644644284, 4596373779694328218,
     4595773299744012152, 4595172819793696086, 4594572339843380020, 4593971859893063954, 4593071139967589856,
     4591870180066957724, 4590669220166325592, 4589468260265693460, 4587366580439587232, 4584964660638322968,
     4580461061010952479, 4362862139015168000]"

lemma tickSeconds_bits: "tickSeconds = word_of_int 4580461061010952465"
  by code_simp

lemma tick_bound_start: "tick_bound 0 = word_of_int (tick_bounds ! 0)"
  by code_simp

lemma tick_bound_steps:
  "list_all (\<lambda>k. dsub (word_of_int (tick_bounds ! k)) tickSeconds = word_of_int (tick_bounds ! Suc k)) [0..<15]"
  by code_simp


lemma tick_bound_bits: "k \<le> 15 \<Longrightarrow> tick_bound k = word_of_int (tick_bounds ! k)"
proof (induction k)
  case 0
  show ?case by (rule tick_bound_start)
next
  case (Suc k)
  then show ?case using tick_bound_steps by (simp add: list_all_iff)
qed

lemma tick_bounds_range: "list_all (\<lambda>n. 0 \<le> n \<and> n < 0x7FF0000000000000) tick_bounds"
  by (simp add: tick_bounds_def)

lemma tick_bound_uint: "k \<le> 15 \<Longrightarrow> uint (tick_bound k) = tick_bounds ! k \<and> dpattern (tick_bound k)"
proof -
  assume k: "k \<le> 15"
  moreover have "length tick_bounds = 16" by (simp add: tick_bounds_def)
  ultimately have "tick_bounds ! k \<in> set tick_bounds" by simp
  then have "0 \<le> tick_bounds ! k" "tick_bounds ! k < 0x7FF0000000000000"
    using tick_bounds_range by (simp_all add: list_all_iff)
  then show ?thesis
    unfolding tick_bound_bits [OF k] by (simp add: dpattern_def pattern_def binary64_bits uint_word_of_int mod_pos_pos_trivial)
qed

lemma tickSeconds_pattern: "dpattern tickSeconds" "0 < uint tickSeconds"
  unfolding tickSeconds_bits by (simp_all add: dpattern_def pattern_def binary64_bits)

lemma tick_bound_above: "k < 15 \<Longrightarrow> uint tickSeconds \<le> uint (tick_bound k)"
proof -
  assume k: "k < 15"
  have "list_all (\<lambda>k. uint tickSeconds \<le> tick_bounds ! k) [0..<15]"
    unfolding tickSeconds_bits by (simp add: tick_bounds_def upt_rec)
  with k show ?thesis by (simp add: list_all_iff tick_bound_uint)
qed

lemma tick_bound_last: "uint (tick_bound 15) < uint tickSeconds"
  using tick_bound_uint [of 15] unfolding tickSeconds_bits by (simp add: tick_bounds_def)

text \<open>After \<open>k\<close> ticks: below the bound, or below one tick.\<close>

definition in_bound :: "nat \<Rightarrow> f64 \<Rightarrow> bool" where
  "in_bound k a \<longleftrightarrow> dpattern a \<and> uint a \<le> uint (tick_bound k) \<or> \<not> dle tickSeconds a"

lemma in_bound_step:
  assumes "in_bound k a" and "dle tickSeconds a" and "k < 15"
  shows "in_bound (Suc k) (dsub a tickSeconds)"
proof -
  have a: "dpattern a" "uint a \<le> uint (tick_bound k)" using assms by (auto simp: in_bound_def)
  then have "uint tickSeconds \<le> uint a" using assms(2) dle_patterns tickSeconds_pattern by blast
  then have "uint (dsub a tickSeconds) \<le> uint (tick_bound (Suc k))"
    using dsub_mono [of a "tick_bound k" tickSeconds] a tick_bound_uint [of k] assms(3) tickSeconds_pattern by simp
  moreover have "dpattern (tick_bound (Suc k))" using tick_bound_uint [of "Suc k"] assms(3) by simp
  ultimately show ?thesis using dpattern_below by (auto simp: in_bound_def)
qed

lemma in_bound_last: "in_bound 15 a \<Longrightarrow> \<not> dle tickSeconds a"
  using dle_patterns [OF tickSeconds_pattern(1), of a] tick_bound_last by (auto simp: in_bound_def)

lemma in_bound_cap: "in_bound 0 (if dlt (d_ratio 25 100) a then d_ratio 25 100 else a)"
proof (cases "dlt (d_ratio 25 100) a")
  case True
  then show ?thesis using tick_bound_uint [of 0] by (simp add: in_bound_def)
next
  case False
  then show ?thesis
    using dle_between [of tickSeconds "tick_bound 0" a] tick_bound_uint [of 0] tickSeconds_pattern
    by (auto simp: in_bound_def)
qed

lemma in_bound_accumulate: "in_bound 0 (accumulate previous now accumulator)"
  unfolding accumulate_def Let_def by (rule in_bound_cap)

lemma mTick_tick: "mTick (simulation (world_tick lm tm s)) = mTick (simulation s) + 1"
  by (simp add: world_tick_def sim_step_def step_clock_def step_cube_def Let_def)

lemma world_ticks_finish:
  assumes "in_bound (15 - fuel) a" and "fuel \<le> 15"
  shows "\<exists>a' s' n. world_ticks fuel lm clock a s = Some (a', s') \<and> \<not> dle tickSeconds a' \<and> n \<le> fuel \<and>
    mTick (simulation s') = mTick (simulation s) + of_nat n"
  using assms
proof (induction fuel arbitrary: a s clock)
  case 0
  then show ?case using in_bound_last [of a] by simp
next
  case (Suc fuel)
  show ?case
  proof (cases "dle tickSeconds a")
    case False
    then show ?thesis by (intro exI [of _ a] exI [of _ s] exI [of _ 0]) simp
  next
    case True
    have "in_bound (15 - fuel) (dsub a tickSeconds)"
    proof -
      have "15 - fuel = Suc (15 - Suc fuel)" "15 - Suc fuel < 15" using Suc.prems(2) by simp_all
      then show ?thesis using in_bound_step [OF Suc.prems(1) True] by simp
    qed
    from Suc.IH [OF this, of "\<lambda>i. clock (Suc i)" "world_tick lm (clock 0) s"] Suc.prems(2)
    obtain a' s' n where r: "world_ticks fuel lm (\<lambda>i. clock (Suc i)) (dsub a tickSeconds) (world_tick lm (clock 0) s) = Some (a', s')"
      "\<not> dle tickSeconds a'" "n \<le> fuel" "mTick (simulation s') = mTick (simulation (world_tick lm (clock 0) s)) + of_nat n"
      by auto
    then show ?thesis
      using True by (intro exI [of _ a'] exI [of _ s'] exI [of _ "Suc n"]) (simp add: mTick_tick)
  qed
qed

lemma world_ticks_total:
  "\<exists>a' s' n. world_ticks kTickFuel lm clock (accumulate previous now accumulator) s = Some (a', s') \<and>
      \<not> dle tickSeconds a' \<and> n \<le> 15 \<and> mTick (simulation s') = mTick (simulation s) + of_nat n"
  using world_ticks_finish [of 15 "accumulate previous now accumulator" lm clock s] in_bound_accumulate
  by (simp add: kTickFuel_def)

text \<open>What the poll of the database connection reports in a turn.\<close>

definition turn_db_up :: "libm \<Rightarrow> WorldConfig \<Rightarrow> turn_input \<Rightarrow> 'r world_process \<Rightarrow> bool" where
  "turn_db_up lm cfg t p =
     (case poll (world_callbacks lm cfg (turn_poll t)) (turn_ready t) (proc_server p, proc_db p, proc_state p) of
        (server, db, s) \<Rightarrow> fst (db_poll kWorldDepth (world_run lm cfg (turn_db t)) (db, s\<lparr>world_outbox := []\<rparr>)))"

lemma world_turn_ends:
  "world_turn lib lm cfg t p \<noteq> None \<longleftrightarrow>
     turn_db_up lm cfg t p \<or> (\<exists>i. \<not> fst (turn_reconnect t i) \<or> snd (turn_reconnect t i) \<noteq> None)"
proof -
  obtain server db s where a: "poll (world_callbacks lm cfg (turn_poll t)) (turn_ready t)
      (proc_server p, proc_db p, proc_state p) = (server, db, s)" by (metis prod_cases3)
  obtain up db1 s1 where b: "db_poll kWorldDepth (world_run lm cfg (turn_db t)) (db, s\<lparr>world_outbox := []\<rparr>) = (up, db1, s1)"
    by (metis prod_cases3)
  define db2 where "db2 = (if up then Some db1 else db_reconnect (turn_reconnect t) 0 db1)"
  have "turn_db_up lm cfg t p = up"
    by (simp add: turn_db_up_def a b)
  then have links: "db2 \<noteq> None \<longleftrightarrow>
      turn_db_up lm cfg t p \<or> (\<exists>i. \<not> fst (turn_reconnect t i) \<or> snd (turn_reconnect t i) \<noteq> None)"
    using db_reconnect_iff [of "turn_reconnect t" 0 db1] by (simp add: db2_def)
  have "world_turn lib lm cfg t p \<noteq> None" if "db2 = Some db'" for db'
  proof -
    obtain db3 s2 where c: "run_console lib lm cfg (turn_console t) 0 (mLines (proc_console p)) (db', s1) = (db3, s2)"
      by fastforce
    obtain datagrams udp where d: "udp_drain 2048 (proc_udp p) = (datagrams, udp)" by fastforce
    obtain a' s4 where "world_ticks kTickFuel lm (turn_ticks t)
        (accumulate (proc_previous p) (turn_now t) (proc_accumulator p)) (on_datagrams (turn_udp t) 0 datagrams s2) = Some (a', s4)"
      using world_ticks_total by blast
    then show ?thesis
      unfolding world_turn_def by (simp add: a b c d that Let_def flip: db2_def)
  qed
  moreover have "world_turn lib lm cfg t p = None" if "db2 = None"
    unfolding world_turn_def using that by (simp add: a b flip: db2_def)
  ultimately show ?thesis using links by (cases db2) auto
qed

section \<open>Properties\<close>

text \<open>C10. The catch-up loop terminates. Whatever the accumulator and however much time has passed
  (a stalled process, a clock that jumped, even a NaN), the loop over \<open>accumulator >= tickSeconds\<close>
  runs at most fifteen ticks in binary64 arithmetic and leaves less than one tick in the
  accumulator. A turn of the main loop therefore fails to end in one case only: the poll of the
  database connection found it down, and before every attempt to reconnect the process was still
  meant to run, and every attempt failed. The reconnect loop has no bound of its own, and the world
  stands still in it.\<close>

theorem catch_up_terminates:
  "(\<exists>a' s' n. world_ticks kTickFuel lm clock (accumulate previous now accumulator) s = Some (a', s') \<and>
      \<not> dle tickSeconds a' \<and> n \<le> 15 \<and> mTick (simulation s') = mTick (simulation s) + of_nat n) \<and>
   (world_turn lib lm cfg t p = None \<longleftrightarrow>
      \<not> turn_db_up lm cfg t p \<and> (\<forall>i. turn_reconnect t i = (True, None)))"
  using world_ticks_total [of lm clock previous now accumulator s] world_turn_ends [of lib lm cfg t p]
  by (auto simp: prod_eq_iff)

end
