(* ===== verification/WorldSafety.thy ===== *)
theory WorldSafety
  imports WorldServer
begin

text \<open>
  Who the world server lets in, whom it streams to and who may change the world. The step relation
  \<open>world_reach\<close> lets messages, database replies, disconnects, console lines, datagrams, ticks,
  releases and timeouts come in any order; the invariant is proved by rule induction. Beside the server's state
  it keeps the replies that came and the hellos that were received, which the invariant refers to.
\<close>

section \<open>Token comparison\<close>

lemma difference_zero:
  "length xs = length ys \<Longrightarrow> difference_bits acc xs ys = 0 \<longleftrightarrow> acc = 0 \<and> xs = ys"
proof (induction acc xs ys rule: difference_bits.induct)
  case (1 acc x xs y ys)
  have "acc OR (x XOR y) = 0 \<longleftrightarrow> acc = 0 \<and> x = y"
    by (metis bit.xor_self or_eq_0_iff xor.right_neutral xor.assoc)
  with 1 show ?case by auto
qed auto

section \<open>Histories\<close>

record 'r world_history =
  wh_state :: "'r world_state"
  wh_messages :: "(ConnectionId \<times> u16 \<times> bytes) list"
  wh_waiting :: "(db_call \<times> world_tag) list"
  wh_calls :: "(db_call \<times> world_tag) list"
  wh_replied :: "(db_call \<times> world_tag \<times> db_reply) list"
  wh_hellos :: "(Address \<times> u64 \<times> string) list"

text \<open>A callback gets a reply of the kind its call produces.\<close>

definition world_reply_fits :: "world_tag \<Rightarrow> db_reply \<Rightarrow> bool" where
  "world_reply_fits k reply = (case k of
      JoinLookup _ _ \<Rightarrow> (case reply of SessionReply _ _ \<Rightarrow> True | _ \<Rightarrow> False)
    | LatencyLookup _ _ \<Rightarrow> (case reply of SessionReply _ _ \<Rightarrow> True | _ \<Rightarrow> False)
    | TimeLookup _ _ _ _ \<Rightarrow> (case reply of SessionReply _ _ \<Rightarrow> True | _ \<Rightarrow> False)
    | ConsoleCreate _ _ \<Rightarrow> (case reply of CreateReply _ _ _ \<Rightarrow> True | _ \<Rightarrow> False)
    | _ \<Rightarrow> (case reply of ResultReply _ _ \<Rightarrow> True | _ \<Rightarrow> False))"

definition after_calls :: "'r world_state \<times> (db_call \<times> world_tag) list \<Rightarrow> 'r world_history \<Rightarrow> 'r world_history" where
  "after_calls r h = h\<lparr>wh_state := fst r, wh_waiting := wh_waiting h @ snd r, wh_calls := wh_calls h @ snd r\<rparr>"

definition after_message :: "ConnectionId \<Rightarrow> u16 \<Rightarrow> bytes \<Rightarrow> 'r world_history \<Rightarrow> 'r world_history" where
  "after_message cid ty data h = after_calls (world_message cid ty data (wh_state h))
     (h\<lparr>wh_messages := wh_messages h @ [(cid, ty, data)]\<rparr>)"

definition after_reply :: "libm \<Rightarrow> WorldConfig \<Rightarrow> Clocks \<Rightarrow> db_call \<times> world_tag \<Rightarrow> db_reply \<Rightarrow> 'r world_history \<Rightarrow> 'r world_history" where
  "after_reply lm cfg tm call reply h = after_calls (world_run lm cfg tm (snd call) reply (wh_state h))
     (h\<lparr>wh_waiting := remove1 call (wh_waiting h), wh_replied := wh_replied h @ [(fst call, snd call, reply)]\<rparr>)"

text \<open>The hello a datagram carries, if it is one.\<close>

definition hello_of :: "bytes \<times> Address \<Rightarrow> (Address \<times> u64 \<times> string) option" where
  "hello_of d = (case d of (data, source) \<Rightarrow>
     case readUdpHeader data (length data) \<lparr>hdr_type = 0, hdr_sequence = 0\<rparr> 0 of (ok, header, bodyOffset) \<Rightarrow>
       if \<not> ok \<or> WorldMessage_of (hdr_type header) \<noteq> ClientHello then None
       else case read_all read_hello (drop bodyOffset data) of (good, playerId, token) \<Rightarrow>
         if good then Some (source, playerId, token) else None)"

definition after_datagram :: "Clocks \<Rightarrow> bytes \<times> Address \<Rightarrow> 'r world_history \<Rightarrow> 'r world_history" where
  "after_datagram tm d h = h\<lparr>wh_state := on_datagram tm d (wh_state h),
     wh_hellos := wh_hellos h @ (case hello_of d of None \<Rightarrow> [] | Some x \<Rightarrow> [x])\<rparr>"

definition on_state :: "('r world_state \<Rightarrow> 'r world_state) \<Rightarrow> 'r world_history \<Rightarrow> 'r world_history" where
  "on_state f h = h\<lparr>wh_state := f (wh_state h)\<rparr>"

definition history_start :: "environment \<Rightarrow> Clocks \<Rightarrow> 'r \<Rightarrow> 'r world_history" where
  "history_start env tm r = \<lparr>wh_state = world_start env tm r, wh_messages = [], wh_waiting = [], wh_calls = [], wh_replied = [],
     wh_hellos = []\<rparr>"

inductive world_reach :: "'r sodium \<Rightarrow> libm \<Rightarrow> WorldConfig \<Rightarrow> 'r world_history \<Rightarrow> bool" for lib lm cfg where
  start: "world_reach lib lm cfg (history_start env tm r)"
| message: "world_reach lib lm cfg h \<Longrightarrow>
    world_reach lib lm cfg (after_message cid ty data h)"
| reply: "world_reach lib lm cfg h \<Longrightarrow> call \<in> set (wh_waiting h) \<Longrightarrow> world_reply_fits (snd call) answer \<Longrightarrow>
    world_reach lib lm cfg (after_reply lm cfg tm call answer h)"
| disconnect: "world_reach lib lm cfg h \<Longrightarrow> world_reach lib lm cfg (on_state (world_removePlayer cid) h)"
| command: "world_reach lib lm cfg h \<Longrightarrow>
    world_reach lib lm cfg (after_calls (runConsoleCommand lib tm line (wh_state h)) h)"
| datagram: "world_reach lib lm cfg h \<Longrightarrow> world_reach lib lm cfg (after_datagram tm d h)"
| tick: "world_reach lib lm cfg h \<Longrightarrow> world_reach lib lm cfg (on_state (world_tick lm tm) h)"
| release: "world_reach lib lm cfg h \<Longrightarrow> world_reach lib lm cfg (on_state (release_delayed tm) h)"
| silent: "world_reach lib lm cfg h \<Longrightarrow> world_reach lib lm cfg (on_state (drop_silent cfg tm) h)"

section \<open>The invariant\<close>

text \<open>The tables agree: a player's connection and id point at each other, ids are below the next one,
  and every player has a body in the simulation.\<close>

definition world_tables_ok :: "'r world_state \<Rightarrow> bool" where
  "world_tables_ok s \<longleftrightarrow> map_ok (playersByConnection s) \<and> map_ok (connectionByPlayer s) \<and>
     (\<forall>cid p. map_find cid (playersByConnection s) = Some p \<longrightarrow>
        map_find (wp_playerId p) (connectionByPlayer s) = Some cid \<and>
        map_find (wp_playerId p) (mPlayers (simulation s)) \<noteq> None) \<and>
     (\<forall>k cid. map_find k (connectionByPlayer s) = Some cid \<longrightarrow> k < nextPlayerId s)"

type_synonym replies = "(db_call \<times> world_tag \<times> db_reply) list"
type_synonym hellos = "(Address \<times> u64 \<times> string) list"

text \<open>A session of this token was confirmed for this connection: the reply to the lookup of that very token, which asked for it.\<close>

definition confirmed_for :: "replies \<Rightarrow> ConnectionId \<Rightarrow> string \<Rightarrow> SessionLookup \<Rightarrow> bool" where
  "confirmed_for R cid token session \<longleftrightarrow>
     (LookupSession token, JoinLookup cid token, SessionReply True session) \<in> set R \<and> session_found session"

definition admitted :: "replies \<Rightarrow> ConnectionId \<Rightarrow> WorldPlayer \<Rightarrow> bool" where
  "admitted R cid p \<longleftrightarrow> (\<exists>session. confirmed_for R cid (wp_token p) session \<and>
     session_accountId session = wp_accountId p \<and> session_username session = wp_username p)"

definition players_admitted :: "replies \<Rightarrow> 'r world_state \<Rightarrow> bool" where
  "players_admitted R s \<longleftrightarrow> (\<forall>cid p. map_find cid (playersByConnection s) = Some p \<longrightarrow> admitted R cid p)"

text \<open>An address that presented the token of a session the database confirmed.\<close>

definition authentic :: "replies \<Rightarrow> hellos \<Rightarrow> Address \<Rightarrow> bool" where
  "authentic R H a \<longleftrightarrow> (\<exists>playerId token cid session. (a, playerId, token) \<in> set H \<and> confirmed_for R cid token session)"

definition streams_ok :: "replies \<Rightarrow> hellos \<Rightarrow> 'r world_state \<Rightarrow> bool" where
  "streams_ok R H s \<longleftrightarrow>
     (\<forall>cid p. map_find cid (playersByConnection s) = Some p \<longrightarrow> wp_udpBound p \<longrightarrow> authentic R H (wp_udpAddress p)) \<and>
     (\<forall>x \<in> set (udpOut s). authentic R H (fst x)) \<and> (\<forall>x \<in> set (delayedOutgoing s). authentic R H (dp_address x))"

text \<open>Within full stick, or NaN.\<close>

definition full_stick :: "f32 \<Rightarrow> bool" where
  "full_stick v \<longleftrightarrow> \<not> flt v (f_of_int (- 1)) \<and> \<not> flt (f_of_int 1) v"

definition sane_input :: "CharacterInput \<Rightarrow> bool" where
  "sane_input i \<longleftrightarrow> full_stick (in_moveForward i) \<and> full_stick (in_moveRight i)"

definition inputs_ok :: "'r world_state \<Rightarrow> bool" where
  "inputs_ok s \<longleftrightarrow> (\<forall>d \<in> set (delayedInputs s). sane_input (di_input d)) \<and>
     (\<forall>k p. map_find k (mPlayers (simulation s)) = Some p \<longrightarrow> sane_input (ply_input p))"

definition world_inv :: "'r world_history \<Rightarrow> bool" where
  "world_inv h \<longleftrightarrow> world_tables_ok (wh_state h) \<and> players_admitted (wh_replied h) (wh_state h) \<and>
     streams_ok (wh_replied h) (wh_hellos h) (wh_state h) \<and> inputs_ok (wh_state h) \<and>
     simulatedLatencyMs (wh_state h) \<le> 2000 \<and> unat (nextPlayerId (wh_state h)) \<le> Suc (length (wh_replied h))"

lemma world_invI:
  assumes "world_tables_ok (wh_state h)" and "players_admitted (wh_replied h) (wh_state h)"
    and "streams_ok (wh_replied h) (wh_hellos h) (wh_state h)" and "inputs_ok (wh_state h)"
    and "simulatedLatencyMs (wh_state h) \<le> 2000" and "unat (nextPlayerId (wh_state h)) \<le> Suc (length (wh_replied h))"
  shows "world_inv h"
  using assms by (simp add: world_inv_def)

text \<open>States that agree on what the invariant reads.\<close>

definition same_world :: "'r world_state \<Rightarrow> 'r world_state \<Rightarrow> bool" where
  "same_world s t \<longleftrightarrow> playersByConnection t = playersByConnection s \<and> connectionByPlayer t = connectionByPlayer s \<and>
     nextPlayerId t = nextPlayerId s \<and> mPlayers (simulation t) = mPlayers (simulation s) \<and>
     delayedInputs t = delayedInputs s \<and> delayedOutgoing t = delayedOutgoing s \<and> udpOut t = udpOut s"

lemma same_world_inv:
  assumes "same_world s t" and "world_tables_ok s" and "players_admitted R s" and "streams_ok R H s" and "inputs_ok s"
  shows "world_tables_ok t" and "players_admitted R t" and "streams_ok R H t" and "inputs_ok t"
  using assms by (simp_all add: same_world_def world_tables_ok_def players_admitted_def streams_ok_def inputs_ok_def)

lemma same_world_refl [simp]: "same_world s s"
  by (simp add: same_world_def)

lemma admitted_mono: "set R \<subseteq> set R' \<Longrightarrow> admitted R cid p \<Longrightarrow> admitted R' cid p"
  unfolding admitted_def confirmed_for_def by blast

lemma authentic_mono: "set R \<subseteq> set R' \<Longrightarrow> set H \<subseteq> set H' \<Longrightarrow> authentic R H a \<Longrightarrow> authentic R' H' a"
  unfolding authentic_def confirmed_for_def by blast

lemma players_admitted_mono: "set R \<subseteq> set R' \<Longrightarrow> players_admitted R s \<Longrightarrow> players_admitted R' s"
  unfolding players_admitted_def using admitted_mono by blast

lemma streams_ok_mono: "set R \<subseteq> set R' \<Longrightarrow> set H \<subseteq> set H' \<Longrightarrow> streams_ok R H s \<Longrightarrow> streams_ok R' H' s"
  unfolding streams_ok_def using authentic_mono by blast

lemma clock_same_players [simp]:
  "mPlayers (reanchor now sim) = mPlayers sim" "mPlayers (setTimeOfDay now t sim) = mPlayers sim"
  "mPlayers (setTimeSpeed now v sim) = mPlayers sim" "mPlayers (resetClock now wall sim) = mPlayers sim"
  "mPlayers (run_time_command tm c v sim) = mPlayers sim" "mPlayers (sim_init x now wall sim) = mPlayers sim"
  by (simp_all add: reanchor_def setTimeOfDay_def setTimeSpeed_def resetClock_def run_time_command_def sim_init_def)

lemmas posts = sendJoinResponse_def world_post_def reply_latency_def reply_time_def print_def


section \<open>Each event keeps it\<close>

lemma message_effect:
  "\<exists>t. same_world s t \<and> simulatedLatencyMs t = simulatedLatencyMs s \<and>
     (fst (world_message cid ty data s) = t \<or> fst (world_message cid ty data s) = world_removePlayer cid t)"
proof -
  have "same_world s (fst (on_join_request cid data s)) \<and> simulatedLatencyMs (fst (on_join_request cid data s)) = simulatedLatencyMs s"
    by (simp add: on_join_request_def posts same_world_def split: prod.splits)
  moreover have "same_world s (fst (on_latency_request cid data s)) \<and> simulatedLatencyMs (fst (on_latency_request cid data s)) = simulatedLatencyMs s"
    by (simp add: on_latency_request_def posts same_world_def split: prod.splits)
  moreover have "same_world s (fst (on_time_request c cid data s)) \<and> simulatedLatencyMs (fst (on_time_request c cid data s)) = simulatedLatencyMs s" for c
    by (simp add: on_time_request_def posts same_world_def split: prod.splits)
  moreover have "same_world s (world_post x s) \<and> simulatedLatencyMs (world_post x s) = simulatedLatencyMs s" for x
    by (simp add: world_post_def same_world_def)
  moreover have "fst (world_message cid ty data s) = world_removePlayer cid (world_post (Send cid (WorldMessage_code LogoutResponse) []) s)"
    if "WorldMessage_of ty = LogoutRequest"
    using that by (simp add: world_message_def on_logout_request_def)
  moreover have "same_world s (fst (world_message cid ty data s)) \<and> simulatedLatencyMs (fst (world_message cid ty data s)) = simulatedLatencyMs s"
    if "WorldMessage_of ty \<noteq> LogoutRequest"
    using that calculation by (simp add: world_message_def Let_def)
  ultimately show ?thesis by metis
qed

lemma remove_latency [simp]: "simulatedLatencyMs (world_removePlayer cid s) = simulatedLatencyMs s"
  "nextPlayerId (world_removePlayer cid s) = nextPlayerId s"
  by (simp_all add: world_removePlayer_def split: option.splits)

lemma remove_find:
  "map_find j (playersByConnection (world_removePlayer cid s)) = (if j = cid then None else map_find j (playersByConnection s))"
  by (simp add: world_removePlayer_def split: option.splits)

lemma remove_tables:
  assumes "world_tables_ok s"
  shows "world_tables_ok (world_removePlayer cid s)"
proof (cases "map_find cid (playersByConnection s)")
  case None
  then show ?thesis using assms by (simp add: world_removePlayer_def)
next
  case (Some player)
  have "wp_playerId p \<noteq> wp_playerId player" if "map_find j (playersByConnection s) = Some p" "j \<noteq> cid" for j p
    using assms Some that unfolding world_tables_ok_def by (metis option.inject)
  then show ?thesis
    using assms Some by (auto simp: world_removePlayer_def world_tables_ok_def removePlayer_def)
qed

lemma remove_admitted: "players_admitted R s \<Longrightarrow> players_admitted R (world_removePlayer cid s)"
  by (simp add: players_admitted_def remove_find)

lemma remove_streams: "streams_ok R H s \<Longrightarrow> streams_ok R H (world_removePlayer cid s)"
proof -
  have "udpOut (world_removePlayer cid s) = udpOut s" "delayedOutgoing (world_removePlayer cid s) = delayedOutgoing s"
    by (simp_all add: world_removePlayer_def split: option.splits)
  then show "streams_ok R H s \<Longrightarrow> ?thesis" by (simp add: streams_ok_def remove_find)
qed

lemma remove_inputs: "inputs_ok s \<Longrightarrow> inputs_ok (world_removePlayer cid s)"
  by (auto simp: inputs_ok_def world_removePlayer_def removePlayer_def split: option.splits if_splits)

lemmas remove_keeps = remove_tables remove_admitted remove_streams remove_inputs

lemma run_other_effect:
  assumes "\<And>cid token. k \<noteq> JoinLookup cid token"
  shows "same_world s (fst (world_run lm cfg tm k reply s)) \<and>
    (simulatedLatencyMs s \<le> 2000 \<longrightarrow> simulatedLatencyMs (fst (world_run lm cfg tm k reply s)) \<le> 2000)"
  using assms
  by (cases k; cases reply)
    (auto simp: world_run_def on_latency_lookup_def on_time_lookup_def on_console_create_def on_console_delete_def
      on_console_level_def posts same_world_def Let_def)

lemma command_effect:
  "same_world s (fst (runConsoleCommand lib tm line s)) \<and>
   (simulatedLatencyMs s \<le> 2000 \<longrightarrow> simulatedLatencyMs (fst (runConsoleCommand lib tm line s)) \<le> 2000)"
proof -
  have st: "same_world s t \<Longrightarrow> same_world s (print ls t)" "simulatedLatencyMs (print ls t) = simulatedLatencyMs t" for ls t
    by (simp_all add: print_def same_world_def)
  have ps: "same_world s t \<Longrightarrow> same_world s (printStatus t)" "simulatedLatencyMs (printStatus t) = simulatedLatencyMs t" for t
    by (simp_all add: printStatus_def Let_def st)
  have sim: "same_world s (s\<lparr>simulation := sim\<rparr>)" if "mPlayers sim = mPlayers (simulation s)" for sim
    using that by (simp add: same_world_def)
  have "same_world s (console_latency ws s) \<and> (simulatedLatencyMs s \<le> 2000 \<longrightarrow> simulatedLatencyMs (console_latency ws s) \<le> 2000)" for ws
    by (simp add: console_latency_def print_def same_world_def Let_def)
  moreover have "same_world s (console_time tm ws s) \<and> simulatedLatencyMs (console_time tm ws s) = simulatedLatencyMs s" for ws
    by (simp add: console_time_def console_set_time_def Let_def st ps sim)
  moreover have "same_world s (fst (console_account lib ws s)) \<and> simulatedLatencyMs (fst (console_account lib ws s)) = simulatedLatencyMs s" for ws
    by (simp add: console_account_def print_def same_world_def Let_def split: prod.splits option.splits)
  ultimately show ?thesis
    by (simp add: runConsoleCommand_def Let_def st ps split: list.splits)
qed

lemma setInput_sane:
  "sane_input i \<Longrightarrow> (\<forall>k p. map_find k (mPlayers sim) = Some p \<longrightarrow> sane_input (ply_input p)) \<Longrightarrow>
   map_find k (mPlayers (setInput j i sim)) = Some p \<Longrightarrow> sane_input (ply_input p)"
  by (auto simp: setInput_def split: option.splits if_splits)

lemma setInput_keys: "map_find k (mPlayers (setInput j i sim)) = None \<longleftrightarrow> map_find k (mPlayers sim) = None"
  by (simp add: setInput_def split: option.splits)

lemma f_clamp_full_stick: "full_stick (f_clamp v (f_of_int (- 1)) (f_of_int 1))"
proof -
  have "\<not> flt (f_of_int 1) (f_of_int (- 1))" "\<not> flt (f_of_int (- 1)) (f_of_int (- 1))" "\<not> flt (f_of_int 1) (f_of_int 1)"
    by code_simp+
  then show ?thesis by (simp add: full_stick_def f_clamp_def)
qed

lemma sanitise_sane: "sane_input (sanitise_input buttons i)"
  by (simp add: sane_input_def sanitise_input_def f_clamp_full_stick)

lemma no_input_sane: "sane_input no_input"
proof -
  have "full_stick 0" unfolding full_stick_def by code_simp
  then show ?thesis by (simp add: sane_input_def no_input_def)
qed


text \<open>A join that succeeds.\<close>

lemma addPlayer_find:
  "\<exists>np. ply_input np = no_input \<and> (\<forall>k. map_find k (mPlayers (snd (addPlayer lm pid sim))) =
     (if k = pid \<and> map_find pid (mPlayers sim) = None then Some np else map_find k (mPlayers sim)))"
  by (rule exI [of _ "\<lparr>ply_entityId = mNextPlayerEntityId sim, ply_character = spawn_character lm (length (mPlayers sim)),
    ply_input = no_input, ply_lastInputSequence = 0\<rparr>"]) (auto simp: addPlayer_def Let_def split: option.splits)

lemma join_success_state:
  assumes "session_found session" and "fst (on_join_lookup lm cfg tm cid token True session s) = t"
  obtains player where "wp_playerId player = nextPlayerId s" and "wp_token player = token"
    and "wp_accountId player = session_accountId session" and "wp_username player = session_username session"
    and "\<not> wp_udpBound player"
    and "playersByConnection t = map_emplace cid player (playersByConnection s)"
    and "connectionByPlayer t = map_assign (nextPlayerId s) cid (connectionByPlayer s)"
    and "nextPlayerId t = nextPlayerId s + 1"
    and "mPlayers (simulation t) = mPlayers (snd (addPlayer lm (nextPlayerId s) (simulation s)))"
    and "delayedInputs t = delayedInputs s" and "delayedOutgoing t = delayedOutgoing s" and "udpOut t = udpOut s"
    and "simulatedLatencyMs t = simulatedLatencyMs s"
  by (rule that [of "\<lparr>wp_playerId = nextPlayerId s, wp_accountId = session_accountId session,
      wp_username = session_username session, wp_token = token, wp_connection = cid, wp_udpBound = False,
      wp_udpAddress = \<lparr>addr_ip = 0, addr_port = 0\<rparr>, wp_outgoingSequence = 0, wp_lastUdpPacket = steady tm\<rparr>"])
    (use assms in \<open>auto simp: on_join_lookup_def Let_def posts split: prod.splits\<close>)

lemma join_failure_state:
  "\<not> ok \<or> \<not> session_found session \<Longrightarrow>
   same_world s (fst (on_join_lookup lm cfg tm cid token ok session s)) \<and>
   simulatedLatencyMs (fst (on_join_lookup lm cfg tm cid token ok session s)) = simulatedLatencyMs s"
  by (auto simp: on_join_lookup_def posts same_world_def)

lemma join_keeps:
  assumes "session_found session" and t: "fst (on_join_lookup lm cfg tm cid token True session s) = t"
    and R: "confirmed_for R cid token session"
    and wrap: "nextPlayerId s < nextPlayerId s + 1"
    and inv: "world_tables_ok s" "players_admitted R s" "streams_ok R H s" "inputs_ok s"
  shows "world_tables_ok t" and "players_admitted R t" and "streams_ok R H t" and "inputs_ok t"
proof -
  from join_success_state [OF assms(1) t] obtain player
    where p: "wp_playerId player = nextPlayerId s" "wp_token player = token"
      "wp_accountId player = session_accountId session" "wp_username player = session_username session" "\<not> wp_udpBound player"
    and f: "playersByConnection t = map_emplace cid player (playersByConnection s)"
      "connectionByPlayer t = map_assign (nextPlayerId s) cid (connectionByPlayer s)" "nextPlayerId t = nextPlayerId s + 1"
      "mPlayers (simulation t) = mPlayers (snd (addPlayer lm (nextPlayerId s) (simulation s)))"
      "delayedInputs t = delayedInputs s" "delayedOutgoing t = delayedOutgoing s" "udpOut t = udpOut s"
    by blast
  obtain np where np: "ply_input np = no_input" "\<And>k. map_find k (mPlayers (simulation t)) =
     (if k = nextPlayerId s \<and> map_find (nextPlayerId s) (mPlayers (simulation s)) = None then Some np
      else map_find k (mPlayers (simulation s)))"
    using addPlayer_find [of lm "nextPlayerId s" "simulation s"] f(4) by auto
  have fresh: "map_find j (playersByConnection s) = Some q \<Longrightarrow> wp_playerId q \<noteq> nextPlayerId s" for j q
    using inv(1) unfolding world_tables_ok_def by (metis less_irrefl)
  have players: "map_find j (playersByConnection t) = Some q \<longleftrightarrow>
      (if j = cid \<and> map_find cid (playersByConnection s) = None then q = player else map_find j (playersByConnection s) = Some q)" for j q
    unfolding f by auto
  show "world_tables_ok t"
  proof -
    have "map_ok (playersByConnection t)" "map_ok (connectionByPlayer t)"
      using inv(1) unfolding f world_tables_ok_def by simp_all
    moreover have "map_find (wp_playerId q) (connectionByPlayer t) = Some j \<and> map_find (wp_playerId q) (mPlayers (simulation t)) \<noteq> None"
      if "map_find j (playersByConnection t) = Some q" for j q
    proof (cases "j = cid \<and> map_find cid (playersByConnection s) = None")
      case True
      then show ?thesis using that players p(1) by (simp add: f(2) np(2))
    next
      case False
      then have q: "map_find j (playersByConnection s) = Some q" using that players by simp
      with inv(1) have "map_find (wp_playerId q) (connectionByPlayer s) = Some j" "map_find (wp_playerId q) (mPlayers (simulation s)) \<noteq> None"
        unfolding world_tables_ok_def by blast+
      then show ?thesis using fresh [OF q] by (simp add: f(2) np(2))
    qed
    moreover have "k < nextPlayerId t" if "map_find k (connectionByPlayer t) = Some c" for k c
      using that inv(1) wrap unfolding f world_tables_ok_def by (auto split: if_splits intro: less_trans)
    ultimately show ?thesis unfolding world_tables_ok_def by blast
  qed
  show "players_admitted R t"
    unfolding players_admitted_def
  proof (intro allI impI)
    fix j q assume "map_find j (playersByConnection t) = Some q"
    then have "q = player \<and> j = cid \<or> map_find j (playersByConnection s) = Some q"
      using players by (auto split: if_splits)
    then show "admitted R j q"
      using inv(2) R p unfolding players_admitted_def admitted_def by metis
  qed
  show "streams_ok R H t"
    using inv(3) p(5) players unfolding streams_ok_def f(6,7) by (auto split: if_splits)
  show "inputs_ok t"
    using inv(4) np no_input_sane unfolding inputs_ok_def f(5) by auto
qed


text \<open>A change to one player that keeps who the player is.\<close>

definition same_player :: "WorldPlayer \<Rightarrow> WorldPlayer \<Rightarrow> bool" where
  "same_player p q \<longleftrightarrow> wp_playerId q = wp_playerId p \<and> wp_token q = wp_token p \<and> wp_accountId q = wp_accountId p \<and>
     wp_username q = wp_username p"

lemma modify_tables:
  assumes "\<And>p. same_player p (f p)" and "world_tables_ok s"
  shows "world_tables_ok (s\<lparr>playersByConnection := map_modify c f (playersByConnection s)\<rparr>)"
  using assms unfolding world_tables_ok_def same_player_def by (auto split: if_splits)

lemma modify_admitted:
  assumes "\<And>p. same_player p (f p)" and "players_admitted R s"
  shows "players_admitted R (s\<lparr>playersByConnection := map_modify c f (playersByConnection s)\<rparr>)"
proof -
  have "admitted R j (f p) = admitted R j p" for j p
    using assms(1) by (simp add: admitted_def same_player_def)
  then show ?thesis
    using assms(2) by (auto simp: players_admitted_def split: if_splits)
qed

lemma modify_inputs: "inputs_ok (s\<lparr>playersByConnection := m\<rparr>) = inputs_ok s"
  by (simp add: inputs_ok_def)

lemma hello_effect:
  assumes inv: "world_tables_ok s" "players_admitted R s" "streams_ok R H s" "inputs_ok s"
    and hello: "\<And>playerId token. read_all read_hello body = (True, playerId, token) \<Longrightarrow> (source, playerId, token) \<in> set H"
    and t: "t = on_client_hello tm source body s"
  shows "world_tables_ok t \<and> players_admitted R t \<and> streams_ok R H t \<and> inputs_ok t"
proof (cases "t = s")
  case False
  obtain good playerId token where r: "read_all read_hello body = (good, playerId, token)" by (metis prod_cases3)
  let ?f = "\<lambda>p. p\<lparr>wp_udpBound := True, wp_udpAddress := source, wp_lastUdpPacket := steady tm\<rparr>"
  from False t r obtain connection player where c: "good" "map_find playerId (connectionByPlayer s) = Some connection"
      "map_find connection (playersByConnection s) = Some player" "constantTimeEquals (wp_token player) token"
      "t = s\<lparr>playersByConnection := map_modify connection ?f (playersByConnection s)\<rparr>"
    by (auto simp: on_client_hello_def split: option.splits if_splits)
  have "wp_token player = token"
    using c(4) difference_zero [of "string_bytes (wp_token player)" "string_bytes token" 0]
    by (auto simp: constantTimeEquals_def split: if_splits) (metis bytes_string_inverse string_bytes_inverse)
  moreover have "(source, playerId, token) \<in> set H" using hello r c(1) by simp
  moreover have "admitted R connection player" using inv(2) c(3) by (simp add: players_admitted_def)
  ultimately have auth: "authentic R H source" unfolding admitted_def authentic_def by blast
  have same: "same_player p (?f p)" for p by (simp add: same_player_def)
  have "streams_ok R H t"
    using inv(3) auth unfolding c(5) streams_ok_def by (auto split: if_splits)
  then show ?thesis
    using modify_tables [OF same inv(1)] modify_admitted [OF same inv(2)] inv(4) c(5) by (simp add: modify_inputs)
qed (use inv in simp)

lemma accept_keeps:
  assumes "sane_input i" and "world_tables_ok s" and "players_admitted R s" and "streams_ok R H s" and "inputs_ok s"
  shows "world_tables_ok (accept_input tm k i s) \<and> players_admitted R (accept_input tm k i s) \<and>
    streams_ok R H (accept_input tm k i s) \<and> inputs_ok (accept_input tm k i s)"
proof -
  have "world_tables_ok (accept_input tm k i s)"
    using assms(2) by (simp add: accept_input_def world_tables_ok_def setInput_keys del: not_None_eq)
  moreover have "players_admitted R (accept_input tm k i s)" "streams_ok R H (accept_input tm k i s)"
    using assms(3,4) by (simp_all add: accept_input_def players_admitted_def streams_ok_def)
  moreover have "inputs_ok (accept_input tm k i s)"
    using assms(5) setInput_sane [OF assms(1)] assms(1) by (auto simp: accept_input_def inputs_ok_def)
  ultimately show ?thesis by blast
qed

lemma client_datagram_effect:
  assumes inv: "world_tables_ok s" "players_admitted R s" "streams_ok R H s" "inputs_ok s"
    and t: "t = on_client_datagram tm source ty body s"
  shows "world_tables_ok t \<and> players_admitted R t \<and> streams_ok R H t \<and> inputs_ok t"
proof (cases "findPlayerByUdp source s")
  case None
  then show ?thesis using inv t by (simp add: on_client_datagram_def)
next
  case (Some cp)
  obtain connection player where cp: "cp = (connection, player)" by fastforce
  obtain good claimedId input buttons where r: "read_all read_input body = (good, claimedId, input, buttons)"
    by (metis prod_cases4)
  let ?f = "\<lambda>p. p\<lparr>wp_lastUdpPacket := steady tm\<rparr>"
  define s1 where "s1 = s\<lparr>playersByConnection := map_modify connection ?f (playersByConnection s)\<rparr>"
  have same: "same_player p (?f p)" for p by (simp add: same_player_def)
  have s1: "world_tables_ok s1" "players_admitted R s1" "inputs_ok s1" "streams_ok R H s1"
    using modify_tables [OF same inv(1)] modify_admitted [OF same inv(2)] inv(3,4)
    by (auto simp: s1_def modify_inputs streams_ok_def split: if_splits)
  have "t = s1 \<or> t = accept_input tm (wp_playerId player) (sanitise_input buttons input) s1"
    using t Some cp r by (auto simp: on_client_datagram_def s1_def Let_def)
  then show ?thesis
    using s1 accept_keeps [OF sanitise_sane s1(1,2,4,3)] by metis
qed

lemma datagram_effect:
  assumes inv: "world_tables_ok s" "players_admitted R s" "streams_ok R H s" "inputs_ok s"
    and H': "H' = H @ (case hello_of d of None \<Rightarrow> [] | Some x \<Rightarrow> [x])"
  shows "world_tables_ok (on_datagram tm d s) \<and> players_admitted R (on_datagram tm d s) \<and>
    streams_ok R H' (on_datagram tm d s) \<and> inputs_ok (on_datagram tm d s)"
proof -
  obtain data source where d: "d = (data, source)" by fastforce
  obtain ok header bodyOffset where r: "readUdpHeader data (length data) \<lparr>hdr_type = 0, hdr_sequence = 0\<rparr> 0 = (ok, header, bodyOffset)"
    by (metis prod_cases3)
  have st: "streams_ok R H' s" using streams_ok_mono [of R R H H' s] inv(3) H' by simp
  consider "\<not> ok" | "ok" "WorldMessage_of (hdr_type header) = ClientHello" | "ok" "WorldMessage_of (hdr_type header) \<noteq> ClientHello"
    by blast
  then show ?thesis
  proof cases
    case 1
    then show ?thesis using inv st by (simp add: on_datagram_def d r)
  next
    case 2
    have "(source, playerId, token) \<in> set H'" if "read_all read_hello (drop bodyOffset data) = (True, playerId, token)" for playerId token
      using that 2 by (simp add: H' hello_of_def d r)
    then show ?thesis
      using hello_effect [OF inv(1,2) st inv(4), of "drop bodyOffset data" source] 2 by (simp add: on_datagram_def d r)
  next
    case 3
    then show ?thesis
      using client_datagram_effect [OF inv(1,2) st inv(4) refl, of tm source] by (simp add: on_datagram_def d r)
  qed
qed

lemma datagram_latency:
  "simulatedLatencyMs (on_datagram tm d s) = simulatedLatencyMs s" "nextPlayerId (on_datagram tm d s) = nextPlayerId s"
  by (auto simp: on_datagram_def on_client_hello_def on_client_datagram_def accept_input_def Let_def
      split: prod.splits option.splits)


lemma world_tick_fields:
  "playersByConnection (world_tick lm tm s) = map_each (\<lambda>player. if wp_udpBound player
     then player\<lparr>wp_outgoingSequence := wp_outgoingSequence player + 1\<rparr> else player) (playersByConnection s)"
  "connectionByPlayer (world_tick lm tm s) = connectionByPlayer s" "nextPlayerId (world_tick lm tm s) = nextPlayerId s"
  "simulatedLatencyMs (world_tick lm tm s) = simulatedLatencyMs s" "delayedInputs (world_tick lm tm s) = delayedInputs s"
  "simulation (world_tick lm tm s) = sim_step lm (f_of_d tickSeconds) (realNow tm) (simulation s)"
  by (simp_all add: world_tick_def Let_def)

lemma world_tick_out:
  "set (udpOut (world_tick lm tm s)) \<subseteq> set (udpOut s) \<union> {x. \<exists>p \<in> set (bound_players s). fst x = wp_udpAddress p}"
  "set (delayedOutgoing (world_tick lm tm s)) \<subseteq> set (delayedOutgoing s) \<union>
     {x. \<exists>p \<in> set (bound_players s). dp_address x = wp_udpAddress p}"
  by (auto simp: world_tick_def Let_def)

lemma tick_effect:
  assumes inv: "world_tables_ok s" "players_admitted R s" "streams_ok R H s" "inputs_ok s"
  shows "world_tables_ok (world_tick lm tm s) \<and> players_admitted R (world_tick lm tm s) \<and>
    streams_ok R H (world_tick lm tm s) \<and> inputs_ok (world_tick lm tm s)"
proof -
  have bound: "authentic R H (wp_udpAddress p)" if "p \<in> set (bound_players s)" for p
  proof -
    from that obtain cid where "(cid, p) \<in> set (playersByConnection s)" "wp_udpBound p" by (auto simp: bound_players_def)
    then show ?thesis using inv(1,3) map_find_in_set [of "playersByConnection s" cid p]
      by (simp add: world_tables_ok_def streams_ok_def)
  qed
  have "world_tables_ok (world_tick lm tm s)"
    using inv(1) by (auto simp: world_tables_ok_def world_tick_fields step_find split: if_splits)
  moreover have "players_admitted R (world_tick lm tm s)"
    using inv(2) by (auto simp: players_admitted_def admitted_def world_tick_fields)
  moreover have "streams_ok R H (world_tick lm tm s)"
  proof -
    have "\<forall>cid p. map_find cid (playersByConnection (world_tick lm tm s)) = Some p \<longrightarrow> wp_udpBound p \<longrightarrow> authentic R H (wp_udpAddress p)"
      using inv(3) by (auto simp: streams_ok_def world_tick_fields split: if_splits)
    moreover have "\<forall>x \<in> set (udpOut (world_tick lm tm s)). authentic R H (fst x)"
      using world_tick_out(1) [of lm tm s] bound inv(3) unfolding streams_ok_def by (smt (verit) Un_iff mem_Collect_eq subsetD)
    moreover have "\<forall>x \<in> set (delayedOutgoing (world_tick lm tm s)). authentic R H (dp_address x)"
      using world_tick_out(2) [of lm tm s] bound inv(3) unfolding streams_ok_def by (smt (verit) Un_iff mem_Collect_eq subsetD)
    ultimately show ?thesis by (simp add: streams_ok_def)
  qed
  moreover have "inputs_ok (world_tick lm tm s)"
    using inv(4) by (auto simp: inputs_ok_def world_tick_fields step_find step_player_def sane_input_def)
  ultimately show ?thesis by blast
qed

lemma release_inputs_keeps:
  assumes "\<forall>d \<in> set ds. sane_input (di_input d)" and "\<forall>k p. map_find k (mPlayers sim) = Some p \<longrightarrow> sane_input (ply_input p)"
    and "release_inputs now ds sim = (ds', sim')"
  shows "set ds' \<subseteq> set ds \<and> (\<forall>k p. map_find k (mPlayers sim') = Some p \<longrightarrow> sane_input (ply_input p)) \<and>
    (\<forall>k. map_find k (mPlayers sim') = None \<longleftrightarrow> map_find k (mPlayers sim) = None)"
  using assms
proof (induction ds arbitrary: sim)
  case (Cons d ds)
  show ?case
  proof (cases "dle (di_dueAt d) now")
    case True
    let ?sim = "setInput (di_playerId d) (di_input d) sim"
    have sane: "\<forall>k p. map_find k (mPlayers ?sim) = Some p \<longrightarrow> sane_input (ply_input p)"
      using setInput_sane [of "di_input d" sim] Cons.prems(1,2) by simp
    have "release_inputs now ds ?sim = (ds', sim')" using Cons.prems(3) True by simp
    from Cons.IH [OF _ sane this] Cons.prems(1) show ?thesis by (auto simp: setInput_keys)
  qed (use Cons.prems in auto)
qed simp

lemma release_packets_keeps:
  "release_packets now ds out = (ds', out') \<Longrightarrow> set ds' \<subseteq> set ds \<and>
     set out' \<subseteq> set out \<union> (\<lambda>d. (dp_address d, dp_data d)) ` set ds"
proof (induction ds arbitrary: out)
  case (Cons d ds)
  then show ?case
    by (cases "dle (dp_dueAt d) now") (simp, fastforce, auto)
qed simp

lemma release_effect:
  assumes inv: "world_tables_ok s" "players_admitted R s" "streams_ok R H s" "inputs_ok s"
  shows "world_tables_ok (release_delayed tm s) \<and> players_admitted R (release_delayed tm s) \<and>
    streams_ok R H (release_delayed tm s) \<and> inputs_ok (release_delayed tm s)"
proof -
  obtain inputs sim where i: "release_inputs (monotonicSeconds tm) (delayedInputs s) (simulation s) = (inputs, sim)" by fastforce
  obtain packets out where p: "release_packets (monotonicSeconds tm) (delayedOutgoing s) (udpOut s) = (packets, out)" by fastforce
  have t: "release_delayed tm s = s\<lparr>delayedInputs := inputs, simulation := sim, delayedOutgoing := packets, udpOut := out\<rparr>"
    by (simp add: release_delayed_def i p)
  have I: "set inputs \<subseteq> set (delayedInputs s)" "\<forall>k p. map_find k (mPlayers sim) = Some p \<longrightarrow> sane_input (ply_input p)"
      "\<And>k. map_find k (mPlayers sim) = None \<longleftrightarrow> map_find k (mPlayers (simulation s)) = None"
    using release_inputs_keeps [OF _ _ i] inv(4) unfolding inputs_ok_def by blast+
  have P: "set packets \<subseteq> set (delayedOutgoing s)"
      "set out \<subseteq> set (udpOut s) \<union> (\<lambda>d. (dp_address d, dp_data d)) ` set (delayedOutgoing s)"
    using release_packets_keeps [OF p] by blast+
  have "world_tables_ok (release_delayed tm s)" "players_admitted R (release_delayed tm s)"
    using inv(1,2) I(3) unfolding t world_tables_ok_def players_admitted_def by (simp_all del: not_None_eq)
  moreover have "inputs_ok (release_delayed tm s)"
    using inv(4) I unfolding t inputs_ok_def by auto
  moreover have "streams_ok R H (release_delayed tm s)"
    using inv(3) P unfolding t streams_ok_def by fastforce
  ultimately show ?thesis by blast
qed

lemma silent_effect:
  assumes inv: "world_tables_ok s" "players_admitted R s" "streams_ok R H s" "inputs_ok s"
  shows "world_tables_ok (drop_silent cfg tm s) \<and> players_admitted R (drop_silent cfg tm s) \<and>
    streams_ok R H (drop_silent cfg tm s) \<and> inputs_ok (drop_silent cfg tm s) \<and>
    simulatedLatencyMs (drop_silent cfg tm s) = simulatedLatencyMs s \<and> nextPlayerId (drop_silent cfg tm s) = nextPlayerId s"
proof -
  let ?f = "\<lambda>cid s. world_post (CloseConnection cid) (world_removePlayer cid s)"
  have "world_tables_ok (fold ?f cids s) \<and> players_admitted R (fold ?f cids s) \<and> streams_ok R H (fold ?f cids s) \<and>
      inputs_ok (fold ?f cids s) \<and> simulatedLatencyMs (fold ?f cids s) = simulatedLatencyMs s \<and>
      nextPlayerId (fold ?f cids s) = nextPlayerId s" for cids
    using inv
  proof (induction cids arbitrary: s)
    case (Cons cid cids)
    have same: "same_world (world_removePlayer cid s) (?f cid s)" by (simp add: world_post_def same_world_def)
    have "simulatedLatencyMs (?f cid s) = simulatedLatencyMs s" "nextPlayerId (?f cid s) = nextPlayerId s"
      by (simp_all add: world_post_def)
    with Cons.IH [OF same_world_inv [OF same remove_keeps(1) [OF Cons.prems(1)] remove_keeps(2) [OF Cons.prems(2)]
        remove_keeps(3) [OF Cons.prems(3)] remove_keeps(4) [OF Cons.prems(4)]]]
    show ?case by simp
  qed simp
  then show ?thesis by (simp add: drop_silent_def)
qed


section \<open>Rule induction\<close>

lemma next_id_no_wrap: "unat (n :: u64) < 2 ^ 64 - 1 \<Longrightarrow> n < n + 1 \<and> unat (n + 1) = Suc (unat n)"
  by (simp add: word_less_nat_alt unat_word_ariths)

lemma inv_cong:
  "wh_state h = wh_state g \<Longrightarrow> wh_replied h = wh_replied g \<Longrightarrow> wh_hellos h = wh_hellos g \<Longrightarrow> world_inv g \<Longrightarrow> world_inv h"
  by (simp add: world_inv_def)

lemma inv_parts:
  assumes "world_inv h"
  shows "world_tables_ok (wh_state h)" and "players_admitted (wh_replied h) (wh_state h)"
    and "streams_ok (wh_replied h) (wh_hellos h) (wh_state h)" and "inputs_ok (wh_state h)"
  using assms by (simp_all add: world_inv_def)

lemma inv_same_world:
  assumes "world_inv h" and "same_world (wh_state h) t" and "simulatedLatencyMs t \<le> 2000" and "set (wh_replied h) \<subseteq> set R"
    and "length (wh_replied h) \<le> length R"
  shows "world_inv (h\<lparr>wh_state := t, wh_waiting := w, wh_calls := c, wh_replied := R\<rparr>)"
proof -
  have inv: "world_tables_ok (wh_state h)" "players_admitted R (wh_state h)" "streams_ok R (wh_hellos h) (wh_state h)"
      "inputs_ok (wh_state h)"
    using assms(1,4) players_admitted_mono streams_ok_mono [OF assms(4) subset_refl] unfolding world_inv_def by blast+
  have "nextPlayerId t = nextPlayerId (wh_state h)" using assms(2) by (simp add: same_world_def)
  then show ?thesis
    using same_world_inv [OF assms(2) inv] assms(1,3,5) by (simp add: world_inv_def)
qed

lemma inv_same_calls:
  assumes "world_inv h" and "same_world (wh_state h) t" and "simulatedLatencyMs t \<le> 2000"
  shows "world_inv (h\<lparr>wh_state := t, wh_waiting := w, wh_calls := c\<rparr>)"
  using inv_same_world [OF assms subset_refl order_refl, where w = w and c = c] by (simp add: world_inv_def)

lemma inv_on_state:
  assumes "world_inv h" and "world_tables_ok t \<and> players_admitted (wh_replied h) t \<and>
      streams_ok (wh_replied h) (wh_hellos h) t \<and> inputs_ok t"
    and "simulatedLatencyMs t = simulatedLatencyMs (wh_state h)" and "nextPlayerId t = nextPlayerId (wh_state h)"
  shows "world_inv (h\<lparr>wh_state := t\<rparr>)"
  using assms by (simp add: world_inv_def)

lemma inv_reply:
  assumes "world_inv h" and "length (wh_replied h) < 2 ^ 64 - 2" and "world_reply_fits k answer"
    and "\<And>cid token. k = JoinLookup cid token \<Longrightarrow> call = LookupSession token"
  shows "world_inv (after_reply lm cfg tm (call, k) answer h)"
proof (cases "\<exists>cid token session. k = JoinLookup cid token \<and> answer = SessionReply True session \<and> session_found session")
  case True
  then obtain cid token session where k: "k = JoinLookup cid token" "answer = SessionReply True session" "session_found session"
    by blast
  let ?R = "wh_replied h @ [(call, k, answer)]" and ?s = "wh_state h"
  let ?t = "fst (on_join_lookup lm cfg tm cid token True session ?s)"
  have grow: "set (wh_replied h) \<subseteq> set ?R" by auto
  have next': "unat (nextPlayerId ?s) < 2 ^ 64 - 1" using assms(1,2) by (simp add: world_inv_def)
  have inv: "world_tables_ok ?s" "players_admitted ?R ?s" "streams_ok ?R (wh_hellos h) ?s" "inputs_ok ?s"
    using assms(1) players_admitted_mono [OF grow] streams_ok_mono [OF grow subset_refl]
    unfolding world_inv_def by blast+
  have keeps: "world_tables_ok ?t" "players_admitted ?R ?t" "streams_ok ?R (wh_hellos h) ?t" "inputs_ok ?t"
    using join_keeps [OF k(3) refl _ _ inv] next_id_no_wrap [OF next'] k assms(4) [OF k(1)] by (auto simp: confirmed_for_def)
  have "nextPlayerId ?t = nextPlayerId ?s + 1" "simulatedLatencyMs ?t = simulatedLatencyMs ?s"
    using join_success_state [OF k(3) refl] by metis+
  with keeps show ?thesis
    using assms(1) next_id_no_wrap [OF next'] k
    by (simp add: world_inv_def after_reply_def after_calls_def world_run_def)
next
  case False
  have "same_world (wh_state h) (fst (world_run lm cfg tm k answer (wh_state h))) \<and>
      simulatedLatencyMs (fst (world_run lm cfg tm k answer (wh_state h))) \<le> 2000"
  proof (cases "\<exists>cid token. k = JoinLookup cid token")
    case True
    then obtain cid token where k: "k = JoinLookup cid token" by blast
    with assms(3) obtain ok session where a: "answer = SessionReply ok session"
      by (cases answer) (auto simp: world_reply_fits_def)
    then show ?thesis
      using False k assms(1) join_failure_state [of ok session "wh_state h" lm cfg tm cid token]
      by (auto simp: world_run_def world_inv_def)
  next
    case False
    then show ?thesis using run_other_effect [of k "wh_state h" lm cfg tm answer] assms(1) by (auto simp: world_inv_def)
  qed
  then have "world_inv (h\<lparr>wh_state := fst (world_run lm cfg tm k answer (wh_state h)), wh_waiting := [], wh_calls := [],
      wh_replied := wh_replied h @ [(call, k, answer)]\<rparr>)"
    by (intro inv_same_world [OF assms(1)]) auto
  then show ?thesis
    by (rule inv_cong [rotated 3]) (simp_all add: after_reply_def after_calls_def)
qed

subsection \<open>What is asked of the database\<close>

text \<open>A token was presented on a connection: a join request of this version with it arrived there.\<close>

definition presented :: "(ConnectionId \<times> u16 \<times> bytes) list \<Rightarrow> ConnectionId \<Rightarrow> string \<Rightarrow> bool" where
  "presented M cid token \<longleftrightarrow> (\<exists>ty data. (cid, ty, data) \<in> set M \<and> WorldMessage_of ty = JoinRequest \<and>
     read_all read_join data = (True, kProtocolVersion, token))"

definition asked :: "(ConnectionId \<times> u16 \<times> bytes) list \<Rightarrow> (db_call \<times> world_tag) list \<Rightarrow> bool" where
  "asked M calls \<longleftrightarrow> (\<forall>call cid token. (call, JoinLookup cid token) \<in> set calls \<longrightarrow> call = LookupSession token \<and> presented M cid token)"

definition asked_ok :: "'r world_history \<Rightarrow> bool" where
  "asked_ok h \<longleftrightarrow> asked (wh_messages h) (wh_waiting h) \<and> asked (wh_messages h) (map (\<lambda>(call, k, answer). (call, k)) (wh_replied h))"

lemma asked_append [simp]: "asked M (xs @ ys) \<longleftrightarrow> asked M xs \<and> asked M ys"
  by (auto simp: asked_def)

lemma asked_mono: "set M \<subseteq> set M' \<Longrightarrow> set ys \<subseteq> set xs \<Longrightarrow> asked M xs \<Longrightarrow> asked M' ys"
  unfolding asked_def presented_def by blast

lemma asked_message: "asked (M @ [(cid, ty, data)]) (snd (world_message cid ty data s))"
proof -
  have "asked (M @ [(cid, ty, data)]) (snd (on_join_request cid data s))" if "WorldMessage_of ty = JoinRequest"
    using that by (auto simp: asked_def presented_def on_join_request_def split: prod.splits)
  moreover have "asked M' (snd (on_latency_request cid data s))" for M'
    by (simp add: asked_def on_latency_request_def split: prod.splits)
  moreover have "asked M' (snd (on_time_request c cid data s))" for M' c
    by (simp add: asked_def on_time_request_def split: prod.splits)
  moreover have "asked M' []" for M' by (simp add: asked_def)
  ultimately show ?thesis by (simp add: world_message_def Let_def)
qed

lemma asked_run: "asked M (snd (world_run lm cfg tm k answer s))"
  by (cases k; cases answer) (auto simp: asked_def world_run_def on_join_lookup_def Let_def split: prod.splits)

lemma asked_command: "asked M (snd (runConsoleCommand lib tm line s))"
  by (simp add: asked_def runConsoleCommand_def console_account_def Let_def split: list.splits prod.splits option.splits)

lemma reach_asked: "world_reach lib lm cfg h \<Longrightarrow> asked_ok h"
proof (induction rule: world_reach.induct)
  case (start env tm r)
  show ?case by (simp add: asked_ok_def asked_def history_start_def)
next
  case (message h cid ty data)
  then show ?case
    using asked_message [of "wh_messages h" cid ty data "wh_state h"]
    by (auto simp: asked_ok_def after_message_def after_calls_def intro: asked_mono [OF _ order_refl])
next
  case (reply h call answer tm)
  have "asked (wh_messages h) (remove1 call (wh_waiting h))"
    using reply.IH by (auto simp: asked_ok_def intro: asked_mono [OF order_refl set_remove1_subset])
  moreover have "asked (wh_messages h) [call]"
    using reply.IH reply.hyps(2) by (auto simp: asked_ok_def intro: asked_mono [OF order_refl])
  ultimately show ?case
    using reply.IH asked_run by (cases call) (simp add: asked_ok_def after_reply_def after_calls_def)
qed (simp_all add: asked_ok_def on_state_def after_calls_def after_datagram_def asked_command)

text \<open>So whoever has a confirmed session presented its token.\<close>

lemma confirmed_presented:
  "world_reach lib lm cfg h \<Longrightarrow> confirmed_for (wh_replied h) cid token session \<Longrightarrow> presented (wh_messages h) cid token"
  using reach_asked [of lib lm cfg h] by (force simp: asked_ok_def asked_def confirmed_for_def)

subsection \<open>The state\<close>

lemma reach_inv:
  assumes "world_reach lib lm cfg h" and "length (wh_replied h) < 2 ^ 64 - 2"
  shows "world_inv h"
  using assms
proof (induction rule: world_reach.induct)
  case (start env tm r)
  show ?case
    by (simp add: world_inv_def history_start_def world_start_def world_tables_ok_def players_admitted_def streams_ok_def
        inputs_ok_def new_simulation_def)
next
  case (message h cid ty data)
  then have inv: "world_inv h" by (simp add: after_message_def after_calls_def)
  obtain t where t: "same_world (wh_state h) t" "simulatedLatencyMs t = simulatedLatencyMs (wh_state h)"
      "fst (world_message cid ty data (wh_state h)) = t \<or> fst (world_message cid ty data (wh_state h)) = world_removePlayer cid t"
    using message_effect by blast
  define h' where "h' = h\<lparr>wh_state := t, wh_waiting := wh_waiting h @ snd (world_message cid ty data (wh_state h)),
    wh_calls := wh_calls h @ snd (world_message cid ty data (wh_state h))\<rparr>"
  have "world_inv h'"
    unfolding h'_def by (rule inv_same_calls [OF inv t(1)]) (use t(2) inv in \<open>simp add: world_inv_def\<close>)
  moreover have "world_inv (h'\<lparr>wh_state := world_removePlayer cid (wh_state h')\<rparr>)" if "world_inv h'"
    by (rule inv_on_state [OF that]) (simp_all add: remove_keeps inv_parts [OF that])
  moreover have "h' = h'\<lparr>wh_state := t\<rparr>" "wh_state h' = t" by (simp_all add: h'_def)
  ultimately have "world_inv (h'\<lparr>wh_state := fst (world_message cid ty data (wh_state h))\<rparr>)"
    using t(3) by metis
  then show ?case
    by (rule inv_cong [rotated 3]) (simp_all add: after_message_def after_calls_def h'_def)
next
  case (reply h call answer tm)
  obtain c k where call: "call = (c, k)" by fastforce
  have "c = LookupSession token" if "k = JoinLookup cid token" for cid token
    using reach_asked [OF reply.hyps(1)] reply.hyps(2) that by (auto simp: asked_ok_def asked_def call)
  moreover have "length (wh_replied h) < 2 ^ 64 - 2" using reply.prems by (simp add: after_reply_def after_calls_def)
  ultimately show ?case using reply.IH reply.hyps(3) inv_reply [of h k answer c] by (simp add: call)
next
  case (disconnect h cid)
  then have inv: "world_inv h" by (simp add: on_state_def)
  show ?case
    unfolding on_state_def
    by (rule inv_on_state [OF inv]) (simp_all add: remove_keeps inv_parts [OF inv])
next
  case (command h tm line)
  then have inv: "world_inv h" by (simp add: after_calls_def)
  then show ?case
    unfolding after_calls_def using command_effect [of "wh_state h" lib tm line]
    by (intro inv_same_calls) (simp_all add: world_inv_def)
next
  case (datagram h tm d)
  then have "world_inv h" by (simp add: after_datagram_def)
  then show ?case
    using datagram_effect [OF _ _ _ _ refl, of "wh_state h" "wh_replied h" "wh_hellos h" tm d]
    by (simp add: after_datagram_def world_inv_def datagram_latency)
next
  case (tick h tm)
  then have inv: "world_inv h" by (simp add: on_state_def)
  show ?case
    unfolding on_state_def by (rule inv_on_state [OF inv tick_effect [OF inv_parts [OF inv]]]) (simp_all add: world_tick_fields)
next
  case (release h tm)
  then have inv: "world_inv h" by (simp add: on_state_def)
  show ?case
    unfolding on_state_def
    by (rule inv_on_state [OF inv release_effect [OF inv_parts [OF inv]]]) (simp_all add: release_delayed_def split: prod.splits)
next
  case (silent h tm)
  then have inv: "world_inv h" by (simp add: on_state_def)
  show ?case
    unfolding on_state_def
    by (rule inv_on_state [OF inv]) (simp_all add: silent_effect [OF inv_parts [OF inv]])
qed


section \<open>Responses\<close>

text \<open>A join response that does not say Success, or another message.\<close>

definition no_join_success :: "server_op \<Rightarrow> bool" where
  "no_join_success x = (case x of CloseConnection _ \<Rightarrow> True
    | Send cid ty payload \<Rightarrow> ty \<noteq> WorldMessage_code JoinResponse \<or> payload = [] \<or> hd payload \<noteq> JoinResult_code JoinSuccess)"

lemma join_response_head: "\<exists>rest. join_response result playerId port username entityId = JoinResult_code result # rest"
  unfolding join_response_def by (subst writes_concat, simp) (simp add: writer_u8_def writer_raw_def)

lemma no_success_join:
  "no_join_success (Send cid (WorldMessage_code JoinResponse) (join_response result playerId port username entityId)) \<longleftrightarrow>
   JoinResult_code result \<noteq> JoinResult_code JoinSuccess"
  using join_response_head [of result playerId port username entityId] by (auto simp: no_join_success_def)

lemma no_success_other: "ty \<noteq> WorldMessage_code JoinResponse \<Longrightarrow> no_join_success (Send cid ty payload)"
  by (simp add: no_join_success_def)

lemmas no_success = no_success_join [simplified] no_success_other

text \<open>The outbox only grows, by responses that are not a join's success unless the callback of a join
  found its session.\<close>

definition adds_quietly :: "'r world_state \<Rightarrow> 'r world_state \<Rightarrow> bool" where
  "adds_quietly s t \<longleftrightarrow> (\<exists>xs. world_outbox t = world_outbox s @ xs \<and> list_all no_join_success xs)"

lemma adds_nothing: "world_outbox t = world_outbox s \<Longrightarrow> adds_quietly s t"
  by (simp add: adds_quietly_def)

lemma adds_one: "world_outbox t = world_outbox s @ [x] \<Longrightarrow> no_join_success x \<Longrightarrow> adds_quietly s t"
  by (auto simp: adds_quietly_def)

lemma outbox_remove [simp]: "world_outbox (world_removePlayer cid s) = world_outbox s"
  by (simp add: world_removePlayer_def split: option.splits)

lemma message_quiet: "adds_quietly s (fst (world_message cid ty data s))"
proof -
  have "adds_quietly s (fst (on_join_request cid data s))"
    by (simp add: on_join_request_def adds_quietly_def posts no_success split: prod.splits)
  moreover have "adds_quietly s (fst (on_latency_request cid data s))"
    by (simp add: on_latency_request_def adds_quietly_def posts no_success split: prod.splits)
  moreover have "adds_quietly s (fst (on_time_request c cid data s))" for c
    by (simp add: on_time_request_def adds_quietly_def posts no_success time_response_type_def split: prod.splits)
  moreover have "adds_quietly s (on_logout_request cid s)"
    by (simp add: on_logout_request_def adds_quietly_def posts no_success)
  moreover have "adds_quietly s s" by (simp add: adds_nothing)
  ultimately show ?thesis by (simp add: world_message_def Let_def)
qed

lemma run_quiet:
  assumes "\<not> (\<exists>cid token session. k = JoinLookup cid token \<and> answer = SessionReply True session \<and> session_found session)"
  shows "adds_quietly s (fst (world_run lm cfg tm k answer s))"
  using assms
  by (cases k; cases answer)
    (auto simp: world_run_def on_join_lookup_def on_latency_lookup_def on_time_lookup_def on_console_create_def
      on_console_delete_def on_console_level_def posts adds_quietly_def no_success time_response_type_def Let_def)

lemma join_success_response:
  assumes "session_found session"
  shows "\<exists>playerId entityId. world_outbox (fst (on_join_lookup lm cfg tm cid token True session s)) = world_outbox s @
      [Send cid (WorldMessage_code JoinResponse)
        (join_response JoinSuccess playerId (cfg_udpPort cfg) (session_username session) entityId)] \<and>
    snd (on_join_lookup lm cfg tm cid token True session s) = [(DeleteSession token, SessionDeleted)]"
  using assms by (auto simp: on_join_lookup_def Let_def posts split: prod.splits)

lemma command_outbox: "world_outbox (fst (runConsoleCommand lib tm line s)) = world_outbox s"
  by (simp add: runConsoleCommand_def console_latency_def console_time_def console_set_time_def console_account_def
      printStatus_def print_def Let_def split: list.splits prod.splits option.splits)

lemma datagram_outbox: "world_outbox (on_datagram tm d s) = world_outbox s"
  by (auto simp: on_datagram_def on_client_hello_def on_client_datagram_def accept_input_def Let_def
      split: prod.splits option.splits)

lemma other_outbox: "world_outbox (world_tick lm tm s) = world_outbox s" "world_outbox (release_delayed tm s) = world_outbox s"
  by (simp_all add: world_tick_def release_delayed_def Let_def split: prod.splits)

lemma silent_quiet: "adds_quietly s (drop_silent cfg tm s)"
proof -
  have "adds_quietly s (fold (\<lambda>cid s. world_post (CloseConnection cid) (world_removePlayer cid s)) cids s)" for cids
  proof (induction cids rule: rev_induct)
    case (snoc cid cids)
    then show ?case by (auto simp: adds_quietly_def world_post_def no_join_success_def)
  qed (simp add: adds_nothing)
  then show ?thesis by (simp add: drop_silent_def)
qed

definition responses_justified :: "WorldConfig \<Rightarrow> 'r world_history \<Rightarrow> bool" where
  "responses_justified cfg h \<longleftrightarrow> (\<forall>x \<in> set (world_outbox (wh_state h)). no_join_success x \<or>
     (\<exists>cid token session playerId entityId. x = Send cid (WorldMessage_code JoinResponse)
         (join_response JoinSuccess playerId (cfg_udpPort cfg) (session_username session) entityId) \<and>
       confirmed_for (wh_replied h) cid token session \<and>
       (DeleteSession token, SessionDeleted) \<in> set (wh_calls h)))"

lemma justified_quietly:
  assumes "responses_justified cfg h" and "adds_quietly (wh_state h) (wh_state g)"
    and "set (wh_replied h) \<subseteq> set (wh_replied g)" and "set (wh_calls h) \<subseteq> set (wh_calls g)"
  shows "responses_justified cfg g"
  unfolding responses_justified_def
proof
  fix x assume "x \<in> set (world_outbox (wh_state g))"
  then have "x \<in> set (world_outbox (wh_state h)) \<or> no_join_success x"
    using assms(2) by (auto simp: adds_quietly_def list_all_iff)
  then show "no_join_success x \<or>
     (\<exists>cid token session playerId entityId. x = Send cid (WorldMessage_code JoinResponse)
         (join_response JoinSuccess playerId (cfg_udpPort cfg) (session_username session) entityId) \<and>
       confirmed_for (wh_replied g) cid token session \<and>
       (DeleteSession token, SessionDeleted) \<in> set (wh_calls g))"
    using assms(1,3,4) unfolding responses_justified_def confirmed_for_def by (meson subsetD)
qed


lemma reach_responses: "world_reach lib lm cfg h \<Longrightarrow> responses_justified cfg h"
proof (induction rule: world_reach.induct)
  case (start env tm r)
  show ?case by (simp add: responses_justified_def history_start_def world_start_def)
next
  case (message h cid ty data)
  show ?case
    by (rule justified_quietly [OF message.IH]) (simp_all add: after_message_def after_calls_def message_quiet)
next
  case (reply h call answer tm)
  obtain c k where call: "call = (c, k)" by fastforce
  let ?g = "after_reply lm cfg tm call answer h"
  show ?case
  proof (cases "\<exists>cid token session. k = JoinLookup cid token \<and> answer = SessionReply True session \<and> session_found session")
    case True
    then obtain cid token session where k: "k = JoinLookup cid token" "answer = SessionReply True session" "session_found session"
      by blast
    obtain playerId entityId where r: "world_outbox (wh_state ?g) = world_outbox (wh_state h) @
        [Send cid (WorldMessage_code JoinResponse)
          (join_response JoinSuccess playerId (cfg_udpPort cfg) (session_username session) entityId)]"
      "(DeleteSession token, SessionDeleted) \<in> set (wh_calls ?g)"
      using join_success_response [OF k(3), of lm cfg tm cid token "wh_state h"] k(1,2)
      by (auto simp: call after_reply_def after_calls_def world_run_def)
    have "c = LookupSession token"
      using reach_asked [OF reply.hyps(1)] reply.hyps(2) k(1) by (auto simp: asked_ok_def asked_def call)
    then have "confirmed_for (wh_replied ?g) cid token session"
      using k by (simp add: confirmed_for_def call after_reply_def after_calls_def)
    moreover have "set (wh_replied h) \<subseteq> set (wh_replied ?g)" "set (wh_calls h) \<subseteq> set (wh_calls ?g)"
      by (auto simp: after_reply_def after_calls_def)
    ultimately show ?thesis
      unfolding responses_justified_def r(1)
      using reply.IH r(2) unfolding responses_justified_def confirmed_for_def by (simp add: subset_iff) metis
  next
    case False
    then show ?thesis
      by (intro justified_quietly [OF reply.IH]) (auto simp: call after_reply_def after_calls_def intro: run_quiet)
  qed
next
  case (disconnect h cid)
  show ?case by (rule justified_quietly [OF disconnect.IH]) (simp_all add: on_state_def adds_nothing)
next
  case (command h tm line)
  show ?case by (rule justified_quietly [OF command.IH]) (simp_all add: after_calls_def command_outbox adds_nothing)
next
  case (datagram h tm d)
  show ?case by (rule justified_quietly [OF datagram.IH]) (simp_all add: after_datagram_def datagram_outbox adds_nothing)
next
  case (tick h tm)
  show ?case by (rule justified_quietly [OF tick.IH]) (simp_all add: on_state_def other_outbox adds_nothing)
next
  case (release h tm)
  show ?case by (rule justified_quietly [OF release.IH]) (simp_all add: on_state_def other_outbox adds_nothing)
next
  case (silent h tm)
  show ?case by (rule justified_quietly [OF silent.IH]) (simp_all add: on_state_def silent_quiet)
qed

section \<open>Sample histories\<close>

definition sample_sodium :: "unit sodium" where
  "sample_sodium = \<lparr>randombytes = (\<lambda>n r. (replicate n 0, r)), pwhash_str = (\<lambda>p r. (Some p, r)),
     pwhash_str_verify = (\<lambda>h p. h = p)\<rparr>"

definition sample_config :: WorldConfig where
  "sample_config = world_config (\<lambda>_. None)"

definition sample_clocks :: Clocks where
  "sample_clocks = \<lparr>steady = 0, realNow = 0, wallNow = (12, 0, 0)\<rparr>"

definition sample_session :: SessionLookup where
  "sample_session = \<lparr>session_found = True, session_accountId = 3, session_username = ''ann'', session_permissionLevel = 1\<rparr>"

definition join_bytes :: bytes where
  "join_bytes = writes [writer_u32 kProtocolVersion, writer_string ''t''] []"

definition history0 :: "unit world_history" where
  "history0 = history_start (\<lambda>_. None) sample_clocks ()"

text \<open>A client asks to join, the database confirms the session.\<close>

definition asks_to_join :: "unit world_history \<Rightarrow> unit world_history" where
  "asks_to_join h = after_message 5 200 join_bytes h"

definition is_confirmed :: "unit world_history \<Rightarrow> unit world_history" where
  "is_confirmed = after_reply sample_libm sample_config sample_clocks (LookupSession ''t'', JoinLookup 5 ''t'') (SessionReply True sample_session)"

lemma join_bytes_read: "read_all read_join join_bytes = (True, kProtocolVersion, ''t'')"
  by code_simp

lemma asks_to_join_state:
  "map_find 5 (playersByConnection (wh_state h)) = None \<Longrightarrow>
   asks_to_join h = h\<lparr>wh_messages := wh_messages h @ [(5, 200, join_bytes)],
     wh_waiting := wh_waiting h @ [(LookupSession ''t'', JoinLookup 5 ''t'')],
     wh_calls := wh_calls h @ [(LookupSession ''t'', JoinLookup 5 ''t'')]\<rparr>"
  by (simp add: asks_to_join_def after_message_def after_calls_def world_message_def WorldMessage_of_def on_join_request_def join_bytes_read
      map_count_def)

lemma history0_empty: "playersByConnection (wh_state history0) = []" "wh_replied history0 = []" "wh_waiting history0 = []"
    "mPlayers (simulation (wh_state history0)) = []"
  by (simp_all add: history0_def history_start_def world_start_def new_simulation_def)

definition joined :: "unit world_history" where
  "joined = is_confirmed (asks_to_join history0)"

lemma joined_reach: "world_reach sample_sodium sample_libm sample_config joined"
proof -
  have "world_reach sample_sodium sample_libm sample_config (asks_to_join history0)"
    unfolding asks_to_join_def history0_def by (intro world_reach.message world_reach.start)
  moreover have "(LookupSession ''t'', JoinLookup 5 ''t'') \<in> set (wh_waiting (asks_to_join history0))"
    by (simp add: asks_to_join_state history0_empty)
  ultimately show ?thesis
    unfolding joined_def is_confirmed_def by (rule world_reach.reply) (simp add: world_reply_fits_def)
qed

lemma joined_replied: "wh_replied joined = [(LookupSession ''t'', JoinLookup 5 ''t'', SessionReply True sample_session)]"
  by (simp add: joined_def is_confirmed_def after_reply_def after_calls_def asks_to_join_state history0_empty)

lemma joined_player: "\<exists>p. map_find 5 (playersByConnection (wh_state joined)) = Some p"
  by (simp add: joined_def is_confirmed_def after_reply_def after_calls_def asks_to_join_state history0_empty world_run_def
      on_join_lookup_def sample_session_def Let_def posts split: prod.splits)


definition hello_bytes :: bytes where
  "hello_bytes = writeUdpHeader [] (WorldMessage_code ClientHello) 0 @ writes [writer_u64 1, writer_string ''t''] []"

definition ann_address :: Address where
  "ann_address = \<lparr>addr_ip = 0x7F000001, addr_port = 9000\<rparr>"

definition streaming :: "unit world_history" where
  "streaming = on_state (world_tick sample_libm sample_clocks) (after_datagram sample_clocks (hello_bytes, ann_address) joined)"

lemma hello_bytes_header:
  "readUdpHeader hello_bytes (length hello_bytes) \<lparr>hdr_type = 0, hdr_sequence = 0\<rparr> 0 = (True, \<lparr>hdr_type = 210, hdr_sequence = 0\<rparr>, 10)"
  by code_simp

lemma hello_bytes_body: "read_all read_hello (drop 10 hello_bytes) = (True, 1, ''t'')"
  by code_simp

lemma streaming_reach: "world_reach sample_sodium sample_libm sample_config streaming"
  unfolding streaming_def by (intro world_reach.tick world_reach.datagram joined_reach)

lemma joined_tables:
  "\<exists>p. playersByConnection (wh_state joined) = [(5, p)] \<and> wp_token p = ''t'' \<and> connectionByPlayer (wh_state joined) = [(1, 5)] \<and>
     simulatedLatencyMs (wh_state joined) = 0 \<and> udpOut (wh_state joined) = []"
  by (simp add: joined_def is_confirmed_def after_reply_def after_calls_def asks_to_join_state history0_empty world_run_def
      on_join_lookup_def sample_session_def Let_def posts map_emplace_def split: prod.splits)
    (simp add: history0_def history_start_def world_start_def)

lemma streaming_sends: "\<exists>data. (ann_address, data) \<in> set (udpOut (wh_state streaming))"
proof -
  obtain p where p: "playersByConnection (wh_state joined) = [(5, p)]" "wp_token p = ''t''"
      "connectionByPlayer (wh_state joined) = [(1, 5)]" "simulatedLatencyMs (wh_state joined) = 0"
    using joined_tables by blast
  have "constantTimeEquals ''t'' ''t''" by code_simp
  then have "on_datagram sample_clocks (hello_bytes, ann_address) (wh_state joined) = (wh_state joined)\<lparr>playersByConnection :=
      [(5, p\<lparr>wp_udpBound := True, wp_udpAddress := ann_address, wp_lastUdpPacket := steady sample_clocks\<rparr>)]\<rparr>"
    by (simp add: on_datagram_def hello_bytes_header hello_bytes_body WorldMessage_of_def on_client_hello_def p map_find_def map_modify_def)
  then show ?thesis
    by (simp add: streaming_def on_state_def after_datagram_def world_tick_def Let_def bound_players_def p(4)) blast
qed

lemma streaming_replied: "wh_replied streaming = wh_replied joined"
  by (simp add: streaming_def on_state_def after_datagram_def)

text \<open>Two requests on one connection before the first is answered, then the connection closes.\<close>

definition ghost :: "unit world_history" where
  "ghost = on_state (world_removePlayer 5) (is_confirmed (is_confirmed (asks_to_join (asks_to_join history0))))"

lemma ghost_reach: "world_reach sample_sodium sample_libm sample_config ghost"
proof -
  let ?asked = "asks_to_join (asks_to_join history0)"
  have asked: "world_reach sample_sodium sample_libm sample_config ?asked"
    unfolding asks_to_join_def history0_def by (intro world_reach.message world_reach.start)
  have waiting: "wh_waiting ?asked = [(LookupSession ''t'', JoinLookup 5 ''t''), (LookupSession ''t'', JoinLookup 5 ''t'')]"
    by (simp add: asks_to_join_state history0_empty)
  have once: "world_reach sample_sodium sample_libm sample_config (is_confirmed ?asked)"
    unfolding is_confirmed_def by (rule world_reach.reply [OF asked]) (simp_all add: waiting world_reply_fits_def)
  have "(LookupSession ''t'', JoinLookup 5 ''t'') \<in> set (wh_waiting (is_confirmed ?asked))"
    by (simp add: is_confirmed_def after_reply_def after_calls_def waiting)
  then have "world_reach sample_sodium sample_libm sample_config (is_confirmed (is_confirmed ?asked))"
    using world_reach.reply [OF once, of "(LookupSession ''t'', JoinLookup 5 ''t'')" "SessionReply True sample_session" sample_clocks]
    by (simp add: is_confirmed_def world_reply_fits_def)
  then show ?thesis unfolding ghost_def by (rule world_reach.disconnect)
qed

lemma ghost_tables: "playersByConnection (wh_state ghost) = [] \<and> length (mPlayers (simulation (wh_state ghost))) = 1"
proof -
  have start: "nextPlayerId (wh_state history0) = 1" "connectionByPlayer (wh_state history0) = []"
    by (simp_all add: history0_def history_start_def world_start_def)
  show ?thesis
    by (simp add: ghost_def on_state_def is_confirmed_def after_reply_def after_calls_def asks_to_join_state history0_empty
        world_run_def on_join_lookup_def sample_session_def Let_def posts start addPlayer_def map_emplace_def map_find_def
        world_removePlayer_def removePlayer_def map_erase_def split: prod.splits)
qed


section \<open>Properties\<close>

text \<open>C1. Only authenticated players are in the world. In every state the server can reach, whatever
  order messages, database replies, disconnects, console commands, datagrams, ticks and timeouts
  come in, for a player registered for a connection a join request with its token arrived on that connection, the database was asked to look up
  that very token, and its reply confirmed the session whose account and name the player carries; its id leads back to the
  connection, and it has a body in the simulation. (The count of replies stays below the 64-bit player ids.)\<close>

theorem world_players_authenticated:
  assumes "world_reach lib lm cfg h" and "length (wh_replied h) < 2 ^ 64 - 2"
    and "map_find cid (playersByConnection (wh_state h)) = Some p"
  shows "presented (wh_messages h) cid (wp_token p) \<and>
    (\<exists>session. (LookupSession (wp_token p), JoinLookup cid (wp_token p), SessionReply True session) \<in> set (wh_replied h) \<and>
      session_found session \<and> session_accountId session = wp_accountId p \<and> session_username session = wp_username p) \<and>
    map_find (wp_playerId p) (connectionByPlayer (wh_state h)) = Some cid \<and>
    map_find (wp_playerId p) (mPlayers (simulation (wh_state h))) \<noteq> None"
proof -
  have "admitted (wh_replied h) cid p" and rest: "map_find (wp_playerId p) (connectionByPlayer (wh_state h)) = Some cid \<and>
      map_find (wp_playerId p) (mPlayers (simulation (wh_state h))) \<noteq> None"
    using inv_parts(1,2) [OF reach_inv [OF assms(1,2)]] assms(3) unfolding world_tables_ok_def players_admitted_def by blast+
  then obtain session where session: "confirmed_for (wh_replied h) cid (wp_token p) session" "session_accountId session = wp_accountId p"
      "session_username session = wp_username p" by (auto simp: admitted_def)
  with confirmed_presented [OF assms(1) session(1)] rest show ?thesis by (auto simp: confirmed_for_def)
qed

theorem world_players_authenticated_witness:
  "\<exists>p. map_find 5 (playersByConnection (wh_state joined)) = Some p \<and> presented (wh_messages joined) 5 (wp_token p) \<and>
     (LookupSession (wp_token p), JoinLookup 5 (wp_token p), SessionReply True sample_session) \<in> set (wh_replied joined)"
proof -
  obtain p where p: "map_find 5 (playersByConnection (wh_state joined)) = Some p" using joined_player by blast
  have "length (wh_replied joined) < 2 ^ 64 - 2" by (simp add: joined_replied)
  from world_players_authenticated [OF joined_reach this p] p show ?thesis by (auto simp: joined_replied)
qed

text \<open>C2. The snapshot stream goes only where it was asked for with a valid token. Every datagram the world
  server has sent, and every one it holds back for the simulated latency, is addressed to an
  address from which a hello arrived with a token that had been presented in a join request, that the database was asked to look up, and that its
  reply confirmed as a live session.\<close>

theorem snapshots_only_to_authentic:
  assumes "world_reach lib lm cfg h" and "length (wh_replied h) < 2 ^ 64 - 2"
    and "(a, data) \<in> set (udpOut (wh_state h)) \<or> (\<exists>d \<in> set (delayedOutgoing (wh_state h)). dp_address d = a)"
  shows "\<exists>playerId token cid session. (a, playerId, token) \<in> set (wh_hellos h) \<and> presented (wh_messages h) cid token \<and>
    (LookupSession token, JoinLookup cid token, SessionReply True session) \<in> set (wh_replied h) \<and> session_found session"
proof -
  have "authentic (wh_replied h) (wh_hellos h) a"
    using inv_parts(3) [OF reach_inv [OF assms(1,2)]] assms(3) unfolding streams_ok_def by fastforce
  then obtain playerId token cid session where "(a, playerId, token) \<in> set (wh_hellos h)" "confirmed_for (wh_replied h) cid token session"
    by (auto simp: authentic_def)
  with confirmed_presented [OF assms(1) this(2)] show ?thesis by (auto simp: confirmed_for_def)
qed

theorem snapshots_only_to_authentic_witness:
  "\<exists>playerId token cid session. (ann_address, playerId, token) \<in> set (wh_hellos streaming) \<and> presented (wh_messages streaming) cid token \<and>
    (LookupSession token, JoinLookup cid token, SessionReply True session) \<in> set (wh_replied streaming) \<and> session_found session"
proof -
  obtain data where "(ann_address, data) \<in> set (udpOut (wh_state streaming))" using streaming_sends by blast
  moreover have "length (wh_replied streaming) < 2 ^ 64 - 2" by (simp add: streaming_replied joined_replied)
  ultimately show ?thesis using snapshots_only_to_authentic [OF streaming_reach] by blast
qed

text \<open>C12. A join succeeds only with a confirmed session, and redeems it: whenever a join response saying Success
  is sent to a connection, a token had been presented there in a join request, the database had been asked to look up that token and had confirmed its session, the
  response carries that session's user name and the configured UDP port, and deleting the session of that same token
  has been requested.\<close>

theorem join_success_authentic:
  assumes "world_reach lib lm cfg h" and "Send cid (WorldMessage_code JoinResponse) payload \<in> set (world_outbox (wh_state h))"
    and "payload \<noteq> []" and "hd payload = JoinResult_code JoinSuccess"
  shows "\<exists>token session playerId entityId. presented (wh_messages h) cid token \<and>
    (LookupSession token, JoinLookup cid token, SessionReply True session) \<in> set (wh_replied h) \<and>
    session_found session \<and> (DeleteSession token, SessionDeleted) \<in> set (wh_calls h) \<and>
    payload = join_response JoinSuccess playerId (cfg_udpPort cfg) (session_username session) entityId"
proof -
  have "\<not> no_join_success (Send cid (WorldMessage_code JoinResponse) payload)"
    using assms(3,4) by (simp add: no_join_success_def)
  then obtain token session playerId entityId where j: "confirmed_for (wh_replied h) cid token session"
      "(DeleteSession token, SessionDeleted) \<in> set (wh_calls h)"
      "payload = join_response JoinSuccess playerId (cfg_udpPort cfg) (session_username session) entityId"
    using reach_responses [OF assms(1)] assms(2) unfolding responses_justified_def by blast
  with confirmed_presented [OF assms(1) j(1)] show ?thesis by (auto simp: confirmed_for_def)
qed

lemma joined_response: "\<exists>entityId. Send 5 (WorldMessage_code JoinResponse) (join_response JoinSuccess 1 7003 ''ann'' entityId)
    \<in> set (world_outbox (wh_state joined))"
proof -
  have "cfg_udpPort sample_config = 7003" by (simp add: sample_config_def world_config_def envPort_def)
  moreover have "nextPlayerId (wh_state history0) = 1" by (simp add: history0_def history_start_def world_start_def)
  ultimately show ?thesis
    by (simp add: joined_def is_confirmed_def after_reply_def after_calls_def asks_to_join_state history0_empty world_run_def
        on_join_lookup_def sample_session_def Let_def posts split: prod.splits) blast
qed

theorem join_success_authentic_witness:
  "\<exists>token session. presented (wh_messages joined) 5 token \<and>
    (LookupSession token, JoinLookup 5 token, SessionReply True session) \<in> set (wh_replied joined) \<and>
    session_found session \<and> (DeleteSession token, SessionDeleted) \<in> set (wh_calls joined)"
proof -
  obtain entityId where r: "Send 5 (WorldMessage_code JoinResponse) (join_response JoinSuccess 1 7003 ''ann'' entityId)
      \<in> set (world_outbox (wh_state joined))" using joined_response by blast
  obtain rest where "join_response JoinSuccess 1 7003 ''ann'' entityId = JoinResult_code JoinSuccess # rest"
    using join_response_head by blast
  then show ?thesis
    using join_success_authentic [OF joined_reach r] by auto
qed

text \<open>C32. What clients can ask for is bounded. In every reachable state the simulated latency is at most two
  seconds, however it was set, and every movement input, whether waiting in the latency queue or in the simulation,
  is within full stick in both directions: not below -1 and not above 1 (a NaN compares with
  neither and is let through).\<close>

theorem world_requests_bounded:
  assumes "world_reach lib lm cfg h" and "length (wh_replied h) < 2 ^ 64 - 2"
  shows "simulatedLatencyMs (wh_state h) \<le> 2000 \<and>
    (\<forall>d \<in> set (delayedInputs (wh_state h)). sane_input (di_input d)) \<and>
    (\<forall>k p. map_find k (mPlayers (simulation (wh_state h))) = Some p \<longrightarrow> sane_input (ply_input p))"
  using reach_inv [OF assms] unfolding world_inv_def inputs_ok_def by blast

theorem world_requests_bounded_witness: "simulatedLatencyMs (wh_state joined) \<le> 2000"
proof -
  have "length (wh_replied joined) < 2 ^ 64 - 2" by (simp add: joined_replied)
  from world_requests_bounded [OF joined_reach this] show ?thesis by blast
qed

definition world_settings :: "'r world_state \<Rightarrow> u32 \<times> f32 \<times> f64 \<times> f32 \<times> f32" where
  "world_settings s = (simulatedLatencyMs s, mTimeSpeed (simulation s), mAnchorRealSeconds (simulation s),
     mAnchorTimeOfDay (simulation s), mTimeOfDay (simulation s))"

lemma settings_simps [simp]:
  "world_settings (world_post x s) = world_settings s" "world_settings (print ls s) = world_settings s"
  "world_settings (sendJoinResponse cid r pid port name eid s) = world_settings s"
  "world_settings (reply_latency cid n s) = world_settings s" "world_settings (reply_time cid ty n s) = world_settings s"
  "world_settings (world_removePlayer cid s) = world_settings s"
  by (simp_all add: world_settings_def world_post_def print_def sendJoinResponse_def reply_latency_def reply_time_def
      world_removePlayer_def removePlayer_def split: option.splits)

lemma settings_setInput: "world_settings (s\<lparr>simulation := setInput k i (simulation s)\<rparr>) = world_settings s"
  by (simp add: world_settings_def setInput_def split: option.splits)

lemma settings_join: "world_settings (fst (on_join_lookup lm cfg tm cid token ok session s)) = world_settings s"
proof -
  have "mTimeSpeed (snd (addPlayer lm k sim)) = mTimeSpeed sim \<and> mAnchorRealSeconds (snd (addPlayer lm k sim)) = mAnchorRealSeconds sim \<and>
      mAnchorTimeOfDay (snd (addPlayer lm k sim)) = mAnchorTimeOfDay sim \<and> mTimeOfDay (snd (addPlayer lm k sim)) = mTimeOfDay sim" for k sim
    by (simp add: addPlayer_def Let_def split: option.splits)
  from this [of "nextPlayerId s" "simulation s"] show ?thesis
    by (auto simp: on_join_lookup_def Let_def world_settings_def split: prod.splits) (simp_all add: posts)
qed

lemma u8_positive: "(x :: u8) \<noteq> 0 \<Longrightarrow> 1 \<le> x"
  by (simp add: word_le_nat_alt Suc_le_eq unat_gt_0)

text \<open>C9. Over the network only a game master changes the world. No TCP message by itself, no datagram and no
  disconnect changes the simulated latency or the world clock's speed and anchor; a database reply does so only if it confirms
  a session whose account is a game master or an administrator.\<close>

theorem remote_changes_authorised:
  "world_settings (fst (world_message cid ty data s)) = world_settings s \<and>
   world_settings (on_datagram tm d s) = world_settings s \<and> world_settings (world_removePlayer cid s) = world_settings s \<and>
   (world_settings (fst (world_run lm cfg tm k answer s)) \<noteq> world_settings s \<longrightarrow>
      (\<exists>session. answer = SessionReply True session \<and> session_found session \<and>
         PermissionLevel_code GameMaster \<le> session_permissionLevel session))"
proof (intro conjI impI)
  show "world_settings (fst (world_message cid ty data s)) = world_settings s"
    by (simp add: world_message_def on_join_request_def on_latency_request_def on_time_request_def on_logout_request_def Let_def
        split: prod.splits)
  show "world_settings (on_datagram tm d s) = world_settings s"
    by (simp add: on_datagram_def on_client_hello_def on_client_datagram_def accept_input_def Let_def settings_setInput
        split: prod.splits option.splits) (simp add: world_settings_def setInput_def split: option.splits)
  show "world_settings (world_removePlayer cid s) = world_settings s" by simp
  assume "world_settings (fst (world_run lm cfg tm k answer s)) \<noteq> world_settings s"
  then show "\<exists>session. answer = SessionReply True session \<and> session_found session \<and>
      PermissionLevel_code GameMaster \<le> session_permissionLevel session"
    by (cases k; cases answer)
      (auto simp: world_run_def settings_join on_latency_lookup_def on_time_lookup_def on_console_create_def on_console_delete_def
        on_console_level_def Let_def u8_positive split: if_splits)
qed

theorem remote_changes_authorised_witness:
  "PermissionLevel_code GameMaster \<le> session_permissionLevel sample_session"
proof -
  let ?s = "wh_state history0"
  have "simulatedLatencyMs ?s = 0" by (simp add: history0_def history_start_def world_start_def)
  then have "world_settings (fst (world_run sample_libm sample_config sample_clocks (LatencyLookup 5 100) (SessionReply True sample_session) ?s))
      \<noteq> world_settings ?s"
    by (simp add: world_run_def on_latency_lookup_def sample_session_def) (simp add: world_settings_def)
  then show ?thesis using remote_changes_authorised [of _ _ _ ?s] by blast
qed

text \<open>A duplicated join leaves a ghost. A client that sends its join request twice before the first is
  answered, and then disconnects, leaves a state in which no connection has a player and yet a player's body
  remains in the simulation, and is streamed in every snapshot from then on.\<close>

theorem duplicate_join_leaves_ghost:
  "\<exists>h. world_reach sample_sodium sample_libm sample_config h \<and> playersByConnection (wh_state h) = [] \<and>
     length (snap_entities (buildSnapshot sample_libm (simulation (wh_state h)) out)) = 2"
  by (rule exI [of _ ghost]) (simp add: ghost_reach ghost_tables buildSnapshot_def)

text \<open>The constant-time comparison of tokens decides equality, although it looks at every
  byte and never stops early.\<close>

theorem constant_time_equality: "constantTimeEquals a b \<longleftrightarrow> a = b"
  using difference_zero [of "string_bytes a" "string_bytes b" 0]
  by (auto simp: constantTimeEquals_def) (metis bytes_string_inverse string_bytes_inverse)

end
