(* ===== verification/Prediction.thy ===== *)
theory Prediction
  imports Simulation WorldServer
begin

text \<open>
  \<^verbatim>\<open>client/src/prediction.cpp\<close>: the client's prediction of its own character. It runs the movement
  rule of \<open>Character\<close> on every input at once, keeps the inputs the server has not acknowledged, and
  on every authoritative state rewinds and replays them. The base-2 exponential of libm is an
  argument of \<open>updateSmoothing\<close>. The lemmas relate the prediction to the server's simulation.
\<close>

definition kPositionTolerance :: f32 where "kPositionTolerance = f_ratio 2 100"
definition kSmoothingHalfLife :: f32 where "kSmoothingHalfLife = f_ratio 8 100"
definition kMaxSmoothedCorrection :: f32 where "kMaxSmoothedCorrection = f_of_int 2"
definition kTickSeconds :: f32 where "kTickSeconds = fdiv (f_of_int 1) (f_of_int kServerTickHz)"
definition kMaxPending :: nat where "kMaxPending = 256"

definition distance :: "Vec3 \<Rightarrow> Vec3 \<Rightarrow> f32" where
  "distance a b =
     (let dx = fsub (vec_x a) (vec_x b);
          dy = fsub (vec_y a) (vec_y b);
          dz = fsub (vec_z a) (vec_z b)
      in fsqrt (fadd (fadd (fmul dx dx) (fmul dy dy)) (fmul dz dz)))"

record Prediction =
  mCharacter :: Character
  mActive :: bool
  mPending :: "CharacterInput list"
  mNextSequence :: u32
  mSmoothingOffset :: Vec3
  mRollbacks :: u32
  mLastCorrection :: f32

definition new_prediction :: Prediction where
  "new_prediction = \<lparr>mCharacter = new_character, mActive = False, mPending = [], mNextSequence = 1,
     mSmoothingOffset = vec3_zero, mRollbacks = 0, mLastCorrection = 0\<rparr>"

definition prediction_shutdown :: "Prediction \<Rightarrow> Prediction" where
  "prediction_shutdown p = p\<lparr>mCharacter := new_character, mPending := [], mActive := False\<rparr>"

definition prediction_init :: "Vec3 \<Rightarrow> Prediction \<Rightarrow> Prediction" where
  "prediction_init spawnPosition p =
     (let p = prediction_shutdown p in
      p\<lparr>mCharacter := new_character\<lparr>chr_position := spawnPosition\<rparr>, mPending := [], mNextSequence := 1,
        mSmoothingOffset := vec3_zero, mRollbacks := 0, mLastCorrection := 0, mActive := True\<rparr>)"

definition simulateTick :: "libm \<Rightarrow> CharacterInput \<Rightarrow> Prediction \<Rightarrow> Prediction" where
  "simulateTick lm input p = p\<lparr>mCharacter := stepCharacter lm input kTickSeconds (mCharacter p)\<rparr>"

text \<open>The loop that bounds the history: it pops from the front while there are more than \<open>kMaxPending\<close>.\<close>

fun trim_pending :: "CharacterInput list \<Rightarrow> CharacterInput list" where
  "trim_pending [] = []"
| "trim_pending (input # pending) =
     (if length (input # pending) > kMaxPending then trim_pending pending else input # pending)"

definition prediction_step ::
  "libm \<Rightarrow> f32 \<Rightarrow> f32 \<Rightarrow> f32 \<Rightarrow> bool \<Rightarrow> bool \<Rightarrow> Prediction \<Rightarrow> CharacterInput \<times> Prediction" where
  "prediction_step lm moveForward moveRight yaw jump sprint p =
     (let input = \<lparr>in_sequence = mNextSequence p, in_moveForward = moveForward, in_moveRight = moveRight,
            in_yaw = yaw, in_jump = jump, in_sprint = sprint\<rparr>;
          p = p\<lparr>mNextSequence := mNextSequence p + 1\<rparr>
      in if \<not> mActive p then (input, p)
         else (let p = simulateTick lm input p in
               (input, p\<lparr>mPending := trim_pending (mPending p @ [input])\<rparr>)))"

definition smooth_correction :: "Vec3 \<Rightarrow> Vec3 \<Rightarrow> Prediction \<Rightarrow> Prediction" where
  "smooth_correction predictedBefore predictedAfter p =
     (let offset = mSmoothingOffset p in p\<lparr>mSmoothingOffset :=
        \<lparr>vec_x = fadd (vec_x offset) (fsub (vec_x predictedBefore) (vec_x predictedAfter)),
         vec_y = fadd (vec_y offset) (fsub (vec_y predictedBefore) (vec_y predictedAfter)),
         vec_z = fadd (vec_z offset) (fsub (vec_z predictedBefore) (vec_z predictedAfter))\<rparr>\<rparr>)"

definition reconcile :: "libm \<Rightarrow> EntityState \<Rightarrow> Prediction \<Rightarrow> Prediction" where
  "reconcile lm authoritative p =
     (if \<not> mActive p then p
      else
        (let acked = ent_lastInputSequence authoritative;
             p = p\<lparr>mPending := dropWhile (\<lambda>input. in_sequence input \<le> acked) (mPending p)\<rparr>;
             predictedBefore = chr_position (mCharacter p);
             p = p\<lparr>mCharacter := (mCharacter p)\<lparr>chr_position := ent_position authoritative,
                      chr_velocity := ent_velocity authoritative\<rparr>\<rparr>;
             p = fold (simulateTick lm) (mPending p) p;
             predictedAfter = chr_position (mCharacter p);
             err = distance predictedBefore predictedAfter;
             p = p\<lparr>mLastCorrection := err\<rparr>
         in if fle err kPositionTolerance then p
            else (let p = p\<lparr>mRollbacks := mRollbacks p + 1\<rparr> in
                  if flt kMaxSmoothedCorrection err then p\<lparr>mSmoothingOffset := vec3_zero\<rparr>
                  else smooth_correction predictedBefore predictedAfter p)))"

definition updateSmoothing :: "(f32 \<Rightarrow> f32) \<Rightarrow> f32 \<Rightarrow> Prediction \<Rightarrow> Prediction" where
  "updateSmoothing exp2 deltaSeconds p =
     (let decay = exp2 (fdiv (fneg deltaSeconds) kSmoothingHalfLife);
          offset = mSmoothingOffset p
      in p\<lparr>mSmoothingOffset := \<lparr>vec_x = fmul (vec_x offset) decay, vec_y = fmul (vec_y offset) decay,
           vec_z = fmul (vec_z offset) decay\<rparr>\<rparr>)"

definition renderPosition :: "Prediction \<Rightarrow> Vec3" where
  "renderPosition p =
     (if \<not> mActive p then vec3_zero
      else (let at = chr_position (mCharacter p); offset = mSmoothingOffset p in
        \<lparr>vec_x = fadd (vec_x at) (vec_x offset), vec_y = fadd (vec_y at) (vec_y offset),
         vec_z = fadd (vec_z at) (vec_z offset)\<rparr>))"

definition pendingInputCount :: "Prediction \<Rightarrow> u32" where
  "pendingInputCount p = word_of_nat (length (mPending p))"

section \<open>One rule at both ends\<close>

lemma same_tick: "kTickSeconds = f_of_d tickSeconds"
  by code_simp

definition replay :: "libm \<Rightarrow> CharacterInput list \<Rightarrow> Character \<Rightarrow> Character" where
  "replay lm inputs = fold (\<lambda>input. stepCharacter lm input kTickSeconds) inputs"

lemma replay_simps [simp]:
  "replay lm [] c = c" "replay lm (i # is) c = replay lm is (stepCharacter lm i kTickSeconds c)"
  "replay lm (is @ js) c = replay lm js (replay lm is c)"
  by (simp_all add: replay_def)

lemma fold_simulateTick: "fold (simulateTick lm) inputs p = p\<lparr>mCharacter := replay lm inputs (mCharacter p)\<rparr>"
  by (induction inputs arbitrary: p) (simp_all add: simulateTick_def)

text \<open>The facing direction has no influence on the rest of the state, and after a run of inputs it is
  that of the last one that wished to move.\<close>

definition turn :: "libm \<Rightarrow> CharacterInput \<Rightarrow> f32 \<Rightarrow> f32" where
  "turn lm input facing = (if flt (f_of_int 0) (snd (snd (wish_direction lm input))) then in_yaw input else facing)"

lemma stepCharacter_facing:
  "chr_facingYaw (stepCharacter lm input dt c) = turn lm input (chr_facingYaw c)"
  by (simp add: stepCharacter_parts turn_def step_facing_def)

lemma step_parts_turned:
  "step_horizontal x z s (c\<lparr>chr_facingYaw := f\<rparr>) = (step_horizontal x z s c)\<lparr>chr_facingYaw := f\<rparr>"
  "step_vertical j dt (c\<lparr>chr_facingYaw := f\<rparr>) = (step_vertical j dt c)\<lparr>chr_facingYaw := f\<rparr>"
  "step_move dt (c\<lparr>chr_facingYaw := f\<rparr>) = (step_move dt c)\<lparr>chr_facingYaw := f\<rparr>"
  "step_ground (c\<lparr>chr_facingYaw := f\<rparr>) = (step_ground c)\<lparr>chr_facingYaw := f\<rparr>"
  "step_facing l y (c\<lparr>chr_facingYaw := f\<rparr>) =
     (step_facing l y c)\<lparr>chr_facingYaw := (if flt (f_of_int 0) l then y else f)\<rparr>"
  by (simp_all add: step_horizontal_def step_vertical_def step_move_def step_ground_def step_facing_def Let_def)

lemma stepCharacter_turned:
  "stepCharacter lm input dt (c\<lparr>chr_facingYaw := f\<rparr>) = (stepCharacter lm input dt c)\<lparr>chr_facingYaw := turn lm input f\<rparr>"
  by (simp add: stepCharacter_parts step_parts_turned turn_def)

lemma replay_turned:
  "replay lm inputs (c\<lparr>chr_facingYaw := f\<rparr>) = (replay lm inputs c)\<lparr>chr_facingYaw := fold (turn lm) inputs f\<rparr>"
  by (induction inputs arbitrary: c f) (simp_all add: stepCharacter_turned)

lemma replay_facing: "chr_facingYaw (replay lm inputs c) = fold (turn lm) inputs (chr_facingYaw c)"
  by (induction inputs arbitrary: c) (simp_all add: stepCharacter_facing)

lemma turn_settles: "fold (turn lm) inputs (fold (turn lm) inputs f) = fold (turn lm) inputs f"
proof (induction inputs rule: rev_induct)
  case (snoc x xs)
  then show ?case by (simp add: turn_def [of _ x])
qed simp

lemma replay_refaced:
  "replay lm inputs (c\<lparr>chr_facingYaw := chr_facingYaw (replay lm inputs c)\<rparr>) = replay lm inputs c"
proof -
  have "(replay lm inputs c)\<lparr>chr_facingYaw := chr_facingYaw (replay lm inputs c)\<rparr> = replay lm inputs c"
    by simp
  then show ?thesis by (simp add: replay_turned replay_facing turn_settles)
qed

section \<open>The history of inputs\<close>

lemma trim_pending_eq: "trim_pending xs = drop (length xs - kMaxPending) xs"
  by (induction xs) (auto simp: Suc_diff_le)

text \<open>The predictions a client can reach once it is in the world.\<close>

inductive predicting :: "libm \<Rightarrow> Prediction \<Rightarrow> bool" for lm where
  predicting_init: "predicting lm (prediction_init spawn p)"
| predicting_step: "predicting lm p \<Longrightarrow> predicting lm (snd (prediction_step lm f r y j s p))"
| predicting_reconcile: "predicting lm p \<Longrightarrow> predicting lm (reconcile lm e p)"
| predicting_smooth: "predicting lm p \<Longrightarrow> predicting lm (updateSmoothing exp2 dt p)"

text \<open>The pending inputs carry consecutive sequence numbers up to the next one.\<close>

definition consecutive :: "u32 \<Rightarrow> CharacterInput list \<Rightarrow> bool" where
  "consecutive newer inputs \<longleftrightarrow> (\<forall>i < length inputs. in_sequence (inputs ! i) = newer - of_nat (length inputs - i))"

lemma consecutive_drop: "consecutive newer inputs \<Longrightarrow> consecutive newer (drop n inputs)"
  by (auto simp: consecutive_def less_diff_conv add.commute)

lemma consecutive_append:
  assumes "consecutive newer inputs" and "in_sequence i = newer"
  shows "consecutive (newer + 1) (inputs @ [i])"
  using assms by (auto simp: consecutive_def nth_append less_Suc_eq Suc_diff_le)

definition history_ok :: "Prediction \<Rightarrow> bool" where
  "history_ok p \<longleftrightarrow> mActive p \<and> length (mPending p) \<le> kMaxPending \<and> consecutive (mNextSequence p) (mPending p)"

lemma reconcile_fields:
  assumes "mActive p"
  shows "mPending (reconcile lm e p) = dropWhile (\<lambda>i. in_sequence i \<le> ent_lastInputSequence e) (mPending p)"
    "mNextSequence (reconcile lm e p) = mNextSequence p" "mActive (reconcile lm e p)"
  using assms by (simp_all add: reconcile_def fold_simulateTick smooth_correction_def Let_def)

lemma step_fields:
  assumes "mActive p" and "prediction_step lm f r y j s p = (i, q)"
  shows "i = \<lparr>in_sequence = mNextSequence p, in_moveForward = f, in_moveRight = r, in_yaw = y, in_jump = j, in_sprint = s\<rparr>"
    "q = p\<lparr>mNextSequence := mNextSequence p + 1, mCharacter := stepCharacter lm i kTickSeconds (mCharacter p),
       mPending := trim_pending (mPending p @ [i])\<rparr>"
  using assms by (auto simp: prediction_step_def simulateTick_def Let_def)

lemma history_step:
  assumes "history_ok p"
  shows "history_ok (snd (prediction_step lm f r y j s p))"
proof -
  obtain i q where run: "prediction_step lm f r y j s p = (i, q)" by (cases "prediction_step lm f r y j s p")
  have active: "mActive p" "consecutive (mNextSequence p) (mPending p)" using assms by (simp_all add: history_ok_def)
  note q = step_fields [OF active(1) run]
  have "consecutive (mNextSequence q) (mPending q)"
    unfolding q(2) trim_pending_eq by (simp add: consecutive_drop consecutive_append active q(1) del: drop_append)
  moreover have "length (mPending q) \<le> kMaxPending" unfolding q(2) trim_pending_eq by simp
  ultimately show ?thesis using active(1) q(2) by (simp add: history_ok_def run)
qed

lemma history_reconcile: "history_ok p \<Longrightarrow> history_ok (reconcile lm e p)"
  using length_dropWhile_le [of "\<lambda>i. in_sequence i \<le> ent_lastInputSequence e" "mPending p"]
  by (auto simp: history_ok_def reconcile_fields dropWhile_eq_drop consecutive_drop)

lemma predicting_history: "predicting lm p \<Longrightarrow> history_ok p"
proof (induction rule: predicting.induct)
  case (predicting_init spawn p)
  show ?case by (simp add: history_ok_def prediction_init_def Let_def consecutive_def)
next
  case (predicting_smooth p exp2 dt)
  then show ?case by (simp add: history_ok_def updateSmoothing_def Let_def)
qed (simp_all add: history_step history_reconcile)

lemma consecutive_unat:
  assumes "consecutive newer inputs" and "length inputs \<le> unat newer" and "i < length inputs"
  shows "unat (in_sequence (inputs ! i)) = unat newer - (length inputs - i)"
proof -
  have "unat newer < 2 ^ 32" by (rule order_less_le_trans [OF unsigned_less]) simp
  then have "length inputs - i < 2 ^ 32" using assms(2) by simp
  then have small: "unat (of_nat (length inputs - i) :: u32) = length inputs - i" by (simp add: unat_of_nat)
  then have "unat (newer - of_nat (length inputs - i)) = unat newer - (length inputs - i)"
    using assms(2) by (subst unat_sub) (simp_all add: word_le_nat_alt)
  then show ?thesis using assms(1,3) by (simp add: consecutive_def)
qed

lemma consecutive_sorted:
  assumes "consecutive newer inputs" and "length inputs \<le> unat newer"
  shows "sorted_wrt (\<lambda>a b. in_sequence a < in_sequence b) inputs"
  unfolding sorted_wrt_iff_nth_less
proof (intro allI impI)
  fix i j assume "i < j" "j < length inputs"
  then show "in_sequence (inputs ! i) < in_sequence (inputs ! j)"
    using consecutive_unat [OF assms, of i] consecutive_unat [OF assms, of j] assms(2)
    by (simp add: word_less_nat_alt)
qed

lemma dropWhile_sorted:
  fixes a :: u32
  shows "sorted_wrt (\<lambda>a b. in_sequence a < in_sequence b) inputs \<Longrightarrow>
    dropWhile (\<lambda>i. in_sequence i \<le> a) inputs = filter (\<lambda>i. a < in_sequence i) inputs"
  by (induction inputs) (auto simp: not_le not_less filter_id_conv intro: less_trans sym [OF filter_True])

lemma dropWhile_acknowledged:
  assumes "sorted_wrt (\<lambda>a b. in_sequence a < in_sequence b) inputs"
    and "(if m = 0 then list_all (\<lambda>i. acked < in_sequence i) inputs else m \<le> length inputs \<and> acked = in_sequence (inputs ! (m - 1)))"
  shows "dropWhile (\<lambda>i. in_sequence i \<le> acked) inputs = drop m inputs"
proof (cases "m = 0")
  case True
  with assms(2) show ?thesis
    by (cases inputs) auto
next
  case False
  with assms(2) have m: "m \<le> length inputs" "acked = in_sequence (inputs ! (m - 1))" by simp_all
  have "in_sequence (inputs ! i) \<le> acked" if "i < m" for i
  proof (cases "i = m - 1")
    case False
    with that m(1) have "i < m - 1" "m - 1 < length inputs" by simp_all
    from sorted_wrt_nth_less [OF assms(1) this] show ?thesis by (simp add: m(2))
  qed (simp add: m(2))
  then have "\<forall>i \<in> set (take m inputs). in_sequence i \<le> acked"
    using m(1) by (auto simp: in_set_conv_nth)
  moreover have "\<not> in_sequence (hd (drop m inputs)) \<le> acked" if "drop m inputs \<noteq> []"
    using sorted_wrt_nth_less [OF assms(1), of "m - 1" m] that False m by (simp add: hd_drop_conv_nth)
  then have "dropWhile (\<lambda>i. in_sequence i \<le> acked) (drop m inputs) = drop m inputs"
    by (cases "drop m inputs") auto
  ultimately have "dropWhile (\<lambda>i. in_sequence i \<le> acked) (take m inputs @ drop m inputs) = drop m inputs"
    by (subst dropWhile_append2) auto
  then show ?thesis by simp
qed

section \<open>The client and the server side by side\<close>

type_synonym movement = "f32 \<times> f32 \<times> f32 \<times> bool \<times> bool"

fun predict :: "libm \<Rightarrow> movement list \<Rightarrow> Prediction \<Rightarrow> CharacterInput list \<times> Prediction" where
  "predict lm [] p = ([], p)"
| "predict lm ((f, r, y, j, s) # moves) p =
     (case prediction_step lm f r y j s p of (input, p) \<Rightarrow>
      case predict lm moves p of (inputs, p) \<Rightarrow> (input # inputs, p))"

definition serve :: "libm \<Rightarrow> u64 \<Rightarrow> (CharacterInput \<times> f64) list \<Rightarrow> Simulation \<Rightarrow> Simulation" where
  "serve lm playerId = fold (\<lambda>(input, now) sim. sim_step lm (f_of_d tickSeconds) now (setInput playerId input sim))"

lemma predict_run:
  assumes "mActive p" and "length (mPending p) + length moves \<le> kMaxPending" and "predict lm moves p = (inputs, q)"
  shows "length inputs = length moves \<and> q = p\<lparr>mCharacter := replay lm inputs (mCharacter p),
      mPending := mPending p @ inputs, mNextSequence := mNextSequence p + of_nat (length moves)\<rparr> \<and>
    consecutive (mNextSequence p + of_nat (length moves)) inputs"
  using assms
proof (induction moves arbitrary: p inputs q)
  case Nil
  then show ?case by (simp add: consecutive_def)
next
  case (Cons move moves)
  obtain f r y j s where move: "move = (f, r, y, j, s)" by (cases move)
  obtain i p1 where run: "prediction_step lm f r y j s p = (i, p1)" by (cases "prediction_step lm f r y j s p")
  note p1 = step_fields [OF Cons.prems(1) run]
  have fits: "trim_pending (mPending p @ [i]) = mPending p @ [i]"
    using Cons.prems(2) by (simp add: trim_pending_eq)
  obtain rest where rest: "predict lm moves p1 = (rest, q)" "inputs = i # rest"
    using Cons.prems(3) by (auto simp: move run split: prod.splits)
  have IH: "length rest = length moves \<and> q = p1\<lparr>mCharacter := replay lm rest (mCharacter p1),
      mPending := mPending p1 @ rest, mNextSequence := mNextSequence p1 + of_nat (length moves)\<rparr> \<and>
    consecutive (mNextSequence p1 + of_nat (length moves)) rest"
    using Cons.prems(1,2) by (intro Cons.IH rest(1)) (simp_all add: p1(2) fits)
  have "consecutive (mNextSequence p + of_nat (length (move # moves))) (i # rest)"
    using IH p1 by (auto simp: consecutive_def nth_Cons split: nat.splits)
  then show ?case
    using IH by (simp add: rest(2) p1(2) fits algebra_simps)
qed

lemma serve_run:
  assumes "map_find k (mPlayers sim) = Some player"
    and "sorted_wrt (\<le>) (in_sequence (ply_input player) # map (in_sequence \<circ> fst) consumed)"
  shows "\<exists>last_input. map_find k (mPlayers (serve lm k consumed sim)) = Some (player\<lparr>
      ply_character := replay lm (map fst consumed) (ply_character player), ply_input := last_input,
      ply_lastInputSequence := (if consumed = [] then ply_lastInputSequence player else in_sequence (fst (last consumed)))\<rparr>)"
  using assms
proof (induction consumed arbitrary: sim player)
  case Nil
  then show ?case by (intro exI [of _ "ply_input player"]) (simp add: serve_def)
next
  case (Cons x rest)
  obtain input now where x: "x = (input, now)" by (cases x)
  let ?sim = "sim_step lm (f_of_d tickSeconds) now (setInput k input sim)"
  let ?player = "player\<lparr>ply_character := stepCharacter lm input kTickSeconds (ply_character player),
    ply_lastInputSequence := in_sequence input, ply_input := input\<lparr>in_jump := False\<rparr>\<rparr>"
  have "map_find k (mPlayers (setInput k input sim)) = Some (player\<lparr>ply_input := input\<rparr>)"
    using setInput_find [OF Cons.prems(1), of input] Cons.prems(2) by (auto simp: x dest: leD)
  then have found: "map_find k (mPlayers ?sim) = Some ?player"
    by (simp add: step_find step_player_def same_tick)
  have "\<exists>last_input. map_find k (mPlayers (serve lm k rest ?sim)) = Some (?player\<lparr>
      ply_character := replay lm (map fst rest) (ply_character ?player), ply_input := last_input,
      ply_lastInputSequence := (if rest = [] then ply_lastInputSequence ?player else in_sequence (fst (last rest)))\<rparr>)"
    using Cons.prems(2) by (intro Cons.IH found) (simp add: x)
  then show ?case by (auto simp: serve_def x)
qed

definition number :: "f32 \<Rightarrow> bool" where
  "number x \<longleftrightarrow> (case fp32 x of Finite _ _ _ \<Rightarrow> True | _ \<Rightarrow> False)"

lemma fsub_self: "number x \<Longrightarrow> fsub x x = 0"
  by (auto simp: number_def fsub_def fp_sub_def signed_def of_fp32_def encode_bits_def round_magnitude_def sign_field_def Let_def
      split: fp.splits)

lemma distance_self:
  assumes "list_all number [vec_x v, vec_y v, vec_z v]"
  shows "distance v v = 0"
proof -
  have "fsqrt (fadd (fadd (fmul 0 0) (fmul 0 0)) (fmul 0 0)) = 0" by code_simp
  then show ?thesis using assms by (simp add: distance_def fsub_self)
qed

lemma reconcile_agreed:
  assumes "mActive p" and "rest = dropWhile (\<lambda>i. in_sequence i \<le> ent_lastInputSequence e) (mPending p)"
    and "mCharacter p = replay lm rest c" and "ent_position e = chr_position c" and "ent_velocity e = chr_velocity c"
    and "chr_grounded c = chr_grounded (mCharacter p)"
  shows "mCharacter (reconcile lm e p) = mCharacter p"
    and "distance (chr_position (mCharacter p)) (chr_position (mCharacter p)) = 0 \<Longrightarrow>
      reconcile lm e p = p\<lparr>mPending := rest, mLastCorrection := 0\<rparr>"
proof -
  have "(mCharacter p)\<lparr>chr_position := ent_position e, chr_velocity := ent_velocity e\<rparr> =
      c\<lparr>chr_facingYaw := chr_facingYaw (replay lm rest c)\<rparr>"
    unfolding assms(3) [symmetric] using assms(4-6) by (cases c, cases "mCharacter p") auto
  then have same: "replay lm rest ((mCharacter p)\<lparr>chr_position := ent_position e, chr_velocity := ent_velocity e\<rparr>) = mCharacter p"
    using replay_refaced [of lm rest c] assms(3) by simp
  then show "mCharacter (reconcile lm e p) = mCharacter p"
    using assms(1,2) by (simp add: reconcile_def fold_simulateTick smooth_correction_def Let_def)
  have "fle 0 kPositionTolerance" by code_simp
  moreover have "p\<lparr>mPending := rest, mCharacter := mCharacter p, mLastCorrection := 0\<rparr> = p\<lparr>mPending := rest, mLastCorrection := 0\<rparr>"
    by (cases p) simp
  moreover assume "distance (chr_position (mCharacter p)) (chr_position (mCharacter p)) = 0"
  ultimately show "reconcile lm e p = p\<lparr>mPending := rest, mLastCorrection := 0\<rparr>"
    using assms(1,2) same by (simp add: reconcile_def fold_simulateTick Let_def)
qed

section \<open>Properties\<close>

text \<open>C31. The client keeps exactly the inputs the server has not acknowledged. In every state a predicting
  client can reach, at most 256 inputs are pending and their sequence numbers are consecutive,
  the newest just below the next one to be given. While the 32-bit numbering has not wrapped,
  an authoritative state removes those inputs with a number up to the acknowledged one and no other, and
  leaves the rest in order.\<close>

theorem pending_inputs_exact:
  assumes "predicting lm p" and "length (mPending p) \<le> unat (mNextSequence p)"
  shows "length (mPending p) \<le> 256 \<and>
    (\<forall>i < length (mPending p). in_sequence (mPending p ! i) = mNextSequence p - of_nat (length (mPending p) - i)) \<and>
    mPending (reconcile lm e p) = filter (\<lambda>i. ent_lastInputSequence e < in_sequence i) (mPending p)"
proof -
  have ok: "mActive p" "length (mPending p) \<le> kMaxPending" "consecutive (mNextSequence p) (mPending p)"
    using predicting_history [OF assms(1)] by (simp_all add: history_ok_def)
  show ?thesis
    using ok(2,3) dropWhile_sorted [OF consecutive_sorted [OF ok(3) assms(2)]]
    by (simp add: reconcile_fields(1) [OF ok(1)] consecutive_def kMaxPending_def)
qed

definition sample_prediction :: Prediction where
  "sample_prediction = snd (prediction_step sample_libm 0 0 0 False False (snd (prediction_step sample_libm 0 0 0 True False
     (prediction_init vec3_zero new_prediction))))"

definition sample_ack :: EntityState where
  "sample_ack = (player_state sample_libm sample_player)\<lparr>ent_lastInputSequence := 1\<rparr>"

theorem pending_inputs_exact_witness:
  "map in_sequence (mPending (reconcile sample_libm sample_ack sample_prediction)) = [2]"
proof -
  have reach: "predicting sample_libm sample_prediction"
    unfolding sample_prediction_def by (intro predicting.intros)
  have pending: "map in_sequence (mPending sample_prediction) = [1, 2]" "mNextSequence sample_prediction = 3"
    by (simp_all add: sample_prediction_def prediction_step_def simulateTick_def prediction_init_def
        prediction_shutdown_def trim_pending_eq kMaxPending_def Let_def)
  have "length (mPending sample_prediction) \<le> unat (mNextSequence sample_prediction)"
  proof -
    have "length (map in_sequence (mPending sample_prediction)) = 2" by (simp add: pending(1) del: length_map)
    then show ?thesis using pending(2) by simp
  qed
  from pending_inputs_exact [OF reach this, of sample_ack]
  have "map in_sequence (mPending (reconcile sample_libm sample_ack sample_prediction)) =
      map in_sequence (filter ((\<lambda>n. 1 < n) \<circ> in_sequence) (mPending sample_prediction))"
    by (simp add: sample_ack_def comp_def)
  also have "\<dots> = filter (\<lambda>n. 1 < n) [1, 2]"
    by (simp only: filter_map [symmetric] pending(1))
  finally show ?thesis by simp
qed

text \<open>What the server holds after the first inputs, and what its acknowledgement leaves of them all.\<close>

lemma serve_prefix:
  assumes "map_find k (mPlayers sim) = Some player" and "ply_character player = c"
    and "sorted_wrt (\<lambda>a b. in_sequence a < in_sequence b) inputs"
    and "\<forall>i \<in> set inputs. in_sequence (ply_input player) < in_sequence i \<and> ply_lastInputSequence player < in_sequence i"
    and "map fst consumed = take m inputs" and "map_find k (mPlayers (serve lm k consumed sim)) = Some server"
  shows "ply_character server = replay lm (take m inputs) c"
    and "dropWhile (\<lambda>i. in_sequence i \<le> ent_lastInputSequence (player_state lm server)) inputs = drop m inputs"
proof -
  define r where "r = min m (length inputs)"
  have "length (map fst consumed) = length (take m inputs)" by (simp only: assms(5))
  then have len: "length consumed = r" by (simp add: r_def)
  have "r \<le> length inputs" by (simp add: r_def)
  have parts: "map fst consumed = take r inputs" "take m inputs = take r inputs" "drop m inputs = drop r inputs"
    using assms(5) by (simp_all add: r_def min_def)
  have "sorted_wrt (\<le>) (map in_sequence (take r inputs))"
    using sorted_wrt_take [OF assms(3), of r] by (auto simp: sorted_wrt_map intro: sorted_wrt_mono_rel [rotated])
  moreover have "map (in_sequence \<circ> fst) consumed = map in_sequence (take r inputs)"
    by (simp only: map_map [symmetric] parts(1))
  ultimately have "sorted_wrt (\<le>) (in_sequence (ply_input player) # map (in_sequence \<circ> fst) consumed)"
    using assms(4) by (auto dest: in_set_takeD intro: less_imp_le)
  from serve_run [OF assms(1) this, of lm] assms(6) obtain last_input where server: "server = player\<lparr>
      ply_character := replay lm (take m inputs) c, ply_input := last_input,
      ply_lastInputSequence := (if consumed = [] then ply_lastInputSequence player else in_sequence (fst (last consumed)))\<rparr>"
    by (auto simp: parts(1,2) assms(2))
  show "ply_character server = replay lm (take m inputs) c" by (simp add: server)
  have "fst (last consumed) = inputs ! (r - 1)" if "consumed \<noteq> []"
  proof -
    have "0 < r" using that unfolding len [symmetric] by simp
    then have "take r inputs ! (r - 1) = inputs ! (r - 1)" by (intro nth_take) linarith
    moreover have "fst (last consumed) = map fst consumed ! (r - 1)"
      using that unfolding len [symmetric] by (simp add: last_conv_nth)
    ultimately show ?thesis by (simp only: parts(1))
  qed
  moreover have "consumed = [] \<longleftrightarrow> r = 0" using len by auto
  ultimately have "if r = 0 then list_all (\<lambda>i. ent_lastInputSequence (player_state lm server) < in_sequence i) inputs
      else r \<le> length inputs \<and> ent_lastInputSequence (player_state lm server) = in_sequence (inputs ! (r - 1))"
    using assms(4) \<open>r \<le> length inputs\<close> by (simp add: player_state_def Let_def server list_all_iff)
  from dropWhile_acknowledged [OF assms(3) this]
  show "dropWhile (\<lambda>i. in_sequence i \<le> ent_lastInputSequence (player_state lm server)) inputs = drop m inputs"
    by (simp only: parts(3))
qed

text \<open>C5. Prediction and authority agree. A client starts from the server's character and makes any
  moves; the server receives some number of the inputs, one per tick and in order, whatever its
  clock reads. Then the character the server holds is what the client computed after those inputs, bit for bit in
  binary32 arithmetic and for every libm, and when the client reconciles
  against the state the server sends while the two agree on whether the character stands on
  the ground, it drops the acknowledged inputs and changes nothing else: no rollback, no smoothing, no
  drift, however many inputs are in flight. Positions have to be finite; the facing direction,
  which is not sent, is restored by the replay. The agreement on the ground is a
  real condition: \<open>grounded\<close> is not part of the sent state and reconciling keeps the client's own.\<close>

theorem prediction_agrees_with_server:
  assumes "mActive p" and "mPending p = []" and "map_find k (mPlayers sim) = Some player"
    and "ply_character player = mCharacter p"
    and "in_sequence (ply_input player) < mNextSequence p" and "ply_lastInputSequence player < mNextSequence p"
    and "unat (mNextSequence p) + length moves < 2 ^ 32" and "length moves \<le> 256"
    and "predict lm moves p = (inputs, q)"
    and "map fst consumed = take m inputs"
    and "map_find k (mPlayers (serve lm k consumed sim)) = Some server"
    and "chr_grounded (ply_character server) = chr_grounded (mCharacter q)" and "chr_position (mCharacter q) = v"
  shows "ply_character server = replay lm (take m inputs) (mCharacter p) \<and>
    mCharacter q = replay lm (drop m inputs) (ply_character server) \<and>
    mCharacter (reconcile lm (player_state lm server) q) = mCharacter q \<and>
    mPending (reconcile lm (player_state lm server) q) = drop m inputs \<and>
    (list_all number [vec_x v, vec_y v, vec_z v] \<longrightarrow>
       reconcile lm (player_state lm server) q = q\<lparr>mPending := drop m inputs, mLastCorrection := 0\<rparr>)"
proof -
  let ?n = "mNextSequence p + of_nat (length moves)"
  have run: "length inputs = length moves" "consecutive ?n inputs"
    "q = p\<lparr>mCharacter := replay lm inputs (mCharacter p), mPending := inputs, mNextSequence := ?n\<rparr>"
    using predict_run [OF assms(1) _ assms(9)] assms(2,8) by (simp_all add: kMaxPending_def)
  have n: "unat ?n = unat (mNextSequence p) + length moves"
    using assms(7) by (simp add: unat_word_ariths unat_of_nat)
  have seq: "unat (in_sequence (inputs ! i)) = unat (mNextSequence p) + i" if "i < length inputs" for i
    using consecutive_unat [OF run(2) _ that] n run(1) that by simp
  have ordered: "sorted_wrt (\<lambda>a b. in_sequence a < in_sequence b) inputs"
    using run(1) by (intro consecutive_sorted [OF run(2)]) (simp add: n)
  have below: "a < in_sequence i" if "a < mNextSequence p" "i \<in> set inputs" for a i
    using that seq by (auto simp: in_set_conv_nth word_less_nat_alt)
  have rest: "ply_character server = replay lm (take m inputs) (mCharacter p)"
    "dropWhile (\<lambda>i. in_sequence i \<le> ent_lastInputSequence (player_state lm server)) (mPending q) = drop m inputs"
    using serve_prefix [OF assms(3,4) ordered _ assms(10,11)] below assms(5,6) run(3) by simp_all
  have whole: "mCharacter q = replay lm (drop m inputs) (ply_character server)"
    using replay_simps(3) [of lm "take m inputs" "drop m inputs" "mCharacter p"] by (simp add: run(3) rest(1))
  have "mActive q" using assms(1) run(3) by simp
  note agreed = reconcile_agreed [OF this rest(2) [symmetric] whole _ _ assms(12)]
  have sent: "ent_position (player_state lm server) = chr_position (ply_character server)"
    "ent_velocity (player_state lm server) = chr_velocity (ply_character server)"
    by (simp_all add: player_state_def Let_def)
  from whole agreed [OF sent] distance_self [of v] assms(13) rest show ?thesis
    by (simp add: reconcile_fields(1) [OF \<open>mActive q\<close>])
qed

theorem prediction_agrees_with_server_witness:
  "\<exists>inputs q server. predict sample_libm [(0, f_of_int 1, 0, False, False), (0, 0, 0, True, True)]
      (prediction_init vec3_zero new_prediction) = (inputs, q) \<and>
    map_find 7 (mPlayers (serve sample_libm 7 (zip inputs [5, 6])
      (new_simulation\<lparr>mPlayers := [(7, sample_player)]\<rparr>))) = Some server \<and>
    ply_lastInputSequence server = 2 \<and> ply_character server = mCharacter q \<and>
    mPending (reconcile sample_libm (player_state sample_libm server) q) = []"
proof -
  let ?moves = "[(0, f_of_int 1, 0, False, False), (0, 0, 0, True, True)] :: movement list"
  let ?p = "prediction_init vec3_zero new_prediction"
  let ?sim = "new_simulation\<lparr>mPlayers := [(7, sample_player)]\<rparr>"
  obtain inputs q where run: "predict sample_libm ?moves ?p = (inputs, q)"
    by (cases "predict sample_libm ?moves ?p")
  have p: "mActive ?p" "mPending ?p = []" "mNextSequence ?p = 1" "mCharacter ?p = new_character"
    by (simp_all add: prediction_init_def Let_def vec3_zero_def new_character_def)
  have inputs: "length inputs = 2" "consecutive 3 inputs"
    using predict_run [OF p(1) _ run] p(2,3) by (simp_all add: kMaxPending_def)
  then have seq: "in_sequence (inputs ! 0) = 1" "in_sequence (inputs ! 1) = 2"
    unfolding consecutive_def by (simp_all add: numeral_2_eq_2 [symmetric])
  obtain a b where ab: "inputs = [a, b]" using inputs(1) by (auto simp: numeral_2_eq_2 length_Suc_conv)
  let ?consumed = "zip inputs [5, 6] :: (CharacterInput \<times> f64) list"
  have found: "map_find 7 (mPlayers ?sim) = Some sample_player" by (simp add: map_find_def)
  have "sorted_wrt (\<le>) (in_sequence (ply_input sample_player) # map (in_sequence \<circ> fst) ?consumed)"
    using seq by (simp add: ab sample_player_def no_input_def)
  from serve_run [OF found this, of sample_libm] obtain server where
    server: "map_find 7 (mPlayers (serve sample_libm 7 ?consumed ?sim)) = Some server"
      "ply_character server = replay sample_libm inputs new_character" "ply_lastInputSequence server = 2"
    using seq by (auto simp: ab sample_player_def)
  have q: "mCharacter q = replay sample_libm inputs new_character"
    using predict_run [OF p(1) _ run] p(2,4) by (simp add: kMaxPending_def)
  have "mPending (reconcile sample_libm (player_state sample_libm server) q) = []"
    using prediction_agrees_with_server [OF p(1,2) found _ _ _ _ _ run, of ?consumed 2 server, OF _ _ _ _ _ _ server(1)] p server q
    by (simp add: ab sample_player_def no_input_def)
  with run server q show ?thesis by (intro exI conjI) simp_all
qed

end
