(* ===== verification/Session.thy ===== *)
theory Session
  imports NetClient Prediction
begin

text \<open>
  The client against the servers: every message of a session, from the login request to the
  input datagrams and snapshots, taken from the function that writes it to the function that
  reads it on the other side, and the client's own state machine over them.
\<close>

section \<open>What each end reads of what the other wrote\<close>

lemma read_login_request:
  assumes "string_fits username" "string_fits password"
  shows "read_all read_credentials (login_request username password) = (True, kProtocolVersion, username, password)"
  unfolding login_request_def read_credentials_def
  by (rule read_all_writes, simp, unfold concat_pieces)
    ((rule reads_bind, rule codec_reads | rule assms)+, rule reads_return_eq, simp)

lemma read_login_answer:
  assumes "string_fits token" "string_fits host"
  shows "read_all read_login_response (login_response result token host port accountId level) =
    (True, AuthResult_of (AuthResult_code result), token, host, port)"
proof -
  have "login_response result token host port accountId level = concat (map (\<lambda>w. w [])
      [writer_u8 (AuthResult_code result), writer_string token, writer_string host, writer_u16 port, writer_u64 accountId]) @
      writer_u8 level []"
    unfolding login_response_def by (subst writes_concat) simp_all
  moreover have "reads read_login_response (concat (map (\<lambda>w. w [])
      [writer_u8 (AuthResult_code result), writer_string token, writer_string host, writer_u16 port, writer_u64 accountId]))
      (AuthResult_of (AuthResult_code result), token, host, port)"
    unfolding read_login_response_def concat_pieces
    by ((rule reads_bind, rule codec_reads | rule assms)+, rule reads_return_eq, simp)
  ultimately show ?thesis by (simp only: read_all_reads)
qed

lemma read_join_request:
  assumes "string_fits token"
  shows "read_all read_join (join_request token) = (True, kProtocolVersion, token)"
  unfolding join_request_def read_join_def
  by (rule read_all_writes, simp, unfold concat_pieces)
    ((rule reads_bind, rule codec_reads | rule assms)+, rule reads_return_eq, simp)

lemma read_join_answer:
  assumes "string_fits username"
  shows "read_all read_join_response (join_response result playerId udpPort username entityId) =
    (True, JoinResult_of (JoinResult_code result), playerId, udpPort, username, entityId)"
  unfolding join_response_def read_join_response_def
  by (rule read_all_writes, simp, unfold concat_pieces)
    ((rule reads_bind, rule codec_reads | rule assms)+, rule reads_return_eq, simp)

text \<open>A datagram is its header and its body.\<close>

lemma datagram_parts:
  assumes "list_all appending ws"
  shows "readUdpHeader (writes ws (writeUdpHeader [] ty sequence)) (length (writes ws (writeUdpHeader [] ty sequence))) h 0 =
      (True, \<lparr>hdr_type = ty, hdr_sequence = sequence\<rparr>, 10)"
    and "drop 10 (writes ws (writeUdpHeader [] ty sequence)) = writes ws []"
proof -
  have split: "writes ws (writeUdpHeader [] ty sequence) = writeUdpHeader [] ty sequence @ writes ws []"
    using assms by (simp add: writes_concat)
  show "readUdpHeader (writes ws (writeUdpHeader [] ty sequence)) (length (writes ws (writeUdpHeader [] ty sequence))) h 0 =
      (True, \<lparr>hdr_type = ty, hdr_sequence = sequence\<rparr>, 10)"
    unfolding split readUdpHeader_def
    by (subst readsD [OF reads_udp_header, where rest = "writes ws []"]) simp_all
  show "drop 10 (writes ws (writeUdpHeader [] ty sequence)) = writes ws []"
    unfolding split by simp
qed

lemma read_hello_packet:
  assumes "string_fits token"
  shows "read_all read_hello (writes [writer_u64 playerId, writer_string token] []) = (True, playerId, token)"
  unfolding read_hello_def
  by (rule read_all_writes, simp, unfold concat_pieces)
    ((rule reads_bind, rule codec_reads | rule assms)+, rule reads_return_eq, simp)

lemma on_datagram_hello:
  assumes "string_fits token"
  shows "on_datagram tm (hello_packet playerId token, source) ws =
    on_client_hello tm source (writes [writer_u64 playerId, writer_string token] []) ws"
  unfolding on_datagram_def hello_packet_def prod.case
  by (subst datagram_parts(1), simp) (simp add: datagram_parts(2) WorldMessage_of_def del: writes.simps)

lemma read_input_packet:
  "read_all read_input (writes [writer_u64 playerId, writer_u32 sequence, writer_f32 f, writer_f32 r, writer_f32 y, writer_u8 b] []) =
    (True, playerId, no_input\<lparr>in_sequence := sequence, in_moveForward := f, in_moveRight := r, in_yaw := y\<rparr>, b)"
  unfolding read_input_def
  by (rule read_all_writes, simp, unfold concat_pieces)
    ((rule reads_bind, rule codec_reads)+, rule reads_return_eq, simp)

lemma on_datagram_input:
  "on_datagram tm (input_packet playerId f r y jump sprint sequence, source) ws =
    on_client_datagram tm source ClientInput (writes [writer_u64 playerId, writer_u32 sequence, writer_f32 f, writer_f32 r,
      writer_f32 y, writer_u8 (input_buttons jump sprint)] []) ws"
  unfolding on_datagram_def input_packet_def prod.case
  by (subst datagram_parts(1), simp) (simp add: datagram_parts(2) WorldMessage_of_def del: writes.simps)

lemma buttons_read [simp]:
  "(input_buttons jump sprint AND kInputJump \<noteq> 0) = jump" "(input_buttons jump sprint AND kInputSprint \<noteq> 0) = sprint"
  by (cases jump; cases sprint; simp add: input_buttons_def kInputJump_def kInputSprint_def)+

section \<open>Helpers\<close>

lemma difference_bits_same: "difference_bits acc xs xs = acc"
  by (induction xs arbitrary: acc) simp_all

lemma constantTimeEquals_refl [simp]: "constantTimeEquals a a"
  by (simp add: constantTimeEquals_def difference_bits_same)

lemma addPlayer_entity:
  "addPlayer lm k sim = (entityId, sim') \<Longrightarrow> map_option ply_entityId (map_find k (mPlayers sim')) = Some entityId"
  by (auto simp: addPlayer_def Let_def split: option.splits)

lemma sendTo_taken: "udp_sends u = Ret () # later \<Longrightarrow> udp_sent (snd (sendTo data to u)) = udp_sent u @ [(toSockaddr to, data)]"
  by (simp add: sendTo_def)

lemma hello_binds:
  assumes "string_fits token" and "map_find playerId (connectionByPlayer ws) = Some cid"
    and "map_find cid (playersByConnection ws) = Some player" and "wp_token player = token"
  shows "map_find cid (playersByConnection (on_datagram tm (hello_packet playerId token, source) ws)) =
    Some (player\<lparr>wp_udpBound := True, wp_udpAddress := source, wp_lastUdpPacket := steady tm\<rparr>)"
  using assms(2-4) by (simp add: on_datagram_hello [OF assms(1)] on_client_hello_def read_hello_packet [OF assms(1)] del: writes.simps)

text \<open>A network that answers, for the concrete instances below.\<close>

definition sample_socket :: TcpSocket where
  "sample_socket = \<lparr>sock_recvs = [], sock_sends = [], sock_sent = []\<rparr>"

definition sample_udp :: UdpSocket where
  "sample_udp = \<lparr>udp_recvs = [], udp_sends = [Ret ()], udp_sent = []\<rparr>"

definition sample_net :: Network where
  "sample_net = \<lparr>net_resolve = (\<lambda>_. Some \<lparr>sin_port = 0, sin_addr = 0x0100007F\<rparr>), net_connect = (\<lambda>_. Some sample_socket),
     net_writable = True, net_connected = True, net_open = (\<lambda>_. Some sample_udp)\<rparr>"

definition sample_address :: Address where
  "sample_address = \<lparr>addr_ip = 0x7F000001, addr_port = 40000\<rparr>"

definition sample_moment :: Clocks where
  "sample_moment = \<lparr>steady = 1000, realNow = 0, wallNow = (12, 0, 0)\<rparr>"

definition sample_world :: "nat world_state" where
  "sample_world = world_start (\<lambda>_. None) sample_moment 0"

definition sample_session :: SessionLookup where
  "sample_session = \<lparr>session_found = True, session_accountId = 1, session_username = ''ada'', session_permissionLevel = 0\<rparr>"

lemma sample_world_empty: "playersByConnection sample_world = []" "simulatedLatencyMs sample_world = 0"
  by (simp_all add: sample_world_def world_start_def)

lemma sample_net_simps:
  "net_resolve sample_net host = Some \<lparr>sin_port = 0, sin_addr = 0x0100007F\<rparr>" "net_connect sample_net a = Some sample_socket"
  by (simp_all add: sample_net_def)

section \<open>Properties\<close>

text \<open>C22. A login carries through to the join. What the client sends as its credentials the auth server reads
  as exactly those; the success response it sends once the session is stored takes the client
  to connecting to the world server named there, and the join request the client then sends is read
  by the world server as a request for the very session the auth server created.\<close>

theorem login_carries_through:
  assumes "string_fits username" and "string_fits password" and "string_fits token" and "string_fits (worldHost cfg)"
    and "resolve (net_resolve net (worldHost cfg)) (worldPort cfg) = Some address" and "net_connect net address = Some socket"
    and "map_find wid (playersByConnection ws) = None"
  shows "on_login_request aid (login_request username password) as = (as, [(LookupAccount username, LoginLookup aid password username)]) \<and>
    (\<exists>payload c'. outbox (on_login_session cfg aid token accountId level True DbOk as) =
        outbox as @ [Send aid (AuthMessage_code LoginResponse) payload] \<and>
      on_login_response net payload c = c' \<and> mState c' = ConnectingWorld \<and> mPendingWorldSocket c' = Some socket \<and>
      on_join_request wid (join_request (mToken c')) ws = (ws, [(LookupSession token, JoinLookup wid token)]))"
proof -
  let ?payload = "login_response AuthSuccess token (worldHost cfg) (worldPort cfg) accountId level"
  have "on_login_response net ?payload c = c\<lparr>mToken := token, mWorldHost := worldHost cfg, mWorldPort := worldPort cfg,
      mAuth := None, mPendingWorldSocket := Some socket, mState := ConnectingWorld\<rparr>"
    using assms(5,6) by (simp add: on_login_response_def read_login_answer [OF assms(3,4)] AuthResult_of_def)
  moreover have "on_join_request wid (join_request token) ws = (ws, [(LookupSession token, JoinLookup wid token)])"
    using assms(7) by (simp add: on_join_request_def read_join_request [OF assms(3)] map_count_def)
  moreover have "on_login_request aid (login_request username password) as = (as, [(LookupAccount username, LoginLookup aid password username)])"
    by (simp add: on_login_request_def read_login_request [OF assms(1,2)])
  moreover have "outbox (on_login_session cfg aid token accountId level True DbOk as) =
      outbox as @ [Send aid (AuthMessage_code LoginResponse) ?payload]"
    by (simp add: on_login_session_def sendLoginResponse_def post_def)
  ultimately show ?thesis by auto
qed

theorem login_carries_through_witness:
  "\<exists>payload c'. on_login_response sample_net payload (net_client\<lparr>mState := AwaitingLogin\<rparr>) = c' \<and> mState c' = ConnectingWorld \<and>
    on_join_request 9 (join_request (mToken c')) sample_world = (sample_world, [(LookupSession ''f00d'', JoinLookup 9 ''f00d'')])"
proof -
  let ?cfg = "auth_config (\<lambda>_. None)"
  have fits: "string_fits ''ada''" "string_fits ''secret''" "string_fits ''f00d''" "string_fits (worldHost ?cfg)"
    by (simp_all add: string_fits_def kMaxStringLength_def auth_config_def envString_def)
  have free: "map_find 9 (playersByConnection sample_world) = None" by (simp add: sample_world_empty)
  have found: "resolve (net_resolve sample_net (worldHost ?cfg)) (worldPort ?cfg) =
      Some \<lparr>addr_ip = htonl 0x0100007F, addr_port = worldPort ?cfg\<rparr>"
    by (simp add: resolve_def sample_net_simps)
  from login_carries_through [OF fits found sample_net_simps(2) free, of 3 "\<lparr>outbox = [], rng = 0 :: nat\<rparr>" 1 0
      "net_client\<lparr>mState := AwaitingLogin\<rparr>"]
  show ?thesis by blast
qed

text \<open>C7. Joining opens the stream. When the world server's lookup confirms the session, its response
  puts the client in the world with the entity that is its own body in the simulation, and the
  hello datagram the client sends at that moment, however it is addressed on arrival, binds that
  address to that player, so snapshots flow to where the hello came from.\<close>

theorem join_opens_stream:
  assumes "session_found session" and "string_fits token" and "string_fits (session_username session)"
    and "on_join_lookup lm cfg tm cid token True session ws = (ws', calls)"
    and "map_find cid (playersByConnection ws) = None" and "mToken c = token"
    and "resolve (net_resolve net (mWorldHost c)) (cfg_udpPort cfg) = Some target" and "udp_sends udp = Ret () # later"
  shows "\<exists>payload c' packet player. world_outbox ws' = world_outbox ws @ [Send cid (WorldMessage_code JoinResponse) payload] \<and>
    on_join_response net (Some udp) now payload c = (True, c') \<and> mState c' = InWorld \<and>
    map_option udp_sent (mUdp c') = Some (udp_sent udp @ [(toSockaddr target, packet)]) \<and>
    map_option ply_entityId (map_find (mPlayerId c') (mPlayers (simulation ws'))) = Some (mOwnEntityId c') \<and>
    map_find cid (playersByConnection (on_datagram tm' (packet, source) ws')) = Some player \<and>
    wp_udpBound player \<and> wp_udpAddress player = source \<and> wp_playerId player = mPlayerId c'"
proof -
  obtain entityId sim where added: "addPlayer lm (nextPlayerId ws) (simulation ws) = (entityId, sim)" by fastforce
  let ?player = "\<lparr>wp_playerId = nextPlayerId ws, wp_accountId = session_accountId session,
    wp_username = session_username session, wp_token = token, wp_connection = cid, wp_udpBound = False,
    wp_udpAddress = \<lparr>addr_ip = 0, addr_port = 0\<rparr>, wp_outgoingSequence = 0, wp_lastUdpPacket = steady tm\<rparr>"
  let ?payload = "join_response JoinSuccess (nextPlayerId ws) (cfg_udpPort cfg) (session_username session) entityId"
  let ?packet = "hello_packet (nextPlayerId ws) token"
  have ws': "world_outbox ws' = world_outbox ws @ [Send cid (WorldMessage_code JoinResponse) ?payload]"
    "simulation ws' = sim" "map_find (nextPlayerId ws) (connectionByPlayer ws') = Some cid"
    "map_find cid (playersByConnection ws') = Some ?player"
    using assms(1,4,5) by (auto simp: on_join_lookup_def Let_def added sendJoinResponse_def world_post_def)
  note bound = hello_binds [OF assms(2) ws'(3,4), of tm' source, simplified]
  obtain c' where c': "on_join_response net (Some udp) now ?payload c = (True, c')" "mState c' = InWorld"
    "mPlayerId c' = nextPlayerId ws" "mOwnEntityId c' = entityId"
    "map_option udp_sent (mUdp c') = Some (udp_sent udp @ [(toSockaddr target, ?packet)])"
    using assms(6-8) by (simp add: on_join_response_def read_join_answer [OF assms(3)] JoinResult_of_def sendUdpHello_def
        client_send_def sendTo_taken)
  show ?thesis
    by (rule exI [of _ ?payload], rule exI [of _ c'], rule exI [of _ ?packet],
        rule exI [of _ "?player\<lparr>wp_udpBound := True, wp_udpAddress := source, wp_lastUdpPacket := steady tm'\<rparr>"])
      (use ws'(1) c' bound addPlayer_entity [OF added] ws'(2) in simp)
qed

theorem join_opens_stream_witness:
  "\<exists>ws calls payload c packet player.
    on_join_lookup sample_libm (world_config (\<lambda>_. None)) sample_moment 9 ''f00d'' True sample_session sample_world = (ws, calls) \<and>
    on_join_response sample_net (Some sample_udp) 0 payload (net_client\<lparr>mToken := ''f00d''\<rparr>) = (True, c) \<and> mState c = InWorld \<and>
    map_find 9 (playersByConnection (on_datagram sample_moment (packet, sample_address) ws)) = Some player \<and>
    wp_udpBound player \<and> wp_udpAddress player = sample_address"
proof -
  let ?cfg = "world_config (\<lambda>_. None)" and ?c = "net_client\<lparr>mToken := ''f00d''\<rparr>"
  obtain ws calls where run: "on_join_lookup sample_libm ?cfg sample_moment 9 ''f00d'' True sample_session sample_world = (ws, calls)"
    by fastforce
  have fits: "session_found sample_session" "string_fits ''f00d''" "string_fits (session_username sample_session)"
    by (simp_all add: sample_session_def string_fits_def kMaxStringLength_def)
  have free: "map_find 9 (playersByConnection sample_world) = None" by (simp add: sample_world_empty)
  have found: "resolve (net_resolve sample_net (mWorldHost ?c)) (cfg_udpPort ?cfg) =
      Some \<lparr>addr_ip = htonl 0x0100007F, addr_port = cfg_udpPort ?cfg\<rparr>"
    by (simp add: resolve_def sample_net_simps)
  have token: "mToken ?c = ''f00d''" and sends: "udp_sends sample_udp = Ret () # []" by (simp_all add: sample_udp_def)
  from join_opens_stream [OF fits run free token found sends, of 0 sample_moment sample_address] run show ?thesis by blast
qed

text \<open>C23. The input the client predicts with is the input the server simulates. While no loss or latency
  is being simulated, the datagram \<open>sendInput\<close> hands to the socket for a predicted tick, arriving
  from the address bound to the player, sets in the simulation exactly the input the prediction
  used: sequence number, movement, yaw and both buttons. Movement has to be within full
  stick; beyond it the server clamps what the client did not.\<close>

theorem input_reaches_simulation:
  assumes "mState c = InWorld" and "mUdp c = Some udp" and "udp_sends udp = Ret () # later"
    and "\<not> dlt 0 (mFakeLoss c)" and "\<not> dlt 0 (mFakeLatency c)"
    and "prediction_step lm f r y jump sprint p = (input, q)"
    and "findPlayerByUdp source ws = Some (cid, player)" and "wp_playerId player = mPlayerId c" and "simulatedLatencyMs ws = 0"
    and "f_clamp f (f_of_int (- 1)) (f_of_int 1) = f" and "f_clamp r (f_of_int (- 1)) (f_of_int 1) = r"
  shows "\<exists>packet. map_option udp_sent (mUdp (sendInput random randMax f r y jump sprint (in_sequence input) c)) =
      Some (udp_sent udp @ [(toSockaddr (mUdpTarget c), packet)]) \<and>
    simulation (on_datagram tm (packet, source) ws) = setInput (mPlayerId c) input (simulation ws)"
proof -
  let ?packet = "input_packet (mPlayerId c) f r y jump sprint (in_sequence input)"
  have input: "input = \<lparr>in_sequence = in_sequence input, in_moveForward = f, in_moveRight = r, in_yaw = y,
      in_jump = jump, in_sprint = sprint\<rparr>"
    using assms(6) by (auto simp: prediction_step_def Let_def split: if_splits)
  have "sanitise_input (input_buttons jump sprint) (no_input\<lparr>in_sequence := in_sequence input, in_moveForward := f,
      in_moveRight := r, in_yaw := y\<rparr>) = input"
    by (subst (2) input) (simp add: sanitise_input_def no_input_def assms(10,11))
  then have "simulation (on_datagram tm (?packet, source) ws) = setInput (mPlayerId c) input (simulation ws)"
    using assms(7-9)
    by (simp add: on_datagram_input on_client_datagram_def read_input_packet accept_input_def Let_def del: writes.simps)
  moreover have "map_option udp_sent (mUdp (sendInput random randMax f r y jump sprint (in_sequence input) c)) =
      Some (udp_sent udp @ [(toSockaddr (mUdpTarget c), ?packet)])"
    using assms(1-5) by (simp add: sendInput_def client_send_def sendTo_taken)
  ultimately show ?thesis by blast
qed

definition sample_member :: WorldPlayer where
  "sample_member = \<lparr>wp_playerId = 1, wp_accountId = 1, wp_username = ''ada'', wp_token = ''f00d'', wp_connection = 9,
     wp_udpBound = True, wp_udpAddress = sample_address, wp_outgoingSequence = 3, wp_lastUdpPacket = 0\<rparr>"

theorem input_reaches_simulation_witness:
  "\<exists>packet input. input = fst (prediction_step sample_libm (f_of_int 1) 0 0 True False new_prediction) \<and>
    map_option udp_sent (mUdp (sendInput 0 1 (f_of_int 1) 0 0 True False (in_sequence input)
      (net_client\<lparr>mState := InWorld, mUdp := Some sample_udp, mPlayerId := 1\<rparr>))) =
      Some [(toSockaddr \<lparr>addr_ip = 0, addr_port = 0\<rparr>, packet)] \<and>
    simulation (on_datagram sample_moment (packet, sample_address) (sample_world\<lparr>playersByConnection := [(9, sample_member)]\<rparr>)) =
      setInput 1 input (simulation sample_world)"
proof -
  let ?c = "net_client\<lparr>mState := InWorld, mUdp := Some sample_udp, mPlayerId := 1\<rparr>"
  let ?ws = "sample_world\<lparr>playersByConnection := [(9, sample_member)]\<rparr>"
  obtain input q where step: "prediction_step sample_libm (f_of_int 1) 0 0 True False new_prediction = (input, q)" by fastforce
  have clamp: "f_clamp (f_of_int 1) (f_of_int (- 1)) (f_of_int 1) = f_of_int 1" "f_clamp 0 (f_of_int (- 1)) (f_of_int 1) = 0"
    by code_simp+
  have zero: "\<not> dlt 0 0" by code_simp
  have client: "mState ?c = InWorld" "mUdp ?c = Some sample_udp" "udp_sends sample_udp = Ret () # []"
    "\<not> dlt 0 (mFakeLoss ?c)" "\<not> dlt 0 (mFakeLatency ?c)"
    by (simp_all add: net_client_def sample_udp_def zero)
  have world: "findPlayerByUdp sample_address ?ws = Some (9, sample_member)" "wp_playerId sample_member = mPlayerId ?c"
    "simulatedLatencyMs ?ws = 0"
    by (simp_all add: findPlayerByUdp_def sample_member_def sample_world_empty)
  have "udp_sent sample_udp = []" "mUdpTarget ?c = \<lparr>addr_ip = 0, addr_port = 0\<rparr>" "mPlayerId ?c = 1"
    by (simp_all add: sample_udp_def net_client_def)
  with input_reaches_simulation [OF client step world clamp, of 0 1 sample_moment] step show ?thesis by auto
qed

section \<open>Snapshots in a 2048-byte buffer\<close>

lemma snapshot_packet_parts:
  "readUdpHeader (take 2048 (snapshot_packet body player)) (length (take 2048 (snapshot_packet body player))) h 0 =
     (True, \<lparr>hdr_type = WorldMessage_code SnapshotMessage, hdr_sequence = wp_outgoingSequence player\<rparr>, 10)"
  "drop 10 (take 2048 (snapshot_packet body player)) = take 2038 body"
proof -
  let ?h = "writeUdpHeader [] (WorldMessage_code SnapshotMessage) (wp_outgoingSequence player)"
  have cut: "take 2048 (snapshot_packet body player) = ?h @ take 2038 body"
    by (simp add: snapshot_packet_def)
  show "readUdpHeader (take 2048 (snapshot_packet body player)) (length (take 2048 (snapshot_packet body player))) h 0 =
     (True, \<lparr>hdr_type = WorldMessage_code SnapshotMessage, hdr_sequence = wp_outgoingSequence player\<rparr>, 10)"
    unfolding cut readUdpHeader_def
    by (subst readsD [OF reads_udp_header, where rest = "take 2038 body"]) (simp_all only: unread_byte_reader take_all order.refl
      reader_ok_byte_reader mFailed_byte_reader not_False_eq_True fst_conv)
  show "drop 10 (take 2048 (snapshot_packet body player)) = take 2038 body"
    unfolding cut by simp
qed

lemma decode_whole:
  assumes "length (snap_entities snap) \<le> 33"
  shows "decodeSnapshot (take 2038 (encodeSnapshot snap [])) (length (take 2038 (encodeSnapshot snap []))) out = (True, snap)"
proof -
  have "take 2038 (encodeSnapshot snap []) = encodeSnapshot snap []"
    using assms by (simp add: length_encodeSnapshot)
  then show ?thesis using assms by (simp add: decodeSnapshot_reads [where rest = "[]"])
qed

lemma decode_cut:
  assumes "33 < length (snap_entities snap)" and "length (snap_entities snap) < 2 ^ 16"
  shows "\<not> fst (decodeSnapshot (take 2038 (encodeSnapshot snap [])) (length (take 2038 (encodeSnapshot snap []))) out)"
proof
  let ?data = "take 2038 (encodeSnapshot snap [])"
  assume "fst (decodeSnapshot ?data (length ?data) out)"
  then obtain snap' where "decodeSnapshot ?data (length ?data) out = (True, snap')"
    by (cases "decodeSnapshot ?data (length ?data) out") simp
  then obtain rest where r: "length (snap_entities snap') \<le> 512" "take (length ?data) ?data = encodeSnapshot snap' [] @ rest"
    by (rule decodeSnapshot_sound) simp
  then have data: "?data = encodeSnapshot snap' [] @ rest" by (simp only: take_all order.refl)
  then have "encodeSnapshot snap [] @ [] = encodeSnapshot snap' [] @ rest @ drop 2038 (encodeSnapshot snap [])"
    by (metis append_Nil2 append_assoc append_take_drop_id)
  from encodeSnapshot_same_count [OF this] have "length (snap_entities snap) = length (snap_entities snap')"
    using assms(2) r(1) by simp
  then show False
    using arg_cong [OF data, of length] assms(1) by (simp add: length_encodeSnapshot)
qed

lemma replicated_find:
  assumes "distinct (map ent_id es)" and "e \<in> set es"
  shows "map_find (ent_id e) (fold (\<lambda>e. map_assign (ent_id e) \<lparr>rep_state = e, rep_receivedAt = now\<rparr>) es m) =
    Some \<lparr>rep_state = e, rep_receivedAt = now\<rparr>"
proof -
  have other: "map_find k (fold (\<lambda>e. map_assign (ent_id e) \<lparr>rep_state = e, rep_receivedAt = now\<rparr>) es m) = map_find k m"
    if "k \<notin> ent_id ` set es" for k es and m :: "(u32, Replicated) std_map"
    using that by (induction es arbitrary: m) auto
  show ?thesis
    using assms
  proof (induction es arbitrary: m)
    case (Cons x es)
    then show ?case by (cases "e = x") (auto simp: other)
  qed simp
qed

text \<open>C24. How many entities a client can see. A snapshot datagram of the world server that is pending on the
  client's UDP socket goes through the client's receive loop, which reads it into a buffer of 2048 bytes.
  With at most 33 entities, the client takes over the state of every entity in it, the world
  clock and the sequence number. With 34 or more the datagram no longer fits,
  what is left of it does not decode, and nothing of the client changes but that the datagram is
  consumed: such a world is frozen on every client, though encoder and decoder both allow 512 entities.\<close>

theorem snapshot_delivery_limit:
  assumes "mUdp c = Some udp"
    and "udp_recvs udp = [Ret (snapshot_packet (encodeSnapshot snap []) player, source)]"
    and "receive_datagrams now c = c'"
    and "mSnapshotsReceived c = 0 \<or> mLastSnapshotSequence c < wp_outgoingSequence player"
    and "\<not> dlt 0 (mFakeLatency c)" and "distinct (map ent_id (snap_entities snap))"
    and "length (snap_entities snap) < 2 ^ 16"
  shows "if length (snap_entities snap) \<le> 33
    then (\<forall>e \<in> set (snap_entities snap). map_find (ent_id e) (mEntities c') = Some \<lparr>rep_state = e, rep_receivedAt = now\<rparr>) \<and>
      mClientTimeOfDay c' = snap_timeOfDay snap \<and> mLastSnapshotSequence c' = wp_outgoingSequence player \<and>
      mSnapshotsReceived c' = mSnapshotsReceived c + 1
    else c' = c\<lparr>mUdp := Some (udp\<lparr>udp_recvs := []\<rparr>)\<rparr>"
proof -
  let ?c = "c\<lparr>mUdp := Some (udp\<lparr>udp_recvs := []\<rparr>)\<rparr>"
  have "snapshot_packet (encodeSnapshot snap []) player \<noteq> []"
    by (simp add: snapshot_packet_def writeUdpHeader_def writer_u32_def writer_little_def writer_raw_def
        little_bytes_def)
  then have "c' = on_world_datagram now (take 2048 (snapshot_packet (encodeSnapshot snap []) player)) ?c"
    using assms(1-3) udp_drain_pending [of udp "[(snapshot_packet (encodeSnapshot snap []) player, source)]" 2048]
    by (simp add: receive_datagrams_def)
  then have body: "c' = applySnapshotPacket (take 2038 (encodeSnapshot snap [])) (wp_outgoingSequence player) now ?c"
    using assms(4,5) unfolding on_world_datagram_def
    by (auto simp: snapshot_packet_parts WorldMessage_of_def word_gt_0 not_le simp del: take_append length_take)
  show ?thesis
  proof (cases "length (snap_entities snap) \<le> 33")
    case True
    then show ?thesis
      using replicated_find [OF assms(6)]
      by (simp add: body applySnapshotPacket_def decode_whole del: length_take)
  next
    case False
    then have "\<not> fst (decodeSnapshot (take 2038 (encodeSnapshot snap [])) (length (take 2038 (encodeSnapshot snap []))) out)" for out
      using assms(7) by (intro decode_cut) simp_all
    then have "c' = ?c"
      by (simp add: body applySnapshotPacket_def split: prod.split del: length_take) (metis fst_conv)
    with False show ?thesis by simp
  qed
qed

definition crowd :: "nat \<Rightarrow> Snapshot" where
  "crowd n = \<lparr>snap_tick = 1, snap_serverTimeMs = 0, snap_timeOfDay = 0,
     snap_entities = map (\<lambda>i. (cube_state new_simulation)\<lparr>ent_id := word_of_nat i\<rparr>) [0..<n]\<rparr>"

definition with_pending :: "bytes \<Rightarrow> NetClient" where
  "with_pending data = net_client\<lparr>mUdp := Some (sample_udp\<lparr>udp_recvs := [Ret (data, \<lparr>sin_port = 0, sin_addr = 0\<rparr>)]\<rparr>)\<rparr>"

theorem snapshot_delivery_limit_witness:
  "mSnapshotsReceived (receive_datagrams 0 (with_pending (snapshot_packet (encodeSnapshot (crowd 34) []) sample_member))) = 0 \<and>
   mSnapshotsReceived (receive_datagrams 0 (with_pending (snapshot_packet (encodeSnapshot (crowd 33) []) sample_member))) = 1"
proof -
  let ?packet = "\<lambda>n. snapshot_packet (encodeSnapshot (crowd n) []) sample_member"
  let ?udp = "\<lambda>n. sample_udp\<lparr>udp_recvs := [Ret (?packet n, \<lparr>sin_port = 0, sin_addr = 0\<rparr>)]\<rparr>"
  have pending: "mUdp (with_pending (?packet n)) = Some (?udp n)"
    "udp_recvs (?udp n) = [Ret (?packet n, \<lparr>sin_port = 0, sin_addr = 0\<rparr>)]" for n
    by (simp_all add: with_pending_def)
  have "\<not> dlt 0 0" by code_simp
  then have fresh: "mSnapshotsReceived (with_pending data) = 0 \<or> mLastSnapshotSequence (with_pending data) < wp_outgoingSequence sample_member"
    "\<not> dlt 0 (mFakeLatency (with_pending data))" for data by (simp_all add: with_pending_def net_client_def)
  have ids: "distinct (map ent_id (snap_entities (crowd n)))" if "n \<le> 34" for n
  proof -
    have "inj_on (word_of_nat :: nat \<Rightarrow> u32) (set [0..<n])"
      using that by (intro inj_onI) (simp add: word_of_nat_eq_iff take_bit_eq_mod)
    then show ?thesis by (simp add: crowd_def comp_def distinct_map)
  qed
  have counts: "length (snap_entities (crowd n)) = n" for n by (simp add: crowd_def)
  have "mSnapshotsReceived (receive_datagrams 0 (with_pending (?packet 34))) = 0"
    using snapshot_delivery_limit [OF pending refl fresh ids, of 34 0]
    by (simp add: counts) (simp add: with_pending_def net_client_def)
  moreover have "mSnapshotsReceived (receive_datagrams 0 (with_pending (?packet 33))) = 1"
    using snapshot_delivery_limit [OF pending refl fresh ids, of 33 0]
    by (simp add: counts) (simp add: with_pending_def net_client_def)
  ultimately show ?thesis by blast
qed

text \<open>C27. One connection per state. In every state the client can reach through its public calls, whatever the
  network answers, exactly the sockets its state names are open: the pending auth socket while
  connecting, the auth stream while waiting for the login, the pending world socket, then the world
  stream, with UDP in the world only, and none when idle or failed. A password is held
  only while the client is connecting to the auth server or after a failure (a failed attempt does not
  clear it: it stays until the next login or disconnect), and the replicated entities form a proper map.\<close>

theorem client_one_connection:
  assumes "client_reach s"
  shows "(mPendingAuthSocket s = None \<longleftrightarrow> mState s \<noteq> ConnectingAuth) \<and> (mAuth s = None \<longleftrightarrow> mState s \<noteq> AwaitingLogin) \<and>
    (mPendingWorldSocket s = None \<longleftrightarrow> mState s \<noteq> ConnectingWorld) \<and>
    (mWorld s = None \<longleftrightarrow> mState s \<notin> {AwaitingJoin, InWorld}) \<and> (mUdp s = None \<longleftrightarrow> mState s \<noteq> InWorld) \<and>
    (mPassword s \<noteq> [] \<longrightarrow> mState s \<in> {ConnectingAuth, Failed}) \<and> map_ok (mEntities s)"
  using client_reach_ok [OF assms] unfolding client_ok_def by blast

theorem client_one_connection_witness:
  "mPendingAuthSocket (client_login sample_net ''h'' 7001 ''ada'' ''secret'' net_client) \<noteq> None \<and>
   mAuth (client_login sample_net ''h'' 7001 ''ada'' ''secret'' net_client) = None"
proof -
  let ?s = "client_login sample_net ''h'' 7001 ''ada'' ''secret'' net_client"
  have "mState ?s = ConnectingAuth" by (simp add: client_login_def resolve_def sample_net_simps Let_def)
  with client_one_connection [OF reach_login [OF reach_start, of sample_net "''h''" 7001 "''ada''" "''secret''"]]
  show ?thesis by simp
qed

text \<open>C13. The client moves forward on evidence only. A frame that changes its state without failing takes
  one step along connecting, logging in, connecting to the world, joining, being in the world; it
  drops the password when it has sent it, goes on to the world server only with a
  well-formed success response to the login among the messages that arrived, keeping the token in
  it, and enters the world only with a success response to the join, as the player and entity named there.\<close>

theorem client_advances_on_evidence:
  assumes "client_poll net now s = s'" and "mState s' \<noteq> mState s" and "mState s' \<noteq> Failed"
  shows "mState s = ConnectingAuth \<and> mState s' = AwaitingLogin \<and> mPassword s' = [] \<or>
    mState s = AwaitingLogin \<and> mState s' = ConnectingWorld \<and>
      (\<exists>stream m. mAuth s = Some stream \<and> m \<in> set (stream_messages stream) \<and> login_granted m (mToken s')) \<or>
    mState s = ConnectingWorld \<and> mState s' = AwaitingJoin \<or>
    mState s = AwaitingJoin \<and> mState s' = InWorld \<and>
      (\<exists>stream m. mWorld s = Some stream \<and> m \<in> set (stream_messages stream) \<and> join_granted m (mPlayerId s') (mOwnEntityId s'))"
  using assms by (rule client_poll_evidence)

definition sample_response :: Message where
  "sample_response = \<lparr>msg_type = AuthMessage_code LoginResponse, msg_payload = login_response AuthSuccess ''f00d'' ''h'' 7002 1 0\<rparr>"

definition sample_waiting :: NetClient where
  "sample_waiting = net_client\<lparr>mState := AwaitingLogin, mAuth := Some ((message_stream sample_socket)\<lparr>mReadBuffer := frame sample_response\<rparr>)\<rparr>"

theorem client_advances_on_evidence_witness:
  "mState (client_poll sample_net 0 sample_waiting) = ConnectingWorld \<and>
   (\<exists>stream m. mAuth sample_waiting = Some stream \<and> m \<in> set (stream_messages stream) \<and>
      login_granted m (mToken (client_poll sample_net 0 sample_waiting)))"
proof -
  let ?stream = "(message_stream sample_socket)\<lparr>mReadBuffer := frame sample_response\<rparr>"
  have pumped: "pump ?stream = (True, ?stream)"
    by (subst pump.simps) (simp add: message_stream_def sample_socket_def tcp_receive_def sys_recv_def wouldBlock_def)
  have "length (msg_payload sample_response) = 21" by code_simp
  then have "list_all message_fits [sample_response]" by (simp add: message_fits_def)
  then have drained: "drain ?stream = ([sample_response], ?stream\<lparr>mReadBuffer := []\<rparr>)"
    by (rule drain_frames) (simp_all add: incomplete_iff kHeaderSize_def)
  have fits: "string_fits ''f00d''" "string_fits ''h''" by (simp_all add: string_fits_def kMaxStringLength_def)
  have "mState (on_login_response sample_net (msg_payload sample_response) s) = ConnectingWorld" for s
    by (simp add: on_login_response_def sample_response_def read_login_answer [OF fits] AuthResult_of_def resolve_def sample_net_simps)
  then have moved: "mState (client_poll sample_net 0 sample_waiting) = ConnectingWorld"
    by (simp add: client_poll_def sample_waiting_def pumpAuth_def pumped drained) (simp add: sample_response_def)
  have was: "mState sample_waiting = AwaitingLogin" by (simp add: sample_waiting_def)
  from client_advances_on_evidence [OF refl, of sample_net 0 sample_waiting] moved was show ?thesis by auto
qed

end
