(* ===== verification/AdminConsole.thy ===== *)
theory AdminConsole
  imports Session CFloat
begin

text \<open>
  \<^verbatim>\<open>server/tools/src/console.cpp\<close>: the interactive console, a process of its own that talks to
  the auth and world servers over TCP, one connection a command. Its globals are the record
  \<open>Console\<close>; standard input is the list of the lines to come, and what is printed is collected in
  \<open>con_output\<close>. \<open>con_network\<close> is what the operating system answers at each connection attempt, and
  \<open>con_streams\<close> keeps each connection as it was when the command closed it. The property is that
  every command asks the right server for exactly what the operator typed, and deletes no account
  without being told so.
\<close>

section \<open>State\<close>

text \<open>How fast the clock runs, as it is printed: the speed and the length of a day.\<close>

datatype pace = RealTime | Frozen | MinuteDay f32 f32 | SecondDay f32 f32

datatype shown = Say string | SayClock int int pace

record Console =
  gToken :: string
  gUser :: string
  gPassword :: string
  gLevel :: u8
  gAuthHost :: string
  gAuthPort :: u16
  gWorldHost :: string
  gWorldPort :: u16
  con_network :: "nat \<Rightarrow> Network"
  con_attempts :: nat
  con_streams :: "(string \<times> u16 \<times> MessageStream) list"
  con_input :: "string list"
  con_output :: "shown list"
  con_errors :: "string list"

definition say :: "string list \<Rightarrow> Console \<Rightarrow> Console" where
  "say ls s = s\<lparr>con_output := con_output s @ map Say ls\<rparr>"

text \<open>\<^verbatim>\<open>std::getline(std::cin, ...)\<close>.\<close>

definition getline :: "Console \<Rightarrow> string option \<times> Console" where
  "getline s = (case con_input s of [] \<Rightarrow> (None, s) | line # rest \<Rightarrow> (Some line, s\<lparr>con_input := rest\<rparr>))"

section \<open>Requests\<close>

definition connectTo :: "Network \<Rightarrow> string \<Rightarrow> u16 \<Rightarrow> TcpSocket option" where
  "connectTo net host port = (case resolve (net_resolve net host) port of
      None \<Rightarrow> None
    | Some address \<Rightarrow> (case net_connect net address of
        None \<Rightarrow> None
      | Some socket \<Rightarrow> if net_connected net then Some socket else None))"

text \<open>The loop of \<open>request\<close>: 20000 ms in steps of 50, after which a message is not looked for again.\<close>

fun await_reply :: "nat \<Rightarrow> MessageStream \<Rightarrow> Message option \<times> MessageStream" where
  "await_reply 0 stream = (None, stream)"
| "await_reply (Suc n) stream = (case next_message stream of
      (Some message, stream) \<Rightarrow> (Some message, stream)
    | (None, stream) \<Rightarrow> (case pump stream of
        (False, stream) \<Rightarrow> (None, stream)
      | (True, stream) \<Rightarrow> await_reply n stream))"

definition request :: "string \<Rightarrow> u16 \<Rightarrow> u16 \<Rightarrow> bytes \<Rightarrow> Console \<Rightarrow> Message option \<times> Console" where
  "request host port ty payload s =
     (let net = con_network s (con_attempts s); s = s\<lparr>con_attempts := con_attempts s + 1\<rparr> in
      case connectTo net host port of
        None \<Rightarrow> (None, say [''  cannot reach '' @ c_str host @ '':'' @ to_string (unat port)] s)
      | Some socket \<Rightarrow> (case await_reply (20000 div 50) (send ty payload (message_stream socket)) of
          (reply, stream) \<Rightarrow>
            let s = s\<lparr>con_streams := con_streams s @ [(host, port, stream)]\<rparr> in
            (reply, if reply = None then say [''  no response''] s else s)))"

definition level_name :: "u8 \<Rightarrow> string" where
  "level_name level = [''player'', ''game master'', ''admin''] ! (if level < 3 then unat level else 0)"

definition account_create_request :: "string \<Rightarrow> string \<Rightarrow> string \<Rightarrow> u8 \<Rightarrow> bytes" where
  "account_create_request token name password level =
     writes [writer_string token, writer_string name, writer_string password, writer_u8 level] []"

definition account_delete_request :: "string \<Rightarrow> string \<Rightarrow> bytes" where
  "account_delete_request token name = writes [writer_string token, writer_string name] []"

definition account_level_request :: "string \<Rightarrow> string \<Rightarrow> u8 \<Rightarrow> bytes" where
  "account_level_request token name level = writes [writer_string token, writer_string name, writer_u8 level] []"

definition latency_request :: "string \<Rightarrow> u32 \<Rightarrow> bytes" where
  "latency_request token milliseconds = writes [writer_string token, writer_u32 milliseconds] []"

definition time_request :: "string \<Rightarrow> TimeCommand \<Rightarrow> f32 \<Rightarrow> bytes" where
  "time_request token command v = writes [writer_string token, writer_u8 (TimeCommand_code command), writer_f32 v] []"

definition status_request :: "string \<Rightarrow> bytes" where
  "status_request token = writes [writer_string token] []"

text \<open>The replies are read without asking whether the reader failed: what is missing is zero.\<close>

definition reply_of :: "(ByteReader, 'a) state \<Rightarrow> Message \<Rightarrow> 'a" where
  "reply_of m message = snd (read_all m (msg_payload message))"

definition reply_result :: "Message \<Rightarrow> AuthResult" where
  "reply_result message = AuthResult_of (reply_of reader_u8 message)"

section \<open>Account commands\<close>

definition accountCreate :: "string \<Rightarrow> string \<Rightarrow> u8 \<Rightarrow> Console \<Rightarrow> Console" where
  "accountCreate name password level s =
     (case request (gAuthHost s) (gAuthPort s) (AuthMessage_code AdminAccountCreateRequest)
         (account_create_request (gToken s) name password level) s of
        (None, s) \<Rightarrow> s
      | (Some reply, s) \<Rightarrow> (let result = reply_result reply in
          if result \<noteq> AuthSuccess then say [''  failed: '' @ toString result] s
          else say [''  created account '' @ quoted name] s))"

definition confirmed :: "string option \<Rightarrow> bool" where
  "confirmed answer \<longleftrightarrow> answer = Some ''y'' \<or> answer = Some ''Y'' \<or> answer = Some ''yes''"

definition send_delete :: "string \<Rightarrow> Console \<Rightarrow> Console" where
  "send_delete name s =
     (case request (gAuthHost s) (gAuthPort s) (AuthMessage_code AdminAccountDeleteRequest)
         (account_delete_request (gToken s) name) s of
        (None, s) \<Rightarrow> s
      | (Some reply, s) \<Rightarrow> (let result = reply_result reply in
          say [if result = AuthSuccess then ''  deleted account '' @ quoted name
               else ''  failed: '' @ toString result] s))"

definition accountDelete :: "string \<Rightarrow> bool \<Rightarrow> Console \<Rightarrow> Console" where
  "accountDelete name assumeYes s =
     (if assumeYes then send_delete name s
      else (case getline (say [''  permanently delete account '' @ quoted name @ '' and its sessions? [y/N]: ''] s) of
         (answer, s) \<Rightarrow> if \<not> confirmed answer then say [''  aborted''] s else send_delete name s))"

definition accountSetLevel :: "string \<Rightarrow> u8 \<Rightarrow> Console \<Rightarrow> Console" where
  "accountSetLevel name level s =
     (case request (gAuthHost s) (gAuthPort s) (AuthMessage_code AdminSetLevelRequest)
         (account_level_request (gToken s) name level) s of
        (None, s) \<Rightarrow> s
      | (Some reply, s) \<Rightarrow> (let result = reply_result reply in
          if result = AuthSuccess
          then say [''  '' @ quoted name @ '' is now '' @ level_name level @ '' ('' @ to_string (unat level) @ '')''] s
          else say [''  failed: '' @ toString result] s))"

section \<open>World commands\<close>

definition refused_permission :: string where
  "refused_permission = ''  refused: your account lacks permission (game master or higher)''"

definition refused_session :: string where
  "refused_session = ''  refused: session expired -- restart the console''"

definition read_latency_reply :: "(ByteReader, u8 \<times> u32) state" where
  "read_latency_reply = do { result \<leftarrow> reader_u8; current \<leftarrow> reader_u32; State_Monad.return (result, current) }"

definition latencyCommand :: "bool \<Rightarrow> u32 \<Rightarrow> Console \<Rightarrow> Console" where
  "latencyCommand set_it milliseconds s =
     (case request (gWorldHost s) (gWorldPort s) (WorldMessage_code AdminSetLatencyRequest)
         (latency_request (gToken s) milliseconds) s of
        (None, s) \<Rightarrow> s
      | (Some reply, s) \<Rightarrow> (case reply_of read_latency_reply reply of (result, current) \<Rightarrow>
          if result = 2 then say [refused_permission] s
          else if result \<noteq> 0 then say [refused_session] s
          else if current = 0 then say [''  simulated latency off''] s
          else say [''  simulated latency '' @ to_string (unat current) @ '' ms each way (about '' @
            to_string (unat (current * 2)) @ '' ms round trip)''] s))"

definition pace_of :: "f32 \<Rightarrow> pace" where
  "pace_of speed =
     (if feq speed (f_of_int 1) then RealTime
      else if feq speed (f_of_int 0) then Frozen
      else (let dayMinutes = fdiv (fmul (f_of_int 24) (f_of_int 60)) speed in
        if fle (f_of_int 1) dayMinutes then MinuteDay speed dayMinutes
        else SecondDay speed (fmul dayMinutes (f_of_int 60))))"

definition printClock :: "f32 \<Rightarrow> f32 \<Rightarrow> Console \<Rightarrow> Console" where
  "printClock timeOfDay speed s = (let minutes = status_minutes timeOfDay in
     s\<lparr>con_output := con_output s @ [SayClock (minutes sdiv 60) (minutes smod 60) (pace_of speed)]\<rparr>)"

definition parseTimeOfDay :: "string \<Rightarrow> f32 option" where
  "parseTimeOfDay text =
     (if CHR '':'' \<notin> set text then
        (case strtof (c_str text) of (converted, v) \<Rightarrow>
           if \<not> converted \<or> flt v (f_of_int 0) \<or> fle (f_of_int 1) v then None else Some v)
      else
        (let hours = sint (atoi (c_str (takeWhile (\<lambda>c. c \<noteq> CHR '':'') text)));
             mins = sint (atoi (c_str (drop 1 (dropWhile (\<lambda>c. c \<noteq> CHR '':'') text))))
         in if hours < 0 \<or> hours > 23 \<or> mins < 0 \<or> mins > 59 then None
            else Some (fdiv (f_of_int (hours * 60 + mins)) (fmul (f_of_int 24) (f_of_int 60)))))"

definition read_time_reply :: "(ByteReader, u8 \<times> f32 \<times> f32) state" where
  "read_time_reply = do { result \<leftarrow> reader_u8; now \<leftarrow> reader_f32; speed \<leftarrow> reader_f32; State_Monad.return (result, now, speed) }"

definition timeCommand :: "TimeCommand \<Rightarrow> f32 \<Rightarrow> Console \<Rightarrow> Console" where
  "timeCommand command v s =
     (case request (gWorldHost s) (gWorldPort s) (WorldMessage_code AdminSetTimeRequest)
         (time_request (gToken s) command v) s of
        (None, s) \<Rightarrow> s
      | (Some reply, s) \<Rightarrow> (case reply_of read_time_reply reply of (result, now, speed) \<Rightarrow>
          if result = 2 then say [refused_permission] s
          else if result \<noteq> 0 then say [refused_session] s
          else printClock now speed s))"

definition read_status_reply :: "(ByteReader, u8 \<times> f32 \<times> f32 \<times> u16 \<times> u32 \<times> u32) state" where
  "read_status_reply = do {
     result \<leftarrow> reader_u8;
     timeOfDay \<leftarrow> reader_f32;
     speed \<leftarrow> reader_f32;
     players \<leftarrow> reader_u16;
     tick \<leftarrow> reader_u32;
     latencyMs \<leftarrow> reader_u32;
     State_Monad.return (result, timeOfDay, speed, players, tick, latencyMs)
   }"

definition status :: "Console \<Rightarrow> Console" where
  "status s =
     (case request (gWorldHost s) (gWorldPort s) (WorldMessage_code AdminStatusRequest) (status_request (gToken s)) s of
        (None, s) \<Rightarrow> s
      | (Some reply, s) \<Rightarrow> (case reply_of read_status_reply reply of (result, timeOfDay, speed, players, tick, latencyMs) \<Rightarrow>
          if result = 2 then say [refused_permission] s
          else if result \<noteq> 0 then say [refused_session] s
          else say ([''  players online: '' @ to_string (unat players), ''  tick: '' @ to_string (unat tick)] @
            (if latencyMs > 0 then [''  simulated latency: '' @ to_string (unat latencyMs) @ '' ms each way''] else []))
            (printClock timeOfDay speed s)))"

section \<open>Signing in\<close>

definition read_console_login :: "(ByteReader, AuthResult \<times> string \<times> u8) state" where
  "read_console_login = do {
     result \<leftarrow> reader_u8;
     token \<leftarrow> reader_string;
     _ \<leftarrow> reader_string;
     _ \<leftarrow> reader_u16;
     _ \<leftarrow> reader_u64;
     level \<leftarrow> reader_u8;
     State_Monad.return (AuthResult_of result, token, level)
   }"

definition console_login :: "Console \<Rightarrow> bool \<times> Console" where
  "console_login s =
     (case request (gAuthHost s) (gAuthPort s) (AuthMessage_code LoginRequest) (login_request (gUser s) (gPassword s)) s of
        (None, s) \<Rightarrow> (False, s)
      | (Some reply, s) \<Rightarrow> (case reply_of read_console_login reply of (result, token, level) \<Rightarrow>
          (let s = s\<lparr>gToken := token, gLevel := level\<rparr> in
           if result \<noteq> AuthSuccess then (False, say [''login failed: '' @ toString result] s)
           else (True, say ([''signed in as '' @ c_str (gUser s) @ '' ('' @ level_name level @ '')''] @
             (if level < PermissionLevel_code GameMaster
              then [''note: this account has no privileges; commands will be refused.''] else [])) s))))"

section \<open>The command line\<close>

definition show_help :: "Console \<Rightarrow> Console" where
  "show_help = say
     [''  account create <name> <password> [level]   create an account'',
      ''  account delete <name> [--yes]              delete an account'',
      ''  account level <name> <0|1|2>               0 player, 1 gm, 2 admin'',
      ''  time                               show the world clock'',
      ''  time set <HH:MM>                   set the clock (24 hour)'',
      ''  time speed <multiplier>            1 = real time, 24 = 1 hour day'',
      ''  time reset                         real time, at the real time of day'',
      ''  latency                            show simulated latency'',
      ''  latency set <milliseconds>         0 turns it off'',
      ''  status                             clock, players online, tick'',
      ''  help                               this list'',
      ''  quit                               leave the console'']"

definition run_time :: "string list \<Rightarrow> Console \<Rightarrow> Console" where
  "run_time ws s =
     (if length ws = 1 then status s
      else if ws ! 1 = ''reset'' then timeCommand TimeReset (f_of_int 0) s
      else if ws ! 1 = ''set'' \<and> length ws \<ge> 3 then
        (case parseTimeOfDay (ws ! 2) of
           None \<Rightarrow> say [''  expected HH:MM in 24 hour form, e.g. '' @ quoted ''time set 20:30''] s
         | Some timeOfDay \<Rightarrow> timeCommand TimeSet timeOfDay s)
      else if ws ! 1 = ''speed'' \<and> length ws \<ge> 3 then
        (case strtof (c_str (ws ! 2)) of (converted, speed) \<Rightarrow>
           if \<not> converted \<or> flt speed (f_of_int 0)
           then say [''  expected a multiplier, e.g. '' @ quoted ''time speed 24'' @ '' for a one hour day''] s
           else timeCommand TimeSpeed speed s)
      else say [''  usage: time'', ''         time set <HH:MM>'', ''         time speed <multiplier>'', ''         time reset''] s)"

definition run_latency :: "string list \<Rightarrow> Console \<Rightarrow> Console" where
  "run_latency ws s =
     (if length ws = 1 then status s
      else if ws ! 1 = ''set'' \<and> length ws \<ge> 3 then latencyCommand True (atoi (c_str (ws ! 2))) s
      else say [''  usage: latency | latency set <milliseconds>''] s)"

definition run_account :: "string list \<Rightarrow> Console \<Rightarrow> Console" where
  "run_account ws s =
     (let assumeYes = (length ws > 0 \<and> last ws = ''--yes'') in
      if length ws \<ge> 4 \<and> ws ! 1 = ''create''
      then accountCreate (ws ! 2) (ws ! 3) (if length ws \<ge> 5 then ucast (atoi (c_str (ws ! 4))) else 0) s
      else if length ws \<ge> 3 \<and> ws ! 1 = ''delete'' then accountDelete (ws ! 2) assumeYes s
      else if length ws \<ge> 4 \<and> ws ! 1 = ''level'' then accountSetLevel (ws ! 2) (ucast (atoi (c_str (ws ! 3)))) s
      else say [''  usage: account create <name> <password> [level]'', ''         account delete <name>'',
        ''         account level <name> <0|1|2>''] s)"

text \<open>The result is whether the console goes on.\<close>

definition runCommand :: "string \<Rightarrow> Console \<Rightarrow> bool \<times> Console" where
  "runCommand line s = (case words line of
      [] \<Rightarrow> (True, s)
    | command # rest \<Rightarrow>
        (let ws = command # rest in
         if command = ''quit'' \<or> command = ''exit'' then (False, s)
         else (True,
           if command = ''help'' \<or> command = ''?'' then show_help s
           else if command = ''status'' then status s
           else if command = ''time'' then run_time ws s
           else if command = ''latency'' then run_latency ws s
           else if command = ''account'' then run_account ws s
           else say [''  unknown command '' @ quoted command @ '' -- try '' @ quoted ''help''] s)))"

text \<open>A command takes at most one line of its own from standard input.\<close>

lemma say_input [simp]: "con_input (say ls s) = con_input s"
  by (simp add: say_def)

lemma printClock_input [simp]: "con_input (printClock t v s) = con_input s"
  by (simp add: printClock_def Let_def)

lemma request_input: "request host port ty payload s = (reply, s') \<Longrightarrow> con_input s' = con_input s"
  by (auto simp: request_def Let_def split: option.splits prod.splits if_splits)

lemma send_input [simp]:
  "con_input (accountCreate name password level s) = con_input s"
  "con_input (send_delete name s) = con_input s"
  "con_input (accountSetLevel name level s) = con_input s"
  "con_input (latencyCommand b ms s) = con_input s"
  "con_input (timeCommand command v s) = con_input s"
  "con_input (status s) = con_input s"
  by (auto simp: accountCreate_def send_delete_def accountSetLevel_def latencyCommand_def timeCommand_def status_def Let_def
      split: prod.split option.split dest: request_input)

lemma getline_input: "getline s = (answer, s') \<Longrightarrow> length (con_input s') \<le> length (con_input s)"
  by (auto simp: getline_def split: list.splits)

lemma accountDelete_input: "length (con_input (accountDelete name assumeYes s)) \<le> length (con_input s)"
  by (auto simp: accountDelete_def split: prod.split dest!: getline_input)

lemma runCommand_input: "length (con_input (snd (runCommand line s))) \<le> length (con_input s)"
  by (auto simp: runCommand_def run_time_def run_latency_def run_account_def show_help_def Let_def accountDelete_input
      split: list.split option.split prod.split)

function command_loop :: "Console \<Rightarrow> Console" where
  "command_loop s = (case getline (say [''> ''] s) of
      (None, s) \<Rightarrow> s
    | (Some line, s) \<Rightarrow> (case runCommand line s of
        (False, s) \<Rightarrow> s
      | (True, s) \<Rightarrow> command_loop s))"
  by pat_completeness auto
termination
proof (relation "measure (\<lambda>s. length (con_input s))", goal_cases)
  case (2 s answer s' line go s'')
  then have "length (con_input s') < length (con_input s)"
    by (auto simp: getline_def split: list.splits)
  moreover have "length (con_input s'') \<le> length (con_input s')"
    using 2 runCommand_input [of line s'] by (metis snd_conv)
  ultimately show ?case by simp
qed simp

declare command_loop.simps [simp del]

fun join_arguments :: "string list \<Rightarrow> string" where
  "join_arguments [] = []"
| "join_arguments [a] = a"
| "join_arguments (a # b # rest) = a @ '' '' @ join_arguments (b # rest)"

text \<open>A credential that the environment does not give is asked for; \<open>None\<close> is the end of input.\<close>

definition ask :: "string \<Rightarrow> string \<Rightarrow> Console \<Rightarrow> string option \<times> Console" where
  "ask prompt given s = (if given = [] then getline (say [prompt] s) else (Some given, s))"

definition console_main :: "bool \<Rightarrow> environment \<Rightarrow> bool \<Rightarrow> string list \<Rightarrow> Console \<Rightarrow> int \<times> Console" where
  "console_main initSockets env isatty arguments s =
     (if \<not> initSockets then (1, s)
      else
        (let s = s\<lparr>gAuthHost := envString env ''AUTH_HOST'' ''127.0.0.1'', gAuthPort := envPort env ''AUTH_SERVER_PORT'' 7001,
               gWorldHost := envString env ''WORLD_HOST'' ''127.0.0.1'', gWorldPort := envPort env ''WORLD_SERVER_PORT'' 7002,
               gUser := envString env ''CONSOLE_USER'' [], gPassword := envString env ''CONSOLE_PASSWORD'' []\<rparr> in
         if (gUser s = [] \<or> gPassword s = []) \<and> \<not> isatty
         then (1, s\<lparr>con_errors := con_errors s @ [''no terminal to prompt on; set CONSOLE_USER and CONSOLE_PASSWORD'']\<rparr>)
         else case ask ''account: '' (gUser s) s of
             (None, s) \<Rightarrow> (1, s)
           | (Some user, s) \<Rightarrow> (case ask ''password: '' (gPassword s) (s\<lparr>gUser := user\<rparr>) of
               (None, s) \<Rightarrow> (1, s)
             | (Some password, s) \<Rightarrow> (case console_login (s\<lparr>gPassword := password\<rparr>) of
                 (False, s) \<Rightarrow> (1, s)
               | (True, s) \<Rightarrow>
                   if arguments \<noteq> [] then (0, snd (runCommand (join_arguments arguments) s))
                   else (0, command_loop (status
                     (say [''untitled server console. '' @ quoted ''help'' @ '' for commands, '' @ quoted ''quit'' @ '' to leave.''] s)))))))"

section \<open>What the commands ask for\<close>

text \<open>What a command line means, given the line that would answer a question.\<close>

datatype errand =
    AskCreate string string u8
  | AskDelete string
  | AskLevel string u8
  | AskLatency u32
  | AskTime TimeCommand f32
  | AskStatus

definition errand_of :: "string list \<Rightarrow> string list \<Rightarrow> errand option" where
  "errand_of ws answers =
     (if ws = [] then None
      else if hd ws = ''status'' \<or> ws = [''time''] \<or> ws = [''latency''] then Some AskStatus
      else if take 2 ws = [''time'', ''reset''] then Some (AskTime TimeReset 0)
      else if length ws < 3 then None
      else if take 2 ws = [''time'', ''set''] then map_option (AskTime TimeSet) (parseTimeOfDay (ws ! 2))
      else if take 2 ws = [''time'', ''speed''] then
        (if fst (strtof (c_str (ws ! 2))) \<and> \<not> flt (snd (strtof (c_str (ws ! 2)))) 0
         then Some (AskTime TimeSpeed (snd (strtof (c_str (ws ! 2))))) else None)
      else if take 2 ws = [''latency'', ''set''] then Some (AskLatency (atoi (c_str (ws ! 2))))
      else if take 2 ws = [''account'', ''delete''] then
        (if last ws = ''--yes'' \<or> answers \<noteq> [] \<and> hd answers \<in> {''y'', ''Y'', ''yes''}
         then Some (AskDelete (ws ! 2)) else None)
      else if length ws < 4 then None
      else if take 2 ws = [''account'', ''create''] then
        Some (AskCreate (ws ! 2) (ws ! 3) (if length ws < 5 then 0 else ucast (atoi (c_str (ws ! 4)))))
      else if take 2 ws = [''account'', ''level''] then Some (AskLevel (ws ! 2) (ucast (atoi (c_str (ws ! 3)))))
      else None)"

fun server_of :: "errand \<Rightarrow> Console \<Rightarrow> string \<times> u16" where
  "server_of (AskCreate _ _ _) s = (gAuthHost s, gAuthPort s)"
| "server_of (AskDelete _) s = (gAuthHost s, gAuthPort s)"
| "server_of (AskLevel _ _) s = (gAuthHost s, gAuthPort s)"
| "server_of _ s = (gWorldHost s, gWorldPort s)"

text \<open>A server that gets the message looks the console's session up and keeps the errand, as typed,
  for when the answer comes.\<close>

fun understood :: "'r sodium \<Rightarrow> ConnectionId \<Rightarrow> 'r auth_state \<Rightarrow> 'r world_state \<Rightarrow> string \<Rightarrow> Message \<Rightarrow> errand \<Rightarrow> bool" where
  "understood lib cid as ws token m (AskCreate name password level) \<longleftrightarrow>
     auth_message lib cid (msg_type m) (msg_payload m) as = (as, [(LookupSession token,
       AdminLookup cid AdminAccountCreateRequest AdminAccountCreateResponse name password level)])"
| "understood lib cid as ws token m (AskDelete name) \<longleftrightarrow>
     auth_message lib cid (msg_type m) (msg_payload m) as = (as, [(LookupSession token,
       AdminLookup cid AdminAccountDeleteRequest AdminAccountDeleteResponse name [] 0)])"
| "understood lib cid as ws token m (AskLevel name level) \<longleftrightarrow>
     auth_message lib cid (msg_type m) (msg_payload m) as = (as, [(LookupSession token,
       AdminLookup cid AdminSetLevelRequest AdminSetLevelResponse name [] level)])"
| "understood lib cid as ws token m (AskLatency milliseconds) \<longleftrightarrow>
     world_message cid (msg_type m) (msg_payload m) ws = (ws, [(LookupSession token, LatencyLookup cid milliseconds)])"
| "understood lib cid as ws token m (AskTime command v) \<longleftrightarrow>
     world_message cid (msg_type m) (msg_payload m) ws =
       (ws, [(LookupSession token, TimeLookup cid AdminSetTimeRequest command v)])"
| "understood lib cid as ws token m AskStatus \<longleftrightarrow>
     world_message cid (msg_type m) (msg_payload m) ws =
       (ws, [(LookupSession token, TimeLookup cid AdminStatusRequest TimeSet 0)])"

fun message_of :: "string \<Rightarrow> errand \<Rightarrow> Message" where
  "message_of token (AskCreate name password level) = \<lparr>msg_type = AuthMessage_code AdminAccountCreateRequest,
     msg_payload = account_create_request token name password level\<rparr>"
| "message_of token (AskDelete name) = \<lparr>msg_type = AuthMessage_code AdminAccountDeleteRequest,
     msg_payload = account_delete_request token name\<rparr>"
| "message_of token (AskLevel name level) = \<lparr>msg_type = AuthMessage_code AdminSetLevelRequest,
     msg_payload = account_level_request token name level\<rparr>"
| "message_of token (AskLatency milliseconds) = \<lparr>msg_type = WorldMessage_code AdminSetLatencyRequest,
     msg_payload = latency_request token milliseconds\<rparr>"
| "message_of token (AskTime command v) = \<lparr>msg_type = WorldMessage_code AdminSetTimeRequest,
     msg_payload = time_request token command v\<rparr>"
| "message_of token AskStatus = \<lparr>msg_type = WorldMessage_code AdminStatusRequest, msg_payload = status_request token\<rparr>"

fun errand_fits :: "errand \<Rightarrow> bool" where
  "errand_fits (AskCreate name password _) \<longleftrightarrow> name \<noteq> [] \<and> string_fits name \<and> string_fits password"
| "errand_fits (AskDelete name) \<longleftrightarrow> name \<noteq> [] \<and> string_fits name"
| "errand_fits (AskLevel name _) \<longleftrightarrow> name \<noteq> [] \<and> string_fits name"
| "errand_fits (AskTime command _) \<longleftrightarrow> (\<forall>c. command \<noteq> TimeCommand_raw c)"
| "errand_fits _ \<longleftrightarrow> True"

subsection \<open>The servers read what the console writes\<close>

lemma read_admin_forms:
  "read_admin AdminAccountCreateRequest = do {
     token \<leftarrow> reader_string; target \<leftarrow> reader_string; password \<leftarrow> reader_string; level \<leftarrow> reader_u8;
     State_Monad.return (token, target, password, level) }"
  "read_admin AdminAccountDeleteRequest = do {
     token \<leftarrow> reader_string; target \<leftarrow> reader_string; State_Monad.return (token, target, [], 0) }"
  "read_admin AdminSetLevelRequest = do {
     token \<leftarrow> reader_string; target \<leftarrow> reader_string; level \<leftarrow> reader_u8;
     State_Monad.return (token, target, [], level) }"
  by (simp_all add: read_admin_def)

lemma read_time_forms:
  "read_time AdminSetTimeRequest = do {
     token \<leftarrow> reader_string; c \<leftarrow> reader_u8; v \<leftarrow> reader_f32; State_Monad.return (token, TimeCommand_of c, v) }"
  "read_time AdminStatusRequest = do { token \<leftarrow> reader_string; State_Monad.return (token, TimeSet, f_of_int 0) }"
  by (simp_all add: read_time_def)

lemma read_account_create:
  assumes "string_fits token" "string_fits name" "string_fits password"
  shows "read_all (read_admin AdminAccountCreateRequest) (account_create_request token name password level) =
    (True, token, name, password, level)"
  unfolding account_create_request_def read_admin_forms
  by (rule read_all_writes, simp, unfold concat_pieces)
    ((rule reads_bind, rule codec_reads | rule assms)+, rule reads_return_eq, simp)

lemma read_account_delete:
  assumes "string_fits token" "string_fits name"
  shows "read_all (read_admin AdminAccountDeleteRequest) (account_delete_request token name) = (True, token, name, [], 0)"
  unfolding account_delete_request_def read_admin_forms
  by (rule read_all_writes, simp, unfold concat_pieces)
    ((rule reads_bind, rule codec_reads | rule assms)+, rule reads_return_eq, simp)

lemma read_account_level:
  assumes "string_fits token" "string_fits name"
  shows "read_all (read_admin AdminSetLevelRequest) (account_level_request token name level) = (True, token, name, [], level)"
  unfolding account_level_request_def read_admin_forms
  by (rule read_all_writes, simp, unfold concat_pieces)
    ((rule reads_bind, rule codec_reads | rule assms)+, rule reads_return_eq, simp)

lemma read_latency_request:
  assumes "string_fits token"
  shows "read_all read_latency (latency_request token milliseconds) = (True, token, milliseconds)"
  unfolding latency_request_def read_latency_def
  by (rule read_all_writes, simp, unfold concat_pieces)
    ((rule reads_bind, rule codec_reads | rule assms)+, rule reads_return_eq, simp)

lemma read_time_request:
  assumes "string_fits token"
  shows "read_all (read_time AdminSetTimeRequest) (time_request token command v) =
    (True, token, TimeCommand_of (TimeCommand_code command), v)"
  unfolding time_request_def read_time_forms
  by (rule read_all_writes, simp, unfold concat_pieces)
    ((rule reads_bind, rule codec_reads | rule assms)+, rule reads_return_eq, simp)

lemma read_status_request:
  assumes "string_fits token"
  shows "read_all (read_time AdminStatusRequest) (status_request token) = (True, token, TimeSet, f_of_int 0)"
  unfolding status_request_def read_time_forms
  by (rule read_all_writes, simp, unfold concat_pieces)
    ((rule reads_bind, rule codec_reads | rule assms)+, rule reads_return_eq, simp)

lemma f_zero: "f_of_int 0 = 0"
  by code_simp

lemma message_understood:
  assumes "string_fits token" and "errand_fits e"
  shows "understood lib cid as ws token (message_of token e) e"
proof (cases e)
  case (AskTime command v)
  with assms(2) have "TimeCommand_of (TimeCommand_code command) = command"
    by (intro TimeCommand_of_code) simp
  with AskTime assms show ?thesis
    by (simp add: world_message_def WorldMessage_of_def on_time_request_def read_time_request)
qed (use assms in \<open>simp_all add: auth_message_def world_message_def AuthMessage_of_def WorldMessage_of_def
      on_admin_request_def admin_response_type_def on_latency_request_def on_time_request_def Let_def
      read_account_create read_account_delete read_account_level read_latency_request read_status_request f_zero\<close>)

subsection \<open>One request\<close>

lemma next_message_outstanding: "next_message s = (m, s') \<Longrightarrow> outstanding s' = outstanding s"
  by (auto simp: next_message_def outstanding_def Let_def split: if_splits)

lemma tcp_receive_sent: "tcp_receive sz s = (ok, bs, s') \<Longrightarrow> sock_sent s' = sock_sent s"
  by (auto simp: tcp_receive_def sys_recv_def split: list.splits syscall.splits if_splits)

lemma pump_outstanding: "pump s = (ok, s') \<Longrightarrow> outstanding s' = outstanding s"
proof (induction s rule: pump.induct)
  case (1 s)
  obtain ok bs socket where r: "tcp_receive 4096 (mSocket s) = (ok, bs, socket)" by (metis prod_cases3)
  from tcp_receive_sent [OF this] "1.prems" "1.IH" [OF r [symmetric] refl] show ?case
    by (subst (asm) pump.simps) (auto simp: r Let_def outstanding_def split: if_splits)
qed

lemma await_outstanding: "await_reply n s = (reply, s') \<Longrightarrow> outstanding s' = outstanding s"
proof (induction n arbitrary: s)
  case (Suc n)
  then show ?case
    by (auto simp: next_message_outstanding pump_outstanding dest: next_message_outstanding pump_outstanding
        split: prod.splits option.splits bool.splits)
qed simp

text \<open>A connection that can be made, to a peer that was sent nothing yet.\<close>

definition reachable_servers :: "Console \<Rightarrow> bool" where
  "reachable_servers s \<longleftrightarrow> (\<forall>host port. \<exists>socket.
     connectTo (con_network s (con_attempts s)) host port = Some socket \<and> sock_sent socket = [])"

lemma request_streams:
  assumes "reachable_servers s"
  shows "\<exists>stream. con_streams (snd (request host port ty payload s)) = con_streams s @ [(host, port, stream)] \<and>
    outstanding stream = frame \<lparr>msg_type = ty, msg_payload = payload\<rparr>"
proof -
  obtain socket where socket: "connectTo (con_network s (con_attempts s)) host port = Some socket" "sock_sent socket = []"
    using assms by (auto simp: reachable_servers_def)
  obtain reply stream where await: "await_reply 400 (send ty payload (message_stream socket)) = (reply, stream)"
    by fastforce
  from await_outstanding [OF this] have "outstanding stream = frame \<lparr>msg_type = ty, msg_payload = payload\<rparr>"
    by (simp add: send_outstanding socket)
  with socket await show ?thesis
    by (auto simp: request_def Let_def say_def)
qed

lemma say_streams [simp]: "con_streams (say ls s) = con_streams s"
  by (simp add: say_def)

lemma printClock_streams [simp]: "con_streams (printClock t v s) = con_streams s"
  by (simp add: printClock_def Let_def)

lemma command_streams:
  "con_streams (accountCreate name password level s) = con_streams (snd (request (gAuthHost s) (gAuthPort s)
     (AuthMessage_code AdminAccountCreateRequest) (account_create_request (gToken s) name password level) s))"
  "con_streams (send_delete name s) = con_streams (snd (request (gAuthHost s) (gAuthPort s)
     (AuthMessage_code AdminAccountDeleteRequest) (account_delete_request (gToken s) name) s))"
  "con_streams (accountSetLevel name level s) = con_streams (snd (request (gAuthHost s) (gAuthPort s)
     (AuthMessage_code AdminSetLevelRequest) (account_level_request (gToken s) name level) s))"
  "con_streams (latencyCommand b ms s) = con_streams (snd (request (gWorldHost s) (gWorldPort s)
     (WorldMessage_code AdminSetLatencyRequest) (latency_request (gToken s) ms) s))"
  "con_streams (timeCommand command v s) = con_streams (snd (request (gWorldHost s) (gWorldPort s)
     (WorldMessage_code AdminSetTimeRequest) (time_request (gToken s) command v) s))"
  "con_streams (status s) = con_streams (snd (request (gWorldHost s) (gWorldPort s)
     (WorldMessage_code AdminStatusRequest) (status_request (gToken s)) s))"
  by (simp_all add: accountCreate_def send_delete_def accountSetLevel_def latencyCommand_def timeCommand_def status_def Let_def
      split: prod.split option.split)

definition one_request :: "string \<times> u16 \<Rightarrow> Message \<Rightarrow> Console \<Rightarrow> Console \<Rightarrow> bool" where
  "one_request server m s s' \<longleftrightarrow> (\<exists>stream. con_streams s' = con_streams s @ [(fst server, snd server, stream)] \<and>
     outstanding stream = frame m)"

lemma one_request_commands:
  assumes "reachable_servers s"
  shows "one_request (gAuthHost s, gAuthPort s) (message_of (gToken s) (AskCreate name password level)) s
      (accountCreate name password level s)"
    and "one_request (gAuthHost s, gAuthPort s) (message_of (gToken s) (AskDelete name)) s (send_delete name s)"
    and "one_request (gAuthHost s, gAuthPort s) (message_of (gToken s) (AskLevel name level)) s (accountSetLevel name level s)"
    and "one_request (gWorldHost s, gWorldPort s) (message_of (gToken s) (AskLatency ms)) s (latencyCommand b ms s)"
    and "one_request (gWorldHost s, gWorldPort s) (message_of (gToken s) (AskTime command v)) s (timeCommand command v s)"
    and "one_request (gWorldHost s, gWorldPort s) (message_of (gToken s) AskStatus) s (status s)"
  using request_streams [OF assms] by (simp_all add: one_request_def command_streams)

lemma delete_asks_first:
  assumes "reachable_servers s"
  shows "if assumeYes \<or> con_input s \<noteq> [] \<and> hd (con_input s) \<in> {''y'', ''Y'', ''yes''}
    then one_request (gAuthHost s, gAuthPort s) (message_of (gToken s) (AskDelete name)) s (accountDelete name assumeYes s)
    else con_streams (accountDelete name assumeYes s) = con_streams s"
proof (cases assumeYes)
  case True
  then show ?thesis using one_request_commands(2) [OF assms] by (simp add: accountDelete_def)
next
  case False
  obtain answer s' where g: "getline (say [''  permanently delete account '' @ quoted name @ '' and its sessions? [y/N]: ''] s) =
      (answer, s')" by fastforce
  then have same: "con_streams s' = con_streams s" "gAuthHost s' = gAuthHost s" "gAuthPort s' = gAuthPort s" "gToken s' = gToken s"
      "reachable_servers s' = reachable_servers s"
    and c: "confirmed answer \<longleftrightarrow> con_input s \<noteq> [] \<and> hd (con_input s) \<in> {''y'', ''Y'', ''yes''}"
    by (auto simp: getline_def say_def confirmed_def reachable_servers_def split: list.splits)
  have "accountDelete name assumeYes s = (if confirmed answer then send_delete name s' else say [''  aborted''] s')"
    using False g by (simp add: accountDelete_def)
  with False same c one_request_commands(2) [of s' name] assms show ?thesis
    by (simp add: one_request_def)
qed

definition carried_out :: "errand option \<Rightarrow> Console \<Rightarrow> Console \<Rightarrow> bool" where
  "carried_out errand s s' = (case errand of
      None \<Rightarrow> con_streams s' = con_streams s
    | Some e \<Rightarrow> one_request (server_of e s) (message_of (gToken s) e) s s')"

declare message_of.simps [simp del]

lemma run_time_asks:
  assumes "reachable_servers s"
  shows "carried_out (errand_of (''time'' # rest) answers) s (run_time (''time'' # rest) s)"
  by (cases rest; cases "tl rest"; cases "hd rest = ''set''"; cases "hd rest = ''speed''")
    (simp_all add: carried_out_def errand_of_def run_time_def f_zero one_request_commands [OF assms] split: option.split prod.split)

lemma run_latency_asks:
  assumes "reachable_servers s"
  shows "carried_out (errand_of (''latency'' # rest) answers) s (run_latency (''latency'' # rest) s)"
  by (cases rest; cases "tl rest")
    (simp_all add: carried_out_def errand_of_def run_latency_def one_request_commands [OF assms])

lemma run_account_asks:
  assumes "reachable_servers s"
  shows "carried_out (errand_of (''account'' # rest) (con_input s)) s (run_account (''account'' # rest) s)"
proof (cases rest)
  case Nil
  then show ?thesis by (simp add: carried_out_def errand_of_def run_account_def)
next
  case (Cons verb others)
  show ?thesis
  proof (cases "verb = ''delete''")
    case True
    with Cons show ?thesis
      using delete_asks_first [OF assms, of "last (''account'' # rest) = ''--yes''" "hd others"]
      by (cases others) (auto simp: carried_out_def errand_of_def run_account_def Let_def split: if_splits)
  next
    case False
    with Cons show ?thesis
      by (cases others; cases "tl others"; cases "tl (tl others)")
        (simp_all add: carried_out_def errand_of_def run_account_def Let_def one_request_commands [OF assms])
  qed
qed

lemma runCommand_asks:
  assumes "reachable_servers s"
  shows "carried_out (errand_of (words line) (con_input s)) s (snd (runCommand line s))"
proof (cases "words line")
  case Nil
  then show ?thesis by (simp add: carried_out_def errand_of_def runCommand_def)
next
  case (Cons command rest)
  show ?thesis
  proof (cases "command \<in> {''time'', ''latency'', ''account''}")
    case True
    with Cons show ?thesis
      using run_time_asks [OF assms] run_latency_asks [OF assms] run_account_asks [OF assms]
      by (auto simp: runCommand_def)
  next
    case False
    with Cons show ?thesis
      using one_request_commands(6) [OF assms]
      by (auto simp: carried_out_def errand_of_def runCommand_def show_help_def Let_def)
  qed
qed

subsection \<open>The typed words fit their fields\<close>

lemma words_length: "w \<in> set (words line) \<Longrightarrow> length w \<le> length line"
proof (induction line rule: words.induct)
  case (1 line)
  show ?case
  proof (cases "dropWhile isspace line")
    case Nil
    with "1.prems" show ?thesis by (simp add: words_unfold(1))
  next
    case (Cons c cs)
    have "length (c # cs) \<le> length line"
      using length_dropWhile_le [of isspace line] Cons by simp
    moreover have "length w \<le> length (c # cs)"
    proof -
      have "w = takeWhile (\<lambda>x. \<not> isspace x) (c # cs) \<or> w \<in> set (words (dropWhile (\<lambda>x. \<not> isspace x) (c # cs)))"
        using "1.prems" unfolding words_unfold(2) [OF Cons] by (simp only: list.set insert_iff)
      then show ?thesis
        using "1.IH" [OF Cons] length_takeWhile_le [of "\<lambda>x. \<not> isspace x" "c # cs"]
          length_dropWhile_le [of "\<lambda>x. \<not> isspace x" "c # cs"] by (meson le_trans)
    qed
    ultimately show ?thesis by linarith
  qed
qed

lemma typed_errand_fits:
  assumes "string_fits line" and "errand_of (words line) answers = Some e"
  shows "errand_fits e"
proof -
  have "w \<noteq> [] \<and> string_fits w" if "w \<in> set (words line)" for w
    using words_clean [OF that] words_length [OF that] assms(1) by (simp add: string_fits_def)
  then have "i < length (words line) \<Longrightarrow> words line ! i \<noteq> [] \<and> string_fits (words line ! i)" for i
    by (simp add: nth_mem)
  with assms(2) show ?thesis
    by (auto simp: errand_of_def split: if_splits)
qed

lemma length_writer_string: "length (writer_string v buf) \<le> length buf + 1026"
  by (simp add: writer_string_def writer_raw_def writer_u16_def writer_little_def kMaxStringLength_def Let_def)

lemma message_of_fits: "message_fits (message_of token e)"
proof -
  note w = length_writer_string
  have "length (msg_payload (message_of token e)) \<le> 4000"
    using w [of token "[]"]
    by (cases e) (auto simp: message_of.simps account_create_request_def account_delete_request_def account_level_request_def latency_request_def
        time_request_def status_request_def
        writer_u8_def writer_u32_def writer_f32_def writer_little_def writer_raw_def intro!: order_trans [OF w])
  then show ?thesis by (simp add: message_fits_def)
qed

section \<open>Commands are carried out as typed\<close>

text \<open>C14. Whatever line of at most 1024 characters is typed, with a session token that fits its field
  and servers that can be reached: if the line (together with the answer to the deletion question)
  means a request, the console makes exactly one connection, to the server that owns the matter,
  and everything sent on it is one well-formed message on which that server looks up the console's
  session and keeps exactly the account, password, level, latency or time that was typed; if the
  line means none, and in particular if a deletion is neither confirmed nor given \<open>--yes\<close>, no
  connection is made.
\<close>

theorem console_asks_as_typed:
  assumes "string_fits line" and "string_fits (gToken s)" and "reachable_servers s"
  shows "case errand_of (words line) (con_input s) of
      None \<Rightarrow> con_streams (snd (runCommand line s)) = con_streams s
    | Some e \<Rightarrow> (\<exists>stream m. con_streams (snd (runCommand line s)) = con_streams s @ [(fst (server_of e s), snd (server_of e s), stream)] \<and>
        outstanding stream = frame m \<and> message_fits m \<and> understood lib cid as ws (gToken s) m e)"
proof (cases "errand_of (words line) (con_input s)")
  case None
  with runCommand_asks [OF assms(3), of line] show ?thesis by (simp add: carried_out_def)
next
  case (Some e)
  with runCommand_asks [OF assms(3), of line] have "one_request (server_of e s) (message_of (gToken s) e) s (snd (runCommand line s))"
    by (simp add: carried_out_def)
  moreover have "understood lib cid as ws (gToken s) (message_of (gToken s) e) e"
    by (rule message_understood [OF assms(2) typed_errand_fits [OF assms(1) Some]])
  ultimately show ?thesis
    using Some message_of_fits [of "gToken s" e] by (auto simp: one_request_def)
qed

definition sample_console :: Console where
  "sample_console = \<lparr>gToken = ''ab12'', gUser = ''root'', gPassword = ''secret'', gLevel = 2, gAuthHost = ''auth'', gAuthPort = 7001,
     gWorldHost = ''world'', gWorldPort = 7002, con_network = (\<lambda>_. sample_net), con_attempts = 0, con_streams = [],
     con_input = [''n''], con_output = [], con_errors = []\<rparr>"

lemma sample_reachable: "reachable_servers sample_console"
  by (simp add: reachable_servers_def sample_console_def sample_net_def connectTo_def resolve_def sample_socket_def)

theorem console_asks_as_typed_witness:
  "con_streams (snd (runCommand ''account delete bob'' sample_console)) = [] \<and>
   (\<forall>(lib :: unit sodium) cid as ws. \<exists>stream m.
      con_streams (snd (runCommand ''time set 06:00'' sample_console)) = [(''world'', 7002, stream)] \<and>
      outstanding stream = frame m \<and>
      world_message cid (msg_type m) (msg_payload m) ws =
        (ws, [(LookupSession ''ab12'', TimeLookup cid AdminSetTimeRequest TimeSet (f_ratio 1 4))]))"
proof -
  have e1: "errand_of (words ''account delete bob'') (con_input sample_console) = None"
    by code_simp
  have e2: "errand_of (words ''time set 06:00'') (con_input sample_console) = Some (AskTime TimeSet (f_ratio 1 4))"
    by code_simp
  have fits: "string_fits ''account delete bob''" "string_fits ''time set 06:00''" "string_fits (gToken sample_console)"
    by (simp_all add: string_fits_def kMaxStringLength_def sample_console_def)
  show ?thesis
    using console_asks_as_typed [OF fits(1) fits(3) sample_reachable] console_asks_as_typed [OF fits(2) fits(3) sample_reachable]
    unfolding e1 e2 by (simp add: sample_console_def) blast
qed

end
