(* ===== verification/Font.thy ===== *)
theory Font
  imports StdMap Ieee
begin

text \<open>
  \<^verbatim>\<open>client/src/ui/font.cpp\<close>: every printable character rasterised at each size into one atlas, and
  the metrics of text. The rasteriser is the vendored stb_truetype, the record \<open>stb_font\<close> of what its
  functions answer. A store outside the pixel vector, undefined in the source, is the error
  \<open>OutOfBounds\<close>. The property is that it never happens and that every glyph keeps its own cell.
\<close>

section \<open>Glyphs and fonts\<close>

definition kFontSizeSmall :: int where "kFontSizeSmall = 13"
definition kFontSizeBody :: int where "kFontSizeBody = 17"
definition kFontSizeHeading :: int where "kFontSizeHeading = 26"
definition kFontSizeTitle :: int where "kFontSizeTitle = 34"
definition kFirstGlyph :: int where "kFirstGlyph = 0x20"
definition kLastGlyph :: int where "kLastGlyph = 0x7E"
definition kAtlasSize :: nat where "kAtlasSize = 1024"
definition kPadding :: nat where "kPadding = 1"

record Glyph =
  gl_u0 :: f32
  gl_v0 :: f32
  gl_u1 :: f32
  gl_v1 :: f32
  gl_offsetX :: f32
  gl_offsetY :: f32
  gl_advance :: f32
  gl_width :: f32
  gl_height :: f32

record SizedFont =
  sf_glyphs :: "(int, Glyph) std_map"
  sf_ascent :: f32
  sf_lineHeight :: f32

record Font =
  mSizes :: "(int, SizedFont) std_map"
  mPixels :: bytes
  mAtlasWidth :: nat
  mAtlasHeight :: nat
  mWhiteU :: f32
  mWhiteV :: f32

text \<open>What stb_truetype answers: whether the data is a font, the scale for a height, the vertical metrics, and for
  a character its advance, its bitmap box at a scale and the coverage of each of its pixels.\<close>

record stb_font =
  stb_InitFont :: bool
  stb_ScaleForPixelHeight :: "f32 \<Rightarrow> f32"
  stb_GetFontVMetrics :: "int \<times> int \<times> int"
  stb_GetCodepointHMetrics :: "int \<Rightarrow> int \<times> int"
  stb_GetCodepointBitmapBox :: "int \<Rightarrow> f32 \<Rightarrow> int \<times> int \<times> int \<times> int"
  stb_MakeCodepointBitmap :: "int \<Rightarrow> f32 \<Rightarrow> nat \<Rightarrow> nat \<Rightarrow> nat \<Rightarrow> nat \<Rightarrow> u8"

datatype bake_error = BadFont | OutOfRoom | OutOfBounds

section \<open>Baking\<close>

text \<open>One texel: white, with the coverage in its alpha.\<close>

definition put_texel :: "nat \<Rightarrow> u8 \<Rightarrow> bytes \<Rightarrow> bytes option" where
  "put_texel texel alpha pixels = (let i = texel * 4 in
     if i + 3 < length pixels
     then Some (pixels[i := 255, i + 1 := 255, i + 2 := 255, i + 3 := alpha]) else None)"

fun put_texels :: "(nat \<times> u8) list \<Rightarrow> bytes \<Rightarrow> bytes option" where
  "put_texels [] pixels = Some pixels"
| "put_texels ((texel, alpha) # rest) pixels = (case put_texel texel alpha pixels of
      None \<Rightarrow> None
    | Some pixels \<Rightarrow> put_texels rest pixels)"

text \<open>The nested loops over the rows and columns of a glyph's box.\<close>

definition cell_texels :: "nat \<Rightarrow> nat \<Rightarrow> nat \<Rightarrow> nat \<Rightarrow> (nat \<Rightarrow> nat \<Rightarrow> u8) \<Rightarrow> (nat \<times> u8) list" where
  "cell_texels penX penY width height coverage =
     map (\<lambda>(y, x). ((penY + y) * kAtlasSize + penX + x, coverage x y)) (List.product [0..<height] [0..<width])"

record Packer =
  pk_penX :: nat
  pk_penY :: nat
  pk_rowHeight :: nat
  pk_pixels :: bytes

text \<open>Shelf packing: the next row when the glyph does not fit to the right of the last one.\<close>

definition next_shelf :: "nat \<Rightarrow> Packer \<Rightarrow> Packer" where
  "next_shelf width p =
     (if pk_penX p + width + kPadding > kAtlasSize
      then p\<lparr>pk_penX := kPadding, pk_penY := pk_penY p + pk_rowHeight p + kPadding * 2, pk_rowHeight := 0\<rparr>
      else p)"

definition atlas_fraction :: "nat \<Rightarrow> f32" where
  "atlas_fraction n = fdiv (f_of_int (int n)) (f_of_int (int kAtlasSize))"

definition bake_glyph :: "stb_font \<Rightarrow> f32 \<Rightarrow> int \<Rightarrow> Packer \<Rightarrow> bake_error + Glyph \<times> Packer" where
  "bake_glyph stb scale c p = (case stb_GetCodepointHMetrics stb c of (advance, leftBearing) \<Rightarrow>
     case stb_GetCodepointBitmapBox stb c scale of (x0, y0, x1, y1) \<Rightarrow>
     (let width = x1 - x0; height = y1 - y0;
          glyph = \<lparr>gl_u0 = f_of_int 0, gl_v0 = f_of_int 0, gl_u1 = f_of_int 0, gl_v1 = f_of_int 0,
            gl_offsetX = f_of_int x0, gl_offsetY = f_of_int y0, gl_advance = fmul (f_of_int advance) scale,
            gl_width = f_of_int width, gl_height = f_of_int height\<rparr>
      in if width > 0 \<and> height > 0 then
           (let w = nat width; h = nat height; p = next_shelf w p in
            if pk_penY p + h + kPadding > kAtlasSize then Inl OutOfRoom
            else case put_texels (cell_texels (pk_penX p) (pk_penY p) w h (stb_MakeCodepointBitmap stb c scale w h)) (pk_pixels p) of
               None \<Rightarrow> Inl OutOfBounds
             | Some pixels \<Rightarrow> Inr
                 (glyph\<lparr>gl_u0 := atlas_fraction (pk_penX p), gl_v0 := atlas_fraction (pk_penY p),
                    gl_u1 := atlas_fraction (pk_penX p + w), gl_v1 := atlas_fraction (pk_penY p + h)\<rparr>,
                  p\<lparr>pk_penX := pk_penX p + w + kPadding * 2, pk_rowHeight := max (pk_rowHeight p) h, pk_pixels := pixels\<rparr>))
         else Inr (glyph, p)))"

fun bake_glyphs :: "stb_font \<Rightarrow> f32 \<Rightarrow> int list \<Rightarrow> (int, Glyph) std_map \<Rightarrow> Packer \<Rightarrow> bake_error + (int, Glyph) std_map \<times> Packer" where
  "bake_glyphs stb scale [] glyphs p = Inr (glyphs, p)"
| "bake_glyphs stb scale (c # cs) glyphs p = (case bake_glyph stb scale c p of
      Inl e \<Rightarrow> Inl e
    | Inr (glyph, p) \<Rightarrow> bake_glyphs stb scale cs (map_assign c glyph glyphs) p)"

definition bake_size :: "stb_font \<Rightarrow> int \<Rightarrow> Packer \<Rightarrow> bake_error + SizedFont \<times> Packer" where
  "bake_size stb pixelSize p =
     (let scale = stb_ScaleForPixelHeight stb (f_of_int pixelSize) in
      case stb_GetFontVMetrics stb of (ascent, descent, lineGap) \<Rightarrow>
      case bake_glyphs stb scale [kFirstGlyph..kLastGlyph] [] p of
        Inl e \<Rightarrow> Inl e
      | Inr (glyphs, p) \<Rightarrow> Inr (\<lparr>sf_glyphs = glyphs, sf_ascent = fmul (f_of_int ascent) scale,
          sf_lineHeight = fmul (f_of_int (ascent - descent + lineGap)) scale\<rparr>, p))"

fun bake_sizes :: "stb_font \<Rightarrow> int list \<Rightarrow> (int, SizedFont) std_map \<Rightarrow> Packer \<Rightarrow> bake_error + (int, SizedFont) std_map \<times> Packer" where
  "bake_sizes stb [] sizes p = Inr (sizes, p)"
| "bake_sizes stb (pixelSize # rest) sizes p = (case bake_size stb pixelSize p of
      Inl e \<Rightarrow> Inl e
    | Inr (sized, p) \<Rightarrow> bake_sizes stb rest (map_assign pixelSize sized sizes) p)"

text \<open>The vector starts out transparent, with one opaque texel for solid rectangles.\<close>

definition font_build :: "stb_font \<Rightarrow> int list \<Rightarrow> bake_error + Font" where
  "font_build stb pixelSizes =
     (if \<not> stb_InitFont stb then Inl BadFont
      else case put_texel (kPadding * kAtlasSize + kPadding) 255 (replicate (kAtlasSize * kAtlasSize * 4) 0) of
          None \<Rightarrow> Inl OutOfBounds
        | Some pixels \<Rightarrow> (case bake_sizes stb pixelSizes [] \<lparr>pk_penX = kPadding + (1 + kPadding * 2), pk_penY = kPadding,
              pk_rowHeight = 1, pk_pixels = pixels\<rparr> of
            Inl e \<Rightarrow> Inl e
          | Inr (sizes, p) \<Rightarrow> (let white = fdiv (fadd (f_of_int (int kPadding)) (f_ratio 5 10)) (f_of_int (int kAtlasSize)) in
              Inr \<lparr>mSizes = sizes, mPixels = pk_pixels p, mAtlasWidth = kAtlasSize, mAtlasHeight = kAtlasSize,
                mWhiteU = white, mWhiteV = white\<rparr>)))"

section \<open>Metrics\<close>

text \<open>The first of the nearest sizes, in the order of the map.\<close>

fun nearest :: "int \<Rightarrow> int \<Rightarrow> int \<Rightarrow> int list \<Rightarrow> int" where
  "nearest requested best bestDistance [] = best"
| "nearest requested best bestDistance (baked # sizes) =
     (if \<bar>baked - requested\<bar> < bestDistance then nearest requested baked \<bar>baked - requested\<bar> sizes
      else nearest requested best bestDistance sizes)"

definition nearestSize :: "Font \<Rightarrow> int \<Rightarrow> int" where
  "nearestSize font requested = nearest requested 0 (2 ^ 30) (map fst (mSizes font))"

definition char_code :: "char \<Rightarrow> int" where
  "char_code c = sint (word_of_nat (of_char c) :: 8 word)"

definition font_glyph :: "Font \<Rightarrow> int \<Rightarrow> char \<Rightarrow> Glyph option" where
  "font_glyph font pixelSize c = (case map_find pixelSize (mSizes font) of
      None \<Rightarrow> None
    | Some sized \<Rightarrow> (case map_find (char_code c) (sf_glyphs sized) of
        Some glyph \<Rightarrow> Some glyph
      | None \<Rightarrow> map_find (char_code (CHR ''?'')) (sf_glyphs sized)))"

definition font_textWidth :: "Font \<Rightarrow> int \<Rightarrow> string \<Rightarrow> f32" where
  "font_textWidth font pixelSize text = (let baked = nearestSize font pixelSize in
     foldl (\<lambda>width c. case font_glyph font baked c of None \<Rightarrow> width | Some g \<Rightarrow> fadd width (gl_advance g)) (f_of_int 0) text)"

definition font_ascent :: "Font \<Rightarrow> int \<Rightarrow> f32" where
  "font_ascent font pixelSize = (case map_find (nearestSize font pixelSize) (mSizes font) of
      None \<Rightarrow> f_of_int 0 | Some sized \<Rightarrow> sf_ascent sized)"

definition lineHeight :: "Font \<Rightarrow> int \<Rightarrow> f32" where
  "lineHeight font pixelSize = (case map_find (nearestSize font pixelSize) (mSizes font) of
      None \<Rightarrow> f_of_int 0 | Some sized \<Rightarrow> sf_lineHeight sized)"

section \<open>The atlas\<close>

definition texel_of :: "nat \<Rightarrow> bytes \<Rightarrow> bytes" where
  "texel_of t pixels = map (\<lambda>k. pixels ! (t * 4 + k)) [0, 1, 2, 3]"

lemma put_texel_inside:
  assumes "t * 4 + 3 < length pixels"
  obtains pixels' where "put_texel t a pixels = Some pixels'" "length pixels' = length pixels"
    "texel_of t pixels' = [255, 255, 255, a]" "\<And>u. u \<noteq> t \<Longrightarrow> texel_of u pixels' = texel_of u pixels"
proof
  let ?p = "pixels[t * 4 := 255, t * 4 + 1 := 255, t * 4 + 2 := 255, t * 4 + 3 := a]"
  show "put_texel t a pixels = Some ?p" using assms by (simp add: put_texel_def Let_def)
  show "texel_of t ?p = [255, 255, 255, a]" using assms by (simp add: texel_of_def)
  show "texel_of u ?p = texel_of u pixels" if "u \<noteq> t" for u
  proof -
    have ne: "u * 4 + k \<noteq> t * 4 + l" if "k < 4" "l < 4" for k l
      using that \<open>u \<noteq> t\<close> by presburger
    have "?p ! (u * 4 + k) = pixels ! (u * 4 + k)" if "k \<in> set [0, 1, 2, 3]" for k
    proof -
      have "k < 4" using that by auto
      from ne [OF this, of 0] ne [OF this, of 1] ne [OF this, of 2] ne [OF this, of 3] show ?thesis by simp
    qed
    then show ?thesis unfolding texel_of_def by (rule map_cong [OF refl])
  qed
qed simp

lemma put_texels_inside:
  assumes "list_all (\<lambda>(t, a). t * 4 + 3 < length pixels) ts" and "distinct (map fst ts)"
  shows "\<exists>pixels'. put_texels ts pixels = Some pixels' \<and> length pixels' = length pixels \<and>
    list_all (\<lambda>(t, a). texel_of t pixels' = [255, 255, 255, a]) ts \<and>
    (\<forall>u. u \<notin> set (map fst ts) \<longrightarrow> texel_of u pixels' = texel_of u pixels)"
  using assms
proof (induction ts arbitrary: pixels)
  case (Cons ta ts)
  obtain t a where [simp]: "ta = (t, a)" by fastforce
  obtain p where p: "put_texel t a pixels = Some p" "length p = length pixels" "texel_of t p = [255, 255, 255, a]"
      "\<And>u. u \<noteq> t \<Longrightarrow> texel_of u p = texel_of u pixels"
    using Cons.prems(1) put_texel_inside [of t pixels a] by auto
  obtain p' where p': "put_texels ts p = Some p'" "length p' = length p"
      "list_all (\<lambda>(t, a). texel_of t p' = [255, 255, 255, a]) ts"
      "\<And>u. u \<notin> set (map fst ts) \<Longrightarrow> texel_of u p' = texel_of u p"
    using Cons.IH [of p] Cons.prems p(2) by auto
  from p p' Cons.prems(2) show ?case by auto
qed simp

subsection \<open>Cells\<close>

record cell =
  cell_x :: nat
  cell_y :: nat
  cell_w :: nat
  cell_h :: nat
  cell_coverage :: "nat \<Rightarrow> nat \<Rightarrow> u8"

text \<open>A cell lies in the atlas with a free texel to every side, and shows its coverage.\<close>

definition in_atlas :: "cell \<Rightarrow> bool" where
  "in_atlas c \<longleftrightarrow> 0 < cell_x c \<and> 0 < cell_y c \<and> cell_x c + cell_w c < kAtlasSize \<and> cell_y c + cell_h c < kAtlasSize"

definition displays :: "bytes \<Rightarrow> cell \<Rightarrow> bool" where
  "displays pixels c \<longleftrightarrow> (\<forall>dx < cell_w c. \<forall>dy < cell_h c.
     texel_of ((cell_y c + dy) * kAtlasSize + cell_x c + dx) pixels = [255, 255, 255, cell_coverage c dx dy])"

text \<open>Two cells with at least two free texels between them, to the side or above.\<close>

definition apart :: "cell \<Rightarrow> cell \<Rightarrow> bool" where
  "apart c d \<longleftrightarrow> cell_x c + cell_w c + 2 \<le> cell_x d \<or> cell_x d + cell_w d + 2 \<le> cell_x c \<or>
     cell_y c + cell_h c + 2 \<le> cell_y d \<or> cell_y d + cell_h d + 2 \<le> cell_y c"

definition cell_of_texels :: "cell \<Rightarrow> (nat \<times> u8) list" where
  "cell_of_texels c = cell_texels (cell_x c) (cell_y c) (cell_w c) (cell_h c) (cell_coverage c)"

lemma texel_position:
  assumes "x < kAtlasSize" "x' < kAtlasSize" "y * kAtlasSize + x = y' * kAtlasSize + x'"
  shows "x = x' \<and> y = y'"
proof -
  have "(y * kAtlasSize + x) mod kAtlasSize = x \<and> (y * kAtlasSize + x) div kAtlasSize = y" if "x < kAtlasSize" for x y
    using that by (simp add: kAtlasSize_def)
  from this [OF assms(1), of y] this [OF assms(2), of y'] assms(3) show ?thesis by simp
qed

lemma cell_of_texels_facts:
  assumes "in_atlas c"
  shows "distinct (map fst (cell_of_texels c))"
    and "set (map fst (cell_of_texels c)) =
      {(cell_y c + dy) * kAtlasSize + cell_x c + dx | dx dy. dx < cell_w c \<and> dy < cell_h c}"
    and "list_all (\<lambda>(t, a). t * 4 + 3 < kAtlasSize * kAtlasSize * 4) (cell_of_texels c)"
proof -
  let ?f = "\<lambda>(dy, dx). (cell_y c + dy) * kAtlasSize + cell_x c + dx"
  have fst: "map fst (cell_of_texels c) = map ?f (List.product [0..<cell_h c] [0..<cell_w c])"
    by (simp add: cell_of_texels_def cell_texels_def case_prod_beta comp_def)
  have "inj_on ?f (set (List.product [0..<cell_h c] [0..<cell_w c]))"
  proof (rule inj_onI, clarify)
    fix dy dx dy' dx'
    assume "(dy, dx) \<in> set (List.product [0..<cell_h c] [0..<cell_w c])" "(dy', dx') \<in> set (List.product [0..<cell_h c] [0..<cell_w c])"
      and e: "(cell_y c + dy) * kAtlasSize + cell_x c + dx = (cell_y c + dy') * kAtlasSize + cell_x c + dx'"
    then have "cell_x c + dx < kAtlasSize" "cell_x c + dx' < kAtlasSize"
      using assms by (auto simp: in_atlas_def)
    from texel_position [OF this, of "cell_y c + dy" "cell_y c + dy'"] e show "dy = dy' \<and> dx = dx'"
      by (simp add: add.assoc)
  qed
  then show "distinct (map fst (cell_of_texels c))"
    unfolding fst by (simp add: distinct_map distinct_product)
  show set: "set (map fst (cell_of_texels c)) =
      {(cell_y c + dy) * kAtlasSize + cell_x c + dx | dx dy. dx < cell_w c \<and> dy < cell_h c}"
    unfolding fst by (auto simp: image_iff) (metis atLeast0LessThan lessThan_iff)+
  have "t * 4 + 3 < kAtlasSize * kAtlasSize * 4" if "t \<in> set (map fst (cell_of_texels c))" for t
  proof -
    obtain dx dy where t: "t = (cell_y c + dy) * kAtlasSize + cell_x c + dx" "dx < cell_w c" "dy < cell_h c"
      using \<open>t \<in> _\<close> unfolding set by auto
    then have "cell_x c + dx < kAtlasSize" "cell_y c + dy + 1 < kAtlasSize" using assms by (auto simp: in_atlas_def)
    then show ?thesis using t by (simp add: kAtlasSize_def)
  qed
  then show "list_all (\<lambda>(t, a). t * 4 + 3 < kAtlasSize * kAtlasSize * 4) (cell_of_texels c)"
    by (force simp: list_all_iff)
qed

lemma apart_texels:
  assumes "in_atlas c" "in_atlas d" "apart c d" "dx < cell_w c" "dy < cell_h c"
  shows "(cell_y c + dy) * kAtlasSize + cell_x c + dx \<notin> set (map fst (cell_of_texels d))"
proof
  assume "(cell_y c + dy) * kAtlasSize + cell_x c + dx \<in> set (map fst (cell_of_texels d))"
  then obtain ex ey where e: "(cell_y c + dy) * kAtlasSize + cell_x c + dx = (cell_y d + ey) * kAtlasSize + cell_x d + ex"
      "ex < cell_w d" "ey < cell_h d"
    unfolding cell_of_texels_facts(2) [OF assms(2)] by auto
  have "cell_x c + dx < kAtlasSize" "cell_x d + ex < kAtlasSize"
    using assms e by (auto simp: in_atlas_def)
  from texel_position [OF this, of "cell_y c + dy" "cell_y d + ey"] e(1)
  have "cell_x c + dx = cell_x d + ex" "cell_y c + dy = cell_y d + ey" by (simp_all add: add.assoc)
  with assms e show False by (auto simp: apart_def)
qed

text \<open>Drawing a cell shows it and leaves every cell apart from it as it was.\<close>

lemma draw_cell:
  assumes "in_atlas c" and "length pixels = kAtlasSize * kAtlasSize * 4"
  shows "\<exists>pixels'. put_texels (cell_of_texels c) pixels = Some pixels' \<and> length pixels' = length pixels \<and>
    displays pixels' c \<and> (\<forall>d. in_atlas d \<longrightarrow> apart d c \<longrightarrow> displays pixels d \<longrightarrow> displays pixels' d)"
proof -
  obtain p where p: "put_texels (cell_of_texels c) pixels = Some p" "length p = length pixels"
      "list_all (\<lambda>(t, a). texel_of t p = [255, 255, 255, a]) (cell_of_texels c)"
      "\<And>u. u \<notin> set (map fst (cell_of_texels c)) \<Longrightarrow> texel_of u p = texel_of u pixels"
    using put_texels_inside [of pixels "cell_of_texels c"] cell_of_texels_facts [OF assms(1)] assms(2) by auto
  have "displays p c"
    using p(3) by (auto simp: displays_def cell_of_texels_def cell_texels_def list_all_iff)
  moreover have "displays p d" if "in_atlas d" "apart d c" "displays pixels d" for d
    using that p(4) apart_texels [OF that(1) assms(1) that(2)] by (simp add: displays_def)
  ultimately show ?thesis using p by blast
qed

subsection \<open>The packer\<close>

text \<open>Every cell is on the current shelf, to the left of the pen, or on an earlier one.\<close>

definition shelved :: "Packer \<Rightarrow> cell \<Rightarrow> bool" where
  "shelved p c \<longleftrightarrow> cell_y c = pk_penY p \<and> cell_x c + cell_w c + 2 \<le> pk_penX p \<and> cell_h c \<le> pk_rowHeight p \<or>
     cell_y c + cell_h c + 2 \<le> pk_penY p"

definition packed :: "cell list \<Rightarrow> Packer \<Rightarrow> bool" where
  "packed cells p \<longleftrightarrow> length (pk_pixels p) = kAtlasSize * kAtlasSize * 4 \<and> 0 < pk_penX p \<and> 0 < pk_penY p \<and>
     sorted_wrt apart cells \<and> list_all (\<lambda>c. in_atlas c \<and> displays (pk_pixels p) c \<and> shelved p c) cells"

lemma packed_next_shelf: "packed cells p \<Longrightarrow> packed cells (next_shelf w p)"
  by (auto simp: packed_def next_shelf_def kPadding_def list_all_iff shelved_def)

lemma next_shelf_room:
  "w + 2 \<le> kAtlasSize \<Longrightarrow> pk_penX (next_shelf w p) + w < kAtlasSize"
  by (auto simp: next_shelf_def kPadding_def kAtlasSize_def)

lemma packed_place:
  assumes "packed cells p" and "0 < h" and "pk_penX p + w < kAtlasSize" and "pk_penY p + h < kAtlasSize"
    and c_def: "c = \<lparr>cell_x = pk_penX p, cell_y = pk_penY p, cell_w = w, cell_h = h, cell_coverage = cov\<rparr>"
  shows "\<exists>pixels. put_texels (cell_texels (pk_penX p) (pk_penY p) w h cov) (pk_pixels p) = Some pixels \<and>
    packed (c # cells) (p\<lparr>pk_penX := pk_penX p + w + kPadding * 2, pk_rowHeight := max (pk_rowHeight p) h, pk_pixels := pixels\<rparr>)"
proof -
  have c: "in_atlas c" "cell_of_texels c = cell_texels (pk_penX p) (pk_penY p) w h cov"
    using assms(1,3,4) by (simp_all add: c_def in_atlas_def packed_def cell_of_texels_def)
  obtain pixels where pixels: "put_texels (cell_of_texels c) (pk_pixels p) = Some pixels" "length pixels = length (pk_pixels p)"
      "displays pixels c" "\<And>d. in_atlas d \<Longrightarrow> apart d c \<Longrightarrow> displays (pk_pixels p) d \<Longrightarrow> displays pixels d"
    using draw_cell [OF c(1), of "pk_pixels p"] assms(1) by (auto simp: packed_def)
  have "apart c d \<and> apart d c" if "d \<in> set cells" for d
  proof -
    have "shelved p d" using that assms(1) by (simp add: packed_def list_all_iff)
    then show ?thesis by (auto simp: shelved_def apart_def c_def)
  qed
  then have "packed (c # cells)
      (p\<lparr>pk_penX := pk_penX p + w + kPadding * 2, pk_rowHeight := max (pk_rowHeight p) h, pk_pixels := pixels\<rparr>)"
    using assms(1) pixels c(1) by (auto simp: packed_def list_all_iff shelved_def kPadding_def) (auto simp: c_def)
  with pixels(1) c(2) show ?thesis by auto
qed

text \<open>What a glyph of a character must be: its metrics and, when it has a box, a cell of its own with its coverage.\<close>

definition glyph_ok :: "stb_font \<Rightarrow> f32 \<Rightarrow> int \<Rightarrow> cell list \<Rightarrow> Glyph \<Rightarrow> bool" where
  "glyph_ok stb scale c cells g = (case stb_GetCodepointBitmapBox stb c scale of (x0, y0, x1, y1) \<Rightarrow>
     gl_offsetX g = f_of_int x0 \<and> gl_offsetY g = f_of_int y0 \<and> gl_width g = f_of_int (x1 - x0) \<and> gl_height g = f_of_int (y1 - y0) \<and>
     gl_advance g = fmul (f_of_int (fst (stb_GetCodepointHMetrics stb c))) scale \<and>
     (x0 < x1 \<and> y0 < y1 \<longrightarrow> (\<exists>d \<in> set cells. cell_w d = nat (x1 - x0) \<and> cell_h d = nat (y1 - y0) \<and>
        cell_coverage d = stb_MakeCodepointBitmap stb c scale (nat (x1 - x0)) (nat (y1 - y0)) \<and>
        gl_u0 g = atlas_fraction (cell_x d) \<and> gl_v0 g = atlas_fraction (cell_y d) \<and>
        gl_u1 g = atlas_fraction (cell_x d + cell_w d) \<and> gl_v1 g = atlas_fraction (cell_y d + cell_h d))))"

lemma glyph_ok_more: "glyph_ok stb scale c cells g \<Longrightarrow> set cells \<subseteq> set cells' \<Longrightarrow> glyph_ok stb scale c cells' g"
  by (auto simp: glyph_ok_def split: prod.splits)

definition font_scale :: "stb_font \<Rightarrow> int \<Rightarrow> f32" where
  "font_scale stb pixelSize = stb_ScaleForPixelHeight stb (f_of_int pixelSize)"

text \<open>What the code relies on without checking it, of the font and of the sizes it is given: none of the 95
  characters it bakes is, at the scale of one of these sizes, wider than the atlas less its padding, 1022 pixels.
  (At a size of 34 pixels, the client's largest, that takes a character thirty times as wide as the font is high.)\<close>

definition glyph_fits :: "stb_font \<Rightarrow> f32 \<Rightarrow> int \<Rightarrow> bool" where
  "glyph_fits stb scale c \<longleftrightarrow>
     (case stb_GetCodepointBitmapBox stb c scale of (x0, y0, x1, y1) \<Rightarrow> x1 - x0 + 2 \<le> int kAtlasSize)"

definition boxes_fit :: "stb_font \<Rightarrow> int list \<Rightarrow> bool" where
  "boxes_fit stb sizes \<longleftrightarrow>
     list_all (\<lambda>pixelSize. list_all (glyph_fits stb (font_scale stb pixelSize)) [kFirstGlyph..kLastGlyph]) sizes"

text \<open>The outcome of a baking step: no store out of bounds, and on success more cells and the invariant again.\<close>

definition bakes :: "cell list \<Rightarrow> bake_error + 'a \<times> Packer \<Rightarrow> ('a \<Rightarrow> cell list \<Rightarrow> bool) \<Rightarrow> bool" where
  "bakes cells r good = (case r of
      Inl e \<Rightarrow> e \<noteq> OutOfBounds
    | Inr (v, p) \<Rightarrow> (\<exists>cells'. set cells \<subseteq> set cells' \<and> packed cells' p \<and> good v cells'))"

lemma bake_glyph_ok:
  assumes "glyph_fits stb scale c" and "packed cells p"
  shows "bakes cells (bake_glyph stb scale c p) (\<lambda>g cells'. glyph_ok stb scale c cells' g)"
proof -
  obtain advance bearing where m: "stb_GetCodepointHMetrics stb c = (advance, bearing)" by fastforce
  obtain x0 y0 x1 y1 where b: "stb_GetCodepointBitmapBox stb c scale = (x0, y0, x1, y1)" by (metis prod_cases4)
  show ?thesis
  proof (cases "x0 < x1 \<and> y0 < y1")
    case False
    then have "x1 - x0 \<le> 0 \<or> y1 - y0 \<le> 0" by auto
    with False assms(2) show ?thesis
      by (auto simp: bakes_def bake_glyph_def m b glyph_ok_def Let_def)
  next
    case True
    define w where "w = nat (x1 - x0)"
    define h where "h = nat (y1 - y0)"
    define q where "q = next_shelf w p"
    have "x1 - x0 + 2 \<le> int kAtlasSize"
      using assms(1) b by (simp add: glyph_fits_def)
    then have fit: "w + 2 \<le> kAtlasSize" "0 < h" and q: "packed cells q"
      using assms(2) True by (auto simp: w_def h_def q_def packed_next_shelf)
    show ?thesis
    proof (cases "pk_penY q + h < kAtlasSize")
      case False
      with True show ?thesis
        by (simp add: bakes_def bake_glyph_def m b Let_def kPadding_def flip: w_def h_def q_def)
    next
      case inside: True
      obtain pixels where pixels: "put_texels (cell_texels (pk_penX q) (pk_penY q) w h (stb_MakeCodepointBitmap stb c scale w h)) (pk_pixels q) = Some pixels"
        "packed (\<lparr>cell_x = pk_penX q, cell_y = pk_penY q, cell_w = w, cell_h = h, cell_coverage = stb_MakeCodepointBitmap stb c scale w h\<rparr> # cells)
          (q\<lparr>pk_penX := pk_penX q + w + kPadding * 2, pk_rowHeight := max (pk_rowHeight q) h, pk_pixels := pixels\<rparr>)"
        using packed_place [OF q fit(2) next_shelf_room [OF fit(1), of p, folded q_def] inside] by auto
      with True inside show ?thesis
        unfolding bakes_def bake_glyph_def m b prod.case Let_def w_def [symmetric] h_def [symmetric] q_def [symmetric]
        by (auto simp: kPadding_def glyph_ok_def m b w_def [symmetric] h_def [symmetric]
            intro!: exI [of _ "\<lparr>cell_x = pk_penX q, cell_y = pk_penY q, cell_w = w, cell_h = h,
              cell_coverage = stb_MakeCodepointBitmap stb c scale w h\<rparr> # cells"])
    qed
  qed
qed

definition glyphs_ok :: "stb_font \<Rightarrow> f32 \<Rightarrow> int set \<Rightarrow> (int, Glyph) std_map \<Rightarrow> cell list \<Rightarrow> bool" where
  "glyphs_ok stb scale cs glyphs cells \<longleftrightarrow> (\<forall>c \<in> cs. \<exists>g. map_find c glyphs = Some g \<and> glyph_ok stb scale c cells g)"

lemma glyphs_ok_more: "glyphs_ok stb scale cs glyphs cells \<Longrightarrow> set cells \<subseteq> set cells' \<Longrightarrow> glyphs_ok stb scale cs glyphs cells'"
  unfolding glyphs_ok_def using glyph_ok_more by meson

lemma bakes_trans: "set cells \<subseteq> set cells' \<Longrightarrow> bakes cells' r good \<Longrightarrow> bakes cells r good"
  by (auto simp: bakes_def split: sum.splits)

lemma bakes_cases:
  assumes "bakes cells r good"
  obtains e where "r = Inl e" "e \<noteq> OutOfBounds"
  | v p cells' where "r = Inr (v, p)" "set cells \<subseteq> set cells'" "packed cells' p" "good v cells'"
  using assms by (auto simp: bakes_def split: sum.splits)

lemma bake_glyphs_ok:
  assumes "list_all (glyph_fits stb scale) cs" and "packed cells p" and "glyphs_ok stb scale ds glyphs cells"
  shows "bakes cells (bake_glyphs stb scale cs glyphs p) (glyphs_ok stb scale (ds \<union> set cs))"
  using assms
proof (induction cs arbitrary: cells glyphs p ds)
  case Nil
  then show ?case by (auto simp: bakes_def)
next
  case (Cons c cs)
  have "glyph_fits stb scale c" using Cons.prems(1) by simp
  from bake_glyph_ok [OF this Cons.prems(2)] show ?case
  proof (cases rule: bakes_cases)
    case (1 e)
    then show ?thesis by (simp add: bakes_def)
  next
    case (2 g q cells')
    have "glyphs_ok stb scale (insert c ds) (map_assign c g glyphs) cells'"
      using glyphs_ok_more [OF Cons.prems(3) 2(2)] 2(4) by (auto simp: glyphs_ok_def std.find_assign)
    from Cons.IH [OF _ 2(3) this] Cons.prems(1) 2(2) show ?thesis
      by (simp add: 2(1)) (rule bakes_trans)
  qed
qed

definition sized_ok :: "stb_font \<Rightarrow> int set \<Rightarrow> (int, SizedFont) std_map \<Rightarrow> cell list \<Rightarrow> bool" where
  "sized_ok stb ds sizes cells \<longleftrightarrow> (\<forall>d \<in> ds. \<exists>sized. map_find d sizes = Some sized \<and>
     glyphs_ok stb (font_scale stb d) {kFirstGlyph..kLastGlyph} (sf_glyphs sized) cells)"

lemma bake_size_ok:
  assumes "list_all (glyph_fits stb (font_scale stb d)) [kFirstGlyph..kLastGlyph]" and "packed cells p"
  shows "bakes cells (bake_size stb d p)
    (\<lambda>sized. glyphs_ok stb (font_scale stb d) {kFirstGlyph..kLastGlyph} (sf_glyphs sized))"
proof -
  have "glyphs_ok stb (font_scale stb d) {} [] cells" by (simp add: glyphs_ok_def)
  from bake_glyphs_ok [OF assms this] show ?thesis
    by (cases rule: bakes_cases) (auto simp: bake_size_def bakes_def font_scale_def Let_def split: prod.splits)
qed

lemma bake_sizes_ok:
  assumes "boxes_fit stb todo" and "packed cells p" and "sized_ok stb ds sizes cells"
  shows "bakes cells (bake_sizes stb todo sizes p) (sized_ok stb (ds \<union> set todo))"
  using assms
proof (induction todo arbitrary: cells sizes p ds)
  case Nil
  then show ?case by (auto simp: bakes_def)
next
  case (Cons d todo)
  have "list_all (glyph_fits stb (font_scale stb d)) [kFirstGlyph..kLastGlyph]" "boxes_fit stb todo"
    using Cons.prems(1) by (simp_all add: boxes_fit_def)
  from bake_size_ok [OF this(1) Cons.prems(2)] show ?case
  proof (cases rule: bakes_cases)
    case (1 e)
    then show ?thesis by (simp add: bakes_def)
  next
    case (2 sized q cells')
    have "sized_ok stb (insert d ds) (map_assign d sized sizes) cells'"
      using Cons.prems(3) glyphs_ok_more [OF _ 2(2)] 2(4) by (fastforce simp: sized_ok_def std.find_assign)
    from Cons.IH [OF \<open>boxes_fit stb todo\<close> 2(3) this] 2(2) show ?thesis
      by (simp add: 2(1)) (rule bakes_trans)
  qed
qed

definition white_cell :: cell where
  "white_cell = \<lparr>cell_x = 1, cell_y = 1, cell_w = 1, cell_h = 1, cell_coverage = (\<lambda>_ _. 255)\<rparr>"

lemma white_packed:
  "\<exists>pixels. put_texel (kPadding * kAtlasSize + kPadding) 255 (replicate (kAtlasSize * kAtlasSize * 4) 0) = Some pixels \<and>
    packed [white_cell] \<lparr>pk_penX = kPadding + (1 + kPadding * 2), pk_penY = kPadding, pk_rowHeight = 1, pk_pixels = pixels\<rparr>"
proof -
  have "(kPadding * kAtlasSize + kPadding) * 4 + 3 < length (replicate (kAtlasSize * kAtlasSize * 4) (0 :: u8))"
    by (simp add: kAtlasSize_def kPadding_def)
  from put_texel_inside [OF this, of 255] show ?thesis
    by (auto simp: packed_def white_cell_def in_atlas_def displays_def shelved_def kPadding_def kAtlasSize_def)
qed

text \<open>C35. Provided none of the 95 characters baked is at one of the requested sizes wider than 1022 pixels, the atlas less
  its padding (the code has no check of the width, only of the height), baking a font never stores
  outside the pixel vector: it either reports that the font is bad or that there is no room, or
  it succeeds. Then there is a set of cells inside the atlas, pairwise separated by the padding, such that
  every printable character at every requested size has a glyph with its metrics and, if it has a box, a cell of its own
  whose texels are white with exactly the coverage the rasteriser gave, also after everything
  baked later; the opaque texel used for solid rectangles is one of the cells.\<close>

theorem font_atlas_sound:
  assumes "boxes_fit stb sizes"
  shows "font_build stb sizes \<noteq> Inl OutOfBounds \<and>
    (\<forall>font. font_build stb sizes = Inr font \<longrightarrow>
      (\<exists>cells. white_cell \<in> set cells \<and> sorted_wrt apart cells \<and> list_all (\<lambda>c. in_atlas c \<and> displays (mPixels font) c) cells \<and>
        sized_ok stb (set sizes) (mSizes font) cells))"
proof -
  obtain pixels where start: "put_texel (kPadding * kAtlasSize + kPadding) 255 (replicate (kAtlasSize * kAtlasSize * 4) 0) = Some pixels"
      and white: "packed [white_cell] \<lparr>pk_penX = kPadding + (1 + kPadding * 2), pk_penY = kPadding, pk_rowHeight = 1, pk_pixels = pixels\<rparr>"
    using white_packed by blast
  have "sized_ok stb {} [] [white_cell]" by (simp add: sized_ok_def)
  from bake_sizes_ok [OF assms white this] show ?thesis
    by (cases rule: bakes_cases) (auto simp: font_build_def start Let_def packed_def list_all_iff)
qed

text \<open>A rasteriser whose boxes grow with the scale and the code, as real ones do.\<close>

definition sample_stb :: stb_font where
  "sample_stb = \<lparr>stb_InitFont = True, stb_ScaleForPixelHeight = (\<lambda>h. h), stb_GetFontVMetrics = (8, - 2, 0),
     stb_GetCodepointHMetrics = (\<lambda>c. (5, 0)),
     stb_GetCodepointBitmapBox = (\<lambda>c scale. (0, - uint scale div 2 ^ 20, if c = 0x20 then 0 else c + uint scale div 2 ^ 23, 1)),
     stb_MakeCodepointBitmap = (\<lambda>c scale w h x y. word_of_nat (x + y))\<rparr>"

theorem font_atlas_sound_witness:
  "boxes_fit sample_stb [kFontSizeSmall, kFontSizeBody] \<and> font_build sample_stb [kFontSizeSmall, kFontSizeBody] \<noteq> Inl OutOfBounds"
proof -
  have "boxes_fit sample_stb [kFontSizeSmall, kFontSizeBody]" by code_simp
  then show ?thesis using font_atlas_sound [of sample_stb "[kFontSizeSmall, kFontSizeBody]"] by blast
qed

end
