(* ===== verification/UiRenderer.thy ===== *)
theory UiRenderer
  imports Font
begin

text \<open>
  \<^verbatim>\<open>client/src/ui/ui_renderer.cpp\<close>: the interface as one batch of textured quads. The buffers and the draw
  range last handed to the Filament engine are the \<open>gpu\<close> fields of the record; creating and destroying
  the engine's objects is left out. The property is that what is handed over is exactly the
  quads drawn, within the buffers' sizes and with every index in range.
\<close>

record Color =
  col_r :: u8
  col_g :: u8
  col_b :: u8
  col_a :: u8

record Vertex =
  vx_x :: f32
  vx_y :: f32
  vx_u :: f32
  vx_v :: f32
  vx_color :: Color

definition rgba :: "u8 \<Rightarrow> u8 \<Rightarrow> u8 \<Rightarrow> u8 \<Rightarrow> Color" where
  "rgba r g b a = \<lparr>col_r = r, col_g = g, col_b = b, col_a = a\<rparr>"

definition kMaxQuads :: nat where "kMaxQuads = 8192"
definition kMaxVertices :: nat where "kMaxVertices = kMaxQuads * 4"
definition kMaxIndices :: nat where "kMaxIndices = kMaxQuads * 6"
definition kIndexBucket :: nat where "kIndexBucket = 384"

definition kSizeMax :: nat where "kSizeMax = 2 ^ 64 - 1"

record UiRenderer =
  mFont :: Font
  mVertices :: "Vertex list"
  mIndices :: "u16 list"
  mWidth :: int
  mHeight :: int
  mLastDrawCount :: nat
  gpu_vertices :: "Vertex list"
  gpu_indices :: "u16 list"
  gpu_range :: nat

text \<open>\<open>init\<close> bakes the font at the interface's four sizes and sets up an empty range.\<close>

definition ui_init :: "stb_font \<Rightarrow> UiRenderer option" where
  "ui_init stb = (case font_build stb [kFontSizeSmall, kFontSizeBody, kFontSizeHeading, kFontSizeTitle] of
      Inl e \<Rightarrow> None
    | Inr font \<Rightarrow> Some \<lparr>mFont = font, mVertices = [], mIndices = [], mWidth = 0, mHeight = 0,
        mLastDrawCount = kSizeMax, gpu_vertices = [], gpu_indices = [], gpu_range = 0\<rparr>)"

definition setViewport :: "int \<Rightarrow> int \<Rightarrow> UiRenderer \<Rightarrow> UiRenderer" where
  "setViewport width height r = (if width \<le> 0 \<or> height \<le> 0 then r else r\<lparr>mWidth := width, mHeight := height\<rparr>)"

definition ui_begin :: "UiRenderer \<Rightarrow> UiRenderer" where
  "ui_begin r = r\<lparr>mVertices := [], mIndices := []\<rparr>"

definition quad :: "f32 \<Rightarrow> f32 \<Rightarrow> f32 \<Rightarrow> f32 \<Rightarrow> f32 \<Rightarrow> f32 \<Rightarrow> f32 \<Rightarrow> f32 \<Rightarrow> Color \<Rightarrow> UiRenderer \<Rightarrow> UiRenderer" where
  "quad x y width height u0 v0 u1 v1 color r =
     (if length (mVertices r) + 4 > kMaxVertices then r
      else
        (let v0 = fsub (f_of_int 1) v0; v1 = fsub (f_of_int 1) v1;
             base = word_of_nat (length (mVertices r)) :: u16
         in r\<lparr>mVertices := mVertices r @
                [\<lparr>vx_x = x, vx_y = y, vx_u = u0, vx_v = v0, vx_color = color\<rparr>,
                 \<lparr>vx_x = fadd x width, vx_y = y, vx_u = u1, vx_v = v0, vx_color = color\<rparr>,
                 \<lparr>vx_x = fadd x width, vx_y = fadd y height, vx_u = u1, vx_v = v1, vx_color = color\<rparr>,
                 \<lparr>vx_x = x, vx_y = fadd y height, vx_u = u0, vx_v = v1, vx_color = color\<rparr>],
              mIndices := mIndices r @ map (\<lambda>offset. base + offset) [0, 1, 2, 2, 3, 0]\<rparr>))"

definition ui_rect :: "f32 \<Rightarrow> f32 \<Rightarrow> f32 \<Rightarrow> f32 \<Rightarrow> Color \<Rightarrow> UiRenderer \<Rightarrow> UiRenderer" where
  "ui_rect x y width height color r =
     (let u = mWhiteU (mFont r); v = mWhiteV (mFont r) in quad x y width height u v u v color r)"

definition rectOutline :: "f32 \<Rightarrow> f32 \<Rightarrow> f32 \<Rightarrow> f32 \<Rightarrow> f32 \<Rightarrow> Color \<Rightarrow> UiRenderer \<Rightarrow> UiRenderer" where
  "rectOutline x y width height thickness color r =
     (let r = ui_rect x y width thickness color r;
          r = ui_rect x (fsub (fadd y height) thickness) width thickness color r;
          r = ui_rect x y thickness height color r
      in ui_rect (fsub (fadd x width) thickness) y thickness height color r)"

fun text_loop :: "int \<Rightarrow> f32 \<Rightarrow> f32 \<Rightarrow> string \<Rightarrow> Color \<Rightarrow> UiRenderer \<Rightarrow> UiRenderer" where
  "text_loop baked baseline penX [] color r = r"
| "text_loop baked baseline penX (c # cs) color r = (case font_glyph (mFont r) baked c of
      None \<Rightarrow> text_loop baked baseline penX cs color r
    | Some g \<Rightarrow>
        text_loop baked baseline (fadd penX (gl_advance g)) cs color
          (if flt (f_of_int 0) (gl_width g) \<and> flt (f_of_int 0) (gl_height g)
           then quad (fadd penX (gl_offsetX g)) (fadd baseline (gl_offsetY g)) (gl_width g) (gl_height g)
             (gl_u0 g) (gl_v0 g) (gl_u1 g) (gl_v1 g) color r
           else r))"

definition ui_text :: "f32 \<Rightarrow> f32 \<Rightarrow> string \<Rightarrow> Color \<Rightarrow> int \<Rightarrow> UiRenderer \<Rightarrow> UiRenderer" where
  "ui_text x y value color pixelSize r =
     (let baked = nearestSize (mFont r) pixelSize in
      text_loop baked (fadd y (font_ascent (mFont r) baked)) x value color r)"

definition textWidth :: "UiRenderer \<Rightarrow> string \<Rightarrow> int \<Rightarrow> f32" where
  "textWidth r value pixelSize = font_textWidth (mFont r) pixelSize value"

definition textHeight :: "UiRenderer \<Rightarrow> int \<Rightarrow> f32" where
  "textHeight r pixelSize = lineHeight (mFont r) pixelSize"

text \<open>\<open>end\<close>: an empty batch only empties the range; otherwise the indices are padded to whole buckets with index 0,
  both buffers are uploaded and the range is set when it changed.\<close>

definition draw_count :: "nat \<Rightarrow> nat" where
  "draw_count n = (let drawCount = (n + kIndexBucket - 1) div kIndexBucket * kIndexBucket in
     if drawCount > kMaxIndices then kMaxIndices else drawCount)"

definition resize_indices :: "nat \<Rightarrow> u16 list \<Rightarrow> u16 list" where
  "resize_indices n xs = take n xs @ replicate (n - length xs) 0"

definition set_range :: "nat \<Rightarrow> UiRenderer \<Rightarrow> UiRenderer" where
  "set_range n r = (if n \<noteq> mLastDrawCount r then r\<lparr>gpu_range := n, mLastDrawCount := n\<rparr> else r)"

definition ui_end :: "UiRenderer \<Rightarrow> UiRenderer" where
  "ui_end r =
     (if mIndices r = [] then set_range 0 r
      else
        (let drawCount = draw_count (length (mIndices r));
             r = r\<lparr>mIndices := resize_indices drawCount (mIndices r)\<rparr>;
             r = r\<lparr>gpu_vertices := mVertices r, gpu_indices := mIndices r\<rparr>
         in set_range drawCount r))"

section \<open>The batch\<close>

datatype draw_call =
    Rect f32 f32 f32 f32 Color
  | Outline f32 f32 f32 f32 f32 Color
  | Words f32 f32 string Color int

fun perform :: "draw_call \<Rightarrow> UiRenderer \<Rightarrow> UiRenderer" where
  "perform (Rect x y w h color) = ui_rect x y w h color"
| "perform (Outline x y w h t color) = rectOutline x y w h t color"
| "perform (Words x y str color pixelSize) = ui_text x y str color pixelSize"

text \<open>The quads a call stands for, corner by corner, whether or not there is room for them.\<close>

definition corners :: "f32 \<Rightarrow> f32 \<Rightarrow> f32 \<Rightarrow> f32 \<Rightarrow> f32 \<Rightarrow> f32 \<Rightarrow> f32 \<Rightarrow> f32 \<Rightarrow> Color \<Rightarrow> Vertex list" where
  "corners x y w h u0 v0 u1 v1 color =
     map (\<lambda>(dx, dy, u, v). \<lparr>vx_x = dx, vx_y = dy, vx_u = u, vx_v = fsub (f_of_int 1) v, vx_color = color\<rparr>)
       [(x, y, u0, v0), (fadd x w, y, u1, v0), (fadd x w, fadd y h, u1, v1), (x, fadd y h, u0, v1)]"

definition solid :: "Font \<Rightarrow> f32 \<Rightarrow> f32 \<Rightarrow> f32 \<Rightarrow> f32 \<Rightarrow> Color \<Rightarrow> Vertex list" where
  "solid font x y w h color = corners x y w h (mWhiteU font) (mWhiteV font) (mWhiteU font) (mWhiteV font) color"

fun text_quads :: "Font \<Rightarrow> int \<Rightarrow> f32 \<Rightarrow> f32 \<Rightarrow> string \<Rightarrow> Color \<Rightarrow> Vertex list list" where
  "text_quads font baked baseline penX [] color = []"
| "text_quads font baked baseline penX (c # cs) color = (case font_glyph font baked c of
      None \<Rightarrow> text_quads font baked baseline penX cs color
    | Some g \<Rightarrow>
        (if flt (f_of_int 0) (gl_width g) \<and> flt (f_of_int 0) (gl_height g)
         then [corners (fadd penX (gl_offsetX g)) (fadd baseline (gl_offsetY g)) (gl_width g) (gl_height g)
             (gl_u0 g) (gl_v0 g) (gl_u1 g) (gl_v1 g) color]
         else []) @ text_quads font baked baseline (fadd penX (gl_advance g)) cs color)"

fun call_quads :: "Font \<Rightarrow> draw_call \<Rightarrow> Vertex list list" where
  "call_quads font (Rect x y w h color) = [solid font x y w h color]"
| "call_quads font (Outline x y w h t color) =
     [solid font x y w t color, solid font x (fsub (fadd y h) t) w t color,
      solid font x y t h color, solid font (fsub (fadd x w) t) y t h color]"
| "call_quads font (Words x y str color pixelSize) =
     (let baked = nearestSize font pixelSize in text_quads font baked (fadd y (font_ascent font baked)) x str color)"

definition quad_indices :: "nat \<Rightarrow> u16 list" where
  "quad_indices q = map (\<lambda>offset. word_of_nat (4 * q + offset)) [0, 1, 2, 2, 3, 0]"

definition batch :: "Font \<Rightarrow> Vertex list list \<Rightarrow> UiRenderer \<Rightarrow> bool" where
  "batch font qs r \<longleftrightarrow> mFont r = font \<and> list_all (\<lambda>q. length q = 4) qs \<and> mVertices r = concat (take kMaxQuads qs) \<and>
     mIndices r = concat (map quad_indices [0..<min kMaxQuads (length qs)])"

lemma length_concat_quads: "list_all (\<lambda>q. length q = n) qs \<Longrightarrow> length (concat qs) = n * length qs"
  by (induction qs) auto

lemma batch_length: "batch font qs r \<Longrightarrow> length (mVertices r) = 4 * min kMaxQuads (length qs)"
  by (simp add: batch_def length_concat_quads [where n = 4] list_all_length min.commute)

lemma batch_begin: "mFont r = font \<Longrightarrow> batch font [] (ui_begin r)"
  by (simp add: batch_def ui_begin_def)

lemma batch_empty: "batch font qs r \<Longrightarrow> qs = [] \<Longrightarrow> mIndices r = []"
  by (simp add: batch_def)

lemma batch_quad:
  assumes "batch font qs r"
  shows "batch font (qs @ [corners x y w h u0 v0 u1 v1 color]) (quad x y w h u0 v0 u1 v1 color r)"
proof (cases "length qs < kMaxQuads")
  case True
  have base: "word_of_nat (length (mVertices r)) + word_of_nat offset = (word_of_nat (4 * length qs + offset) :: u16)" for offset
    using batch_length [OF assms] True by simp
  have "map (\<lambda>offset. word_of_nat (length (mVertices r)) + offset) [0, 1, 2, 2, 3, 0] = quad_indices (length qs)"
    using base [of 0] base [of 1] base [of 2] base [of 3] by (simp add: quad_indices_def)
  moreover have "\<not> length (mVertices r) + 4 > kMaxVertices"
    using batch_length [OF assms] True by (simp add: kMaxVertices_def)
  ultimately show ?thesis
    using assms True by (simp add: batch_def quad_def Let_def corners_def)
next
  case False
  then have "length (mVertices r) + 4 > kMaxVertices"
    using batch_length [OF assms] by (simp add: kMaxVertices_def)
  with False assms show ?thesis by (simp add: batch_def quad_def corners_def)
qed

lemma batch_rect: "batch font qs r \<Longrightarrow> batch font (qs @ [solid font x y w h color]) (ui_rect x y w h color r)"
  using batch_quad [of font qs r x y w h] by (simp add: ui_rect_def solid_def Let_def batch_def [of font qs])

lemma batch_text:
  "batch font qs r \<Longrightarrow> batch font (qs @ text_quads font baked baseline penX str color) (text_loop baked baseline penX str color r)"
proof (induction str arbitrary: qs penX r)
  case (Cons c cs)
  have "mFont r = font" using Cons.prems by (simp add: batch_def)
  show ?case
  proof (cases "font_glyph font baked c")
    case None
    with Cons \<open>mFont r = font\<close> show ?thesis by simp
  next
    case (Some g)
    show ?thesis
    proof (cases "flt (f_of_int 0) (gl_width g) \<and> flt (f_of_int 0) (gl_height g)")
      case True
      with Cons.IH [OF batch_quad [OF Cons.prems]] Some \<open>mFont r = font\<close> show ?thesis by simp
    next
      case False
      with Cons.IH [OF Cons.prems] Some \<open>mFont r = font\<close> show ?thesis by auto
    qed
  qed
qed simp

lemma batch_perform: "batch font qs r \<Longrightarrow> batch font (qs @ call_quads font call) (perform call r)"
proof (cases call)
  case (Outline x y w h t color)
  assume "batch font qs r"
  from batch_rect [OF batch_rect [OF batch_rect [OF batch_rect [OF this]]]] Outline show ?thesis
    by (simp add: rectOutline_def Let_def)
next
  case (Words x y str color pixelSize)
  assume "batch font qs r"
  from batch_text [OF this] this Words show ?thesis
    by (simp add: ui_text_def Let_def batch_def [of font qs])
qed (simp add: batch_rect)

lemma batch_calls: "batch font qs r \<Longrightarrow> batch font (qs @ concat (map (call_quads font) calls)) (fold perform calls r)"
proof (induction calls arbitrary: qs r)
  case (Cons call calls)
  from Cons.IH [OF batch_perform [OF Cons.prems]] show ?case by simp
qed simp

subsection \<open>Handing the batch over\<close>

lemma draw_count_bounds:
  assumes "0 < n" and "n \<le> kMaxQuads"
  shows "6 * n \<le> draw_count (6 * n)" "draw_count (6 * n) \<le> kMaxIndices" "kIndexBucket dvd draw_count (6 * n)"
proof -
  have le: "(6 * n + 383) div 384 \<le> 128" using assms by (simp add: kMaxQuads_def)
  have "m \<le> (m + 383) div 384 * 384" for m :: nat
    using div_mult_mod_eq [of "m + 383" 384] mod_less_divisor [of 384 "m + 383"] by linarith
  from this [of "6 * n"] le show "6 * n \<le> draw_count (6 * n)" "draw_count (6 * n) \<le> kMaxIndices" "kIndexBucket dvd draw_count (6 * n)"
    by (auto simp: draw_count_def kMaxIndices_def kIndexBucket_def kMaxQuads_def Let_def)
qed

text \<open>The range last given to the engine is the one remembered, once there was one.\<close>

definition synced :: "UiRenderer \<Rightarrow> bool" where
  "synced r \<longleftrightarrow> mLastDrawCount r = kSizeMax \<and> gpu_range r = 0 \<or> gpu_range r = mLastDrawCount r \<and> mLastDrawCount r \<le> kMaxIndices"

lemma set_range_synced: "synced r \<Longrightarrow> n \<le> kMaxIndices \<Longrightarrow> synced (set_range n r) \<and> gpu_range (set_range n r) = n"
  by (auto simp: synced_def set_range_def kMaxIndices_def kMaxQuads_def kSizeMax_def)

lemma set_range_same [simp]:
  "mFont (set_range n r) = mFont r" "gpu_vertices (set_range n r) = gpu_vertices r" "gpu_indices (set_range n r) = gpu_indices r"
  by (simp_all add: set_range_def)

lemma length_indices: "length (concat (map quad_indices [0..<n])) = 6 * n"
  by (induction n) (simp_all add: quad_indices_def)

lemma quad_indices_range: "q < n \<Longrightarrow> n \<le> kMaxQuads \<Longrightarrow> i \<in> set (quad_indices q) \<Longrightarrow> unat i < 4 * n"
proof -
  assume le: "q < n" "n \<le> kMaxQuads" and "i \<in> set (quad_indices q)"
  then obtain offset where i: "i = word_of_nat (4 * q + offset)" and "offset \<in> set [0, 1, 2, 2, 3, 0]"
    unfolding quad_indices_def set_map by blast
  then have "4 * q + offset < 4 * n" using le by auto
  moreover have "4 * n < 2 ^ 16" using le by (simp add: kMaxQuads_def)
  ultimately show "unat i < 4 * n" unfolding i by (simp add: unat_of_nat del: of_nat_add of_nat_mult)
qed

text \<open>What the engine has been given: the quads and, for each, its two triangles; what the range covers beyond them has no area.\<close>

definition handed_over :: "Vertex list list \<Rightarrow> UiRenderer \<Rightarrow> bool" where
  "handed_over qs r \<longleftrightarrow> gpu_vertices r = concat qs \<and> length (gpu_vertices r) = 4 * length qs \<and>
     gpu_range r = length (gpu_indices r) \<and> gpu_range r \<le> kMaxIndices \<and>
     (\<exists>pad. gpu_indices r = concat (map quad_indices [0..<length qs]) @ replicate pad 0) \<and>
     (\<forall>i \<in> set (gpu_indices r). unat i < length (gpu_vertices r))"

lemma end_hands_over:
  assumes "batch font qs r" and "qs \<noteq> []" and "synced r"
  shows "handed_over (take kMaxQuads qs) (ui_end r)" and "synced (ui_end r)"
proof -
  let ?n = "min kMaxQuads (length qs)"
  have n: "0 < ?n" "?n \<le> kMaxQuads" using assms(2) by (simp_all add: kMaxQuads_def)
  have ix: "mIndices r = concat (map quad_indices [0..<?n])" and len: "length (mIndices r) = 6 * ?n"
    using assms(1) by (simp_all add: batch_def length_indices)
  have ne: "mIndices r \<noteq> []" using len n(1) by (metis list.size(3) less_irrefl mult_is_0 zero_neq_numeral)
  note d = draw_count_bounds [OF n]
  let ?r = "r\<lparr>mIndices := resize_indices (draw_count (6 * ?n)) (mIndices r), gpu_vertices := mVertices r,
      gpu_indices := resize_indices (draw_count (6 * ?n)) (mIndices r)\<rparr>"
  have e: "ui_end r = set_range (draw_count (6 * ?n)) ?r"
    using ne len by (simp add: ui_end_def Let_def)
  have range: "synced (ui_end r)" "gpu_range (ui_end r) = draw_count (6 * ?n)"
  proof -
    have "synced ?r" using assms(3) by (simp add: synced_def)
    from set_range_synced [OF this d(2)] show "synced (ui_end r)" "gpu_range (ui_end r) = draw_count (6 * ?n)"
      unfolding e by simp_all
  qed
  have gpu: "gpu_indices (ui_end r) = concat (map quad_indices [0..<?n]) @ replicate (draw_count (6 * ?n) - 6 * ?n) 0"
    using d(1) len ix unfolding e by (simp add: resize_indices_def)
  have vs: "gpu_vertices (ui_end r) = concat (take kMaxQuads qs)" "length (gpu_vertices (ui_end r)) = 4 * ?n"
    using assms(1) batch_length [OF assms(1)] unfolding e by (simp_all add: batch_def)
  have "unat i < 4 * ?n" if "i \<in> set (gpu_indices (ui_end r))" for i
    using that n quad_indices_range [of _ ?n i] unfolding gpu by (auto simp: min_def split: if_splits)
  then show "handed_over (take kMaxQuads qs) (ui_end r)"
    using range gpu vs d(1,2) by (auto simp: handed_over_def length_indices min.commute)
  show "synced (ui_end r)" by (rule range(1))
qed

datatype ui_event = Frame "draw_call list" | Viewport int int

fun ui_step :: "ui_event \<Rightarrow> UiRenderer \<Rightarrow> UiRenderer" where
  "ui_step (Frame calls) r = ui_end (fold perform calls (ui_begin r))"
| "ui_step (Viewport width height) r = setViewport width height r"

lemma frame_quads:
  assumes "synced r"
  shows "batch (mFont r) (concat (map (call_quads (mFont r)) calls)) (fold perform calls (ui_begin r))"
    and "synced (fold perform calls (ui_begin r))"
proof -
  show "batch (mFont r) (concat (map (call_quads (mFont r)) calls)) (fold perform calls (ui_begin r))"
    using batch_calls [OF batch_begin [OF refl, of r]] by simp
  have loop: "synced (text_loop baked baseline penX str color r) = synced r" for baked baseline penX str color r
    by (induction str arbitrary: penX r) (auto simp: synced_def quad_def Let_def split: option.split)
  have "synced (perform call r) = synced r" for call r
    by (cases call) (simp_all add: loop ui_text_def rectOutline_def ui_rect_def Let_def, simp_all add: synced_def quad_def Let_def)
  then have "synced (fold perform calls r) = synced r" for r by (induction calls arbitrary: r) simp_all
  then show "synced (fold perform calls (ui_begin r))" using assms by (simp add: synced_def ui_begin_def)
qed

lemma end_same: "mFont (ui_end r) = mFont r" "synced r \<Longrightarrow> mIndices r = [] \<Longrightarrow> gpu_range (ui_end r) = 0 \<and> synced (ui_end r)"
  using set_range_synced [of r 0] by (simp_all add: ui_end_def Let_def)

lemma step_synced: "synced r \<Longrightarrow> synced (ui_step event r) \<and> mFont (ui_step event r) = mFont r"
proof (cases event)
  case (Frame calls)
  assume s: "synced r"
  note f = frame_quads [OF s, of calls]
  let ?b = "fold perform calls (ui_begin r)" and ?qs = "concat (map (call_quads (mFont r)) calls)"
  have "synced (ui_end ?b)"
  proof (cases "?qs = []")
    case True
    with end_same(2) [OF f(2)] batch_empty [OF f(1)] show ?thesis by simp
  next
    case False
    with end_hands_over(2) [OF f(1) _ f(2)] show ?thesis by blast
  qed
  with f(1) Frame show ?thesis by (simp add: end_same(1) batch_def)
qed (simp add: synced_def setViewport_def)

text \<open>C36. What the interface hands to the graphics engine is what was drawn. After any sequence of frames
  and window sizes since the renderer was set up, a further frame of rectangles, outlines and text
  hands over exactly the quads of its calls in drawing order, up to the 8192 the buffers hold: the vertices are the quads'
  corners, the indices are their triangles followed by degenerate ones only, every index refers to an uploaded vertex, the draw range
  is the uploaded indices and no larger than the buffer; a frame that draws nothing leaves an empty range.\<close>

theorem ui_batch_exact:
  assumes "ui_init stb = Some start"
  shows "(let qs = concat (map (call_quads (mFont start)) calls); r = ui_step (Frame calls) (fold ui_step events start) in
    if qs = [] then gpu_range r = 0 else handed_over (take kMaxQuads qs) r)"
proof -
  have "synced start" using assms(1) by (auto simp: ui_init_def synced_def split: sum.splits)
  then have r: "synced (fold ui_step events start) \<and> mFont (fold ui_step events start) = mFont start"
    by (induction events arbitrary: start) (simp_all add: step_synced)
  let ?b = "fold perform calls (ui_begin (fold ui_step events start))"
  let ?qs = "concat (map (call_quads (mFont start)) calls)"
  have b: "batch (mFont start) ?qs ?b" "synced ?b"
    using frame_quads [of "fold ui_step events start" calls] r by simp_all
  show ?thesis
  proof (cases "?qs = []")
    case True
    with end_same(2) [OF b(2) batch_empty [OF b(1)]] show ?thesis by (simp add: Let_def)
  next
    case False
    from end_hands_over(1) [OF b(1) this b(2)] False show ?thesis by (simp only: Let_def ui_step.simps if_False)
  qed
qed

text \<open>A font without marks, which needs no room in the atlas.\<close>

definition blank_stb :: stb_font where
  "blank_stb = sample_stb\<lparr>stb_GetCodepointBitmapBox := (\<lambda>_ _. (0, 0, 0, 0))\<rparr>"

lemma blank_bakes: "\<exists>glyphs'. bake_glyphs blank_stb scale cs glyphs p = Inr (glyphs', p)"
  by (induction cs arbitrary: glyphs) (simp_all add: bake_glyph_def blank_stb_def Let_def split: prod.split)

lemma blank_sizes: "\<exists>sizes'. bake_sizes blank_stb todo sizes p = Inr (sizes', p)"
proof (induction todo arbitrary: sizes)
  case (Cons d todo)
  obtain glyphs where "bake_glyphs blank_stb (stb_ScaleForPixelHeight blank_stb (f_of_int d)) [kFirstGlyph..kLastGlyph] [] p = Inr (glyphs, p)"
    using blank_bakes by blast
  with Cons.IH show ?case by (simp add: bake_size_def Let_def split: prod.split)
qed simp

lemma blank_init: "\<exists>start. ui_init blank_stb = Some start"
proof -
  obtain pixels where "put_texel (kPadding * kAtlasSize + kPadding) 255 (replicate (kAtlasSize * kAtlasSize * 4) 0) = Some pixels"
    using white_packed by blast
  moreover have "stb_InitFont blank_stb" by (simp add: blank_stb_def sample_stb_def)
  ultimately show ?thesis
    using blank_sizes [of "[kFontSizeSmall, kFontSizeBody, kFontSizeHeading, kFontSizeTitle]" "[]"
      "\<lparr>pk_penX = kPadding + (1 + kPadding * 2), pk_penY = kPadding, pk_rowHeight = 1, pk_pixels = pixels\<rparr>"]
    by (auto simp: ui_init_def font_build_def Let_def)
qed

theorem ui_batch_exact_witness:
  "\<exists>start. ui_init blank_stb = Some start \<and>
     (let r = ui_step (Frame [Rect 0 0 0 0 (rgba 1 2 3 4)]) (fold ui_step [Viewport 640 480, Frame []] start) in
      length (gpu_vertices r) = 4 \<and> take 6 (gpu_indices r) = [0, 1, 2, 2, 3, 0])"
proof -
  obtain start where start: "ui_init blank_stb = Some start" using blank_init by blast
  from ui_batch_exact [OF this, of "[Rect 0 0 0 0 (rgba 1 2 3 4)]" "[Viewport 640 480, Frame []]"]
  have "handed_over [solid (mFont start) 0 0 0 0 (rgba 1 2 3 4)]
      (ui_step (Frame [Rect 0 0 0 0 (rgba 1 2 3 4)]) (fold ui_step [Viewport 640 480, Frame []] start))"
    by (simp add: Let_def kMaxQuads_def del: ui_step.simps fold_simps)
  with start show ?thesis
    by (auto simp: handed_over_def quad_indices_def Let_def simp del: ui_step.simps fold_simps)
qed

end
