(* ===== verification/Widgets.thy ===== *)
theory Widgets
  imports UiRenderer "HOL-Library.Signed_Division"
begin

text \<open>
  \<^verbatim>\<open>client/src/ui/widgets.cpp\<close> and \<^verbatim>\<open>client/src/screens.cpp\<close>: the immediate-mode interface and the two
  screens made of it. The renderer the widgets point to is a field of \<open>Ui\<close>; the time for the caret
  is an argument of \<open>widgets_begin\<close>. The properties: what a text field accepts, when a button is clicked, and that
  nothing drawn or decided depends on the password beyond its length.
\<close>

section \<open>Input\<close>

record InputState =
  in_mouseX :: f32
  in_mouseY :: f32
  in_mouseDown :: bool
  in_mousePressed :: bool
  in_mouseReleased :: bool
  in_characters :: "u32 list"
  in_backspace :: bool
  in_tab :: bool
  in_enter :: bool
  in_escape :: bool

definition new_input :: InputState where
  "new_input = \<lparr>in_mouseX = f_of_int 0, in_mouseY = f_of_int 0, in_mouseDown = False, in_mousePressed = False,
     in_mouseReleased = False, in_characters = [], in_backspace = False, in_tab = False, in_enter = False, in_escape = False\<rparr>"

definition endFrame :: "InputState \<Rightarrow> InputState" where
  "endFrame i = i\<lparr>in_mousePressed := False, in_mouseReleased := False, in_characters := [], in_backspace := False,
     in_tab := False, in_enter := False, in_escape := False\<rparr>"

section \<open>Theme\<close>

record Theme =
  th_background :: Color
  th_panel :: Color
  th_border :: Color
  th_borderFocused :: Color
  th_field :: Color
  th_text :: Color
  th_textDim :: Color
  th_accent :: Color
  th_accentHover :: Color
  th_accentPressed :: Color
  th_danger :: Color
  th_dangerHover :: Color

definition theme :: Theme where
  "theme = \<lparr>th_background = rgba 14 16 22 235, th_panel = rgba 26 30 40 245, th_border = rgba 70 80 100 255,
     th_borderFocused = rgba 120 170 240 255, th_field = rgba 18 20 27 255, th_text = rgba 226 232 240 255,
     th_textDim = rgba 130 142 160 255, th_accent = rgba 58 110 200 255, th_accentHover = rgba 78 138 235 255,
     th_accentPressed = rgba 42 86 165 255, th_danger = rgba 190 70 62 255, th_dangerHover = rgba 215 88 80 255\<rparr>"

definition kTextSize :: int where "kTextSize = kFontSizeBody"
definition kBorder :: f32 where "kBorder = f_of_int 2"
definition kFieldPadding :: f32 where "kFieldPadding = f_of_int 10"
definition kCaretBlinkSeconds :: f64 where "kCaretBlinkSeconds = d_ratio 53 100"

section \<open>Widgets\<close>

record Ui =
  mRenderer :: UiRenderer
  mInput :: InputState
  mFocused :: int
  mHeld :: int
  mTextFields :: "int list"
  mTabPending :: bool
  mCaretTimer :: f64

definition draw :: "(UiRenderer \<Rightarrow> UiRenderer) \<Rightarrow> Ui \<Rightarrow> Ui" where
  "draw f ui = ui\<lparr>mRenderer := f (mRenderer ui)\<rparr>"

definition half :: f32 where "half = f_ratio 5 10"

definition centreTextY :: "UiRenderer \<Rightarrow> f32 \<Rightarrow> f32 \<Rightarrow> int \<Rightarrow> f32" where
  "centreTextY r y height pixelSize = fadd y (fmul (fsub height (textHeight r pixelSize)) half)"

definition widgets_begin :: "f64 \<Rightarrow> InputState \<Rightarrow> Ui \<Rightarrow> Ui" where
  "widgets_begin now input ui = ui\<lparr>mInput := input, mCaretTimer := now, mTabPending := in_tab input, mTextFields := []\<rparr>"

fun after_focus :: "int \<Rightarrow> int list \<Rightarrow> int option" where
  "after_focus focus [] = None"
| "after_focus focus (field # others) =
     (if field = focus then (case others of [] \<Rightarrow> None | follower # _ \<Rightarrow> Some follower) else after_focus focus others)"

definition widgets_end :: "Ui \<Rightarrow> Ui" where
  "widgets_end ui =
     (let ui = (if in_mousePressed (mInput ui) \<and> mHeld ui = 0 then ui\<lparr>mFocused := 0\<rparr> else ui);
          ui = (if in_mouseReleased (mInput ui) then ui\<lparr>mHeld := 0\<rparr> else ui);
          ui = (if mTabPending ui \<and> mTextFields ui \<noteq> []
                then ui\<lparr>mFocused := (case after_focus (mFocused ui) (mTextFields ui) of
                    None \<Rightarrow> hd (mTextFields ui) | Some follower \<Rightarrow> follower)\<rparr>
                else ui)
      in ui\<lparr>mTabPending := False\<rparr>)"

definition hovered :: "f32 \<Rightarrow> f32 \<Rightarrow> f32 \<Rightarrow> f32 \<Rightarrow> InputState \<Rightarrow> bool" where
  "hovered x y width height i \<longleftrightarrow> fle x (in_mouseX i) \<and> flt (in_mouseX i) (fadd x width) \<and> fle y (in_mouseY i) \<and>
     flt (in_mouseY i) (fadd y height)"

definition panel :: "f32 \<Rightarrow> f32 \<Rightarrow> f32 \<Rightarrow> f32 \<Rightarrow> Ui \<Rightarrow> Ui" where
  "panel x y width height ui =
     draw (rectOutline x y width height kBorder (th_border theme)) (draw (ui_rect x y width height (th_panel theme)) ui)"

definition label :: "f32 \<Rightarrow> f32 \<Rightarrow> string \<Rightarrow> int \<Rightarrow> Ui \<Rightarrow> Ui" where
  "label x y str pixelSize = draw (ui_text x y str (th_text theme) pixelSize)"

definition labelDim :: "f32 \<Rightarrow> f32 \<Rightarrow> string \<Rightarrow> int \<Rightarrow> Ui \<Rightarrow> Ui" where
  "labelDim x y str pixelSize = draw (ui_text x y str (th_textDim theme) pixelSize)"

definition labelCentred :: "f32 \<Rightarrow> f32 \<Rightarrow> string \<Rightarrow> int \<Rightarrow> Ui \<Rightarrow> Ui" where
  "labelCentred centreX y str pixelSize ui =
     draw (ui_text (fsub centreX (fmul (textWidth (mRenderer ui) str pixelSize) half)) y str (th_text theme) pixelSize) ui"

text \<open>A press on a widget holds and focuses it.\<close>

definition press :: "int \<Rightarrow> bool \<Rightarrow> Ui \<Rightarrow> Ui" where
  "press ident isHovered ui =
     (if isHovered \<and> in_mousePressed (mInput ui) then ui\<lparr>mHeld := ident, mFocused := ident\<rparr> else ui)"

definition buttonInternal :: "int \<Rightarrow> f32 \<Rightarrow> f32 \<Rightarrow> f32 \<Rightarrow> f32 \<Rightarrow> string \<Rightarrow> Color \<Rightarrow> Color \<Rightarrow> Color \<Rightarrow> Ui \<Rightarrow> bool \<times> Ui" where
  "buttonInternal ident x y width height str base hover pressed ui =
     (let isHovered = hovered x y width height (mInput ui);
          ui = press ident isHovered ui;
          clicked = (mHeld ui = ident \<and> in_mouseReleased (mInput ui) \<and> isHovered);
          fill = (if mHeld ui = ident \<and> isHovered then pressed else if isHovered then hover else base);
          ui = draw (ui_rect x y width height fill) ui;
          ui = (if mFocused ui = ident then draw (rectOutline x y width height kBorder (th_borderFocused theme)) ui else ui);
          ui = draw (ui_text (fadd x (fmul (fsub width (textWidth (mRenderer ui) str kTextSize)) half))
                 (centreTextY (mRenderer ui) y height kTextSize) str (th_text theme) kTextSize) ui
      in (clicked, ui))"

definition button :: "int \<Rightarrow> f32 \<Rightarrow> f32 \<Rightarrow> f32 \<Rightarrow> f32 \<Rightarrow> string \<Rightarrow> Ui \<Rightarrow> bool \<times> Ui" where
  "button ident x y width height str = buttonInternal ident x y width height str (th_accent theme) (th_accentHover theme) (th_accentPressed theme)"

definition dangerButton :: "int \<Rightarrow> f32 \<Rightarrow> f32 \<Rightarrow> f32 \<Rightarrow> f32 \<Rightarrow> string \<Rightarrow> Ui \<Rightarrow> bool \<times> Ui" where
  "dangerButton ident x y width height str = buttonInternal ident x y width height str (th_danger theme) (th_dangerHover theme) (th_danger theme)"

fun type_characters :: "nat \<Rightarrow> u32 list \<Rightarrow> string \<Rightarrow> string" where
  "type_characters maxLength [] v = v"
| "type_characters maxLength (codepoint # rest) v = type_characters maxLength rest
     (if 0x20 \<le> codepoint \<and> codepoint \<le> 0x7E \<and> length v < maxLength then v @ [char_of (unat codepoint)] else v)"

definition edit_field :: "InputState \<Rightarrow> nat \<Rightarrow> string \<Rightarrow> string" where
  "edit_field i maxLength v = (let v = type_characters maxLength (in_characters i) v in
     if in_backspace i \<and> v \<noteq> [] then butlast v else v)"

definition d_to_i32 :: "f64 \<Rightarrow> 32 word" where
  "d_to_i32 x = (case fp_trunc (fp64 x) of
      Some i \<Rightarrow> if - (2 ^ 31) \<le> i \<and> i < 2 ^ 31 then word_of_int i else 0x80000000
    | None \<Rightarrow> 0x80000000)"

definition caret_visible :: "f64 \<Rightarrow> bool" where
  "caret_visible timer \<longleftrightarrow> sint (d_to_i32 (ddiv timer kCaretBlinkSeconds)) smod 2 = 0"

definition paint_field :: "f32 \<Rightarrow> f32 \<Rightarrow> f32 \<Rightarrow> f32 \<Rightarrow> bool \<Rightarrow> bool \<Rightarrow> string \<Rightarrow> string \<Rightarrow> Ui \<Rightarrow> Ui" where
  "paint_field x y width height isFocused is_empty shown placeholder ui =
     (let ui = draw (ui_rect x y width height (th_field theme)) ui;
          ui = draw (rectOutline x y width height kBorder (if isFocused then th_borderFocused theme else th_border theme)) ui;
          textX = fadd x kFieldPadding;
          textY = centreTextY (mRenderer ui) y height kTextSize;
          ui = (if is_empty \<and> \<not> isFocused then draw (ui_text textX textY placeholder (th_textDim theme) kTextSize) ui
                else draw (ui_text textX textY shown (th_text theme) kTextSize) ui)
      in if isFocused \<and> caret_visible (mCaretTimer ui)
         then (let caretX = fadd textX (textWidth (mRenderer ui) shown kTextSize);
                   caretHeight = fmul (textHeight (mRenderer ui) kTextSize) (f_ratio 8 10)
               in draw (ui_rect (fadd caretX (f_of_int 1)) (fadd textY (fmul caretHeight (f_ratio 15 100)))
                    (f_of_int 2) caretHeight (th_text theme)) ui)
         else ui)"

definition textField :: "int \<Rightarrow> f32 \<Rightarrow> f32 \<Rightarrow> f32 \<Rightarrow> f32 \<Rightarrow> string \<Rightarrow> string \<Rightarrow> bool \<Rightarrow> nat \<Rightarrow> Ui \<Rightarrow> bool \<times> string \<times> Ui" where
  "textField ident x y width height v placeholder password maxLength ui =
     (let ui = press ident (hovered x y width height (mInput ui)) (ui\<lparr>mTextFields := mTextFields ui @ [ident]\<rparr>);
          isFocused = (mFocused ui = ident);
          v = (if isFocused then edit_field (mInput ui) maxLength v else v);
          shown = (if password then replicate (length v) (CHR ''*'') else v)
      in (isFocused \<and> in_enter (mInput ui), v, paint_field x y width height isFocused (v = []) shown placeholder ui))"

section \<open>Screens\<close>

datatype AppState = Login | Connecting | InGame | Menu

definition kIdUsername :: int where "kIdUsername = 1"
definition kIdPassword :: int where "kIdPassword = 2"
definition kIdSubmit :: int where "kIdSubmit = 3"
definition kIdQuit :: int where "kIdQuit = 4"
definition kIdResume :: int where "kIdResume = 5"
definition kIdLogout :: int where "kIdLogout = 6"
definition kIdMenuQuit :: int where "kIdMenuQuit = 7"

definition kFieldHeight :: f32 where "kFieldHeight = f_of_int 40"
definition kButtonHeight :: f32 where "kButtonHeight = f_of_int 44"
definition kRowGap :: f32 where "kRowGap = f_of_int 16"

datatype LoginAction = NoLoginAction | Submit | QuitLogin
datatype MenuAction = NoMenuAction | Resume | Logout | QuitMenu

record LoginScreen =
  ls_username :: string
  ls_password :: string
  ls_status :: string
  ls_statusIsError :: bool
  ls_focusInitialised :: bool

definition new_login_screen :: LoginScreen where
  "new_login_screen = \<lparr>ls_username = [], ls_password = [], ls_status = [], ls_statusIsError = False, ls_focusInitialised = False\<rparr>"

definition setStatus :: "string \<Rightarrow> bool \<Rightarrow> LoginScreen \<Rightarrow> LoginScreen" where
  "setStatus str is_error l = l\<lparr>ls_status := str, ls_statusIsError := is_error\<rparr>"

definition clearPassword :: "LoginScreen \<Rightarrow> LoginScreen" where
  "clearPassword l = l\<lparr>ls_password := []\<rparr>"

definition resetFocus :: "LoginScreen \<Rightarrow> LoginScreen" where
  "resetFocus l = l\<lparr>ls_focusInitialised := False\<rparr>"

definition kMaxFieldLength :: nat where "kMaxFieldLength = 32"

definition kLoginWidth :: f32 where "kLoginWidth = f_of_int 460"
definition kLoginHeight :: f32 where "kLoginHeight = f_of_int 320"

definition kLoginContent :: f32 where "kLoginContent = fsub kLoginWidth (f_of_int 64)"

text \<open>The form down to the user name, from there to the password, and the rest; each part answers how far down it got.\<close>

definition login_head :: "f32 \<Rightarrow> f32 \<Rightarrow> bool \<Rightarrow> Ui \<Rightarrow> f32 \<times> Ui" where
  "login_head panelX panelY focusInitialised ui =
     (let ui = (if focusInitialised then ui else ui\<lparr>mFocused := kIdUsername\<rparr>);
          ui = draw (ui_rect (f_of_int 0) (f_of_int 0) (f_of_int (mWidth (mRenderer ui))) (f_of_int (mHeight (mRenderer ui)))
                 (th_background theme)) ui;
          ui = panel panelX panelY kLoginWidth kLoginHeight ui;
          contentX = fadd panelX (f_of_int 32);
          y = fadd panelY (f_of_int 28);
          ui = labelCentred (fadd panelX (fmul kLoginWidth half)) y ''UNTITLED'' kFontSizeTitle ui;
          y = fadd y (fadd (textHeight (mRenderer ui) kFontSizeTitle) (f_of_int 24));
          ui = labelDim contentX y ''USERNAME'' kFontSizeSmall ui
      in (fadd y (fadd (textHeight (mRenderer ui) kFontSizeSmall) (f_of_int 4)), ui))"

definition username_part :: "f32 \<Rightarrow> f32 \<Rightarrow> bool \<Rightarrow> string \<Rightarrow> Ui \<Rightarrow> bool \<times> string \<times> f32 \<times> Ui" where
  "username_part panelX panelY focusInitialised username ui =
     (case login_head panelX panelY focusInitialised ui of (y, ui) \<Rightarrow>
      case textField kIdUsername (fadd panelX (f_of_int 32)) y kLoginContent kFieldHeight username ''enter username'' False kMaxFieldLength ui of
        (submitted, username, ui) \<Rightarrow> (submitted, username, fadd y (fadd kFieldHeight kRowGap), ui))"

definition password_part :: "f32 \<Rightarrow> f32 \<Rightarrow> string \<Rightarrow> Ui \<Rightarrow> bool \<times> string \<times> f32 \<times> Ui" where
  "password_part panelX y password ui =
     (let contentX = fadd panelX (f_of_int 32);
          ui = labelDim contentX y ''PASSWORD'' kFontSizeSmall ui;
          y = fadd y (fadd (textHeight (mRenderer ui) kFontSizeSmall) (f_of_int 4))
      in case textField kIdPassword contentX y kLoginContent kFieldHeight password ''enter password'' True kMaxFieldLength ui of
           (submitted, password, ui) \<Rightarrow> (submitted, password, fadd y (fadd (fadd kFieldHeight kRowGap) (f_of_int 4)), ui))"

definition buttons_part :: "AppState \<Rightarrow> f32 \<Rightarrow> f32 \<Rightarrow> string \<Rightarrow> bool \<Rightarrow> bool \<Rightarrow> Ui \<Rightarrow> LoginAction \<times> Ui" where
  "buttons_part state panelX y status_line statusIsError submitted ui =
     (let contentX = fadd panelX (f_of_int 32);
          busy = (state = Connecting);
          buttonWidth = fmul (fsub kLoginContent (f_of_int 12)) half
      in case button kIdSubmit contentX y buttonWidth kButtonHeight (if busy then ''...'' else ''LOGIN'') ui of
           (submitClicked, ui) \<Rightarrow>
         case button kIdQuit (fadd (fadd contentX buttonWidth) (f_of_int 12)) y buttonWidth kButtonHeight ''QUIT'' ui of
           (quitClicked, ui) \<Rightarrow>
      (let y = fadd y (fadd kButtonHeight (f_of_int 14));
           ui = (if status_line \<noteq> [] then
                   (let colour = (if statusIsError then rgba 230 110 100 255 else th_textDim theme);
                        textX = fadd panelX (fmul (fsub kLoginWidth (textWidth (mRenderer ui) status_line kFontSizeSmall)) half)
                    in draw (ui_text textX y status_line colour kFontSizeSmall) ui)
                 else ui)
       in (if quitClicked then QuitLogin
           else if \<not> busy \<and> (submitClicked \<or> submitted) then Submit
           else NoLoginAction, ui)))"

definition login_draw :: "AppState \<Rightarrow> LoginScreen \<Rightarrow> Ui \<Rightarrow> LoginAction \<times> LoginScreen \<times> Ui" where
  "login_draw state l ui =
     (let panelX = fmul (fsub (f_of_int (mWidth (mRenderer ui))) kLoginWidth) half;
          panelY = fmul (fsub (f_of_int (mHeight (mRenderer ui))) kLoginHeight) half
      in case username_part panelX panelY (ls_focusInitialised l) (ls_username l) ui of (usernameSubmitted, username, y, ui) \<Rightarrow>
         case password_part panelX y (ls_password l) ui of (passwordSubmitted, password, y, ui) \<Rightarrow>
         case buttons_part state panelX y (ls_status l) (ls_statusIsError l) (usernameSubmitted \<or> passwordSubmitted) ui of (action, ui) \<Rightarrow>
           (action, l\<lparr>ls_focusInitialised := True, ls_username := username, ls_password := password\<rparr>, ui))"

definition menu_draw :: "string \<Rightarrow> Ui \<Rightarrow> MenuAction \<times> Ui" where
  "menu_draw username ui =
     (let screenWidth = f_of_int (mWidth (mRenderer ui));
          screenHeight = f_of_int (mHeight (mRenderer ui));
          ui = draw (ui_rect (f_of_int 0) (f_of_int 0) screenWidth screenHeight (rgba 8 10 14 150)) ui;
          panelWidth = f_of_int 340;
          panelHeight = f_of_int 260;
          panelX = fmul (fsub screenWidth panelWidth) half;
          panelY = fmul (fsub screenHeight panelHeight) half;
          ui = panel panelX panelY panelWidth panelHeight ui;
          y = fadd panelY (f_of_int 26);
          ui = labelCentred (fadd panelX (fmul panelWidth half)) y ''PAUSED'' kFontSizeHeading ui;
          y = fadd y (fadd (textHeight (mRenderer ui) kFontSizeHeading) (f_of_int 6));
          subtitle = ''logged in as '' @ username;
          ui = draw (ui_text (fadd panelX (fmul (fsub panelWidth (textWidth (mRenderer ui) subtitle kFontSizeSmall)) half)) y
                 subtitle (th_textDim theme) kFontSizeSmall) ui;
          y = fadd y (fadd (textHeight (mRenderer ui) kFontSizeSmall) (f_of_int 22));
          contentX = fadd panelX (f_of_int 30);
          contentWidth = fsub panelWidth (f_of_int 60)
      in case button kIdResume contentX y contentWidth kButtonHeight ''RESUME'' ui of (resume, ui) \<Rightarrow>
      (let y = fadd y (fadd kButtonHeight (f_of_int 12))
       in case dangerButton kIdLogout contentX y contentWidth kButtonHeight ''LOGOUT'' ui of (logout, ui) \<Rightarrow>
      (let y = fadd y (fadd kButtonHeight (f_of_int 12))
       in case button kIdMenuQuit contentX y contentWidth kButtonHeight ''QUIT'' ui of (quit, ui) \<Rightarrow>
          (if resume then Resume else if logout then Logout else if quit then QuitMenu else NoMenuAction, ui))))"

section \<open>What a field accepts\<close>

definition printable :: "char \<Rightarrow> bool" where
  "printable c \<longleftrightarrow> 0x20 \<le> (of_char c :: nat) \<and> (of_char c :: nat) \<le> 0x7E"

definition field_ok :: "string \<Rightarrow> bool" where
  "field_ok v \<longleftrightarrow> list_all printable v \<and> length v \<le> kMaxFieldLength"

lemma printable_typed: "0x20 \<le> codepoint \<Longrightarrow> codepoint \<le> 0x7E \<Longrightarrow> printable (char_of (unat codepoint))" for codepoint :: u32
  by (auto simp: printable_def word_le_nat_alt)

lemma type_characters_ok: "field_ok v \<Longrightarrow> field_ok (type_characters kMaxFieldLength cs v)"
  by (induction cs arbitrary: v) (auto simp: field_ok_def printable_typed)

lemma edit_field_ok: "field_ok v \<Longrightarrow> field_ok (edit_field i kMaxFieldLength v)"
  using type_characters_ok [of v "in_characters i"]
  by (auto simp: edit_field_def Let_def field_ok_def list_all_iff dest: in_set_butlastD)

lemma textField_ok:
  "field_ok v \<Longrightarrow> textField ident x y w h v placeholder hide kMaxFieldLength ui = (submitted, v', ui') \<Longrightarrow> field_ok v'"
  by (auto simp: textField_def Let_def edit_field_ok split: if_splits)

definition login_ok :: "LoginScreen \<Rightarrow> bool" where
  "login_ok l \<longleftrightarrow> field_ok (ls_username l) \<and> field_ok (ls_password l)"

lemma username_part_ok:
  assumes "field_ok v"
  shows "field_ok (fst (snd (username_part panelX panelY f v ui)))"
proof -
  obtain y ui1 where h: "login_head panelX panelY f ui = (y, ui1)" by fastforce
  obtain b u ui2 where t: "textField kIdUsername (fadd panelX (f_of_int 32)) y kLoginContent kFieldHeight v ''enter username''
      False kMaxFieldLength ui1 = (b, u, ui2)" by (metis prod_cases3)
  from textField_ok [OF assms t] show ?thesis by (simp add: username_part_def h t)
qed

lemma password_part_ok:
  assumes "field_ok v"
  shows "field_ok (fst (snd (password_part panelX y v ui)))"
proof -
  let ?ui = "labelDim (fadd panelX (f_of_int 32)) y ''PASSWORD'' kFontSizeSmall ui"
  let ?y = "fadd y (fadd (textHeight (mRenderer ?ui) kFontSizeSmall) (f_of_int 4))"
  obtain b u ui2 where t: "textField kIdPassword (fadd panelX (f_of_int 32)) ?y kLoginContent kFieldHeight v ''enter password''
      True kMaxFieldLength ?ui = (b, u, ui2)" by (metis prod_cases3)
  from textField_ok [OF assms t] show ?thesis by (simp add: password_part_def t Let_def)
qed

lemma login_draw_ok:
  assumes "login_ok l"
  shows "login_ok (fst (snd (login_draw state l ui)))"
proof -
  let ?X = "fmul (fsub (f_of_int (mWidth (mRenderer ui))) kLoginWidth) half"
  let ?Y = "fmul (fsub (f_of_int (mHeight (mRenderer ui))) kLoginHeight) half"
  obtain b1 name y2 ui2 where a: "username_part ?X ?Y (ls_focusInitialised l) (ls_username l) ui = (b1, name, y2, ui2)"
    by (metis prod_cases4)
  obtain b2 word y3 ui3 where w: "password_part ?X y2 (ls_password l) ui2 = (b2, word, y3, ui3)"
    by (metis prod_cases4)
  have "field_ok name" "field_ok word"
    using assms username_part_ok [of "ls_username l" ?X ?Y "ls_focusInitialised l" ui] password_part_ok [of "ls_password l" ?X y2 ui2]
    by (simp_all add: login_ok_def a w)
  then show ?thesis by (simp add: login_draw_def a w login_ok_def split: prod.split)
qed

section \<open>Nothing depends on the password but its length\<close>

lemma type_characters_length:
  "length v = length v' \<Longrightarrow> length (type_characters n cs v) = length (type_characters n cs v')"
proof (induction cs arbitrary: v v')
  case (Cons c cs)
  show ?case
    unfolding type_characters.simps by (rule Cons.IH) (simp add: Cons.prems)
qed simp

lemma edit_field_length: "length v = length v' \<Longrightarrow> length (edit_field i n v) = length (edit_field i n v')"
  using type_characters_length [of v v' n "in_characters i"] by (auto simp: edit_field_def Let_def)

lemma textField_hides:
  assumes "length v = length v'" and "textField ident x y w h v placeholder True n ui = (s, u, ui')"
  shows "\<exists>u'. textField ident x y w h v' placeholder True n ui = (s, u', ui') \<and> length u = length u'"
proof -
  have "length (edit_field i n v) = length (edit_field i n v')" for i by (rule edit_field_length [OF assms(1)])
  moreover from this have "edit_field i n v = [] \<longleftrightarrow> edit_field i n v' = []" for i by (metis length_0_conv)
  moreover have "v = [] \<longleftrightarrow> v' = []" using assms(1) by (metis length_0_conv)
  ultimately show ?thesis
    using assms by (auto simp: textField_def Let_def)
qed

lemma password_part_hides:
  assumes "length v = length v'" and "password_part panelX y v ui = (s, u, y', ui')"
  shows "\<exists>u'. password_part panelX y v' ui = (s, u', y', ui') \<and> length u = length u'"
  using assms(2) unfolding password_part_def Let_def by (auto split: prod.splits dest: textField_hides [OF assms(1)])

lemma login_draw_hides:
  assumes "length (ls_password l) = length p" and "login_draw state l ui = (action, l1, ui1)"
  shows "\<exists>p1. login_draw state (l\<lparr>ls_password := p\<rparr>) ui = (action, l1\<lparr>ls_password := p1\<rparr>, ui1) \<and> length (ls_password l1) = length p1"
proof -
  let ?X = "fmul (fsub (f_of_int (mWidth (mRenderer ui))) kLoginWidth) half"
  let ?Y = "fmul (fsub (f_of_int (mHeight (mRenderer ui))) kLoginHeight) half"
  obtain b1 name y2 ui2 where a: "username_part ?X ?Y (ls_focusInitialised l) (ls_username l) ui = (b1, name, y2, ui2)"
    by (metis prod_cases4)
  obtain b2 word y3 ui3 where w: "password_part ?X y2 (ls_password l) ui2 = (b2, word, y3, ui3)"
    by (metis prod_cases4)
  obtain p1 where p1: "password_part ?X y2 p ui2 = (b2, p1, y3, ui3)" "length word = length p1"
    using password_part_hides [OF assms(1) w] by blast
  show ?thesis
    using assms(2) p1 by (intro exI [of _ p1]) (auto simp: login_draw_def a w split: prod.splits)
qed

section \<open>The login form over many frames\<close>

text \<open>A frame of the login screen: the state it is drawn in, the caret's time and the input.\<close>

definition login_frame :: "AppState \<times> f64 \<times> InputState \<Rightarrow> LoginScreen \<times> Ui \<times> LoginAction list \<Rightarrow> LoginScreen \<times> Ui \<times> LoginAction list" where
  "login_frame f st = (case f of (state, now, input) \<Rightarrow> case st of (l, ui, actions) \<Rightarrow>
     case login_draw state l (widgets_begin now input (ui\<lparr>mRenderer := ui_begin (mRenderer ui)\<rparr>)) of
       (action, l, ui) \<Rightarrow> (l, (widgets_end ui)\<lparr>mRenderer := ui_end (mRenderer ui)\<rparr>, actions @ [action]))"

lemma login_frame_ok: "login_ok (fst st) \<Longrightarrow> login_ok (fst (login_frame f st))"
proof -
  obtain state now input where f: "f = (state, now, input)" by (metis prod_cases3)
  obtain l ui actions where st: "st = (l, ui, actions)" by (metis prod_cases3)
  assume "login_ok (fst st)"
  from login_draw_ok [of l state "widgets_begin now input (ui\<lparr>mRenderer := ui_begin (mRenderer ui)\<rparr>)"] this show ?thesis
    by (auto simp: login_frame_def f st split: prod.split)
qed

lemma login_frame_hides:
  assumes "length (ls_password l) = length p"
  shows "\<exists>p'. login_frame f (l\<lparr>ls_password := p\<rparr>, ui, actions) =
      ((fst (login_frame f (l, ui, actions)))\<lparr>ls_password := p'\<rparr>, snd (login_frame f (l, ui, actions))) \<and>
    length (ls_password (fst (login_frame f (l, ui, actions)))) = length p'"
proof -
  obtain state now input where f: "f = (state, now, input)" by (metis prod_cases3)
  obtain action l1 ui1 where d: "login_draw state l (widgets_begin now input (ui\<lparr>mRenderer := ui_begin (mRenderer ui)\<rparr>)) = (action, l1, ui1)"
    by (metis prod_cases3)
  from login_draw_hides [OF assms this] show ?thesis by (auto simp: login_frame_def f d)
qed

lemma login_frames_hide:
  assumes "length (ls_password l) = length p"
  shows "snd (fold login_frame fs (l\<lparr>ls_password := p\<rparr>, ui, actions)) = snd (fold login_frame fs (l, ui, actions))"
  using assms
proof (induction fs arbitrary: l p ui actions)
  case (Cons f fs)
  obtain l1 ui1 actions1 where r: "login_frame f (l, ui, actions) = (l1, ui1, actions1)" by (metis prod_cases3)
  obtain p1 where p1: "login_frame f (l\<lparr>ls_password := p\<rparr>, ui, actions) = (l1\<lparr>ls_password := p1\<rparr>, ui1, actions1)"
      "length (ls_password l1) = length p1"
    using login_frame_hides [OF Cons.prems, of f ui actions] r by auto
  from Cons.IH [OF p1(2)] show ?case by (simp add: r p1(1))
qed simp

text \<open>C21. The login form keeps its secrets and its bounds. From the form as it starts, through any number of frames with any
  input, the user name and the password are printable ASCII of at most 32 characters, so both travel unchanged in the
  login request; and whatever is drawn, focused, handed to the graphics engine or asked of the application
  depends on the password already typed only through its length: with another password of the same length
  every frame would be the same.\<close>

theorem login_form_confidential:
  assumes "length p = length (ls_password (fst (fold login_frame before (new_login_screen, ui, []))))"
  shows "(let (l, ui, actions) = fold login_frame before (new_login_screen, ui, []) in
    login_ok l \<and> snd (fold login_frame after (l\<lparr>ls_password := p\<rparr>, ui, actions)) = snd (fold login_frame after (l, ui, actions)))"
proof -
  have "login_ok (fst (fold login_frame before st))" if "login_ok (fst st)" for st
    using that by (induction before arbitrary: st) (simp_all add: login_frame_ok)
  moreover have "login_ok (fst (new_login_screen, ui, []))"
    by (simp add: login_ok_def field_ok_def new_login_screen_def)
  ultimately have "login_ok (fst (fold login_frame before (new_login_screen, ui, [])))" by blast
  moreover obtain l ui1 actions where "fold login_frame before (new_login_screen, ui, []) = (l, ui1, actions)" by (metis prod_cases3)
  ultimately show ?thesis using assms login_frames_hide [of l p after ui1 actions] by simp
qed

subsection \<open>Typing\<close>

text \<open>Painting leaves everything but the renderer alone.\<close>

definition same_ui :: "Ui \<Rightarrow> Ui \<Rightarrow> bool" where
  "same_ui ui ui' \<longleftrightarrow> ui' = ui\<lparr>mRenderer := mRenderer ui'\<rparr>"

lemma same_ui_draw [simp]: "same_ui ui (draw f ui)"
  by (simp add: same_ui_def draw_def)

lemma same_ui_refl [simp]: "same_ui ui ui"
  by (simp add: same_ui_def)

lemma same_ui_trans: "same_ui ui ui' \<Longrightarrow> same_ui ui' ui'' \<Longrightarrow> same_ui ui ui''"
  by (cases ui; cases ui'; cases ui'') (auto simp: same_ui_def)

lemma same_ui_fields:
  "same_ui ui ui' \<Longrightarrow> mFocused ui' = mFocused ui \<and> mInput ui' = mInput ui \<and> mHeld ui' = mHeld ui \<and>
     mTextFields ui' = mTextFields ui \<and> mTabPending ui' = mTabPending ui"
  by (cases ui; cases ui') (auto simp: same_ui_def)

lemma same_ui_paint: "same_ui ui (paint_field x y w h f e shown placeholder ui)"
  unfolding paint_field_def Let_def by (auto intro!: same_ui_trans [OF _ same_ui_draw])

lemma same_ui_labels: "same_ui ui (panel x y w h ui)" "same_ui ui (labelDim x y str n ui)" "same_ui ui (labelCentred x y str n ui)"
  by (auto simp: panel_def labelDim_def labelCentred_def intro: same_ui_trans [OF same_ui_draw same_ui_draw])

lemma textField_keyboard:
  assumes "\<not> in_mousePressed (mInput ui)"
  shows "\<exists>ui'. textField ident x y w h v placeholder hide n ui = (mFocused ui = ident \<and> in_enter (mInput ui),
      if mFocused ui = ident then edit_field (mInput ui) n v else v, ui') \<and> same_ui (ui\<lparr>mTextFields := mTextFields ui @ [ident]\<rparr>) ui'"
  using assms same_ui_paint by (simp add: textField_def press_def Let_def)

lemma button_keyboard:
  assumes "\<not> in_mousePressed (mInput ui)" and "\<not> in_mouseReleased (mInput ui)"
  shows "\<exists>ui'. buttonInternal ident x y w h str base hover pressed ui = (False, ui') \<and> same_ui ui ui'"
  using assms unfolding buttonInternal_def press_def Let_def
  by (auto intro!: same_ui_trans [OF _ same_ui_draw])

definition typed :: "InputState \<Rightarrow> bool" where
  "typed i \<longleftrightarrow> \<not> in_mousePressed i \<and> \<not> in_mouseReleased i"

lemma login_head_same:
  "\<exists>y ui'. login_head panelX panelY f ui = (y, ui') \<and> same_ui (if f then ui else ui\<lparr>mFocused := kIdUsername\<rparr>) ui'"
  unfolding login_head_def Let_def prod.inject
  by (auto intro!: same_ui_trans [OF _ same_ui_labels(2)] same_ui_trans [OF _ same_ui_labels(3)] same_ui_trans [OF _ same_ui_labels(1)])

text \<open>Without the mouse, the characters go to the focused field and to no other, and Tab moves between the two.\<close>

lemma username_keyboard:
  assumes "typed (mInput ui)"
    and focus: "focus = (if f then mFocused ui else kIdUsername)"
  shows "\<exists>b y ui'. username_part panelX panelY f v ui = (b, if focus = kIdUsername then edit_field (mInput ui) kMaxFieldLength v else v, y, ui') \<and>
    mInput ui' = mInput ui \<and> mFocused ui' = focus \<and> mTextFields ui' = mTextFields ui @ [kIdUsername] \<and> mHeld ui' = mHeld ui \<and>
    mTabPending ui' = mTabPending ui"
proof -
  obtain y ui1 where h: "login_head panelX panelY f ui = (y, ui1)" "same_ui (if f then ui else ui\<lparr>mFocused := kIdUsername\<rparr>) ui1"
    using login_head_same by blast
  have 1: "mFocused ui1 = focus" "mInput ui1 = mInput ui" "mHeld ui1 = mHeld ui" "mTextFields ui1 = mTextFields ui" "mTabPending ui1 = mTabPending ui"
    using same_ui_fields [OF h(2)] by (auto simp: focus)
  then have "\<not> in_mousePressed (mInput ui1)" using assms(1) by (simp add: typed_def)
  from textField_keyboard [OF this, of kIdUsername "fadd panelX (f_of_int 32)" y kLoginContent kFieldHeight v "''enter username''" False kMaxFieldLength]
  show ?thesis using 1 by (auto simp: username_part_def h(1) dest!: same_ui_fields)
qed

lemma password_keyboard:
  assumes "typed (mInput ui)"
  shows "\<exists>b y' ui'. password_part panelX y v ui = (b, if mFocused ui = kIdPassword then edit_field (mInput ui) kMaxFieldLength v else v, y', ui') \<and>
    mInput ui' = mInput ui \<and> mFocused ui' = mFocused ui \<and> mTextFields ui' = mTextFields ui @ [kIdPassword] \<and> mHeld ui' = mHeld ui \<and>
    mTabPending ui' = mTabPending ui"
proof -
  let ?ui = "labelDim (fadd panelX (f_of_int 32)) y ''PASSWORD'' kFontSizeSmall ui"
  have 1: "mFocused ?ui = mFocused ui" "mInput ?ui = mInput ui" "mHeld ?ui = mHeld ui" "mTextFields ?ui = mTextFields ui" "mTabPending ?ui = mTabPending ui"
    using same_ui_fields [OF same_ui_labels(2)] by auto
  then have "\<not> in_mousePressed (mInput ?ui)" using assms(1) by (simp add: typed_def)
  let ?y = "fadd y (fadd (textHeight (mRenderer ?ui) kFontSizeSmall) (f_of_int 4))"
  obtain ui2 where t: "textField kIdPassword (fadd panelX (f_of_int 32)) ?y kLoginContent kFieldHeight v ''enter password'' True kMaxFieldLength ?ui =
      (mFocused ?ui = kIdPassword \<and> in_enter (mInput ?ui), if mFocused ?ui = kIdPassword then edit_field (mInput ?ui) kMaxFieldLength v else v, ui2)"
      "same_ui (?ui\<lparr>mTextFields := mTextFields ?ui @ [kIdPassword]\<rparr>) ui2"
    using textField_keyboard [OF \<open>\<not> in_mousePressed (mInput ?ui)\<close>] by blast
  from same_ui_fields [OF t(2)] 1 show ?thesis
    unfolding password_part_def Let_def t(1) prod.case by simp
qed

lemma buttons_keyboard:
  assumes "typed (mInput ui)"
  shows "\<exists>action ui'. buttons_part state panelX y str e submitted ui = (action, ui') \<and> same_ui ui ui'"
proof -
  let ?w = "fmul (fsub kLoginContent (f_of_int 12)) half"
  obtain ui1 where 1: "button kIdSubmit (fadd panelX (f_of_int 32)) y ?w kButtonHeight (if state = Connecting then ''...'' else ''LOGIN'') ui = (False, ui1)"
      "same_ui ui ui1"
    using button_keyboard assms unfolding button_def typed_def by blast
  then have "mInput ui1 = mInput ui" using same_ui_fields by blast
  then obtain ui2 where 2: "button kIdQuit (fadd (fadd (fadd panelX (f_of_int 32)) ?w) (f_of_int 12)) y ?w kButtonHeight ''QUIT'' ui1 = (False, ui2)"
      "same_ui ui1 ui2"
    using button_keyboard [of ui1] assms unfolding button_def typed_def by metis
  have "same_ui ui ui2" using same_ui_trans 1(2) 2(2) by blast
  then show ?thesis
    unfolding buttons_part_def Let_def 1(1) prod.case 2(1) using same_ui_trans [OF _ same_ui_draw] by auto
qed

lemma login_frame_keyboard:
  assumes "typed i" and "login_frame (state, now, i) (l, ui, actions) = (l', ui', actions')"
    and focus: "focus = (if ls_focusInitialised l then mFocused ui else kIdUsername)"
  shows "ls_focusInitialised l'"
    and "ls_username l' = (if focus = kIdUsername then edit_field i kMaxFieldLength (ls_username l) else ls_username l)"
    and "ls_password l' = (if focus = kIdPassword then edit_field i kMaxFieldLength (ls_password l) else ls_password l)"
    and "mFocused ui' = (if in_tab i then if focus = kIdUsername then kIdPassword else kIdUsername else focus)"
proof -
  define ui0 where "ui0 = widgets_begin now i (ui\<lparr>mRenderer := ui_begin (mRenderer ui)\<rparr>)"
  have 0: "mInput ui0 = i" "mFocused ui0 = mFocused ui" "mTextFields ui0 = []" "mTabPending ui0 = in_tab i"
    by (simp_all add: ui0_def widgets_begin_def)
  have t0: "typed (mInput ui0)" and f0: "focus = (if ls_focusInitialised l then mFocused ui0 else kIdUsername)"
    using 0 assms(1) focus by simp_all
  let ?X = "fmul (fsub (f_of_int (mWidth (mRenderer ui0))) kLoginWidth) half"
  let ?Y = "fmul (fsub (f_of_int (mHeight (mRenderer ui0))) kLoginHeight) half"
  obtain b1 y1 ui1 where 1: "username_part ?X ?Y (ls_focusInitialised l) (ls_username l) ui0 =
      (b1, if focus = kIdUsername then edit_field i kMaxFieldLength (ls_username l) else ls_username l, y1, ui1)"
      "mInput ui1 = i" "mFocused ui1 = focus" "mTextFields ui1 = [kIdUsername]" "mTabPending ui1 = in_tab i"
    using username_keyboard [OF t0 f0, of ?X ?Y "ls_username l"] 0 by auto
  obtain b2 y2 ui2 where 2: "password_part ?X y1 (ls_password l) ui1 =
      (b2, if focus = kIdPassword then edit_field i kMaxFieldLength (ls_password l) else ls_password l, y2, ui2)"
      "mInput ui2 = i" "mFocused ui2 = focus" "mTextFields ui2 = [kIdUsername, kIdPassword]" "mTabPending ui2 = in_tab i"
    using password_keyboard [of ui1 ?X y1 "ls_password l"] 1 assms(1) by auto
  obtain action ui3 where 3: "buttons_part state ?X y2 (ls_status l) (ls_statusIsError l) (b1 \<or> b2) ui2 = (action, ui3)" "same_ui ui2 ui3"
    using buttons_keyboard [of ui2 state ?X y2 "ls_status l" "ls_statusIsError l" "b1 \<or> b2"] 2 assms(1) by auto
  have r: "l' = l\<lparr>ls_focusInitialised := True,
        ls_username := (if focus = kIdUsername then edit_field i kMaxFieldLength (ls_username l) else ls_username l),
        ls_password := (if focus = kIdPassword then edit_field i kMaxFieldLength (ls_password l) else ls_password l)\<rparr>"
      "ui' = (widgets_end ui3)\<lparr>mRenderer := ui_end (mRenderer ui3)\<rparr>"
    using assms(2) 1(1) 2(1) 3(1) by (auto simp: login_frame_def login_draw_def ui0_def [symmetric])
  then show "ls_focusInitialised l'"
    and "ls_username l' = (if focus = kIdUsername then edit_field i kMaxFieldLength (ls_username l) else ls_username l)"
    and "ls_password l' = (if focus = kIdPassword then edit_field i kMaxFieldLength (ls_password l) else ls_password l)"
    by simp_all
  show "mFocused ui' = (if in_tab i then if focus = kIdUsername then kIdPassword else kIdUsername else focus)"
    using same_ui_fields [OF 3(2)] 2 assms(1) unfolding r(2)
    by (auto simp: widgets_end_def Let_def typed_def kIdUsername_def kIdPassword_def)
qed

definition sample_ui :: Ui where
  "sample_ui = \<lparr>mRenderer = \<lparr>mFont = \<lparr>mSizes = [], mPixels = [], mAtlasWidth = 0, mAtlasHeight = 0, mWhiteU = 0, mWhiteV = 0\<rparr>,
       mVertices = [], mIndices = [], mWidth = 640, mHeight = 480, mLastDrawCount = kSizeMax, gpu_vertices = [], gpu_indices = [], gpu_range = 0\<rparr>,
     mInput = new_input, mFocused = 0, mHeld = 0, mTextFields = [], mTabPending = False, mCaretTimer = 0\<rparr>"

definition sample_frames :: "(AppState \<times> f64 \<times> InputState) list" where
  "sample_frames = [(Login, 0, new_input\<lparr>in_tab := True\<rparr>), (Login, 0, new_input\<lparr>in_characters := [0x61, 0x62, 0x7F, 0x63]\<rparr>)]"

lemma sample_typed: "ls_password (fst (fold login_frame sample_frames (new_login_screen, sample_ui, []))) = ''abc''"
proof -
  obtain l1 ui1 a1 where 1: "login_frame (Login, 0, new_input\<lparr>in_tab := True\<rparr>) (new_login_screen, sample_ui, []) = (l1, ui1, a1)"
    by (metis prod_cases3)
  obtain l2 ui2 a2 where 2: "login_frame (Login, 0, new_input\<lparr>in_characters := [0x61, 0x62, 0x7F, 0x63]\<rparr>) (l1, ui1, a1) = (l2, ui2, a2)"
    by (metis prod_cases3)
  have t: "typed (new_input\<lparr>in_tab := True\<rparr>)" "typed (new_input\<lparr>in_characters := [0x61, 0x62, 0x7F, 0x63]\<rparr>)"
    by (simp_all add: typed_def new_input_def)
  have "mFocused ui1 = kIdPassword" "ls_password l1 = []" "ls_focusInitialised l1"
    using login_frame_keyboard [OF t(1) 1 refl] by (simp_all add: new_login_screen_def kIdUsername_def kIdPassword_def new_input_def)
  moreover have "edit_field (new_input\<lparr>in_characters := [0x61, 0x62, 0x7F, 0x63]\<rparr>) kMaxFieldLength [] = ''abc''"
    by code_simp
  ultimately have "ls_password l2 = ''abc''"
    using login_frame_keyboard(3) [OF t(2) 2 refl] by simp
  then show ?thesis by (simp add: sample_frames_def 1 2)
qed

theorem login_form_confidential_witness:
  "(let (l, ui, actions) = fold login_frame sample_frames (new_login_screen, sample_ui, []) in
    ls_password l = ''abc'' \<and>
    snd (fold login_frame [(Login, 0, new_input\<lparr>in_enter := True\<rparr>)] (l\<lparr>ls_password := ''xyz''\<rparr>, ui, actions)) =
    snd (fold login_frame [(Login, 0, new_input\<lparr>in_enter := True\<rparr>)] (l, ui, actions)))"
proof -
  have "length ''xyz'' = length (ls_password (fst (fold login_frame sample_frames (new_login_screen, sample_ui, []))))"
    by (simp add: sample_typed)
  from login_form_confidential [OF this, of "[(Login, 0, new_input\<lparr>in_enter := True\<rparr>)]"] sample_typed show ?thesis
    by (auto simp del: fold_simps split: prod.splits)
qed

end
