(* ===== verification/Scene.thy ===== *)
theory Scene
  imports Simulation
begin

text \<open>
  \<^verbatim>\<open>client/src/sky.cpp\<close> and \<^verbatim>\<open>client/src/scene.cpp\<close>: the light of a moment of the day, and the scene that shows
  the world. The vector functions of Filament's mathematics library are the record \<open>filament_math\<close>.
  Of the engine the model keeps which objects are alive and which are in the scene; a destroy
  call for an object that is not alive, that is still in the scene, or that a live object still refers to counts as a fault.
  The property is that the scene never faults and owns exactly what its state says.
\<close>

section \<open>The sky\<close>

record filament_math =
  fm_pi :: f32
  fm_degToRad :: f32
  fm_clamp :: "f32 \<Rightarrow> f32 \<Rightarrow> f32 \<Rightarrow> f32"
  fm_normalize :: "Vec3 \<Rightarrow> Vec3"
  fm_mix :: "Vec3 \<Rightarrow> Vec3 \<Rightarrow> f32 \<Rightarrow> Vec3"
  fm_cross :: "Vec3 \<Rightarrow> Vec3 \<Rightarrow> Vec3"
  fm_length :: "Vec3 \<Rightarrow> f32"
  fm_rotate :: "Vec3 \<Rightarrow> f32 \<Rightarrow> Quat \<Rightarrow> Quat"

record SkyState =
  sky_sunDirection :: Vec3
  sky_moonDirection :: Vec3
  sky_lightDirection :: Vec3
  sky_lightColor :: Vec3
  sky_lightIntensity :: f32
  sky_skyColor :: Vec3
  sky_ambientIntensity :: f32
  sky_sunColor :: Vec3
  sky_moonColor :: Vec3
  sky_sunVisible :: bool
  sky_moonVisible :: bool
  sky_fogColor :: Vec3
  sky_fogDensity :: f32

definition vec :: "f32 \<Rightarrow> f32 \<Rightarrow> f32 \<Rightarrow> Vec3" where "vec x y z = \<lparr>vec_x = x, vec_y = y, vec_z = z\<rparr>"
definition vec_neg :: "Vec3 \<Rightarrow> Vec3" where "vec_neg v = vec (fneg (vec_x v)) (fneg (vec_y v)) (fneg (vec_z v))"
definition vec_add :: "Vec3 \<Rightarrow> Vec3 \<Rightarrow> Vec3" where
  "vec_add v w = vec (fadd (vec_x v) (vec_x w)) (fadd (vec_y v) (vec_y w)) (fadd (vec_z v) (vec_z w))"
definition vec_sub :: "Vec3 \<Rightarrow> Vec3 \<Rightarrow> Vec3" where
  "vec_sub v w = vec (fsub (vec_x v) (vec_x w)) (fsub (vec_y v) (vec_y w)) (fsub (vec_z v) (vec_z w))"
definition vec_scale :: "Vec3 \<Rightarrow> f32 \<Rightarrow> Vec3" where "vec_scale v s = vec (fmul (vec_x v) s) (fmul (vec_y v) s) (fmul (vec_z v) s)"
definition vec_over :: "Vec3 \<Rightarrow> f32 \<Rightarrow> Vec3" where "vec_over v s = vec (fdiv (vec_x v) s) (fdiv (vec_y v) s) (fdiv (vec_z v) s)"

definition kArcAzimuth :: f32 where "kArcAzimuth = f_ratio 6 10"
definition kSunIntensity :: f32 where "kSunIntensity = f_of_int 100000"
definition kMoonIntensity :: f32 where "kMoonIntensity = f_of_int 9000"
definition kDayAmbient :: f32 where "kDayAmbient = f_of_int 42000"
definition kNightAmbient :: f32 where "kNightAmbient = f_of_int 15000"
definition kTwilightAmbientBoost :: f32 where "kTwilightAmbientBoost = f_of_int 14000"

definition kNoonLight :: Vec3 where "kNoonLight = vec (f_of_int 1) (f_ratio 96 100) (f_ratio 90 100)"
definition kHorizonLight :: Vec3 where "kHorizonLight = vec (f_of_int 1) (f_ratio 52 100) (f_ratio 26 100)"
definition kMoonLight :: Vec3 where "kMoonLight = vec (f_ratio 55 100) (f_ratio 68 100) (f_of_int 1)"
definition kDaySky :: Vec3 where "kDaySky = vec (f_ratio 10 100) (f_ratio 22 100) (f_ratio 45 100)"
definition kNightSky :: Vec3 where "kNightSky = vec (f_ratio 20 1000) (f_ratio 28 1000) (f_ratio 55 1000)"
definition kTwilightSky :: Vec3 where "kTwilightSky = vec (f_ratio 30 100) (f_ratio 12 100) (f_ratio 7 100)"
definition kSunDisc :: Vec3 where "kSunDisc = vec (f_of_int 1) (f_ratio 95 100) (f_ratio 75 100)"
definition kMoonDisc :: Vec3 where "kMoonDisc = vec (f_ratio 80 100) (f_ratio 85 100) (f_ratio 95 100)"

definition smoothstep :: "filament_math \<Rightarrow> f32 \<Rightarrow> f32 \<Rightarrow> f32 \<Rightarrow> f32" where
  "smoothstep fm edge0 edge1 x = (let t = fm_clamp fm (fdiv (fsub x edge0) (fsub edge1 edge0)) (f_of_int 0) (f_of_int 1) in
     fmul (fmul t t) (fsub (f_of_int 3) (fmul (f_of_int 2) t)))"

text \<open>The ambient term with its floor.\<close>

definition ambient :: "f32 \<Rightarrow> f32 \<Rightarrow> f32" where
  "ambient dayAmount horizonCloseness =
     (let a = fadd (fadd kNightAmbient (fmul (fsub kDayAmbient kNightAmbient) dayAmount)) (fmul kTwilightAmbientBoost horizonCloseness)
      in if flt a kNightAmbient then kNightAmbient else a)"

definition evaluateSky :: "libm \<Rightarrow> (f32 \<Rightarrow> f32) \<Rightarrow> filament_math \<Rightarrow> f32 \<Rightarrow> SkyState" where
  "evaluateSky lm expf fm timeOfDay =
     (let angle = fmul (fmul (f_of_int 2) (fm_pi fm)) (fsub timeOfDay (f_ratio 25 100));
          elevation = sinf lm angle;
          horizontal = cosf lm angle;
          sunDirection = fm_normalize fm (vec (fmul horizontal (cosf lm kArcAzimuth)) elevation (fmul horizontal (sinf lm kArcAzimuth)));
          moonDirection = vec_neg sunDirection;
          sunHeight = vec_y sunDirection;
          moonHeight = vec_y moonDirection;
          dayAmount = smoothstep fm (f_ratio (- 10) 100) (f_ratio 28 100) sunHeight;
          horizonCloseness = expf (fdiv (fneg (fmul sunHeight sunHeight)) (fmul (f_ratio 16 100) (f_ratio 16 100)));
          day = flt (f_of_int 0) sunHeight;
          skyColor = fm_mix fm (fm_mix fm kNightSky kDaySky dayAmount) kTwilightSky (fmul horizonCloseness (f_ratio 75 100))
      in \<lparr>sky_sunDirection = sunDirection, sky_moonDirection = moonDirection,
          sky_lightDirection = (if day then vec_neg sunDirection else vec_neg moonDirection),
          sky_lightColor = (if day then fm_mix fm kHorizonLight kNoonLight (smoothstep fm (f_of_int 0) (f_ratio 35 100) sunHeight)
            else kMoonLight),
          sky_lightIntensity = (if day then fmul kSunIntensity (smoothstep fm (f_ratio (- 2) 100) (f_ratio 25 100) sunHeight)
            else fmul kMoonIntensity (smoothstep fm (f_ratio (- 2) 100) (f_ratio 25 100) moonHeight)),
          sky_skyColor = skyColor, sky_ambientIntensity = ambient dayAmount horizonCloseness,
          sky_sunColor = kSunDisc, sky_moonColor = kMoonDisc,
          sky_sunVisible = flt (f_ratio (- 12) 100) sunHeight, sky_moonVisible = flt (f_ratio (- 12) 100) moonHeight,
          sky_fogColor = fm_mix fm (vec_add (vec_scale skyColor (f_ratio 115 100)) (vec (f_ratio 3 100) (f_ratio 5 100) (f_ratio 8 100)))
            kTwilightSky (fmul horizonCloseness (f_ratio 5 10)),
          sky_fogDensity = fadd (f_ratio 6 10000) (fmul (f_ratio 4 10000) (fsub (f_of_int 1) dayAmount))\<rparr>)"

section \<open>The engine's objects\<close>

datatype resource =
    LitMaterial
  | CharacterMaterial
  | UnlitMaterial
  | PlaneInstance
  | CubeInstance
  | SunInstance
  | MoonInstance
  | PlayerInstance u32
  | MarkerInstance u32
  | PlaneMesh
  | CubeMesh
  | CapsuleMesh
  | DiscMesh
  | MarkerMesh
  | PlaneEntity
  | CubeEntity
  | SunEntity
  | SunDiscEntity
  | MoonDiscEntity
  | PlayerBody u32
  | MarkerBody u32
  | AmbientLight

text \<open>What an object refers to: an instance to its material, a renderable to its mesh and instance.\<close>

fun uses :: "resource \<Rightarrow> resource list" where
  "uses PlaneInstance = [LitMaterial]"
| "uses CubeInstance = [LitMaterial]"
| "uses SunInstance = [UnlitMaterial]"
| "uses MoonInstance = [UnlitMaterial]"
| "uses (PlayerInstance k) = [CharacterMaterial]"
| "uses (MarkerInstance k) = [UnlitMaterial]"
| "uses PlaneEntity = [PlaneMesh, PlaneInstance]"
| "uses CubeEntity = [CubeMesh, CubeInstance]"
| "uses SunDiscEntity = [DiscMesh, SunInstance]"
| "uses MoonDiscEntity = [DiscMesh, MoonInstance]"
| "uses (PlayerBody k) = [CapsuleMesh, PlayerInstance k]"
| "uses (MarkerBody k) = [MarkerMesh, MarkerInstance k]"
| "uses _ = []"

record Engine =
  eng_live :: "resource list"
  eng_scene :: "resource list"
  eng_faults :: nat

text \<open>Creating an object whose parts do not exist is a fault too.\<close>

definition create :: "resource \<Rightarrow> Engine \<Rightarrow> Engine" where
  "create r e =
     (if r \<in> set (eng_live e) \<or> \<not> set (uses r) \<subseteq> set (eng_live e) then e\<lparr>eng_faults := eng_faults e + 1\<rparr>
      else e\<lparr>eng_live := eng_live e @ [r]\<rparr>)"

definition destroy :: "resource \<Rightarrow> Engine \<Rightarrow> Engine" where
  "destroy r e =
     (if r \<notin> set (eng_live e) \<or> r \<in> set (eng_scene e) \<or> list_ex (\<lambda>i. r \<in> set (uses i)) (eng_live e)
      then e\<lparr>eng_faults := eng_faults e + 1\<rparr> else e\<lparr>eng_live := remove1 r (eng_live e)\<rparr>)"

text \<open>
  Adding an entity that is in the scene or removing one that is not has no effect. The indirect light is
  set rather than added, which the same two functions express.
\<close>

definition addEntity :: "resource \<Rightarrow> Engine \<Rightarrow> Engine" where
  "addEntity r e = e\<lparr>eng_scene := List.insert r (eng_scene e)\<rparr>"

definition removeEntity :: "resource \<Rightarrow> Engine \<Rightarrow> Engine" where
  "removeEntity r e = e\<lparr>eng_scene := filter (\<lambda>x. x \<noteq> r) (eng_scene e)\<rparr>"

section \<open>DemoScene\<close>

record PlayerVisual =
  pv_colorA :: Vec3
  pv_colorB :: Vec3
  pv_position :: Vec3
  pv_rotation :: Quat

record DemoScene =
  ds_loaded :: bool
  ds_players :: "(u32, PlayerVisual) std_map"
  ds_cube :: "Vec3 \<times> Quat"
  ds_sunDiscInScene :: bool
  ds_moonDiscInScene :: bool
  ds_sky :: "SkyState option"
  ds_engine :: Engine

definition new_scene :: DemoScene where
  "new_scene = \<lparr>ds_loaded = False, ds_players = [], ds_cube = (vec3_zero, \<lparr>quat_x = 0, quat_y = 0, quat_z = 0, quat_w = f_of_int 1\<rparr>),
     ds_sunDiscInScene = False, ds_moonDiscInScene = False, ds_sky = None, ds_engine = \<lparr>eng_live = [], eng_scene = [], eng_faults = 0\<rparr>\<rparr>"

definition engine_do :: "(Engine \<Rightarrow> Engine) \<Rightarrow> DemoScene \<Rightarrow> DemoScene" where
  "engine_do f s = s\<lparr>ds_engine := f (ds_engine s)\<rparr>"

text \<open>Ground and cube, the two lights, and the bodies of sun and moon with the parts of later players.\<close>

definition build_ground :: "Engine \<Rightarrow> Engine" where
  "build_ground e =
     (let e = fold create [LitMaterial, PlaneInstance, CubeInstance, PlaneMesh, CubeMesh, CapsuleMesh] e;
          e = addEntity PlaneEntity (create PlaneEntity e)
      in addEntity CubeEntity (create CubeEntity e))"

definition build_lights :: "Engine \<Rightarrow> Engine" where
  "build_lights e =
     (let e = addEntity SunEntity (create SunEntity e) in addEntity AmbientLight (create AmbientLight e))"

definition build_bodies :: "Engine \<Rightarrow> Engine" where
  "build_bodies e =
     fold create [CharacterMaterial, UnlitMaterial, DiscMesh, MarkerMesh, SunInstance, MoonInstance, SunDiscEntity, MoonDiscEntity] e"

definition build_engine :: "Engine \<Rightarrow> Engine" where
  "build_engine e = build_bodies (build_lights (build_ground e))"

definition scene_build :: "DemoScene \<Rightarrow> DemoScene" where
  "scene_build s =
     (if ds_loaded s then s
      else
        s\<lparr>ds_engine := build_engine (ds_engine s),
          ds_cube := (vec (f_of_int 0) (fmul (f_of_int 1) (f_ratio 5 10)) (f_of_int 0), snd (ds_cube new_scene)), ds_loaded := True\<rparr>)"

definition setEntityTransform :: "u32 \<Rightarrow> Vec3 \<Rightarrow> Quat \<Rightarrow> DemoScene \<Rightarrow> DemoScene" where
  "setEntityTransform entityId position rotation s =
     (if \<not> ds_loaded s \<or> entityId \<noteq> 1 then s else s\<lparr>ds_cube := (position, rotation)\<rparr>)"

definition show_disc :: "resource \<Rightarrow> bool \<Rightarrow> DemoScene \<Rightarrow> DemoScene" where
  "show_disc r visible = engine_do (if visible then addEntity r else removeEntity r)"

definition applySky :: "SkyState \<Rightarrow> DemoScene \<Rightarrow> DemoScene" where
  "applySky sky s =
     (if \<not> ds_loaded s then s
      else
        (let s = s\<lparr>ds_sky := Some sky\<rparr>;
             s = (if sky_sunVisible sky \<noteq> ds_sunDiscInScene s
                  then (show_disc SunDiscEntity (sky_sunVisible sky) s)\<lparr>ds_sunDiscInScene := sky_sunVisible sky\<rparr> else s)
         in if sky_moonVisible sky \<noteq> ds_moonDiscInScene s
            then (show_disc MoonDiscEntity (sky_moonVisible sky) s)\<lparr>ds_moonDiscInScene := sky_moonVisible sky\<rparr> else s))"

definition add_player :: "u32 \<Rightarrow> bool \<Rightarrow> DemoScene \<Rightarrow> DemoScene" where
  "add_player k isLocalPlayer s =
     (let light = (if isLocalPlayer then vec (f_ratio 30 100) (f_ratio 55 100) (f_ratio 85 100)
            else vec (f_ratio 85 100) (f_ratio 72 100) (f_ratio 25 100));
          e = ds_engine s;
          e = create (MarkerInstance k) (create (PlayerInstance k) e);
          e = addEntity (MarkerBody k) (create (MarkerBody k) e);
          e = addEntity (PlayerBody k) (create (PlayerBody k) e)
      in s\<lparr>ds_engine := e, ds_players := map_emplace k \<lparr>pv_colorA = light, pv_colorB = vec_scale light (f_ratio 35 100),
           pv_position = vec3_zero, pv_rotation = snd (ds_cube new_scene)\<rparr> (ds_players s)\<rparr>)"

definition setPlayerTransform :: "u32 \<Rightarrow> bool \<Rightarrow> Vec3 \<Rightarrow> Quat \<Rightarrow> DemoScene \<Rightarrow> DemoScene" where
  "setPlayerTransform k isLocalPlayer position rotation s =
     (if \<not> ds_loaded s then s
      else
        (let s = (if map_find k (ds_players s) = None then add_player k isLocalPlayer s else s)
         in s\<lparr>ds_players := map_modify k (\<lambda>v. v\<lparr>pv_position := position, pv_rotation := rotation\<rparr>) (ds_players s)\<rparr>))"

definition destroy_player :: "u32 \<Rightarrow> Engine \<Rightarrow> Engine" where
  "destroy_player k e =
     (let e = removeEntity (PlayerBody k) e;
          e = destroy (PlayerInstance k) (destroy (PlayerBody k) e);
          e = removeEntity (MarkerBody k) e
      in destroy (MarkerInstance k) (destroy (MarkerBody k) e))"

fun remove_absent :: "u32 list \<Rightarrow> (u32, PlayerVisual) std_map \<Rightarrow> Engine \<Rightarrow> (u32, PlayerVisual) std_map \<times> Engine" where
  "remove_absent present [] e = ([], e)"
| "remove_absent present ((k, v) # rest) e =
     (if k \<in> set present then (case remove_absent present rest e of (kept, e) \<Rightarrow> ((k, v) # kept, e))
      else remove_absent present rest (destroy_player k e))"

definition removeAbsentPlayers :: "u32 list \<Rightarrow> DemoScene \<Rightarrow> DemoScene" where
  "removeAbsentPlayers present s = (case remove_absent present (ds_players s) (ds_engine s) of (kept, e) \<Rightarrow>
     s\<lparr>ds_players := kept, ds_engine := e\<rparr>)"

definition scene_destroy :: "DemoScene \<Rightarrow> DemoScene" where
  "scene_destroy s =
     (if \<not> ds_loaded s then s
      else
        (let s = engine_do (fold (\<lambda>r e. destroy r (removeEntity r e)) [PlaneEntity, CubeEntity, SunEntity, SunDiscEntity, MoonDiscEntity]) s;
             s = s\<lparr>ds_sunDiscInScene := False, ds_moonDiscInScene := False\<rparr>;
             s = engine_do (\<lambda>e. destroy AmbientLight (removeEntity AmbientLight e)) s;
             s = removeAbsentPlayers [] s;
             s = engine_do (fold destroy [PlaneMesh, CubeMesh, CapsuleMesh, MarkerMesh, DiscMesh, PlaneInstance, CubeInstance,
               SunInstance, MoonInstance, LitMaterial, UnlitMaterial, CharacterMaterial]) s
         in s\<lparr>ds_loaded := False\<rparr>))"

section \<open>Ownership\<close>

definition base_resources :: "resource list" where
  "base_resources = [LitMaterial, PlaneInstance, CubeInstance, PlaneMesh, CubeMesh, CapsuleMesh, PlaneEntity, CubeEntity, SunEntity,
     AmbientLight, CharacterMaterial, UnlitMaterial, DiscMesh, MarkerMesh, SunInstance, MoonInstance, SunDiscEntity, MoonDiscEntity]"

definition player_resources :: "u32 \<Rightarrow> resource set" where
  "player_resources k = {PlayerInstance k, MarkerInstance k, PlayerBody k, MarkerBody k}"

definition player_entities :: "u32 \<Rightarrow> resource set" where
  "player_entities k = {PlayerBody k, MarkerBody k}"

text \<open>What a scene is to own, and what it is to show.\<close>

definition owned :: "DemoScene \<Rightarrow> resource set" where
  "owned s = (if ds_loaded s then set base_resources else {}) \<union> (\<Union>k \<in> set (map_keys (ds_players s)). player_resources k)"

definition displayed :: "DemoScene \<Rightarrow> resource set" where
  "displayed s = (if ds_loaded s then {PlaneEntity, CubeEntity, SunEntity, AmbientLight} else {}) \<union>
     (if ds_sunDiscInScene s then {SunDiscEntity} else {}) \<union> (if ds_moonDiscInScene s then {MoonDiscEntity} else {}) \<union>
     (\<Union>k \<in> set (map_keys (ds_players s)). player_entities k)"

definition engine_has :: "resource set \<Rightarrow> resource set \<Rightarrow> Engine \<Rightarrow> bool" where
  "engine_has live shown e \<longleftrightarrow>
     distinct (eng_live e) \<and> set (eng_live e) = live \<and> set (eng_scene e) = shown \<and> eng_faults e = 0"

definition scene_ok :: "DemoScene \<Rightarrow> bool" where
  "scene_ok s \<longleftrightarrow> map_ok (ds_players s) \<and> engine_has (owned s) (displayed s) (ds_engine s) \<and>
     (\<not> ds_loaded s \<longrightarrow> ds_players s = [] \<and> \<not> ds_sunDiscInScene s \<and> \<not> ds_moonDiscInScene s)"

lemma engine_has_create:
  "engine_has live shown e \<Longrightarrow> r \<notin> live \<Longrightarrow> set (uses r) \<subseteq> live \<Longrightarrow> engine_has (insert r live) shown (create r e)"
  by (auto simp: engine_has_def create_def)

lemma engine_has_add: "engine_has live shown e \<Longrightarrow> engine_has live (insert r shown) (addEntity r e)"
  by (simp add: engine_has_def addEntity_def)

lemma engine_has_remove: "engine_has live shown e \<Longrightarrow> engine_has live (shown - {r}) (removeEntity r e)"
  by (auto simp: engine_has_def removeEntity_def)

lemma engine_has_destroy:
  "engine_has live shown e \<Longrightarrow> r \<in> live \<Longrightarrow> r \<notin> shown \<Longrightarrow> \<forall>i \<in> live. r \<notin> set (uses i) \<Longrightarrow>
   engine_has (live - {r}) shown (destroy r e)"
  by (auto simp: engine_has_def destroy_def list_ex_iff)

text \<open>An order in which objects can be destroyed: each is alive and no longer in use when its turn comes.\<close>

fun orderly :: "resource list \<Rightarrow> resource set \<Rightarrow> bool" where
  "orderly [] live = True"
| "orderly (r # rs) live \<longleftrightarrow> r \<in> live \<and> (\<forall>i \<in> live. r \<notin> set (uses i)) \<and> orderly rs (live - {r})"

lemma engine_has_destroys:
  "engine_has live shown e \<Longrightarrow> orderly rs live \<Longrightarrow> set rs \<inter> shown = {} \<Longrightarrow> engine_has (live - set rs) shown (fold destroy rs e)"
proof (induction rs arbitrary: live e)
  case (Cons r rs)
  then have "engine_has (live - {r} - set rs) shown (fold destroy rs (destroy r e))"
    using engine_has_destroy [of live shown e r] by simp
  moreover have "live - {r} - set rs = live - set (r # rs)" by auto
  ultimately show ?case by simp
qed simp

lemma engine_has_takes:
  "engine_has live shown e \<Longrightarrow> orderly rs live \<Longrightarrow>
   engine_has (live - set rs) (shown - set rs) (fold (\<lambda>r e. destroy r (removeEntity r e)) rs e)"
proof (induction rs arbitrary: live shown e)
  case (Cons r rs)
  then have "engine_has (live - {r} - set rs) (shown - {r} - set rs)
      (fold (\<lambda>r e. destroy r (removeEntity r e)) rs (destroy r (removeEntity r e)))"
    using engine_has_destroy [of live "shown - {r}" "removeEntity r e" r] engine_has_remove [of live shown e r] by simp
  moreover have "live - {r} - set rs = live - set (r # rs)" "shown - {r} - set rs = shown - set (r # rs)" by auto
  ultimately show ?case by simp
qed simp

text \<open>Only the parts of one player refer to that player's instances.\<close>

lemma uses_player:
  "PlayerInstance k \<in> set (uses i) \<longleftrightarrow> i = PlayerBody k" "MarkerInstance k \<in> set (uses i) \<longleftrightarrow> i = MarkerBody k"
  "PlayerBody k \<notin> set (uses i)" "MarkerBody k \<notin> set (uses i)"
  by (cases i; auto)+

lemma destroy_player_has:
  assumes "engine_has live shown e" and "player_resources k \<subseteq> live" and "PlayerInstance k \<notin> shown" "MarkerInstance k \<notin> shown"
  shows "engine_has (live - player_resources k) (shown - player_entities k) (destroy_player k e)"
proof -
  have "engine_has (live - {PlayerBody k} - {PlayerInstance k}) (shown - {PlayerBody k})
      (destroy (PlayerInstance k) (destroy (PlayerBody k) (removeEntity (PlayerBody k) e)))"
    using assms by (intro engine_has_destroy engine_has_remove) (auto simp: player_resources_def uses_player)
  then have "engine_has (live - {PlayerBody k} - {PlayerInstance k} - {MarkerBody k} - {MarkerInstance k})
      (shown - {PlayerBody k} - {MarkerBody k}) (destroy_player k e)"
    unfolding destroy_player_def Let_def
    using assms by (intro engine_has_destroy engine_has_remove) (auto simp: player_resources_def uses_player)
  moreover have "live - {PlayerBody k} - {PlayerInstance k} - {MarkerBody k} - {MarkerInstance k} = live - player_resources k"
    "shown - {PlayerBody k} - {MarkerBody k} = shown - player_entities k"
    by (auto simp: player_resources_def player_entities_def)
  ultimately show ?thesis by simp
qed

lemma player_resources_apart: "j \<noteq> k \<Longrightarrow> player_resources k \<inter> player_resources j = {}"
  by (auto simp: player_resources_def)

text \<open>Removing the players that are gone, over the players still to be visited.\<close>

lemma remove_absent_kept: "fst (remove_absent present m e) = filter (\<lambda>(k, _). k \<in> set present) m"
  by (induction present m e rule: remove_absent.induct) (auto split: prod.splits)

lemma remove_absent_has:
  assumes "distinct (map fst m)" and "base \<inter> (\<Union>k \<in> fst ` set m. player_resources k) = {}"
    and "engine_has (base \<union> (\<Union>k \<in> fst ` set m. player_resources k)) shown e"
    and "\<forall>k. PlayerInstance k \<notin> shown \<and> MarkerInstance k \<notin> shown"
  shows "engine_has (base \<union> (\<Union>k \<in> fst ` set m \<inter> set present. player_resources k))
    (shown - (\<Union>k \<in> fst ` set m - set present. player_entities k)) (snd (remove_absent present m e))"
  using assms
proof (induction m arbitrary: base shown e)
  case (Cons kv rest)
  obtain k v where kv [simp]: "kv = (k, v)" by fastforce
  let ?rest = "\<Union>j \<in> fst ` set rest. player_resources j"
  have apart: "player_resources k \<inter> ?rest = {}"
    using Cons.prems(1) player_resources_apart [of _ k] by fastforce
  show ?case
  proof (cases "k \<in> set present")
    case True
    have "engine_has (base \<union> player_resources k \<union> (\<Union>k \<in> fst ` set rest \<inter> set present. player_resources k))
        (shown - (\<Union>k \<in> fst ` set rest - set present. player_entities k)) (snd (remove_absent present rest e))"
      using Cons.prems apart by (intro Cons.IH) (auto simp: Un_assoc)
    with True show ?thesis by (simp add: case_prod_beta Un_assoc)
  next
    case False
    have "base \<union> (\<Union>j \<in> fst ` set (kv # rest). player_resources j) - player_resources k = base \<union> ?rest"
      using Cons.prems(2) apart by auto
    then have "engine_has (base \<union> ?rest) (shown - player_entities k) (destroy_player k e)"
      using destroy_player_has [OF Cons.prems(3), of k] Cons.prems(4) by auto
    then have "engine_has (base \<union> (\<Union>k \<in> fst ` set rest \<inter> set present. player_resources k))
        (shown - player_entities k - (\<Union>k \<in> fst ` set rest - set present. player_entities k))
        (snd (remove_absent present rest (destroy_player k e)))"
      using Cons.prems by (intro Cons.IH) auto
    moreover have "shown - player_entities k - (\<Union>k \<in> fst ` set rest - set present. player_entities k) =
        shown - (\<Union>k \<in> fst ` set (kv # rest) - set present. player_entities k)"
      using False by auto
    ultimately show ?thesis using False by simp
  qed
qed simp

lemma map_ok_filter: "map_ok m \<Longrightarrow> map_ok (filter P m)"
  unfolding map_ok_def map_keys_def by (induction m) auto

lemma removeAbsentPlayers_fields:
  "removeAbsentPlayers present s = s\<lparr>ds_players := filter (\<lambda>(k, _). k \<in> set present) (ds_players s),
     ds_engine := snd (remove_absent present (ds_players s) (ds_engine s))\<rparr>"
  using remove_absent_kept [of present "ds_players s" "ds_engine s"]
  by (simp add: removeAbsentPlayers_def case_prod_beta)

text \<open>What \<open>remove_absent_has\<close> says of a scene: the players in \<open>present\<close> stay, the others are gone.\<close>

lemma removeAbsent_has:
  assumes "map_ok (ds_players s)" and "base \<inter> (\<Union>k \<in> set (map_keys (ds_players s)). player_resources k) = {}"
    and "engine_has (base \<union> (\<Union>k \<in> set (map_keys (ds_players s)). player_resources k)) shown (ds_engine s)"
    and "\<forall>k. PlayerInstance k \<notin> shown \<and> MarkerInstance k \<notin> shown"
  shows "engine_has (base \<union> (\<Union>k \<in> set (map_keys (ds_players s)) \<inter> set present. player_resources k))
    (shown - (\<Union>k \<in> set (map_keys (ds_players s)) - set present. player_entities k)) (ds_engine (removeAbsentPlayers present s))"
proof -
  have "distinct (map fst (ds_players s))" using std.distinct_keys [OF assms(1)] by (simp add: map_keys_def)
  from remove_absent_has [OF this, of base shown "ds_engine s" present] assms(2-) show ?thesis
    by (simp add: map_keys_def removeAbsentPlayers_fields)
qed

subsection \<open>Every operation keeps the scene in order\<close>

lemma base_apart: "set base_resources \<inter> (\<Union>k \<in> ks. player_resources k) = {}"
  by (auto simp: base_resources_def player_resources_def)

lemma displayed_instances: "\<forall>k. PlayerInstance k \<notin> displayed s \<and> MarkerInstance k \<notin> displayed s"
  by (simp add: displayed_def player_entities_def)

lemma scene_ok_new: "scene_ok new_scene"
  by (simp add: scene_ok_def new_scene_def engine_has_def owned_def displayed_def map_keys_def)

text \<open>Only these parts of a scene matter to the invariant.\<close>

lemma scene_ok_cong:
  "ds_loaded t = ds_loaded s \<Longrightarrow> map_keys (ds_players t) = map_keys (ds_players s) \<Longrightarrow>
   ds_sunDiscInScene t = ds_sunDiscInScene s \<Longrightarrow> ds_moonDiscInScene t = ds_moonDiscInScene s \<Longrightarrow> ds_engine t = ds_engine s \<Longrightarrow>
   scene_ok s \<Longrightarrow> scene_ok t"
  by (auto simp: scene_ok_def owned_def displayed_def map_ok_def) (simp_all add: map_keys_def)

lemma build_engine_has:
  "engine_has (set base_resources) {PlaneEntity, CubeEntity, SunEntity, AmbientLight}
     (build_engine \<lparr>eng_live = [], eng_scene = [], eng_faults = 0\<rparr>)"
proof -
  have "build_engine \<lparr>eng_live = [], eng_scene = [], eng_faults = 0\<rparr> =
      \<lparr>eng_live = base_resources, eng_scene = [AmbientLight, SunEntity, CubeEntity, PlaneEntity], eng_faults = 0\<rparr>"
    by code_simp
  then show ?thesis by (simp add: engine_has_def) (auto simp: base_resources_def)
qed

lemma scene_ok_build:
  assumes "scene_ok s"
  shows "scene_ok (scene_build s)"
proof (cases "ds_loaded s")
  case False
  with assms have e: "engine_has {} {} (ds_engine s)" "ds_players s = []" "\<not> ds_sunDiscInScene s" "\<not> ds_moonDiscInScene s"
    by (auto simp: scene_ok_def owned_def displayed_def map_keys_def)
  then have "ds_engine s = \<lparr>eng_live = [], eng_scene = [], eng_faults = 0\<rparr>" by (simp add: engine_has_def)
  with e False build_engine_has show ?thesis
    by (simp add: scene_build_def scene_ok_def owned_def displayed_def map_keys_def)
qed (use assms in \<open>simp add: scene_build_def\<close>)

lemma scene_ok_entity: "scene_ok s \<Longrightarrow> scene_ok (setEntityTransform k p r s)"
  by (erule scene_ok_cong [rotated -1]) (simp_all add: setEntityTransform_def)

lemma scene_ok_disc:
  assumes "scene_ok s" and "ds_loaded s"
  shows "scene_ok ((show_disc SunDiscEntity b s)\<lparr>ds_sunDiscInScene := b\<rparr>)"
    and "scene_ok ((show_disc MoonDiscEntity b s)\<lparr>ds_moonDiscInScene := b\<rparr>)"
proof -
  have "engine_has (owned s) (insert r (displayed s)) (addEntity r (ds_engine s))"
    "engine_has (owned s) (displayed s - {r}) (removeEntity r (ds_engine s))" for r
    using assms(1) engine_has_add engine_has_remove by (simp_all add: scene_ok_def)
  moreover have "displayed (s\<lparr>ds_engine := e, ds_sunDiscInScene := True\<rparr>) = insert SunDiscEntity (displayed s)"
    "displayed (s\<lparr>ds_engine := e, ds_sunDiscInScene := False\<rparr>) = displayed s - {SunDiscEntity}"
    "displayed (s\<lparr>ds_engine := e, ds_moonDiscInScene := True\<rparr>) = insert MoonDiscEntity (displayed s)"
    "displayed (s\<lparr>ds_engine := e, ds_moonDiscInScene := False\<rparr>) = displayed s - {MoonDiscEntity}" for e
    by (auto simp: displayed_def player_entities_def)
  ultimately show "scene_ok ((show_disc SunDiscEntity b s)\<lparr>ds_sunDiscInScene := b\<rparr>)"
      "scene_ok ((show_disc MoonDiscEntity b s)\<lparr>ds_moonDiscInScene := b\<rparr>)"
    using assms by (cases b, simp_all add: scene_ok_def show_disc_def engine_do_def owned_def)
qed

lemma scene_ok_sky: "scene_ok s \<Longrightarrow> scene_ok (applySky sky s)"
proof (cases "ds_loaded s")
  case True
  assume ok: "scene_ok s"
  define s1 where "s1 = s\<lparr>ds_sky := Some sky\<rparr>"
  have 1: "scene_ok s1" "ds_loaded s1" using ok True scene_ok_cong [OF _ _ _ _ _ ok, of s1] by (simp_all add: s1_def)
  define s2 where "s2 = (if sky_sunVisible sky \<noteq> ds_sunDiscInScene s1
    then (show_disc SunDiscEntity (sky_sunVisible sky) s1)\<lparr>ds_sunDiscInScene := sky_sunVisible sky\<rparr> else s1)"
  have 2: "scene_ok s2" "ds_loaded s2" using 1 scene_ok_disc(1) [OF 1] by (simp_all add: s2_def show_disc_def engine_do_def)
  show ?thesis
    using True 2 scene_ok_disc(2) [OF 2] unfolding applySky_def Let_def s1_def [symmetric] s2_def [symmetric] by simp
qed (simp add: applySky_def)

lemma map_keys_emplace: "map_find k m = None \<Longrightarrow> set (map_keys (map_emplace k v m)) = insert k (set (map_keys m))"
  by (simp add: map_emplace_def set_keys_assign)

lemma scene_ok_add:
  assumes ok: "scene_ok s" and loaded: "ds_loaded s" and new: "map_find k (ds_players s) = None"
  shows "scene_ok (add_player k b s) \<and> ds_loaded (add_player k b s)"
proof -
  have "k \<notin> set (map_keys (ds_players s))"
    using ok new std.keys_find [of "ds_players s" k] by (simp add: scene_ok_def)
  then have out: "player_resources k \<inter> owned s = {}"
    by (auto simp: owned_def player_resources_def base_resources_def)
  have h: "engine_has (owned s) (displayed s) (ds_engine s)" using ok by (simp add: scene_ok_def)
  have base: "{CharacterMaterial, UnlitMaterial, CapsuleMesh, MarkerMesh} \<subseteq> owned s"
    using loaded by (simp add: owned_def base_resources_def)
  have "engine_has (insert (PlayerBody k) (insert (MarkerBody k) (insert (MarkerInstance k) (insert (PlayerInstance k) (owned s)))))
      (insert (PlayerBody k) (insert (MarkerBody k) (displayed s))) (ds_engine (add_player k b s))"
    unfolding add_player_def Let_def using h out base
    by (simp, intro engine_has_add engine_has_create) (auto simp: player_resources_def)
  moreover have "insert (PlayerBody k) (insert (MarkerBody k) (insert (MarkerInstance k) (insert (PlayerInstance k) (owned s)))) =
      owned (add_player k b s)"
    "insert (PlayerBody k) (insert (MarkerBody k) (displayed s)) = displayed (add_player k b s)"
    using map_keys_emplace [OF new]
    by (auto simp: owned_def displayed_def add_player_def Let_def player_resources_def player_entities_def)
  ultimately show ?thesis
    using ok loaded by (simp add: scene_ok_def) (simp add: add_player_def Let_def)
qed

lemma scene_ok_player: "scene_ok s \<Longrightarrow> scene_ok (setPlayerTransform k b p r s)"
proof -
  assume ok: "scene_ok s"
  have "scene_ok (t\<lparr>ds_players := map_modify k f (ds_players t)\<rparr>)" if "scene_ok t" for t f
    by (rule scene_ok_cong [OF _ _ _ _ _ that]) simp_all
  then show ?thesis
    using ok scene_ok_add [OF ok] by (simp add: setPlayerTransform_def Let_def)
qed

lemma scene_ok_absent:
  assumes ok: "scene_ok s"
  shows "scene_ok (removeAbsentPlayers present s)"
proof -
  let ?t = "removeAbsentPlayers present s"
  have keys: "set (map_keys (ds_players ?t)) = set (map_keys (ds_players s)) \<inter> set present"
    by (force simp: map_keys_def removeAbsentPlayers_fields)
  have same: "ds_loaded ?t = ds_loaded s" "ds_sunDiscInScene ?t = ds_sunDiscInScene s" "ds_moonDiscInScene ?t = ds_moonDiscInScene s"
    by (simp_all add: removeAbsentPlayers_fields)
  have "engine_has (owned ?t) (displayed s - (\<Union>k \<in> set (map_keys (ds_players s)) - set present. player_entities k)) (ds_engine ?t)"
    using removeAbsent_has [of s "if ds_loaded s then set base_resources else {}" "displayed s" present]
      ok base_apart displayed_instances
    by (simp add: scene_ok_def owned_def keys same split: if_splits)
  moreover have "displayed s - (\<Union>k \<in> set (map_keys (ds_players s)) - set present. player_entities k) = displayed ?t"
    by (auto simp: displayed_def keys same player_entities_def)
  ultimately show ?thesis
    using ok same by (simp add: scene_ok_def) (simp add: removeAbsentPlayers_fields map_ok_filter)
qed

subsection \<open>Destroying the scene\<close>

text \<open>The order of the destroy calls respects the references between the objects.\<close>

lemma orderly_first:
  "orderly [PlaneEntity, CubeEntity, SunEntity, SunDiscEntity, MoonDiscEntity, AmbientLight]
     (set base_resources \<union> (\<Union>k \<in> ks. player_resources k))"
  by (auto simp: base_resources_def player_resources_def)

definition rest_resources :: "resource list" where
  "rest_resources = [PlaneMesh, CubeMesh, CapsuleMesh, MarkerMesh, DiscMesh, PlaneInstance, CubeInstance,
     SunInstance, MoonInstance, LitMaterial, UnlitMaterial, CharacterMaterial]"

lemma orderly_rest: "orderly rest_resources (set rest_resources)"
  by (simp add: rest_resources_def)

lemma scene_ok_destroy:
  assumes ok: "scene_ok s"
  shows "scene_ok (scene_destroy s) \<and> ds_players (scene_destroy s) = [] \<and> \<not> ds_loaded (scene_destroy s)"
proof (cases "ds_loaded s")
  case True
  let ?first = "[PlaneEntity, CubeEntity, SunEntity, SunDiscEntity, MoonDiscEntity, AmbientLight]"
  let ?ps = "\<Union>k \<in> set (map_keys (ds_players s)). player_resources k"
  define s1 where "s1 = s\<lparr>ds_sunDiscInScene := False, ds_moonDiscInScene := False,
    ds_engine := fold (\<lambda>r e. destroy r (removeEntity r e)) ?first (ds_engine s)\<rparr>"
  have "engine_has (set base_resources \<union> ?ps - set ?first) (displayed s - set ?first) (ds_engine s1)"
    using engine_has_takes [OF _ orderly_first] ok True by (simp add: s1_def scene_ok_def owned_def)
  moreover have "set base_resources \<union> ?ps - set ?first = set rest_resources \<union> ?ps"
    by (auto simp: base_resources_def rest_resources_def player_resources_def)
  moreover have "displayed s - set ?first = (\<Union>k \<in> set (map_keys (ds_players s)). player_entities k)"
    by (auto simp: displayed_def player_entities_def)
  ultimately have 1: "engine_has (set rest_resources \<union> ?ps) (\<Union>k \<in> set (map_keys (ds_players s)). player_entities k) (ds_engine s1)"
    by simp
  have same: "ds_players s1 = ds_players s" by (simp add: s1_def)
  have "set rest_resources \<inter> ?ps = {}" by (auto simp: rest_resources_def player_resources_def)
  with 1 ok have "engine_has (set rest_resources) {} (ds_engine (removeAbsentPlayers [] s1))"
    using removeAbsent_has [of s1 "set rest_resources" "\<Union>k \<in> set (map_keys (ds_players s)). player_entities k" "[]"]
    by (simp add: same scene_ok_def) (simp add: player_entities_def)
  from engine_has_destroys [OF this orderly_rest]
  have "engine_has {} {} (fold destroy rest_resources (ds_engine (removeAbsentPlayers [] s1)))" by simp
  moreover have "scene_destroy s = engine_do (fold destroy rest_resources) (removeAbsentPlayers [] s1)\<lparr>ds_loaded := False\<rparr>"
    unfolding scene_destroy_def Let_def s1_def engine_do_def rest_resources_def using True by simp
  ultimately show ?thesis
    by (simp add: scene_ok_def engine_do_def owned_def displayed_def map_keys_def) (simp add: removeAbsentPlayers_fields s1_def)
qed (use ok in \<open>simp add: scene_destroy_def scene_ok_def\<close>)

section \<open>Any use of the scene\<close>

datatype scene_op =
    Build
  | SetEntity u32 Vec3 Quat
  | SetPlayer u32 bool Vec3 Quat
  | RemoveAbsent "u32 list"
  | Sky SkyState
  | Destroy

fun scene_step :: "scene_op \<Rightarrow> DemoScene \<Rightarrow> DemoScene" where
  "scene_step Build = scene_build"
| "scene_step (SetEntity k p r) = setEntityTransform k p r"
| "scene_step (SetPlayer k b p r) = setPlayerTransform k b p r"
| "scene_step (RemoveAbsent present) = removeAbsentPlayers present"
| "scene_step (Sky sky) = applySky sky"
| "scene_step Destroy = scene_destroy"

lemmas scene_ok_ops = scene_ok_build scene_ok_entity scene_ok_player scene_ok_absent scene_ok_sky
  scene_ok_destroy [THEN conjunct1]

lemma scene_ok_step: "scene_ok s \<Longrightarrow> scene_ok (scene_step oper s)"
  by (cases oper) (simp_all add: scene_ok_ops)

lemma scene_ok_run: "scene_ok s \<Longrightarrow> scene_ok (fold scene_step ops s)"
  by (induction ops arbitrary: s) (simp_all add: scene_ok_step)

text \<open>C18. Whatever sequence of calls the scene receives, it never destroys an object twice, while the object is
  in the scene or while another refers to it, and never builds one from missing parts. The objects alive are
  exactly the fixed ones of a loaded scene and four for each player it knows, each once; the entities in
  the scene are the ones its flags and players say; and destroying the scene leaves nothing alive or shown.\<close>

theorem scene_resources_balanced:
  "let s = fold scene_step ops new_scene; e = ds_engine s; d = ds_engine (scene_destroy s)
   in eng_faults e = 0 \<and> distinct (eng_live e) \<and> set (eng_live e) = owned s \<and> set (eng_scene e) = displayed s \<and>
      eng_faults d = 0 \<and> eng_live d = [] \<and> eng_scene d = []"
proof -
  let ?s = "fold scene_step ops new_scene"
  have ok: "scene_ok ?s" by (rule scene_ok_run [OF scene_ok_new])
  have "scene_ok (scene_destroy ?s)" "ds_players (scene_destroy ?s) = []" "\<not> ds_loaded (scene_destroy ?s)"
    using scene_ok_destroy [OF ok] by simp_all
  then have "engine_has {} {} (ds_engine (scene_destroy ?s))"
    by (auto simp: scene_ok_def owned_def displayed_def map_keys_def)
  with ok show ?thesis unfolding Let_def by (simp add: scene_ok_def engine_has_def)
qed

end
