(* ===== verification/ClientApp.thy ===== *)
theory ClientApp
  imports NetClient Prediction WorldLoop Widgets Scene
begin

text \<open>
  \<^verbatim>\<open>client/src/application.cpp\<close> and \<^verbatim>\<open>client/src/camera_controller.cpp\<close>: the client's frame, which puts together the network
  (\<open>NetClient\<close>), the prediction (\<open>Prediction\<close>), the screens (\<open>Widgets\<close>) and the scene (\<open>Scene\<close>). What the window
  system, the clock and the network answer during a frame is the record \<open>FrameInput\<close>; the mathematics
  of libm and Filament and the process environment are the record \<open>Platform\<close>. Of the graphics engine the model keeps
  what the application sets: sizes, fog, clear colour and where the camera looks.
\<close>

section \<open>Platform\<close>

record Platform =
  pf_libm :: libm
  pf_expf :: "f32 \<Rightarrow> f32"
  pf_exp2 :: "f32 \<Rightarrow> f32"
  pf_math :: filament_math
  pf_env :: environment
  pf_rawMotion :: bool
  pf_randMax :: int

datatype Key = KeyW | KeyS | KeyD | KeyA | KeySpace | KeyLeftShift

record FrameInput =
  fr_network :: Network
  fr_cursor :: "f64 \<times> f64"
  fr_uiCursor :: "f64 \<times> f64"
  fr_held :: "Key \<Rightarrow> bool"
  fr_random :: "nat \<Rightarrow> int"
  fr_caret :: f64

section \<open>The camera controller\<close>

record MovementIntent =
  mi_moveForward :: f32
  mi_moveRight :: f32
  mi_yaw :: f32
  mi_jump :: bool
  mi_sprint :: bool

record CameraController =
  cam_yaw :: f32
  cam_pitch :: f32
  cam_enabled :: bool
  cam_hasLastCursor :: bool
  cam_lastCursorX :: f64
  cam_lastCursorY :: f64

definition new_camera :: CameraController where
  "new_camera = \<lparr>cam_yaw = f_of_int 0, cam_pitch = f_of_int 0, cam_enabled = False, cam_hasLastCursor = False,
     cam_lastCursorX = d_of_int 0, cam_lastCursorY = d_of_int 0\<rparr>"

definition kMouseSensitivity :: f32 where "kMouseSensitivity = f_ratio 12 100"
definition kMaxPitch :: f32 where "kMaxPitch = f_of_int 75"
definition kMinPitch :: f32 where "kMinPitch = f_of_int (- 35)"
definition kCameraDistance :: f32 where "kCameraDistance = f_of_int 4"
definition kCameraHeight :: f32 where "kCameraHeight = f_ratio 11 10"
definition kShoulderOffset :: f32 where "kShoulderOffset = f_ratio 75 100"
definition kLookAtHeight :: f32 where "kLookAtHeight = f_ratio 9 10"

definition directionFromAngles :: "Platform \<Rightarrow> f32 \<Rightarrow> f32 \<Rightarrow> Vec3" where
  "directionFromAngles pf yawDegrees pitchDegrees =
     (let yaw = fmul yawDegrees (fm_degToRad (pf_math pf));
          pitch = fmul pitchDegrees (fm_degToRad (pf_math pf))
      in fm_normalize (pf_math pf) (vec (fmul (sinf (pf_libm pf) yaw) (cosf (pf_libm pf) pitch)) (sinf (pf_libm pf) pitch)
           (fmul (fneg (cosf (pf_libm pf) yaw)) (cosf (pf_libm pf) pitch))))"

definition camera_reset :: "f32 \<Rightarrow> f32 \<Rightarrow> CameraController \<Rightarrow> CameraController" where
  "camera_reset yawDegrees pitchDegrees c = c\<lparr>cam_yaw := yawDegrees, cam_pitch := pitchDegrees, cam_hasLastCursor := False\<rparr>"

text \<open>\<open>setEnabled\<close> also sets the window's cursor mode and, where supported, raw motion.\<close>

record CursorMode =
  cur_disabled :: bool
  cur_raw :: bool

definition setEnabled :: "Platform \<Rightarrow> bool \<Rightarrow> CursorMode \<times> CameraController \<Rightarrow> CursorMode \<times> CameraController" where
  "setEnabled pf enabled wc = (case wc of (w, c) \<Rightarrow>
     (let c = c\<lparr>cam_enabled := enabled\<rparr>;
          w = w\<lparr>cur_disabled := enabled\<rparr>;
          w = (if pf_rawMotion pf then w\<lparr>cur_raw := enabled\<rparr> else w)
      in (w, c\<lparr>cam_hasLastCursor := False\<rparr>)))"

definition yawRadians :: "Platform \<Rightarrow> CameraController \<Rightarrow> f32" where
  "yawRadians pf c = fmul (cam_yaw c) (fm_degToRad (pf_math pf))"

definition camera_look :: "Platform \<Rightarrow> f64 \<Rightarrow> f64 \<Rightarrow> CameraController \<Rightarrow> CameraController" where
  "camera_look pf x y c =
     (let c = (if cam_hasLastCursor c
            then (let c = c\<lparr>cam_yaw := fadd (cam_yaw c) (fmul (f_of_d (dsub x (cam_lastCursorX c))) kMouseSensitivity)\<rparr>;
                      c = c\<lparr>cam_pitch := fsub (cam_pitch c) (fmul (f_of_d (dsub y (cam_lastCursorY c))) kMouseSensitivity)\<rparr>
                  in c\<lparr>cam_pitch := fm_clamp (pf_math pf) (cam_pitch c) kMinPitch kMaxPitch\<rparr>)
            else c)
      in c\<lparr>cam_lastCursorX := x, cam_lastCursorY := y, cam_hasLastCursor := True\<rparr>)"

definition axis_value :: "bool \<Rightarrow> bool \<Rightarrow> f32" where
  "axis_value positive negative =
     (let v = f_of_int 0; v = (if positive then fadd v (f_of_int 1) else v) in if negative then fsub v (f_of_int 1) else v)"

definition camera_sample :: "Platform \<Rightarrow> FrameInput \<Rightarrow> CameraController \<Rightarrow> MovementIntent \<times> CameraController" where
  "camera_sample pf fr c =
     (if \<not> cam_enabled c
      then (\<lparr>mi_moveForward = f_of_int 0, mi_moveRight = f_of_int 0, mi_yaw = yawRadians pf c, mi_jump = False, mi_sprint = False\<rparr>, c)
      else
        (let c = camera_look pf (fst (fr_cursor fr)) (snd (fr_cursor fr)) c in
         (\<lparr>mi_moveForward = axis_value (fr_held fr KeyW) (fr_held fr KeyS),
           mi_moveRight = axis_value (fr_held fr KeyD) (fr_held fr KeyA),
           mi_yaw = yawRadians pf c, mi_jump = fr_held fr KeySpace, mi_sprint = fr_held fr KeyLeftShift\<rparr>, c)))"

text \<open>The arguments of \<open>lookAt\<close>: the eye and the point looked at.\<close>

definition updateCamera :: "Platform \<Rightarrow> CameraController \<Rightarrow> Vec3 \<Rightarrow> Vec3 \<times> Vec3" where
  "updateCamera pf c target =
     (let forward = directionFromAngles pf (cam_yaw c) (cam_pitch c);
          worldUp = vec (f_of_int 0) (f_of_int 1) (f_of_int 0);
          right = fm_normalize (pf_math pf) (fm_cross (pf_math pf) forward worldUp);
          focus = vec_add target (vec (f_of_int 0) kLookAtHeight (f_of_int 0));
          eye = vec_add (vec_add (vec_sub focus (vec_scale forward kCameraDistance)) (vec (f_of_int 0) kCameraHeight (f_of_int 0)))
            (vec_scale right kShoulderOffset)
      in (eye, focus))"

section \<open>Application\<close>

definition authHost :: "environment \<Rightarrow> string" where
  "authHost env = (case env ''AUTH_HOST'' of
      None \<Rightarrow> ''127.0.0.1''
    | Some value \<Rightarrow> if value \<noteq> [] then value else ''127.0.0.1'')"

definition authPort :: "environment \<Rightarrow> u16" where
  "authPort env = (case env ''AUTH_SERVER_PORT'' of
      None \<Rightarrow> 7001
    | Some value \<Rightarrow> if value \<noteq> [] then ucast (atoi value) else 7001)"

definition kMaxExtrapolationSeconds :: f64 where "kMaxExtrapolationSeconds = d_ratio 25 100"

record Application =
  app_state :: AppState
  app_username :: string
  app_net :: NetClient
  app_prediction :: Prediction
  app_cursor :: CursorMode
  app_camera :: CameraController
  app_scene :: DemoScene
  app_widgets :: Ui
  app_input :: InputState
  app_login :: LoginScreen
  app_tickAccumulator :: f64
  app_lastReconciledSnapshot :: u32
  app_elapsedSeconds :: f64
  app_connectingSince :: f64
  app_width :: int
  app_height :: int
  app_viewport :: "u32 \<times> u32"
  app_aspect :: f64
  app_swapChain :: "int \<times> int"
  app_fog :: "(Vec3 \<times> f32) option"
  app_clearColor :: Vec3
  app_lookAt :: "(Vec3 \<times> Vec3) option"
  app_shouldClose :: bool

text \<open>The application's own network call: only the client changes.\<close>

definition on_net :: "(NetClient \<Rightarrow> NetClient) \<Rightarrow> Application \<Rightarrow> Application" where
  "on_net f a = a\<lparr>app_net := f (app_net a)\<rparr>"

definition on_login :: "(LoginScreen \<Rightarrow> LoginScreen) \<Rightarrow> Application \<Rightarrow> Application" where
  "on_login f a = a\<lparr>app_login := f (app_login a)\<rparr>"

definition on_scene :: "(DemoScene \<Rightarrow> DemoScene) \<Rightarrow> Application \<Rightarrow> Application" where
  "on_scene f a = a\<lparr>app_scene := f (app_scene a)\<rparr>"

subsection \<open>Callbacks\<close>

datatype KeyAction = Press | Repeat | Release

datatype WindowKey = Backspace | Tab | Enter | KpEnter | Escape | OtherKey

definition charCallback :: "u32 \<Rightarrow> Application \<Rightarrow> Application" where
  "charCallback codepoint a = a\<lparr>app_input := (app_input a)\<lparr>in_characters := in_characters (app_input a) @ [codepoint]\<rparr>\<rparr>"

definition key_input :: "WindowKey \<Rightarrow> KeyAction \<Rightarrow> InputState \<Rightarrow> InputState" where
  "key_input key action i =
     (let pressed = (action = Press \<or> action = Repeat) in
      case key of
        Backspace \<Rightarrow> i\<lparr>in_backspace := pressed\<rparr>
      | Tab \<Rightarrow> i\<lparr>in_tab := pressed\<rparr>
      | Enter \<Rightarrow> i\<lparr>in_enter := pressed\<rparr>
      | KpEnter \<Rightarrow> i\<lparr>in_enter := pressed\<rparr>
      | Escape \<Rightarrow> if action = Press then i\<lparr>in_escape := True\<rparr> else i
      | OtherKey \<Rightarrow> i)"

definition keyCallback :: "WindowKey \<Rightarrow> KeyAction \<Rightarrow> Application \<Rightarrow> Application" where
  "keyCallback key action a = a\<lparr>app_input := key_input key action (app_input a)\<rparr>"

definition mouseButtonCallback :: "bool \<Rightarrow> KeyAction \<Rightarrow> Application \<Rightarrow> Application" where
  "mouseButtonCallback left action a =
     (if \<not> left then a
      else a\<lparr>app_input := (case action of
          Press \<Rightarrow> (app_input a)\<lparr>in_mouseDown := True, in_mousePressed := True\<rparr>
        | Release \<Rightarrow> (app_input a)\<lparr>in_mouseDown := False, in_mouseReleased := True\<rparr>
        | Repeat \<Rightarrow> app_input a)\<rparr>)"

definition app_resize :: "int \<Rightarrow> int \<Rightarrow> Application \<Rightarrow> Application" where
  "app_resize width height a =
     (if width \<le> 0 \<or> height \<le> 0 then a
      else
        (let a = a\<lparr>app_width := width, app_height := height\<rparr>;
             a = a\<lparr>app_viewport := (word_of_int width, word_of_int height)\<rparr>;
             a = a\<lparr>app_widgets := draw (setViewport width height) (app_widgets a)\<rparr>;
             a = a\<lparr>app_aspect := ddiv (d_of_int width) (d_of_int height)\<rparr>
         in a\<lparr>app_swapChain := (app_width a, app_height a)\<rparr>))"

subsection \<open>States\<close>

definition enterState :: "Platform \<Rightarrow> AppState \<Rightarrow> Application \<Rightarrow> Application" where
  "enterState pf state a =
     (let a = a\<lparr>app_state := state\<rparr>
      in case setEnabled pf (state = InGame) (app_cursor a, app_camera a) of (w, c) \<Rightarrow> a\<lparr>app_cursor := w, app_camera := c\<rparr>)"

definition beginLogin :: "Platform \<Rightarrow> Network \<Rightarrow> Application \<Rightarrow> Application" where
  "beginLogin pf net a =
     (if ls_username (app_login a) = [] \<or> ls_password (app_login a) = []
      then on_login (setStatus ''username and password are required'' True) a
      else
        (let a = on_login (setStatus ''connecting...'' False) a;
             a = a\<lparr>app_connectingSince := app_elapsedSeconds a\<rparr>;
             a = on_net (client_login net (authHost (pf_env pf)) (authPort (pf_env pf))
                   (ls_username (app_login a)) (ls_password (app_login a))) a
         in enterState pf Connecting a))"

definition loadWorld :: "Application \<Rightarrow> Application" where
  "loadWorld a =
     (let a = on_scene scene_build a in a\<lparr>app_camera := camera_reset (f_of_int 0) (f_of_int (- 10)) (app_camera a)\<rparr>)"

definition unloadWorld :: "Application \<Rightarrow> Application" where
  "unloadWorld a = on_scene scene_destroy (a\<lparr>app_prediction := prediction_shutdown (app_prediction a)\<rparr>)"

definition logout :: "Platform \<Rightarrow> Application \<Rightarrow> Application" where
  "logout pf a =
     (let a = on_net client_logout a;
          a = unloadWorld a;
          a = a\<lparr>app_username := []\<rparr>;
          a = on_login (\<lambda>l. setStatus ''logged out'' False (resetFocus (clearPassword l))) a
      in enterState pf Login a)"

subsection \<open>Start\<close>

record Startup =
  st_glfwInit :: bool
  st_window :: bool
  st_framebuffer :: "int \<times> int"
  st_engine :: bool
  st_nativeWindow :: bool
  st_sockets :: bool
  st_font :: stb_font

datatype init_error = GlfwInitFailed | WindowFailed | EngineFailed | NativeWindowFailed | SocketsFailed | UiFailed

definition new_widgets :: "UiRenderer \<Rightarrow> Ui" where
  "new_widgets r = \<lparr>mRenderer = r, mInput = new_input, mFocused = 0, mHeld = 0, mTextFields = [], mTabPending = False, mCaretTimer = d_of_int 0\<rparr>"

definition new_application :: "int \<Rightarrow> int \<Rightarrow> NetClient \<Rightarrow> UiRenderer \<Rightarrow> Application" where
  "new_application width height net r = \<lparr>app_state = Login, app_username = [], app_net = net, app_prediction = new_prediction,
     app_cursor = \<lparr>cur_disabled = False, cur_raw = False\<rparr>, app_camera = new_camera, app_scene = new_scene,
     app_widgets = new_widgets r, app_input = new_input, app_login = new_login_screen,
     app_tickAccumulator = d_of_int 0, app_lastReconciledSnapshot = 0, app_elapsedSeconds = d_of_int 0, app_connectingSince = d_of_int 0,
     app_width = width, app_height = height, app_viewport = (0, 0), app_aspect = d_of_int 0, app_swapChain = (width, height),
     app_fog = None, app_clearColor = vec (f_ratio 5 100) (f_ratio 6 100) (f_ratio 9 100), app_lookAt = None, app_shouldClose = False\<rparr>"

definition app_init :: "Platform \<Rightarrow> Startup \<Rightarrow> init_error + Application" where
  "app_init pf st =
     (if \<not> st_glfwInit st then Inl GlfwInitFailed
      else if \<not> st_window st then Inl WindowFailed
      else if \<not> st_engine st then Inl EngineFailed
      else if \<not> st_nativeWindow st then Inl NativeWindowFailed
      else if \<not> st_sockets st then Inl SocketsFailed
      else case ui_init (st_font st) of
          None \<Rightarrow> Inl UiFailed
        | Some r \<Rightarrow> (case st_framebuffer st of (width, height) \<Rightarrow>
            Inr (enterState pf Login (app_resize width height (new_application width height (client_init (pf_env pf) net_client) r)))))"

subsection \<open>Replication\<close>

definition extrapolation_age :: "f64 \<Rightarrow> f64 \<Rightarrow> f32" where
  "extrapolation_age elapsed receivedAt =
     (let age = dsub elapsed receivedAt
      in f_of_d (if dlt kMaxExtrapolationSeconds age then kMaxExtrapolationSeconds else age))"

definition extrapolated :: "Platform \<Rightarrow> f32 \<Rightarrow> EntityState \<Rightarrow> Vec3 \<times> Quat" where
  "extrapolated pf age e =
     (let position = vec_add (ent_position e) (vec_scale (ent_velocity e) age);
          axis = ent_angularVelocity e;
          speed = fm_length (pf_math pf) axis;
          rotation = (if flt (f_ratio 1 1000000) speed
            then fm_rotate (pf_math pf) (vec_over axis speed) (fmul speed age) (ent_rotation e) else ent_rotation e)
      in (position, rotation))"

definition facing_rotation :: "Platform \<Rightarrow> f32 \<Rightarrow> Quat" where
  "facing_rotation pf facing = \<lparr>quat_x = f_of_int 0, quat_y = sinf (pf_libm pf) (fmul (fneg facing) half), quat_z = f_of_int 0,
     quat_w = cosf (pf_libm pf) (fmul facing half)\<rparr>"

text \<open>The own character: prediction starts at the first position seen and reconciles with every later snapshot.\<close>

definition predict_own :: "Platform \<Rightarrow> EntityState \<Rightarrow> Application \<Rightarrow> Application" where
  "predict_own pf e a =
     (if \<not> mActive (app_prediction a)
      then a\<lparr>app_prediction := prediction_init (ent_position e) (app_prediction a)\<rparr>
      else if mSnapshotsReceived (app_net a) \<noteq> app_lastReconciledSnapshot a
      then a\<lparr>app_lastReconciledSnapshot := mSnapshotsReceived (app_net a),
        app_prediction := reconcile (pf_libm pf) e (app_prediction a)\<rparr>
      else a)"

definition replicate_own :: "Platform \<Rightarrow> u32 \<Rightarrow> EntityState \<Rightarrow> Application \<Rightarrow> Application" where
  "replicate_own pf ident e a =
     (let a = predict_own pf e a
      in on_scene (setPlayerTransform ident True (renderPosition (app_prediction a))
           (facing_rotation pf (chr_facingYaw (mCharacter (app_prediction a))))) a)"

text \<open>One entity; the result carries the players present so far.\<close>

definition replicate_entity :: "Platform \<Rightarrow> u32 \<times> Replicated \<Rightarrow> u32 list \<times> Application \<Rightarrow> u32 list \<times> Application" where
  "replicate_entity pf entry st = (case entry of (ident, replicated) \<Rightarrow> case st of (present, a) \<Rightarrow>
     (let e = rep_state replicated;
          age = extrapolation_age (app_elapsedSeconds a) (rep_receivedAt replicated)
      in case extrapolated pf age e of (position, rotation) \<Rightarrow>
         if ent_type e = EntityType_code PlayerEntity
         then (ident # present,
           if ident = mOwnEntityId (app_net a) then replicate_own pf ident e a
           else on_scene (setPlayerTransform ident False position rotation) a)
         else (present, on_scene (setEntityTransform ident position rotation) a)))"

definition applyReplication :: "Platform \<Rightarrow> Application \<Rightarrow> Application" where
  "applyReplication pf a =
     (if \<not> ds_loaded (app_scene a) then a
      else (case fold (replicate_entity pf) (mEntities (app_net a)) ([], a) of (present, a) \<Rightarrow>
        on_scene (removeAbsentPlayers present) a))"

subsection \<open>The frame\<close>

text \<open>What follows the poll of the network: entering the world, giving up, or being dropped out of it.\<close>

definition follow_network :: "Platform \<Rightarrow> Application \<Rightarrow> Application" where
  "follow_network pf a =
     (if app_state a = Connecting
      then (if mState (app_net a) = InWorld
        then (let a = a\<lparr>app_username := mUsername (app_net a)\<rparr>;
                  a = on_login (setStatus [] False) a
              in enterState pf InGame (loadWorld a))
        else if mState (app_net a) = Failed
        then (let a = on_login (\<lambda>l. clearPassword (setStatus (mError (app_net a)) True l)) a in enterState pf Login a)
        else a)
      else if (app_state a = InGame \<or> app_state a = Menu) \<and> mState (app_net a) = Failed
      then (let reason = mError (app_net a);
                a = (unloadWorld a)\<lparr>app_username := []\<rparr>;
                a = on_login (\<lambda>l. setStatus reason True (clearPassword l)) a
            in enterState pf Login a)
      else a)"

definition app_accumulate :: "f64 \<Rightarrow> f64 \<Rightarrow> f64" where
  "app_accumulate deltaSeconds accumulator =
     (let a = dadd accumulator deltaSeconds in if dlt (d_ratio 25 100) a then d_ratio 25 100 else a)"

text \<open>A tick while playing: the intent is predicted and sent.\<close>

definition app_tick :: "Platform \<Rightarrow> int \<Rightarrow> MovementIntent \<Rightarrow> Application \<Rightarrow> Application" where
  "app_tick pf random intent a =
     (let a = a\<lparr>app_tickAccumulator := dsub (app_tickAccumulator a) tickSeconds\<rparr> in
      if app_state a \<noteq> InGame then a
      else case prediction_step (pf_libm pf) (mi_moveForward intent) (mi_moveRight intent) (mi_yaw intent) (mi_jump intent)
          (mi_sprint intent) (app_prediction a) of (input, p) \<Rightarrow>
        on_net (sendInput random (pf_randMax pf) (in_moveForward input) (in_moveRight input) (in_yaw input) (in_jump input)
          (in_sprint input) (in_sequence input)) (a\<lparr>app_prediction := p\<rparr>))"

fun app_ticks :: "nat \<Rightarrow> Platform \<Rightarrow> (nat \<Rightarrow> int) \<Rightarrow> MovementIntent \<Rightarrow> Application \<Rightarrow> Application option" where
  "app_ticks fuel pf random intent a =
     (if \<not> dle tickSeconds (app_tickAccumulator a) then Some a
      else case fuel of 0 \<Rightarrow> None
        | Suc fuel \<Rightarrow> app_ticks fuel pf (\<lambda>i. random (Suc i)) intent (app_tick pf (random 0) intent a))"

declare app_ticks.simps [simp del]

definition show_sky :: "Platform \<Rightarrow> Application \<Rightarrow> Application" where
  "show_sky pf a =
     (if ds_loaded (app_scene a)
      then (let sky = evaluateSky (pf_libm pf) (pf_expf pf) (pf_math pf) (mClientTimeOfDay (app_net a));
                a = on_scene (applySky sky) a
            in a\<lparr>app_fog := Some (sky_fogColor sky, sky_fogDensity sky), app_clearColor := sky_skyColor sky\<rparr>)
      else a)"

definition follow_character :: "Platform \<Rightarrow> Application \<Rightarrow> Application" where
  "follow_character pf a =
     (if ds_loaded (app_scene a) \<and> mActive (app_prediction a)
      then a\<lparr>app_lookAt := Some (updateCamera pf (app_camera a) (renderPosition (app_prediction a)))\<rparr> else a)"

text \<open>The part of \<open>update\<close> before the loop, the loop, and the part after it.\<close>

definition update_before :: "Platform \<Rightarrow> FrameInput \<Rightarrow> f64 \<Rightarrow> Application \<Rightarrow> MovementIntent \<times> Application" where
  "update_before pf fr deltaSeconds a =
     (let a = a\<lparr>app_elapsedSeconds := dadd (app_elapsedSeconds a) deltaSeconds\<rparr>;
          a = on_net (client_poll (fr_network fr) (app_elapsedSeconds a)) a;
          a = follow_network pf a
      in case camera_sample pf fr (app_camera a) of (intent, c) \<Rightarrow>
         (intent, a\<lparr>app_camera := c, app_tickAccumulator := app_accumulate deltaSeconds (app_tickAccumulator a)\<rparr>))"

definition update_after :: "Platform \<Rightarrow> f64 \<Rightarrow> Application \<Rightarrow> Application" where
  "update_after pf deltaSeconds a =
     (let a = a\<lparr>app_prediction := updateSmoothing (pf_exp2 pf) (f_of_d deltaSeconds) (app_prediction a)\<rparr>
      in follow_character pf (applyReplication pf (show_sky pf a)))"

definition app_update :: "Platform \<Rightarrow> FrameInput \<Rightarrow> f64 \<Rightarrow> Application \<Rightarrow> Application option" where
  "app_update pf fr deltaSeconds a = (case update_before pf fr deltaSeconds a of (intent, a) \<Rightarrow>
     map_option (update_after pf deltaSeconds) (app_ticks kTickFuel pf (fr_random fr) intent a))"

definition draw_state :: "Platform \<Rightarrow> Network \<Rightarrow> Application \<Rightarrow> Application" where
  "draw_state pf net a = (case app_state a of
      InGame \<Rightarrow> if in_escape (app_input a) then enterState pf Menu a else a
    | Menu \<Rightarrow> (case menu_draw (app_username a) (app_widgets a) of (action, ui) \<Rightarrow>
        (let a = a\<lparr>app_widgets := ui\<rparr> in
         if action = Resume \<or> in_escape (app_input a) then enterState pf InGame a
         else if action = Logout then logout pf a
         else if action = QuitMenu then a\<lparr>app_shouldClose := True\<rparr>
         else a))
    | _ \<Rightarrow> (case login_draw (app_state a) (app_login a) (app_widgets a) of (action, l, ui) \<Rightarrow>
        (let a = a\<lparr>app_login := l, app_widgets := ui\<rparr> in
         if action = Submit then beginLogin pf net a
         else if action = QuitLogin then a\<lparr>app_shouldClose := True\<rparr>
         else a)))"

definition drawUi :: "Platform \<Rightarrow> FrameInput \<Rightarrow> Application \<Rightarrow> Application" where
  "drawUi pf fr a =
     (let a = a\<lparr>app_input := (app_input a)\<lparr>in_mouseX := f_of_d (fst (fr_uiCursor fr)), in_mouseY := f_of_d (snd (fr_uiCursor fr))\<rparr>\<rparr>;
          a = a\<lparr>app_widgets := widgets_begin (fr_caret fr) (app_input a) (draw ui_begin (app_widgets a))\<rparr>;
          a = draw_state pf (fr_network fr) a;
          a = a\<lparr>app_widgets := draw ui_end (widgets_end (app_widgets a))\<rparr>
      in a\<lparr>app_input := endFrame (app_input a)\<rparr>)"

definition app_frame :: "Platform \<Rightarrow> FrameInput \<Rightarrow> f64 \<Rightarrow> Application \<Rightarrow> Application option" where
  "app_frame pf fr elapsed a = map_option (drawUi pf fr) (app_update pf fr elapsed a)"

subsection \<open>The main loop\<close>

datatype window_event =
    CharTyped u32
  | KeyPressed WindowKey KeyAction
  | MouseButton bool KeyAction
  | Resized int int

fun app_event :: "window_event \<Rightarrow> Application \<Rightarrow> Application" where
  "app_event (CharTyped c) = charCallback c"
| "app_event (KeyPressed key action) = keyCallback key action"
| "app_event (MouseButton left action) = mouseButtonCallback left action"
| "app_event (Resized width height) = app_resize width height"

record LoopTurn =
  lt_events :: "window_event list"
  lt_closeRequested :: bool
  lt_now :: f64
  lt_frame :: FrameInput

text \<open>A turn of \<open>run\<close>: events first, then a frame unless the last one is too recent. The result keeps
  the time of the last frame.\<close>

definition frame_interval :: "int option \<Rightarrow> f64" where
  "frame_interval refreshRate = ddiv (d_of_int 1) (case refreshRate of
      None \<Rightarrow> d_of_int 60 | Some rate \<Rightarrow> if rate > 0 then d_of_int rate else d_of_int 60)"

definition run_turn :: "Platform \<Rightarrow> f64 \<Rightarrow> LoopTurn \<Rightarrow> f64 \<times> Application \<Rightarrow> (f64 \<times> Application) option" where
  "run_turn pf frameInterval t st = (case st of (previous, a) \<Rightarrow>
     (let a = fold app_event (lt_events t) a;
          a = (if lt_closeRequested t then a\<lparr>app_shouldClose := True\<rparr> else a);
          elapsed = dsub (lt_now t) previous
      in if dlt elapsed frameInterval then Some (previous, a)
         else map_option (Pair (lt_now t)) (app_frame pf (lt_frame t) elapsed a)))"

fun app_run :: "Platform \<Rightarrow> f64 \<Rightarrow> LoopTurn list \<Rightarrow> f64 \<times> Application \<Rightarrow> (f64 \<times> Application) option" where
  "app_run pf frameInterval [] st = Some st"
| "app_run pf frameInterval (t # ts) st =
     (if app_shouldClose (snd st) then Some st
      else case run_turn pf frameInterval t st of None \<Rightarrow> None | Some st' \<Rightarrow> app_run pf frameInterval ts st')"

definition app_destroy :: "Application \<Rightarrow> Application" where
  "app_destroy a = on_scene scene_destroy (on_net client_shutdown a)"

section \<open>State, network and scene in step\<close>

definition in_world :: "AppState \<Rightarrow> bool" where
  "in_world state \<longleftrightarrow> state = InGame \<or> state = Menu"

text \<open>Which network states go with a state of the application between frames.\<close>

fun net_follows :: "AppState \<Rightarrow> ClientState \<Rightarrow> bool" where
  "net_follows Login n \<longleftrightarrow> n = Idle \<or> n = Failed"
| "net_follows Connecting n \<longleftrightarrow> n \<noteq> Idle \<and> n \<noteq> InWorld"
| "net_follows InGame n \<longleftrightarrow> n = InWorld"
| "net_follows Menu n \<longleftrightarrow> n = InWorld"

definition app_settled :: "Application \<Rightarrow> bool" where
  "app_settled a \<longleftrightarrow> scene_ok (app_scene a) \<and> (ds_loaded (app_scene a) \<longleftrightarrow> in_world (app_state a)) \<and>
     (cam_enabled (app_camera a) \<longleftrightarrow> app_state a = InGame) \<and> (cur_disabled (app_cursor a) \<longleftrightarrow> app_state a = InGame) \<and>
     (mActive (app_prediction a) \<longrightarrow> in_world (app_state a)) \<and> login_ok (app_login a) \<and>
     app_swapChain a = (app_width a, app_height a) \<and>
     (0 < app_width a \<and> 0 < app_height a \<longrightarrow> app_viewport a = (word_of_int (app_width a), word_of_int (app_height a)))"

definition app_ok :: "Application \<Rightarrow> bool" where
  "app_ok a \<longleftrightarrow> app_settled a \<and> client_ok (app_net a) \<and> net_follows (app_state a) (mState (app_net a))"

subsection \<open>The parts of the scene and the prediction\<close>

lemma ds_loaded_ops [simp]:
  "ds_loaded (scene_build s)" "ds_loaded (setEntityTransform k p r s) = ds_loaded s" "ds_loaded (removeAbsentPlayers ks s) = ds_loaded s"
  by (simp_all add: scene_build_def setEntityTransform_def removeAbsentPlayers_fields)

lemma ds_loaded_player [simp]: "ds_loaded (setPlayerTransform k b p r s) = ds_loaded s"
  by (simp add: setPlayerTransform_def add_player_def Let_def)

lemma ds_loaded_sky [simp]: "ds_loaded (applySky sky s) = ds_loaded s"
  by (simp add: applySky_def show_disc_def engine_do_def Let_def)

lemma ds_loaded_destroy [simp]: "\<not> ds_loaded (scene_destroy s)"
  by (simp add: scene_destroy_def Let_def)

lemma mActive_ops [simp]:
  "\<not> mActive (prediction_shutdown p)" "mActive (prediction_init spawn p)" "mActive (updateSmoothing decay dt p) = mActive p"
  "mActive (snd (prediction_step lm f r y j s p)) = mActive p"
  by (simp_all add: prediction_shutdown_def prediction_init_def updateSmoothing_def prediction_step_def simulateTick_def Let_def)

lemma mActive_reconcile [simp]: "mActive (reconcile lm e p) = mActive p"
  by (simp add: reconcile_def smooth_correction_def fold_simulateTick Let_def)

lemma mState_input [simp]: "mState (sendInput random randMax f r y jump sprint sequence s) = mState s"
  by (simp add: sendInput_def client_send_def Let_def)

lemma enterState_fields [simp]:
  "app_state (enterState pf state a) = state" "app_net (enterState pf state a) = app_net a"
  "app_scene (enterState pf state a) = app_scene a" "app_login (enterState pf state a) = app_login a"
  "app_prediction (enterState pf state a) = app_prediction a" "cam_enabled (app_camera (enterState pf state a)) = (state = InGame)"
  "cur_disabled (app_cursor (enterState pf state a)) = (state = InGame)" "app_swapChain (enterState pf state a) = app_swapChain a"
  "app_width (enterState pf state a) = app_width a" "app_height (enterState pf state a) = app_height a"
  "app_viewport (enterState pf state a) = app_viewport a" "app_tickAccumulator (enterState pf state a) = app_tickAccumulator a"
  "app_shouldClose (enterState pf state a) = app_shouldClose a"
  by (simp_all add: enterState_def setEnabled_def Let_def)

lemma login_ok_ops [simp]:
  "login_ok (setStatus str b l) = login_ok l" "login_ok l \<Longrightarrow> login_ok (clearPassword l)" "login_ok (resetFocus l) = login_ok l"
  by (simp_all add: login_ok_def setStatus_def clearPassword_def resetFocus_def field_ok_def)

lemmas app_parts = on_net_def on_login_def on_scene_def

subsection \<open>A poll and what follows it\<close>

lemma poll_follows:
  assumes "net_follows state (mState s)"
  shows "mState (client_poll net now s) = Failed \<or> net_follows state (mState (client_poll net now s)) \<or>
    state = Connecting \<and> mState (client_poll net now s) = InWorld"
  using client_poll_evidence [OF refl, of net now s] assms
  by (cases state) (auto simp: client_poll_def)

lemma follow_network_ok:
  assumes "app_settled a" and "client_ok (app_net a)"
    and "mState (app_net a) = Failed \<or> net_follows (app_state a) (mState (app_net a)) \<or> app_state a = Connecting \<and> mState (app_net a) = InWorld"
  shows "app_ok (follow_network pf a)"
  using assms
  by (cases "app_state a")
    (auto simp: follow_network_def app_ok_def app_settled_def app_parts loadWorld_def unloadWorld_def Let_def camera_reset_def
      in_world_def scene_ok_build scene_ok_destroy)

lemma camera_sample_enabled: "camera_sample pf fr c = (intent, c') \<Longrightarrow> cam_enabled c' = cam_enabled c"
  by (auto simp: camera_sample_def camera_look_def Let_def split: if_splits)

lemma update_before_ok:
  assumes "app_ok a" and "update_before pf fr dt a = (intent, b)"
  shows "app_ok b"
proof -
  define a1 where "a1 = a\<lparr>app_elapsedSeconds := dadd (app_elapsedSeconds a) dt\<rparr>"
  define a2 where "a2 = on_net (client_poll (fr_network fr) (app_elapsedSeconds a1)) a1"
  have 1: "app_settled a1" "client_ok (app_net a1)" "net_follows (app_state a1) (mState (app_net a1))"
    using assms(1) by (simp_all add: a1_def app_ok_def app_settled_def)
  have "app_settled a2" "client_ok (app_net a2)" "app_state a2 = app_state a1"
    using 1 client_ok_poll by (simp_all add: a2_def app_parts app_settled_def)
  moreover have "app_net a2 = client_poll (fr_network fr) (app_elapsedSeconds a1) (app_net a1)"
    by (simp add: a2_def app_parts)
  ultimately have "app_ok (follow_network pf a2)"
    using poll_follows [OF 1(3)] by (intro follow_network_ok) auto
  moreover obtain c where c: "camera_sample pf fr (app_camera (follow_network pf a2)) = (intent, c)"
      "b = (follow_network pf a2)\<lparr>app_camera := c,
         app_tickAccumulator := app_accumulate dt (app_tickAccumulator (follow_network pf a2))\<rparr>"
    using assms(2) unfolding update_before_def Let_def a1_def [symmetric] a2_def [symmetric] by (auto split: prod.splits)
  ultimately show ?thesis
    using camera_sample_enabled [OF c(1)] by (simp add: app_ok_def app_settled_def)
qed

subsection \<open>The ticks of a frame\<close>

lemma app_tick_ok: "app_ok a \<Longrightarrow> app_ok (app_tick pf random intent a)"
  by (auto simp: app_tick_def app_ok_def app_settled_def app_parts in_world_def Let_def client_ok_input split: prod.split)

lemma app_ticks_ok: "app_ok a \<Longrightarrow> app_ticks fuel pf random intent a = Some a' \<Longrightarrow> app_ok a'"
proof (induction fuel arbitrary: random a)
  case (Suc fuel)
  from Suc.prems(2) Suc.IH [OF app_tick_ok [OF Suc.prems(1)]] Suc.prems(1) show ?case
    by (simp add: app_ticks.simps [of "Suc fuel"] split: if_splits)
qed (simp add: app_ticks.simps [of 0] split: if_splits)

text \<open>The input of the \<open>i\<close>th tick of a frame.\<close>

definition send_intent :: "Platform \<Rightarrow> (nat \<Rightarrow> int) \<Rightarrow> MovementIntent \<Rightarrow> u32 \<Rightarrow> nat \<Rightarrow> NetClient \<Rightarrow> NetClient" where
  "send_intent pf random intent first i = sendInput (random i) (pf_randMax pf) (mi_moveForward intent) (mi_moveRight intent)
     (mi_yaw intent) (mi_jump intent) (mi_sprint intent) (first + of_nat i)"

lemma app_tick_effect:
  "app_tickAccumulator (app_tick pf random intent a) = dsub (app_tickAccumulator a) tickSeconds"
  "app_state (app_tick pf random intent a) = app_state a"
  "app_net (app_tick pf random intent a) = (if app_state a = InGame
     then send_intent pf (\<lambda>_. random) intent (mNextSequence (app_prediction a)) 0 (app_net a) else app_net a)"
  "mNextSequence (app_prediction (app_tick pf random intent a)) =
     (if app_state a = InGame then mNextSequence (app_prediction a) + 1 else mNextSequence (app_prediction a))"
  by (simp_all add: app_tick_def app_parts Let_def prediction_step_def simulateTick_def send_intent_def)

text \<open>What is left in the accumulator after \<open>n\<close> ticks, and the number of ticks that are due: a whole tick is left before each
  of them, and none after.\<close>

primrec left_after :: "nat \<Rightarrow> f64 \<Rightarrow> f64" where
  "left_after 0 accumulator = accumulator"
| "left_after (Suc n) accumulator = left_after n (dsub accumulator tickSeconds)"

definition ticks_due :: "f64 \<Rightarrow> nat \<Rightarrow> bool" where
  "ticks_due accumulator n \<longleftrightarrow>
     (\<forall>i<n. dle tickSeconds (left_after i accumulator)) \<and> \<not> dle tickSeconds (left_after n accumulator)"

lemma ticks_due_unique: "ticks_due accumulator n \<Longrightarrow> ticks_due accumulator m \<Longrightarrow> n = m"
  by (metis ticks_due_def linorder_neqE_nat)

lemma ticks_due_0: "\<not> dle tickSeconds accumulator \<Longrightarrow> ticks_due accumulator 0"
  by (simp add: ticks_due_def)

lemma ticks_due_Suc:
  assumes "dle tickSeconds accumulator" and "ticks_due (dsub accumulator tickSeconds) n"
  shows "ticks_due accumulator (Suc n)"
  unfolding ticks_due_def
proof (intro conjI allI impI)
  fix i assume "i < Suc n"
  then show "dle tickSeconds (left_after i accumulator)"
    using assms by (cases i) (auto simp: ticks_due_def)
qed (use assms(2) in \<open>simp add: ticks_due_def\<close>)

lemma app_ticks_finish:
  assumes "in_bound (15 - fuel) (app_tickAccumulator a)" and "fuel \<le> 15"
  shows "\<exists>a' n. app_ticks fuel pf random intent a = Some a' \<and> n \<le> fuel \<and> ticks_due (app_tickAccumulator a) n \<and>
    app_tickAccumulator a' = left_after n (app_tickAccumulator a) \<and> app_state a' = app_state a \<and>
    mNextSequence (app_prediction a') =
      (if app_state a = InGame then mNextSequence (app_prediction a) + of_nat n else mNextSequence (app_prediction a)) \<and>
    app_net a' = (if app_state a = InGame
      then fold (send_intent pf random intent (mNextSequence (app_prediction a))) [0..<n] (app_net a) else app_net a)"
  using assms
proof (induction fuel arbitrary: a random)
  case 0
  then show ?case using in_bound_last [of "app_tickAccumulator a"]
    by (subst app_ticks.simps) (simp add: ticks_due_0)
next
  case (Suc fuel)
  show ?case
  proof (cases "dle tickSeconds (app_tickAccumulator a)")
    case False
    then show ?thesis by (subst app_ticks.simps) (intro exI [of _ a] exI [of _ 0], simp add: ticks_due_0)
  next
    case True
    let ?b = "app_tick pf (random 0) intent a"
    have "15 - fuel = Suc (15 - Suc fuel)" "15 - Suc fuel < 15" using Suc.prems(2) by simp_all
    then have "in_bound (15 - fuel) (app_tickAccumulator ?b)"
      using in_bound_step [OF Suc.prems(1) True] by (simp add: app_tick_effect)
    moreover have "fuel \<le> 15" using Suc.prems(2) by simp
    ultimately obtain a' n where r: "app_ticks fuel pf (\<lambda>i. random (Suc i)) intent ?b = Some a'" "n \<le> fuel"
        "ticks_due (app_tickAccumulator ?b) n" "app_tickAccumulator a' = left_after n (app_tickAccumulator ?b)" "app_state a' = app_state a"
        "mNextSequence (app_prediction a') =
          (if app_state a = InGame then mNextSequence (app_prediction ?b) + of_nat n else mNextSequence (app_prediction ?b))"
        "app_net a' = (if app_state a = InGame
          then fold (send_intent pf (\<lambda>i. random (Suc i)) intent (mNextSequence (app_prediction ?b))) [0..<n] (app_net ?b) else app_net ?b)"
      using Suc.IH [of ?b "\<lambda>i. random (Suc i)"] unfolding app_tick_effect(2) by blast
    have "fold (send_intent pf random intent first) [0..<Suc n] s =
        fold (send_intent pf (\<lambda>i. random (Suc i)) intent (first + 1)) [0..<n] (send_intent pf random intent first 0 s)" for first s
    proof -
      have "(\<lambda>i. send_intent pf random intent first (Suc i)) = send_intent pf (\<lambda>i. random (Suc i)) intent (first + 1)"
        by (rule ext) (simp add: send_intent_def ac_simps)
      then show ?thesis by (simp add: upt_conv_Cons map_Suc_upt [symmetric] fold_map comp_def del: upt_Suc)
    qed
    moreover have "ticks_due (app_tickAccumulator a) (Suc n)"
      using ticks_due_Suc [OF True] r(3) by (simp add: app_tick_effect)
    ultimately show ?thesis
      using r True
      by (subst app_ticks.simps) (intro exI [of _ a'] exI [of _ "Suc n"], simp add: app_tick_effect send_intent_def add.assoc del: upt_Suc)
  qed
qed

lemma in_bound_app: "in_bound 0 (app_accumulate dt accumulator)"
  unfolding app_accumulate_def Let_def by (rule in_bound_cap)

lemma update_before_bound: "update_before pf fr dt a = (intent, b) \<Longrightarrow> in_bound 0 (app_tickAccumulator b)"
  by (auto simp: update_before_def Let_def in_bound_app split: prod.splits)

subsection \<open>The rest of a frame\<close>

lemma show_sky_ok: "app_ok a \<Longrightarrow> app_ok (show_sky pf a)"
  by (auto simp: show_sky_def app_ok_def app_settled_def app_parts Let_def scene_ok_sky)

lemma predict_own_fields [simp]:
  "app_net (predict_own pf e a) = app_net a" "app_state (predict_own pf e a) = app_state a"
  "app_scene (predict_own pf e a) = app_scene a" "app_elapsedSeconds (predict_own pf e a) = app_elapsedSeconds a"
  by (simp_all add: predict_own_def)

lemma predict_own_ok: "app_ok a \<Longrightarrow> ds_loaded (app_scene a) \<Longrightarrow> app_ok (predict_own pf e a)"
  by (auto simp: predict_own_def app_ok_def app_settled_def)

lemma replicate_own_ok:
  assumes "app_ok a" and "ds_loaded (app_scene a)"
  shows "app_ok (replicate_own pf ident e a)"
  using predict_own_ok [OF assms] by (simp add: replicate_own_def app_ok_def app_settled_def app_parts Let_def scene_ok_player)

lemma replicate_own_net [simp]: "app_net (replicate_own pf ident e a) = app_net a" "app_state (replicate_own pf ident e a) = app_state a"
  "ds_loaded (app_scene (replicate_own pf ident e a)) = ds_loaded (app_scene a)"
  "app_elapsedSeconds (replicate_own pf ident e a) = app_elapsedSeconds a"
  by (simp_all add: replicate_own_def app_parts Let_def)

lemma replicate_entity_ok:
  "app_ok (snd st) \<Longrightarrow> ds_loaded (app_scene (snd st)) \<Longrightarrow>
   app_ok (snd (replicate_entity pf entry st)) \<and> ds_loaded (app_scene (snd (replicate_entity pf entry st)))"
proof -
  assume ok: "app_ok (snd st)" and loaded: "ds_loaded (app_scene (snd st))"
  obtain present a where st: "st = (present, a)" by fastforce
  obtain ident rep where e: "entry = (ident, rep)" by fastforce
  obtain position rotation where x: "extrapolated pf (extrapolation_age (app_elapsedSeconds a) (rep_receivedAt rep)) (rep_state rep) = (position, rotation)"
    by fastforce
  have "app_ok (on_scene (setPlayerTransform ident b position rotation) a)" "app_ok (on_scene (setEntityTransform ident position rotation) a)" for b
    using ok by (simp_all add: st app_ok_def app_settled_def app_parts scene_ok_player scene_ok_entity)
  then show ?thesis
    using replicate_own_ok [of a pf ident "rep_state rep"] ok loaded by (auto simp: replicate_entity_def e st x app_parts Let_def)
qed

lemma replicate_all_ok:
  "app_ok (snd st) \<Longrightarrow> ds_loaded (app_scene (snd st)) \<Longrightarrow> app_ok (snd (fold (replicate_entity pf) es st))"
  by (induction es arbitrary: st) (simp_all add: replicate_entity_ok)

lemma applyReplication_ok:
  assumes "app_ok a"
  shows "app_ok (applyReplication pf a)"
proof (cases "ds_loaded (app_scene a)")
  case True
  have "app_ok (on_scene (removeAbsentPlayers ks) b)" if "app_ok b" for ks b
    using that by (simp add: app_ok_def app_settled_def app_parts scene_ok_absent)
  with replicate_all_ok [of "([], a)" pf "mEntities (app_net a)"] assms True show ?thesis
    by (simp add: applyReplication_def case_prod_beta)
qed (use assms in \<open>simp add: applyReplication_def\<close>)

lemma update_after_ok: "app_ok a \<Longrightarrow> app_ok (update_after pf dt a)"
proof -
  assume "app_ok a"
  then have "app_ok (a\<lparr>app_prediction := updateSmoothing (pf_exp2 pf) (f_of_d dt) (app_prediction a)\<rparr>)"
    by (simp add: app_ok_def app_settled_def)
  moreover have "app_ok (follow_character pf b)" if "app_ok b" for b
    using that by (simp add: follow_character_def app_ok_def app_settled_def)
  ultimately show ?thesis
    by (simp add: update_after_def Let_def applyReplication_ok show_sky_ok)
qed

lemma beginLogin_ok:
  assumes "app_ok a" and "app_state a = Login \<or> app_state a = Connecting"
  shows "app_ok (beginLogin pf net a)"
proof -
  have "mState (client_login net host port u p s) \<noteq> Idle \<and> mState (client_login net host port u p s) \<noteq> InWorld" for host port u p s
    by (simp add: client_login_def client_disconnect_def Let_def split: option.split)
  with assms show ?thesis
    by (auto simp: beginLogin_def app_ok_def app_settled_def app_parts Let_def client_ok_login in_world_def)
qed

lemma logout_ok: "app_ok a \<Longrightarrow> app_ok (logout pf a)"
  by (simp add: logout_def app_ok_def app_settled_def app_parts Let_def unloadWorld_def client_logout_def client_ok_disconnect
      in_world_def scene_ok_destroy) (simp add: client_disconnect_def)

lemma app_ok_cong:
  "app_ok a \<Longrightarrow> app_ok (a\<lparr>app_widgets := ui\<rparr>)" "app_ok a \<Longrightarrow> app_ok (a\<lparr>app_input := i\<rparr>)" "app_ok a \<Longrightarrow> app_ok (a\<lparr>app_shouldClose := b\<rparr>)"
  "app_ok a \<Longrightarrow> login_ok l \<Longrightarrow> app_ok (a\<lparr>app_login := l\<rparr>)"
  by (simp_all add: app_ok_def app_settled_def)

lemma draw_state_ok:
  assumes ok: "app_ok a"
  shows "app_ok (draw_state pf net a)"
proof -
  have enter: "app_ok (enterState pf state b)" if "app_ok b" "in_world (app_state b)" "in_world state" for b state
    using that by (auto simp: app_ok_def app_settled_def in_world_def)
  show ?thesis
  proof (cases "in_world (app_state a)")
    case True
    obtain action ui where m: "menu_draw (app_username a) (app_widgets a) = (action, ui)" by fastforce
    let ?b = "a\<lparr>app_widgets := ui\<rparr>"
    have "app_ok ?b" "in_world (app_state ?b)" using ok True by (simp_all add: app_ok_cong)
    from True enter [OF ok True] enter [OF this] logout_ok [OF this(1)] app_ok_cong [OF this(1)] ok this show ?thesis
      by (auto simp: draw_state_def m Let_def in_world_def)
  next
    case False
    obtain action l ui where d: "login_draw (app_state a) (app_login a) (app_widgets a) = (action, l, ui)" by (metis prod_cases3)
    let ?b = "a\<lparr>app_login := l, app_widgets := ui\<rparr>"
    have "login_ok l" using login_draw_ok [of "app_login a" "app_state a" "app_widgets a"] ok by (simp add: d app_ok_def app_settled_def)
    then have "app_ok ?b" using ok by (simp add: app_ok_cong)
    moreover have "app_state ?b = Login \<or> app_state ?b = Connecting" using False by (cases "app_state a") (auto simp: in_world_def)
    ultimately have "app_ok (beginLogin pf net ?b)" "app_ok (?b\<lparr>app_shouldClose := True\<rparr>)"
      using beginLogin_ok [of ?b pf net] app_ok_cong(3) [of ?b True] by simp_all
    with \<open>app_ok ?b\<close> False d show ?thesis
      by (cases "app_state a") (simp_all add: draw_state_def Let_def in_world_def)
  qed
qed

lemma drawUi_ok: "app_ok a \<Longrightarrow> app_ok (drawUi pf fr a)"
  by (simp add: drawUi_def Let_def app_ok_cong draw_state_ok)

lemma app_update_ok:
  assumes "app_ok a" and "app_update pf fr dt a = Some a'"
  shows "app_ok a'"
proof -
  obtain intent b where b: "update_before pf fr dt a = (intent, b)" by fastforce
  then obtain c where "app_ticks kTickFuel pf (fr_random fr) intent b = Some c" "a' = update_after pf dt c"
    using assms(2) by (auto simp: app_update_def)
  with app_ticks_ok [OF update_before_ok [OF assms(1) b]] show ?thesis by (simp add: update_after_ok)
qed

lemma app_frame_ok: "app_ok a \<Longrightarrow> app_frame pf fr dt a = Some a' \<Longrightarrow> app_ok a'"
  using app_update_ok drawUi_ok by (auto simp: app_frame_def)

lemma app_update_total: "app_update pf fr dt a \<noteq> None"
proof -
  obtain intent b where b: "update_before pf fr dt a = (intent, b)" by fastforce
  from app_ticks_finish [of 15 b pf "fr_random fr" intent] update_before_bound [OF b] show ?thesis
    by (auto simp: app_update_def b kTickFuel_def)
qed

subsection \<open>Events and reachability\<close>

lemma app_event_ok: "app_ok a \<Longrightarrow> app_ok (app_event e a)"
  by (cases e) (auto simp: charCallback_def keyCallback_def mouseButtonCallback_def app_ok_cong app_resize_def Let_def
      app_ok_def app_settled_def)

lemma app_init_ok:
  assumes "app_init pf st = Inr a"
  shows "app_ok a"
proof -
  have "client_ok (client_init env net_client)" "mState (client_init env net_client) = Idle" for env
    using client_reach_ok [OF reach_init [OF reach_start]] by (auto simp: client_init_def net_client_def Let_def split: option.split)
  moreover have "login_ok new_login_screen" by (simp add: login_ok_def new_login_screen_def field_ok_def)
  moreover have "scene_ok new_scene" "\<not> ds_loaded new_scene" by (simp_all add: scene_ok_new) (simp add: new_scene_def)
  ultimately show ?thesis
    using assms by (auto simp: app_init_def app_resize_def new_application_def new_prediction_def Let_def
        app_ok_def app_settled_def in_world_def split: if_splits option.splits prod.splits)
qed

inductive app_reach :: "Platform \<Rightarrow> Application \<Rightarrow> bool" for pf where
  app_started: "app_init pf st = Inr a \<Longrightarrow> app_reach pf a"
| app_notified: "app_reach pf a \<Longrightarrow> app_reach pf (app_event e a)"
| app_asked_to_close: "app_reach pf a \<Longrightarrow> app_reach pf (a\<lparr>app_shouldClose := True\<rparr>)"
| app_framed: "app_reach pf a \<Longrightarrow> app_frame pf fr dt a = Some a' \<Longrightarrow> app_reach pf a'"

lemma app_reach_ok: "app_reach pf a \<Longrightarrow> app_ok a"
  by (induction rule: app_reach.induct) (auto intro: app_init_ok app_event_ok app_ok_cong app_frame_ok)

section \<open>Where things are drawn\<close>

definition is_player :: "Replicated \<Rightarrow> bool" where
  "is_player r \<longleftrightarrow> ent_type (rep_state r) = EntityType_code PlayerEntity"

lemma setPlayer_find:
  "ds_loaded s \<Longrightarrow>
   \<exists>v. map_find k (ds_players (setPlayerTransform k b p r s)) = Some v \<and> (pv_position v, pv_rotation v) = (p, r)"
  by (cases "map_find k (ds_players s)") (auto simp: setPlayerTransform_def add_player_def Let_def)

lemma setPlayer_others:
  "j \<noteq> k \<Longrightarrow> map_find j (ds_players (setPlayerTransform k b p r s)) = map_find j (ds_players s)"
  by (simp add: setPlayerTransform_def add_player_def Let_def)

lemma setEntity_players [simp]: "ds_players (setEntityTransform k p r s) = ds_players s"
  by (simp add: setEntityTransform_def)

lemma map_find_filter: "map_find k (filter (\<lambda>(k, _). k \<in> S) m) = (if k \<in> S then map_find k m else None)"
  by (induction m) (auto simp: map_find_def)

text \<open>Where an entity's body belongs, in the application as it is after the pass.\<close>

definition drawn_at :: "Platform \<Rightarrow> Application \<Rightarrow> u32 \<Rightarrow> Replicated \<Rightarrow> Vec3 \<times> Quat" where
  "drawn_at pf a k r =
     (if k = mOwnEntityId (app_net a)
      then (renderPosition (app_prediction a), facing_rotation pf (chr_facingYaw (mCharacter (app_prediction a))))
      else extrapolated pf (extrapolation_age (app_elapsedSeconds a) (rep_receivedAt r)) (rep_state r))"

definition drawn :: "Platform \<Rightarrow> Application \<Rightarrow> u32 \<times> Replicated \<Rightarrow> bool" where
  "drawn pf a entry = (case entry of (k, r) \<Rightarrow> is_player r \<longrightarrow>
     (\<exists>v. map_find k (ds_players (app_scene a)) = Some v \<and> (pv_position v, pv_rotation v) = drawn_at pf a k r))"

text \<open>What one step may change: the entity's own visual and, for the own entity, the prediction.\<close>

lemma replicate_entity_effect:
  assumes "ds_loaded (app_scene a)" and "replicate_entity pf (k, r) (present, a) = (present', b)"
  shows "drawn pf b (k, r)" "ds_loaded (app_scene b)" "app_net b = app_net a" "app_elapsedSeconds b = app_elapsedSeconds a"
    "present' = (if is_player r then k # present else present)"
    "j \<noteq> k \<Longrightarrow> map_find j (ds_players (app_scene b)) = map_find j (ds_players (app_scene a))"
    "k \<noteq> mOwnEntityId (app_net a) \<Longrightarrow> app_prediction b = app_prediction a"
proof -
  let ?age = "extrapolation_age (app_elapsedSeconds a) (rep_receivedAt r)"
  obtain position rotation where x: "extrapolated pf ?age (rep_state r) = (position, rotation)" by fastforce
  consider (own) "is_player r" "k = mOwnEntityId (app_net a)" "b = replicate_own pf k (rep_state r) a" "present' = k # present"
    | (other) "is_player r" "k \<noteq> mOwnEntityId (app_net a)" "b = on_scene (setPlayerTransform k False position rotation) a" "present' = k # present"
    | (thing) "\<not> is_player r" "b = on_scene (setEntityTransform k position rotation) a" "present' = present"
    using assms(2) by (auto simp: replicate_entity_def x Let_def is_player_def split: if_splits)
  note cases = this
  show "ds_loaded (app_scene b)" "app_net b = app_net a" "app_elapsedSeconds b = app_elapsedSeconds a"
      "present' = (if is_player r then k # present else present)"
    using cases by (cases; simp add: assms(1) app_parts)+
  show "map_find j (ds_players (app_scene b)) = map_find j (ds_players (app_scene a))" if "j \<noteq> k"
    using cases that by cases (auto simp: app_parts setPlayer_others replicate_own_def Let_def)
  show "app_prediction b = app_prediction a" if "k \<noteq> mOwnEntityId (app_net a)"
    using cases that by cases (simp_all add: app_parts)
  show "drawn pf b (k, r)"
    using cases
  proof cases
    case own
    define c where "c = predict_own pf (rep_state r) a"
    have "ds_loaded (app_scene c)" "app_net c = app_net a" using assms(1) by (simp_all add: c_def)
    with setPlayer_find [of "app_scene c" k True "renderPosition (app_prediction c)"
      "facing_rotation pf (chr_facingYaw (mCharacter (app_prediction c)))"] own(1,2)
    show ?thesis
      unfolding own(3) replicate_own_def Let_def c_def [symmetric] by (simp add: drawn_def drawn_at_def app_parts)
  next
    case other
    then show ?thesis
      using setPlayer_find [OF assms(1), of k False position rotation] by (simp add: drawn_def drawn_at_def app_parts x)
  qed (simp add: drawn_def)
qed

lemma drawn_kept:
  assumes "drawn pf a (k, r)" and "app_net b = app_net a" "app_elapsedSeconds b = app_elapsedSeconds a"
    and "map_find k (ds_players (app_scene b)) = map_find k (ds_players (app_scene a))"
    and "k = mOwnEntityId (app_net a) \<Longrightarrow> app_prediction b = app_prediction a"
  shows "drawn pf b (k, r)"
  using assms by (auto simp: drawn_def drawn_at_def)

lemma replicate_all_effect:
  assumes "distinct (map fst es)" and "ds_loaded (app_scene a)" and "fold (replicate_entity pf) es (present, a) = (present', b)"
  shows "list_all (drawn pf b) es \<and> ds_loaded (app_scene b) \<and> app_net b = app_net a \<and> app_elapsedSeconds b = app_elapsedSeconds a \<and>
    set present' = set present \<union> {k. \<exists>r. (k, r) \<in> set es \<and> is_player r} \<and>
    (\<forall>j. j \<notin> fst ` set es \<longrightarrow> map_find j (ds_players (app_scene b)) = map_find j (ds_players (app_scene a))) \<and>
    (mOwnEntityId (app_net a) \<notin> fst ` set es \<longrightarrow> app_prediction b = app_prediction a)"
  using assms
proof (induction es arbitrary: present a)
  case (Cons e es)
  obtain k r where e: "e = (k, r)" by fastforce
  obtain present1 c where c: "replicate_entity pf (k, r) (present, a) = (present1, c)" by fastforce
  note step = replicate_entity_effect [OF Cons.prems(2) c]
  have IH: "list_all (drawn pf b) es \<and> ds_loaded (app_scene b) \<and> app_net b = app_net c \<and> app_elapsedSeconds b = app_elapsedSeconds c \<and>
    set present' = set present1 \<union> {k. \<exists>r. (k, r) \<in> set es \<and> is_player r} \<and>
    (\<forall>j. j \<notin> fst ` set es \<longrightarrow> map_find j (ds_players (app_scene b)) = map_find j (ds_players (app_scene c))) \<and>
    (mOwnEntityId (app_net c) \<notin> fst ` set es \<longrightarrow> app_prediction b = app_prediction c)"
    using Cons.IH [OF _ step(2), of present1] Cons.prems(1,3) by (simp add: e c)
  have new: "k \<notin> fst ` set es" using Cons.prems(1) by (simp add: e)
  have "drawn pf b (k, r)"
    by (rule drawn_kept [OF step(1)]) (use IH new in auto)
  with IH step(3-7) show ?case by (auto simp: e)
qed simp

section \<open>Properties\<close>

text \<open>C15. The parts of the client stay in step. In every application that can be reached, through any events and
  frames, the scene is built exactly while the player is in the world (playing or in the menu), the mouse is captured and the camera
  live exactly while playing, the network's state is the one that belongs to the screen shown, prediction
  runs only in the world, the graphics engine was never asked for an object twice or one still in use and holds none
  on the login screen, the form's text is what the login message can carry, the swap chain has the
  window's size, and the next frame completes.\<close>

theorem app_states_consistent:
  assumes "app_reach pf a"
  shows "(ds_loaded (app_scene a) \<longleftrightarrow> app_state a = InGame \<or> app_state a = Menu) \<and>
    (cam_enabled (app_camera a) \<longleftrightarrow> app_state a = InGame) \<and> (cur_disabled (app_cursor a) \<longleftrightarrow> app_state a = InGame) \<and>
    net_follows (app_state a) (mState (app_net a)) \<and> (mActive (app_prediction a) \<longrightarrow> ds_loaded (app_scene a)) \<and>
    eng_faults (ds_engine (app_scene a)) = 0 \<and>
    (app_state a = Login \<longrightarrow> eng_live (ds_engine (app_scene a)) = [] \<and> eng_scene (ds_engine (app_scene a)) = []) \<and>
    login_ok (app_login a) \<and> app_swapChain a = (app_width a, app_height a) \<and> app_frame pf fr dt a \<noteq> None"
proof -
  have ok: "app_settled a" "net_follows (app_state a) (mState (app_net a))"
    using app_reach_ok [OF assms] by (simp_all add: app_ok_def)
  then have scene: "scene_ok (app_scene a)" "ds_loaded (app_scene a) \<longleftrightarrow> in_world (app_state a)" by (simp_all add: app_settled_def)
  then have "eng_faults (ds_engine (app_scene a)) = 0" by (simp add: scene_ok_def engine_has_def)
  moreover have "eng_live (ds_engine (app_scene a)) = [] \<and> eng_scene (ds_engine (app_scene a)) = []" if "app_state a = Login"
    using scene that by (auto simp: scene_ok_def engine_has_def owned_def displayed_def map_keys_def in_world_def)
  moreover have "app_frame pf fr dt a \<noteq> None" using app_update_total by (simp add: app_frame_def)
  ultimately show ?thesis using ok scene by (auto simp: app_settled_def in_world_def)
qed

definition sample_platform :: Platform where
  "sample_platform = \<lparr>pf_libm = \<lparr>sinf = (\<lambda>x. x), cosf = (\<lambda>x. x), dsin = (\<lambda>x. x), dcos = (\<lambda>x. x)\<rparr>, pf_expf = (\<lambda>x. x), pf_exp2 = (\<lambda>x. x),
     pf_math = \<lparr>fm_pi = 0, fm_degToRad = 0, fm_clamp = (\<lambda>x l h. x), fm_normalize = (\<lambda>v. v), fm_mix = (\<lambda>v w x. v),
       fm_cross = (\<lambda>v w. v), fm_length = vec_x, fm_rotate = (\<lambda>v x q. q)\<rparr>,
     pf_env = (\<lambda>_. None), pf_rawMotion = True, pf_randMax = 1\<rparr>"

definition sample_startup :: Startup where
  "sample_startup = \<lparr>st_glfwInit = True, st_window = True, st_framebuffer = (0, 0), st_engine = True, st_nativeWindow = True,
     st_sockets = True, st_font = blank_stb\<rparr>"

lemma sample_app: "\<exists>a. app_init sample_platform sample_startup = Inr a \<and> app_state a = Login"
  using blank_init by (auto simp: app_init_def sample_startup_def app_resize_def)

theorem app_states_consistent_witness:
  "\<exists>a. app_reach sample_platform (app_event (Resized 800 600) a) \<and> app_swapChain (app_event (Resized 800 600) a) = (800, 600) \<and>
     \<not> ds_loaded (app_scene (app_event (Resized 800 600) a)) \<and>
     (\<forall>fr dt. app_frame sample_platform fr dt (app_event (Resized 800 600) a) \<noteq> None)"
proof -
  obtain a where a: "app_init sample_platform sample_startup = Inr a" "app_state a = Login" using sample_app by blast
  let ?a = "app_event (Resized 800 600) a"
  have r: "app_reach sample_platform ?a" by (rule app_notified [OF app_started [OF a(1)]])
  have "app_state ?a = Login" "app_width ?a = 800" "app_height ?a = 600" using a(2) by (simp_all add: app_resize_def Let_def)
  with app_states_consistent [OF r] r show ?thesis by (intro exI [of _ a]) auto
qed

text \<open>C16. A frame sends movement only while playing, one input for each tick that is due. Whatever the frame time (a stall, a clock that
  jumped, a NaN), the catch-up loop of \<open>update\<close> runs exactly the ticks the accumulator is good for: \<open>n\<close> is the one number such that a whole
  tick is left in it before each of them and none after, at most fifteen, and their time is taken off. While
  playing each tick predicts and sends the sampled intent under the next sequence number of the prediction, in order and
  without gaps, and the prediction goes on from there; in every other state, the pause menu included, no number is used up
  and the network client is left exactly as the poll made it.\<close>

theorem app_inputs_while_playing:
  "case update_before pf fr dt a of (intent, b) \<Rightarrow> \<exists>c n. app_ticks kTickFuel pf (fr_random fr) intent b = Some c \<and>
     app_update pf fr dt a = Some (update_after pf dt c) \<and> n \<le> 15 \<and> ticks_due (app_tickAccumulator b) n \<and>
     app_tickAccumulator c = left_after n (app_tickAccumulator b) \<and> app_state c = app_state b \<and>
     mNextSequence (app_prediction c) =
       (if app_state b = InGame then mNextSequence (app_prediction b) + of_nat n else mNextSequence (app_prediction b)) \<and>
     app_net c = (if app_state b = InGame
       then fold (send_intent pf (fr_random fr) intent (mNextSequence (app_prediction b))) [0..<n] (app_net b) else app_net b)"
proof -
  obtain intent b where b: "update_before pf fr dt a = (intent, b)" by fastforce
  have "in_bound (15 - 15) (app_tickAccumulator b)" using update_before_bound [OF b] by simp
  from app_ticks_finish [OF this order_refl, of pf "fr_random fr" intent]
  obtain c n where "app_ticks kTickFuel pf (fr_random fr) intent b = Some c" "n \<le> 15" "ticks_due (app_tickAccumulator b) n"
      "app_tickAccumulator c = left_after n (app_tickAccumulator b)" "app_state c = app_state b"
      "mNextSequence (app_prediction c) =
        (if app_state b = InGame then mNextSequence (app_prediction b) + of_nat n else mNextSequence (app_prediction b))"
      "app_net c = (if app_state b = InGame
        then fold (send_intent pf (fr_random fr) intent (mNextSequence (app_prediction b))) [0..<n] (app_net b) else app_net b)"
    unfolding kTickFuel_def by blast
  then show ?thesis
    unfolding b app_update_def prod.case by (intro exI [of _ c] exI [of _ n]) simp
qed

text \<open>C17. What is on screen is what was replicated. With the world loaded, after \<open>applyReplication\<close> the scene shows a body for exactly
  the replicated entities that are players: the own one where the prediction says, facing where the
  prediction faces, every other one at its newest state extrapolated by its velocity for at most a quarter of a second.\<close>

theorem players_drawn_where_replicated:
  assumes "ds_loaded (app_scene a)" and "map_ok (mEntities (app_net a))"
  shows "let b = applyReplication pf a in
    set (map_keys (ds_players (app_scene b))) = {k. \<exists>r. map_find k (mEntities (app_net a)) = Some r \<and> is_player r} \<and>
    (\<forall>k r. map_find k (mEntities (app_net a)) = Some r \<and> is_player r \<longrightarrow>
       (\<exists>v. map_find k (ds_players (app_scene b)) = Some v \<and> (pv_position v, pv_rotation v) = drawn_at pf b k r))"
proof -
  obtain present c where c: "fold (replicate_entity pf) (mEntities (app_net a)) ([], a) = (present, c)" by fastforce
  have "distinct (map fst (mEntities (app_net a)))" using std.distinct_keys [OF assms(2)] by (simp add: map_keys_def)
  note all = replicate_all_effect [OF this assms(1) c]
  let ?b = "applyReplication pf a"
  have b: "?b = on_scene (removeAbsentPlayers present) c" using assms(1) by (simp add: applyReplication_def c)
  have entry: "map_find k (mEntities (app_net a)) = Some r \<longleftrightarrow> (k, r) \<in> set (mEntities (app_net a))" for k r
    by (rule map_find_in_set [OF assms(2)])
  have find: "map_find k (ds_players (app_scene ?b)) = (if k \<in> set present then map_find k (ds_players (app_scene c)) else None)" for k
    by (simp add: b app_parts removeAbsentPlayers_fields map_find_filter)
  have shown: "\<exists>v. map_find k (ds_players (app_scene c)) = Some v \<and> (pv_position v, pv_rotation v) = drawn_at pf c k r"
    if "(k, r) \<in> set (mEntities (app_net a))" "is_player r" for k r
    using all that by (auto simp: list_all_iff drawn_def)
  have present: "k \<in> set present \<longleftrightarrow> (\<exists>r. (k, r) \<in> set (mEntities (app_net a)) \<and> is_player r)" for k
    using all by simp
  have same: "drawn_at pf ?b = drawn_at pf c" by (simp add: b app_parts fun_eq_iff drawn_at_def)
  have "\<exists>v. map_find k (ds_players (app_scene ?b)) = Some v \<and> (pv_position v, pv_rotation v) = drawn_at pf ?b k r"
    if "map_find k (mEntities (app_net a)) = Some r" "is_player r" for k r
    using shown [of k r] that present [of k] by (auto simp: find entry same)
  moreover have "set (map_keys (ds_players (app_scene ?b))) = {k. \<exists>r. map_find k (mEntities (app_net a)) = Some r \<and> is_player r}"
  proof (intro set_eqI iffI)
    fix k assume "k \<in> set (map_keys (ds_players (app_scene ?b)))"
    then show "k \<in> {k. \<exists>r. map_find k (mEntities (app_net a)) = Some r \<and> is_player r}"
      using present [of k] by (auto simp: map_keys_find find entry split: if_splits)
  next
    fix k assume "k \<in> {k. \<exists>r. map_find k (mEntities (app_net a)) = Some r \<and> is_player r}"
    then obtain r where r: "(k, r) \<in> set (mEntities (app_net a))" "is_player r" by (auto simp: entry)
    with shown [OF r] present [of k] show "k \<in> set (map_keys (ds_players (app_scene ?b)))"
      by (auto simp: map_keys_find find)
  qed
  ultimately show ?thesis by (simp add: Let_def)
qed

definition sample_player :: "u32 \<Rightarrow> EntityState" where
  "sample_player k = \<lparr>ent_id = k, ent_type = EntityType_code PlayerEntity, ent_position = vec3_zero,
     ent_rotation = \<lparr>quat_x = 0, quat_y = 0, quat_z = 0, quat_w = 0\<rparr>, ent_velocity = vec3_zero, ent_angularVelocity = vec3_zero,
     ent_lastInputSequence = 0\<rparr>"

definition sample_world :: "Application \<Rightarrow> Application" where
  "sample_world a = on_net (\<lambda>n. n\<lparr>mOwnEntityId := 7, mEntities := [(7, \<lparr>rep_state = sample_player 7, rep_receivedAt = 0\<rparr>),
     (9, \<lparr>rep_state = sample_player 9, rep_receivedAt = 0\<rparr>)]\<rparr>) (loadWorld a)"

theorem players_drawn_where_replicated_witness:
  "\<forall>a. set (map_keys (ds_players (app_scene (applyReplication sample_platform (sample_world a))))) = {7, 9}"
proof
  fix a
  have "ds_loaded (app_scene (sample_world a))" "map_ok (mEntities (app_net (sample_world a)))"
    by (simp_all add: sample_world_def loadWorld_def app_parts Let_def map_ok_def map_keys_def)
  from players_drawn_where_replicated [OF this, of sample_platform]
  have "set (map_keys (ds_players (app_scene (applyReplication sample_platform (sample_world a))))) =
      {k. \<exists>r. map_find k (mEntities (app_net (sample_world a))) = Some r \<and> is_player r}"
    by (simp add: Let_def)
  also have "\<dots> = {7, 9}"
    by (auto simp: sample_world_def app_parts map_find_def is_player_def sample_player_def)
  finally show "set (map_keys (ds_players (app_scene (applyReplication sample_platform (sample_world a))))) = {7, 9}" .
qed

end
