(* ===== verification/EngineObjects.thy ===== *)
theory EngineObjects
  imports ClientApp
begin

text \<open>
  The engine objects of the client from start to end: \<^verbatim>\<open>UiRenderer::init\<close> and \<^verbatim>\<open>destroy\<close> (\<^verbatim>\<open>ui_renderer.cpp\<close>), and
  what \<^verbatim>\<open>Application::init\<close> and the destructor create and destroy (\<^verbatim>\<open>application.cpp\<close>); those of the world are in \<open>Scene\<close>. A
  pointer member is null until its object was created. Destroying through a null pointer has no effect, as
  the engine documents; calling a method through one ends the program. The property says for which failures at start-up
  the destructor does that, that otherwise it leaves nothing, and which objects it destroys while another still holds them.
\<close>

section \<open>Objects and pointers\<close>

datatype engine_object =
    UiMaterial
  | UiMaterialInstance
  | UiAtlas
  | UiVertexBuffer
  | UiIndexBuffer
  | UiScene
  | UiView
  | UiCamera
  | UiRenderable
  | TheSwapChain
  | TheRenderer
  | TheScene
  | TheView
  | TheCamera

text \<open>The objects made and their pointers, the references between objects that are alive, each as holder and
  held, what is in the overlay's scene, and what went wrong: \<open>ob_dangling\<close> lists every object that was destroyed while
  another one, named with it, still held it; \<open>ob_faults\<close> counts objects made or destroyed twice and references
  to objects that are not there.\<close>

record Objects =
  ob_engine :: bool
  ob_pointers :: "engine_object list"
  ob_live :: "engine_object list"
  ob_refers :: "(engine_object \<times> engine_object) list"
  ob_uiScene :: "engine_object list"
  ob_dangling :: "(engine_object \<times> engine_object) list"
  ob_faults :: nat
  ob_nullCall :: bool

definition no_objects :: Objects where
  "no_objects = \<lparr>ob_engine = False, ob_pointers = [], ob_live = [], ob_refers = [], ob_uiScene = [], ob_dangling = [],
     ob_faults = 0, ob_nullCall = False\<rparr>"

definition obtain_object :: "engine_object \<Rightarrow> Objects \<Rightarrow> Objects" where
  "obtain_object r s = s\<lparr>ob_pointers := r # ob_pointers s, ob_live := r # ob_live s,
     ob_faults := ob_faults s + (if r \<in> set (ob_live s) then 1 else 0)\<rparr>"

definition hold_object :: "engine_object \<Rightarrow> engine_object \<Rightarrow> Objects \<Rightarrow> Objects" where
  "hold_object holder held s =
     (if holder \<in> set (ob_live s) \<and> held \<in> set (ob_live s) then s\<lparr>ob_refers := (holder, held) # ob_refers s\<rparr>
      else s\<lparr>ob_faults := ob_faults s + 1\<rparr>)"

definition release_object :: "engine_object \<Rightarrow> Objects \<Rightarrow> Objects" where
  "release_object r s =
     (if r \<notin> set (ob_pointers s) then s
      else if r \<notin> set (ob_live s) then s\<lparr>ob_faults := ob_faults s + 1\<rparr>
      else s\<lparr>ob_live := remove1 r (ob_live s),
        ob_refers := filter (\<lambda>(holder, _). holder \<noteq> r) (ob_refers s),
        ob_dangling := ob_dangling s @ map (\<lambda>(holder, _). (r, holder)) (filter (\<lambda>(_, held). held = r) (ob_refers s)) @
          (if r \<in> set (ob_uiScene s) then [(r, UiScene)] else [])\<rparr>)"

text \<open>A call of a method of the overlay's scene.\<close>

definition with_ui_scene :: "(engine_object list \<Rightarrow> engine_object list) \<Rightarrow> Objects \<Rightarrow> Objects" where
  "with_ui_scene f s =
     (if UiScene \<notin> set (ob_pointers s) then s\<lparr>ob_nullCall := True\<rparr> else s\<lparr>ob_uiScene := f (ob_uiScene s)\<rparr>)"

section \<open>The overlay\<close>

definition make_material :: "Objects \<Rightarrow> Objects" where
  "make_material s = hold_object UiMaterialInstance UiMaterial (obtain_object UiMaterialInstance (obtain_object UiMaterial s))"

definition make_overlay :: "Objects \<Rightarrow> Objects" where
  "make_overlay s =
     (let s = hold_object UiMaterialInstance UiAtlas (obtain_object UiAtlas s);
          s = obtain_object UiIndexBuffer (obtain_object UiVertexBuffer s);
          s = hold_object UiView UiScene (obtain_object UiView (obtain_object UiScene s));
          s = hold_object UiView UiCamera (obtain_object UiCamera s);
          s = hold_object UiRenderable UiIndexBuffer (hold_object UiRenderable UiVertexBuffer
                (hold_object UiRenderable UiMaterialInstance (obtain_object UiRenderable s)))
      in with_ui_scene (List.insert UiRenderable) s)"

definition ui_objects_init :: "stb_font \<Rightarrow> Objects \<Rightarrow> bool \<times> Objects" where
  "ui_objects_init stb s = (let s = make_material s in if ui_init stb = None then (False, s) else (True, make_overlay s))"

definition ui_objects_destroy :: "Objects \<Rightarrow> Objects" where
  "ui_objects_destroy s =
     (let s = with_ui_scene (filter (\<lambda>x. x \<noteq> UiRenderable)) s in
      if ob_nullCall s then s
      else fold release_object [UiRenderable, UiCamera, UiView, UiScene, UiVertexBuffer, UiIndexBuffer, UiAtlas, UiMaterialInstance, UiMaterial] s)"

section \<open>The application\<close>

definition make_view :: "Objects \<Rightarrow> Objects" where
  "make_view s =
     (let s = obtain_object TheRenderer (obtain_object TheSwapChain s);
          s = obtain_object TheCamera (obtain_object TheView (obtain_object TheScene s))
      in hold_object TheView TheCamera (hold_object TheView TheScene s))"

definition app_objects_init :: "Startup \<Rightarrow> Objects \<Rightarrow> bool \<times> Objects" where
  "app_objects_init st s =
     (if \<not> st_glfwInit st then (False, s)
      else if \<not> st_window st then (False, s)
      else if \<not> st_engine st then (False, s)
      else
        (let s = s\<lparr>ob_engine := True\<rparr> in
         if \<not> st_nativeWindow st then (False, s)
         else (let s = make_view s in if \<not> st_sockets st then (False, s) else ui_objects_init (st_font st) s)))"

text \<open>The destructor: a call through a null pointer is the last thing it does.\<close>

definition app_objects_destroy :: "Objects \<Rightarrow> Objects" where
  "app_objects_destroy s =
     (if \<not> ob_engine s then s
      else
        (let s = ui_objects_destroy s in
         if ob_nullCall s then s
         else (fold release_object [TheView, TheScene, TheRenderer, TheCamera, TheSwapChain] s)\<lparr>ob_engine := False\<rparr>))"

section \<open>The property\<close>

lemma init_agrees: "fst (app_objects_init st s) \<longleftrightarrow> (\<exists>a. app_init pf st = Inr a)"
  by (auto simp: app_objects_init_def app_init_def ui_objects_init_def Let_def split: option.split prod.split)

text \<open>What the destructor makes of each point start-up can end at.\<close>

definition ends_with :: "(engine_object \<times> engine_object) list \<Rightarrow> Objects \<Rightarrow> bool" where
  "ends_with dangling s \<longleftrightarrow> ob_faults s = 0 \<and> \<not> ob_nullCall s \<and> ob_live s = [] \<and> \<not> ob_engine s \<and> ob_dangling s = dangling"

definition ends_in_null_call :: "Objects \<Rightarrow> bool" where
  "ends_in_null_call s \<longleftrightarrow> ob_faults s = 0 \<and> ob_nullCall s \<and> ob_dangling s = []"

definition engine_only :: Objects where "engine_only = no_objects\<lparr>ob_engine := True\<rparr>"

lemma ends:
  "ends_with [] (app_objects_destroy no_objects)"
  "ends_in_null_call (app_objects_destroy engine_only)"
  "ends_in_null_call (app_objects_destroy (make_view engine_only))"
  "ends_in_null_call (app_objects_destroy (make_material (make_view engine_only)))"
  "ends_with [(UiCamera, UiView), (UiAtlas, UiMaterialInstance)]
     (app_objects_destroy (make_overlay (make_material (make_view engine_only))))"
  by code_simp+

text \<open>C19. Start-up and the end. When the start-up of a client succeeded, its destructor destroys every object it made exactly
  once, leaves none behind and calls nothing through a null pointer. Exactly two objects are destroyed while
  another still holds them: the overlay's camera, which its view still has, and the atlas, which the overlay's
  material instance still has; both holders are destroyed right after. A start-up that failed before the engine was
  created leaves nothing to destroy; when the native window, the
  sockets or the interface failed, the destructor calls the overlay's scene through a null pointer.\<close>

theorem startup_and_end:
  "fst (app_objects_init st no_objects) = (\<exists>a. app_init pf st = Inr a) \<and>
   (let s = app_objects_destroy (snd (app_objects_init st no_objects))
    in if fst (app_objects_init st no_objects) then ends_with [(UiCamera, UiView), (UiAtlas, UiMaterialInstance)] s
       else if st_glfwInit st \<and> st_window st \<and> st_engine st then ends_in_null_call s
       else ends_with [] s)"
proof
  show "fst (app_objects_init st no_objects) = (\<exists>a. app_init pf st = Inr a)" by (rule init_agrees)
  show "let s = app_objects_destroy (snd (app_objects_init st no_objects))
    in if fst (app_objects_init st no_objects) then ends_with [(UiCamera, UiView), (UiAtlas, UiMaterialInstance)] s
       else if st_glfwInit st \<and> st_window st \<and> st_engine st then ends_in_null_call s
       else ends_with [] s"
    using ends by (simp add: app_objects_init_def ui_objects_init_def Let_def flip: engine_only_def)
qed

end
