(* ===== verification/Mesh.thy ===== *)
theory Mesh
  imports Scene Terrain
begin

text \<open>
  \<^verbatim>\<open>client/src/mesh.cpp\<close>: the vertices and indices of the client's meshes. Filament's mathematics is the record
  \<open>filament_math\<close>; the double constant \<^verbatim>\<open>F_PI\<close>, the tangent frames and the componentwise minimum and maximum are the record \<open>mesh_library\<close>. Index
  buffers keep their width, so that cutting an index to 16 bits would show. A mesh from arrays of unequal length or without
  vertices is \<open>None\<close>, which the properties exclude.
\<close>

section \<open>Building a mesh\<close>

record mesh_library =
  ml_pi :: f64
  ml_quats :: "Vec3 list \<Rightarrow> Quat list"
  ml_min :: "Vec3 \<Rightarrow> Vec3 \<Rightarrow> Vec3"
  ml_max :: "Vec3 \<Rightarrow> Vec3 \<Rightarrow> Vec3"

record MeshVertex =
  mv_position :: Vec3
  mv_tangents :: Quat
  mv_uv :: "f32 \<times> f32"

record 'i Mesh =
  vertexBuffer :: "MeshVertex list"
  indexBuffer :: "'i list"
  boundingBox :: "Vec3 \<times> Vec3"

text \<open>The arrays a shape fills: a position, normal and texture coordinate for every vertex, and the indices.\<close>

type_synonym corner = "Vec3 \<times> Vec3 \<times> f32 \<times> f32"

definition build_mesh :: "mesh_library \<Rightarrow> Vec3 list \<Rightarrow> Vec3 list \<Rightarrow> (f32 \<times> f32) list \<Rightarrow> 'i list \<Rightarrow> 'i Mesh option" where
  "build_mesh ml positions normals uvs indices =
     (if positions = [] \<or> length normals < length positions \<or> length uvs < length positions then None
      else
        (let quats = ml_quats ml normals;
             vertices = map (\<lambda>i. \<lparr>mv_position = positions ! i, mv_tangents = quats ! i, mv_uv = uvs ! i\<rparr>) [0..<length positions];
             minCorner = fold (\<lambda>p c. ml_min ml c p) positions (hd positions);
             maxCorner = fold (\<lambda>p c. ml_max ml c p) positions (hd positions)
         in Some \<lparr>vertexBuffer = vertices, indexBuffer = indices, boundingBox = (minCorner, maxCorner)\<rparr>))"

text \<open>A shape whose three arrays are filled together.\<close>

definition build_corners :: "mesh_library \<Rightarrow> corner list \<Rightarrow> 'i list \<Rightarrow> 'i Mesh option" where
  "build_corners ml corners indices = build_mesh ml (map fst corners) (map (\<lambda>c. fst (snd c)) corners) (map (\<lambda>c. snd (snd c)) corners) indices"

text \<open>Two nested loops that append once per turn of the inner one.\<close>

definition grid :: "nat \<Rightarrow> nat \<Rightarrow> (nat \<Rightarrow> nat \<Rightarrow> 'a) \<Rightarrow> 'a list" where
  "grid rows columns f = concat (map (\<lambda>row. map (f row) [0..<columns]) [0..<rows])"

section \<open>Shapes\<close>

definition kHalf :: f32 where "kHalf = f_ratio 5 10"
definition dneg :: "f64 \<Rightarrow> f64" where "dneg x = x XOR 0x8000000000000000"

definition i_vec :: "int \<Rightarrow> int \<Rightarrow> int \<Rightarrow> Vec3" where "i_vec x y z = vec (f_of_int x) (f_of_int y) (f_of_int z)"

definition faceNormals :: "Vec3 list" where
  "faceNormals = [i_vec 0 0 1, i_vec 0 0 (- 1), i_vec 1 0 0, i_vec (- 1) 0 0, i_vec 0 1 0, i_vec 0 (- 1) 0]"

definition faceCorners :: "f32 \<Rightarrow> Vec3 list list" where
  "faceCorners h = (let n = fneg h in
     [[vec n n h, vec h n h, vec h h h, vec n h h],
      [vec h n n, vec n n n, vec n h n, vec h h n],
      [vec h n h, vec h n n, vec h h n, vec h h h],
      [vec n n n, vec n n h, vec n h h, vec n h n],
      [vec n h h, vec h h h, vec h h n, vec n h n],
      [vec n n n, vec h n n, vec h n h, vec n n h]])"

definition cornerUvs :: "(f32 \<times> f32) list" where
  "cornerUvs = [(f_of_int 0, f_of_int 1), (f_of_int 1, f_of_int 1), (f_of_int 1, f_of_int 0), (f_of_int 0, f_of_int 0)]"

definition face_indices :: "nat \<Rightarrow> u16 list" where
  "face_indices face = (let base = word_of_nat (face * 4) in map (\<lambda>i. base + i) [0, 1, 2, 2, 3, 0])"

definition createCube :: "mesh_library \<Rightarrow> f32 \<Rightarrow> u16 Mesh option" where
  "createCube ml edge = (let h = fmul edge kHalf in
     build_corners ml (grid 6 4 (\<lambda>face corner. (faceCorners h ! face ! corner, faceNormals ! face, cornerUvs ! corner)))
       (concat (map face_indices [0..<6])))"

definition capsule_rings :: "nat \<Rightarrow> nat" where
  "capsule_rings rings = rings * 2 + 2"

definition capsule_latitude :: "f64 \<Rightarrow> nat \<Rightarrow> nat \<Rightarrow> f32" where
  "capsule_latitude pi rings ring =
     (let topHalf = (ring \<le> rings);
          ringInHalf = (if topHalf then ring else ring - rings - 1);
          t = fdiv (f_of_int (int ringInHalf)) (f_of_int (int rings));
          quarter = dmul pi (d_ratio 5 10)
      in f_of_d (if topHalf then dmul quarter (d_of_f (fsub (f_of_int 1) t)) else dmul (dneg quarter) (d_of_f t)))"

definition capsule_longitude :: "f64 \<Rightarrow> nat \<Rightarrow> nat \<Rightarrow> f32" where
  "capsule_longitude pi segments segment =
     (let kForwardOffset = f_of_d (dmul (d_ratio 5 10) pi)
      in f_of_d (dadd (d_of_f kForwardOffset)
           (ddiv (dmul (dmul (d_of_int 2) pi) (d_of_f (f_of_int (int segment)))) (d_of_f (f_of_int (int segments))))))"

definition capsule_corner :: "libm \<Rightarrow> filament_math \<Rightarrow> f64 \<Rightarrow> f32 \<Rightarrow> f32 \<Rightarrow> nat \<Rightarrow> nat \<Rightarrow> nat \<Rightarrow> nat \<Rightarrow> corner" where
  "capsule_corner lm fm pi radius halfHeight segments rings ring segment =
     (let latitude = capsule_latitude pi rings ring;
          ringRadius = fmul (cosf lm latitude) radius;
          ringY = fadd (fmul (sinf lm latitude) radius) (if ring \<le> rings then halfHeight else fneg halfHeight);
          longitude = capsule_longitude pi segments segment;
          x = cosf lm longitude;
          z = sinf lm longitude
      in (vec (fmul x ringRadius) ringY (fmul z ringRadius),
          fm_normalize fm (vec (fmul x (cosf lm latitude)) (sinf lm latitude) (fmul z (cosf lm latitude))),
          fdiv (f_of_int (int segment)) (f_of_int (int segments)),
          fdiv (f_of_int (int ring)) (f_of_int (int (capsule_rings rings) - 1))))"

definition capsule_quad :: "nat \<Rightarrow> nat \<Rightarrow> nat \<Rightarrow> u16 list" where
  "capsule_quad columns ring segment =
     (let a = word_of_nat (ring * columns + segment); b = a + 1; c = word_of_nat ((ring + 1) * columns + segment); d = c + 1
      in [a, b, c, b, d, c])"

definition createCapsule :: "libm \<Rightarrow> filament_math \<Rightarrow> mesh_library \<Rightarrow> f32 \<Rightarrow> f32 \<Rightarrow> nat \<Rightarrow> nat \<Rightarrow> u16 Mesh option" where
  "createCapsule lm fm ml radius halfHeight segments rings =
     build_corners ml (grid (capsule_rings rings) (segments + 1) (capsule_corner lm fm (ml_pi ml) radius halfHeight segments rings))
       (concat (grid (capsule_rings rings - 1) segments (capsule_quad (segments + 1))))"

definition createSphere :: "libm \<Rightarrow> filament_math \<Rightarrow> mesh_library \<Rightarrow> f32 \<Rightarrow> nat \<Rightarrow> nat \<Rightarrow> u16 Mesh option" where
  "createSphere lm fm ml radius segments rings = createCapsule lm fm ml radius (f_of_int 0) segments rings"

definition createPlane :: "mesh_library \<Rightarrow> f32 \<Rightarrow> u16 Mesh option" where
  "createPlane ml edge =
     (let h = fmul edge kHalf; n = fneg h; o0 = f_of_int 0
      in build_mesh ml [vec n o0 n, vec n o0 h, vec h o0 h, vec h o0 n] (replicate 4 (i_vec 0 1 0))
           [(f_of_int 0, f_of_int 0), (f_of_int 0, f_of_int 1), (f_of_int 1, f_of_int 1), (f_of_int 1, f_of_int 0)] [0, 1, 2, 2, 3, 0])"

subsection \<open>Terrain\<close>

definition terrain_resolution :: nat where "terrain_resolution = nat kMeshResolution"

definition terrain_at :: "nat \<Rightarrow> f32" where
  "terrain_at i = fadd (fneg kHalfWorld) (fmul (f_of_int (int i)) kStep)"

definition terrain_corner :: "nat \<Rightarrow> nat \<Rightarrow> corner" where
  "terrain_corner row column =
     (let x = terrain_at column; z = terrain_at row in
      case normalAt x z of (nx, ny, nz) \<Rightarrow> (vec x (heightAt x z) z, vec nx ny nz, x, z))"

definition terrain_quad :: "nat \<Rightarrow> nat \<Rightarrow> nat \<Rightarrow> u32 list" where
  "terrain_quad columns row column =
     (let topLeft = word_of_nat (row * columns + column); topRight = topLeft + 1;
          bottomLeft = topLeft + word_of_nat columns; bottomRight = bottomLeft + 1
      in [topLeft, bottomLeft, topRight, topRight, bottomLeft, bottomRight])"

definition createTerrain :: "mesh_library \<Rightarrow> u32 Mesh option" where
  "createTerrain ml =
     (let columns = terrain_resolution + 1 in
      build_corners ml (grid columns columns terrain_corner)
        (concat (grid terrain_resolution terrain_resolution (terrain_quad columns))))"

section \<open>Grids\<close>

lemma grid_Suc: "grid (Suc rows) columns f = grid rows columns f @ map (f rows) [0..<columns]"
  by (simp add: grid_def)

lemma length_grid [simp]: "length (grid rows columns f) = rows * columns"
  by (induction rows) (simp_all add: grid_Suc, simp add: grid_def)

lemma set_grid: "set (grid rows columns f) = {f r c |r c. r < rows \<and> c < columns}"
  unfolding grid_def set_concat set_map set_upt by auto blast

lemma map_grid: "map g (grid rows columns f) = grid rows columns (\<lambda>r c. g (f r c))"
  by (simp add: grid_def map_concat comp_def)

lemma grid_index_bound: "r < rows \<Longrightarrow> c < columns \<Longrightarrow> r * columns + c < rows * columns" for r c rows columns :: nat
proof -
  assume "r < rows" "c < columns"
  then have "r * columns + c < Suc r * columns" by simp
  also have "\<dots> \<le> rows * columns" using \<open>r < rows\<close> by (intro mult_le_mono1) simp
  finally show ?thesis .
qed

lemma nth_grid: "r < rows \<Longrightarrow> c < columns \<Longrightarrow> grid rows columns f ! (r * columns + c) = f r c"
proof (induction rows)
  case (Suc rows)
  show ?case
  proof (cases "r = rows")
    case True
    then show ?thesis using Suc.prems(2) by (simp add: grid_Suc nth_append)
  next
    case False
    with Suc.prems have "r * columns + c < rows * columns"
      by (intro grid_index_bound) simp_all
    with False Suc show ?thesis by (simp add: grid_Suc nth_append)
  qed
qed simp

section \<open>Every index is meant and refers to a vertex\<close>

text \<open>The buffers of a mesh: one vertex for each corner in order, and the given triangles, of which every index
  is the number of a vertex, uncut by the width of the buffer.\<close>

definition mesh_sound :: "Vec3 list \<Rightarrow> nat list \<Rightarrow> ('a::len) word Mesh option \<Rightarrow> bool" where
  "mesh_sound positions triangles mesh = (case mesh of None \<Rightarrow> False
    | Some m \<Rightarrow> map mv_position (vertexBuffer m) = positions \<and> map unat (indexBuffer m) = triangles \<and>
        list_all (\<lambda>i. i < length (vertexBuffer m)) triangles \<and> 3 dvd length triangles)"

lemma mesh_soundD:
  "mesh_sound positions triangles mesh \<Longrightarrow> \<exists>m. mesh = Some m \<and> length (vertexBuffer m) = length positions \<and>
     length (indexBuffer m) = length triangles \<and> list_all (\<lambda>i. unat i < length positions) (indexBuffer m)"
  by (auto simp: mesh_sound_def list_all_iff split: option.splits)

lemma build_mesh_sound:
  assumes "positions \<noteq> []" and "length normals = length positions" and "length uvs = length positions"
    and "map unat indices = triangles" and "list_all (\<lambda>i. i < length positions) triangles" and "3 dvd length triangles"
  shows "mesh_sound positions triangles (build_mesh ml positions normals uvs indices)"
  using assms by (auto simp: mesh_sound_def build_mesh_def Let_def comp_def map_nth)

lemma build_corners_sound:
  assumes "corners \<noteq> []" and "map unat indices = triangles" and "list_all (\<lambda>i. i < length corners) triangles" and "3 dvd length triangles"
  shows "mesh_sound (map fst corners) triangles (build_corners ml corners indices)"
  unfolding build_corners_def using assms by (intro build_mesh_sound) simp_all

text \<open>The triangles meant: two for each cell of the grid.\<close>

definition face_triangles :: "nat \<Rightarrow> nat list" where
  "face_triangles face = map ((+) (face * 4)) [0, 1, 2, 2, 3, 0]"

definition capsule_triangles :: "nat \<Rightarrow> nat \<Rightarrow> nat \<Rightarrow> nat list" where
  "capsule_triangles columns ring segment = (let a = ring * columns + segment; c = (ring + 1) * columns + segment
     in [a, a + 1, c, a + 1, c + 1, c])"

definition terrain_triangles :: "nat \<Rightarrow> nat \<Rightarrow> nat \<Rightarrow> nat list" where
  "terrain_triangles columns row column = (let a = row * columns + column; c = (row + 1) * columns + column
     in [a, c, a + 1, a + 1, c, c + 1])"

lemma map_concat_grid:
  assumes "\<And>r c. r < rows \<Longrightarrow> c < columns \<Longrightarrow> map g (f r c) = h r c"
  shows "map g (concat (grid rows columns f)) = concat (grid rows columns h)"
proof -
  have "map (\<lambda>c. map g (f r c)) [0..<columns] = map (h r) [0..<columns]" if "r < rows" for r
    using assms that by simp
  then have "grid rows columns (\<lambda>r c. map g (f r c)) = grid rows columns h"
    by (auto simp: grid_def intro!: arg_cong [where f = concat])
  then show ?thesis by (simp add: map_concat map_grid)
qed

lemma list_all_concat_grid:
  "(\<And>r c. r < rows \<Longrightarrow> c < columns \<Longrightarrow> list_all P (h r c)) \<Longrightarrow> list_all P (concat (grid rows columns h))"
  by (auto simp: list_all_iff set_grid)

lemma length_concat_triples: "list_all (\<lambda>t. length t = 6) ts \<Longrightarrow> length (concat ts) = 6 * length ts"
  by (induction ts) simp_all

lemma triples_concat: "list_all (\<lambda>t. length t = 6) ts \<Longrightarrow> 3 dvd length (concat ts)"
  unfolding length_concat_triples by simp

text \<open>The corner of a cell that is furthest along.\<close>

lemma cell_bound: "r < rows \<Longrightarrow> c < columns \<Longrightarrow> (r + 1) * (columns + 1) + c + 1 < (rows + 1) * (columns + 1)" for r c rows columns :: nat
  using grid_index_bound [of "r + 1" "rows + 1" "c + 1" "columns + 1"] by simp

lemma capsule_quad_indices:
  assumes "r < rows" and "c < columns" and "(rows + 1) * (columns + 1) \<le> 65536"
  shows "map unat (capsule_quad (columns + 1) r c) = capsule_triangles (columns + 1) r c"
proof -
  have b: "(r + 1) * (columns + 1) + c + 1 < 65536" using cell_bound [OF assms(1,2)] assms(3) by linarith
  then have small: "r * (columns + 1) + c + 1 < 65536" "r * (columns + 1) + c < 65536" "(r + 1) * (columns + 1) + c < 65536" by simp_all
  have up: "(word_of_nat n :: u16) + 1 = word_of_nat (n + 1)" for n by simp
  show ?thesis
    unfolding capsule_quad_def capsule_triangles_def Let_def up
    using b small by (simp add: unat_of_nat del: of_nat_add of_nat_mult of_nat_Suc)
qed

lemma terrain_quad_indices:
  assumes "r < rows" and "c < columns" and "(rows + 1) * (columns + 1) \<le> 4294967296"
  shows "map unat (terrain_quad (columns + 1) r c) = terrain_triangles (columns + 1) r c"
proof -
  have b: "(r + 1) * (columns + 1) + c + 1 < 4294967296" using cell_bound [OF assms(1,2)] assms(3) by linarith
  then have small: "r * (columns + 1) + c + 1 < 4294967296" "r * (columns + 1) + c < 4294967296" "(r + 1) * (columns + 1) + c < 4294967296" by simp_all
  have up: "(word_of_nat n :: u32) + 1 = word_of_nat (n + 1)" for n by simp
  have down: "(word_of_nat (r * (columns + 1) + c) :: u32) + word_of_nat (columns + 1) = word_of_nat ((r + 1) * (columns + 1) + c)"
    by (simp add: algebra_simps)
  show ?thesis
    unfolding terrain_quad_def terrain_triangles_def Let_def down up
    using b small by (simp add: unat_of_nat del: of_nat_add of_nat_mult of_nat_Suc)
qed

lemma capsule_sound:
  assumes "capsule_rings rings * (segments + 1) \<le> 65536"
  shows "mesh_sound (grid (capsule_rings rings) (segments + 1) (\<lambda>r s. fst (capsule_corner lm fm (ml_pi ml) radius halfHeight segments rings r s)))
    (concat (grid (capsule_rings rings - 1) segments (capsule_triangles (segments + 1))))
    (createCapsule lm fm ml radius halfHeight segments rings)"
proof -
  have rows: "capsule_rings rings - 1 + 1 = capsule_rings rings" by (simp add: capsule_rings_def)
  let ?corners = "grid (capsule_rings rings) (segments + 1) (capsule_corner lm fm (ml_pi ml) radius halfHeight segments rings)"
  have "mesh_sound (map fst ?corners) (concat (grid (capsule_rings rings - 1) segments (capsule_triangles (segments + 1))))
      (createCapsule lm fm ml radius halfHeight segments rings)"
    unfolding createCapsule_def
  proof (rule build_corners_sound)
    show "?corners \<noteq> []" using length_grid [of "capsule_rings rings" "segments + 1"] by (simp add: capsule_rings_def flip: length_greater_0_conv)
    show "map unat (concat (grid (capsule_rings rings - 1) segments (capsule_quad (segments + 1)))) =
        concat (grid (capsule_rings rings - 1) segments (capsule_triangles (segments + 1)))"
    proof (intro map_concat_grid capsule_quad_indices)
      show "(capsule_rings rings - 1 + 1) * (segments + 1) \<le> 65536" using assms by (simp add: capsule_rings_def)
    qed
    show "list_all (\<lambda>i. i < length ?corners) (concat (grid (capsule_rings rings - 1) segments (capsule_triangles (segments + 1))))"
    proof (rule list_all_concat_grid)
      fix r c assume "r < capsule_rings rings - 1" "c < segments"
      from cell_bound [OF this] show "list_all (\<lambda>i. i < length ?corners) (capsule_triangles (segments + 1) r c)"
        unfolding rows length_grid by (simp add: capsule_triangles_def Let_def)
    qed
    show "3 dvd length (concat (grid (capsule_rings rings - 1) segments (capsule_triangles (segments + 1))))"
      by (rule triples_concat) (auto simp: list_all_iff set_grid capsule_triangles_def Let_def)
  qed
  then show ?thesis by (simp add: map_grid)
qed

lemma terrain_sound:
  "mesh_sound (grid 513 513 (\<lambda>row column. vec (terrain_at column) (heightAt (terrain_at column) (terrain_at row)) (terrain_at row)))
     (concat (grid 512 512 (terrain_triangles 513))) (createTerrain ml)"
proof -
  have columns: "terrain_resolution = 512" by (simp add: terrain_resolution_def kMeshResolution_def)
  have indices: "map unat (terrain_quad 513 r c) = terrain_triangles 513 r c" if "r < 512" "c < 512" for r c
    using terrain_quad_indices [OF that] by simp
  have inside: "list_all (\<lambda>i. i < 513 * 513) (terrain_triangles 513 r c)" if "r < 512" "c < 512" for r c
    using cell_bound [OF that] by (simp add: terrain_triangles_def Let_def)
  have "grid 513 513 terrain_corner \<noteq> []" using length_grid [of 513 513 terrain_corner] by (simp flip: length_greater_0_conv)
  moreover have "map unat (concat (grid 512 512 (terrain_quad 513))) = concat (grid 512 512 (terrain_triangles 513))"
    by (rule map_concat_grid) (rule indices)
  moreover have "list_all (\<lambda>i. i < length (grid 513 513 terrain_corner)) (concat (grid 512 512 (terrain_triangles 513)))"
    unfolding length_grid by (rule list_all_concat_grid) (rule inside)
  moreover have "3 dvd length (concat (grid 512 512 (terrain_triangles 513)))"
    by (rule triples_concat) (auto simp: list_all_iff set_grid terrain_triangles_def Let_def)
  ultimately have "mesh_sound (map fst (grid 513 513 terrain_corner)) (concat (grid 512 512 (terrain_triangles 513))) (createTerrain ml)"
    unfolding createTerrain_def Let_def columns by (simp add: build_corners_sound)
  moreover have "fst (terrain_corner row column) = vec (terrain_at column) (heightAt (terrain_at column) (terrain_at row)) (terrain_at row)" for row column
    by (simp add: terrain_corner_def Let_def split: prod.split)
  ultimately show ?thesis by (simp add: map_grid)
qed

section \<open>The points meant\<close>

text \<open>The point of a sphere at a latitude and a longitude, and a point moved up.\<close>

definition spherical :: "libm \<Rightarrow> f32 \<Rightarrow> f32 \<Rightarrow> f32 \<Rightarrow> Vec3" where
  "spherical lm radius latitude longitude =
     vec (fmul (cosf lm longitude) (fmul (cosf lm latitude) radius)) (fmul (sinf lm latitude) radius)
       (fmul (sinf lm longitude) (fmul (cosf lm latitude) radius))"

definition moved_up :: "f32 \<Rightarrow> Vec3 \<Rightarrow> Vec3" where
  "moved_up distance v = v\<lparr>vec_y := fadd (vec_y v) distance\<rparr>"

text \<open>Ring \<open>r\<close>, segment \<open>s\<close> of a capsule: on the upper half sphere, moved up by half the height, the latitude
  falls from a quarter of a turn to 0 over the rings; on the lower, moved down, from 0 to a quarter of a turn below. The longitude
  starts at a quarter of a turn and goes around once.\<close>

definition capsule_point :: "libm \<Rightarrow> f64 \<Rightarrow> f32 \<Rightarrow> f32 \<Rightarrow> nat \<Rightarrow> nat \<Rightarrow> nat \<Rightarrow> nat \<Rightarrow> Vec3" where
  "capsule_point lm pi radius halfHeight segments rings r s =
     (let longitude = f_of_d (dadd (d_of_f (f_of_d (dmul (d_ratio 5 10) pi)))
            (ddiv (dmul (dmul (d_of_int 2) pi) (d_of_f (f_of_int (int s)))) (d_of_f (f_of_int (int segments)))));
          part = (\<lambda>n. fdiv (f_of_int (int n)) (f_of_int (int rings)))
      in if r \<le> rings
         then moved_up halfHeight (spherical lm radius
           (f_of_d (dmul (dmul pi (d_ratio 5 10)) (d_of_f (fsub (f_of_int 1) (part r))))) longitude)
         else moved_up (fneg halfHeight) (spherical lm radius
           (f_of_d (dmul (dneg (dmul pi (d_ratio 5 10))) (d_of_f (part (r - rings - 1))))) longitude))"

lemma capsule_corner_point:
  "fst (capsule_corner lm fm pi radius halfHeight segments rings r s) = capsule_point lm pi radius halfHeight segments rings r s"
  by (simp add: capsule_corner_def capsule_point_def capsule_latitude_def capsule_longitude_def spherical_def moved_up_def vec_def Let_def)

text \<open>A corner of a cube by its signs, and what the corners of its six faces must be: on the face of the given
  outward normal, a square, and counterclockwise seen from outside.\<close>

definition signed_point :: "f32 \<Rightarrow> int \<times> int \<times> int \<Rightarrow> Vec3" where
  "signed_point h p = (case p of (x, y, z) \<Rightarrow>
     (let coordinate = (\<lambda>i. if i < 0 then fneg h else h) in vec (coordinate x) (coordinate y) (coordinate z)))"

definition cross :: "int \<times> int \<times> int \<Rightarrow> int \<times> int \<times> int \<Rightarrow> int \<times> int \<times> int" where
  "cross a b = (case a of (x, y, z) \<Rightarrow> case b of (u, v, w) \<Rightarrow> (y * w - z * v, z * u - x * w, x * v - y * u))"

definition to_from :: "int \<times> int \<times> int \<Rightarrow> int \<times> int \<times> int \<Rightarrow> int \<times> int \<times> int" where
  "to_from a b = (case a of (x, y, z) \<Rightarrow> case b of (u, v, w) \<Rightarrow> (x - u, y - v, z - w))"

fun outward_face :: "int \<times> int \<times> int \<Rightarrow> (int \<times> int \<times> int) list \<Rightarrow> bool" where
  "outward_face (n, m, l) [a, b, c, d] \<longleftrightarrow>
     list_all (\<lambda>(x, y, z). x \<in> {- 1, 1} \<and> y \<in> {- 1, 1} \<and> z \<in> {- 1, 1} \<and> x * n + y * m + z * l = 1) [a, b, c, d] \<and>
     cross (to_from b a) (to_from c b) = (4 * n, 4 * m, 4 * l) \<and> to_from d a = to_from c b"
| "outward_face _ _ \<longleftrightarrow> False"

definition cube_faces :: "(int \<times> int \<times> int) list list \<Rightarrow> bool" where
  "cube_faces faces \<longleftrightarrow>
     list_all2 outward_face [(0, 0, 1), (0, 0, - 1), (1, 0, 0), (- 1, 0, 0), (0, 1, 0), (0, - 1, 0)] faces"

definition cube_signs :: "(int \<times> int \<times> int) list list" where
  "cube_signs =
     [[(- 1, - 1, 1), (1, - 1, 1), (1, 1, 1), (- 1, 1, 1)],
      [(1, - 1, - 1), (- 1, - 1, - 1), (- 1, 1, - 1), (1, 1, - 1)],
      [(1, - 1, 1), (1, - 1, - 1), (1, 1, - 1), (1, 1, 1)],
      [(- 1, - 1, - 1), (- 1, - 1, 1), (- 1, 1, 1), (- 1, 1, - 1)],
      [(- 1, 1, 1), (1, 1, 1), (1, 1, - 1), (- 1, 1, - 1)],
      [(- 1, - 1, - 1), (1, - 1, - 1), (1, - 1, 1), (- 1, - 1, 1)]]"

lemma cube_signs_faces: "cube_faces cube_signs"
  by (simp add: cube_faces_def cube_signs_def cross_def to_from_def)

lemma cube_sound:
  "mesh_sound (map (signed_point (fmul edge kHalf)) (concat cube_signs)) (concat (map face_triangles [0..<6])) (createCube ml edge)"
proof -
  let ?h = "fmul edge kHalf"
  have "mesh_sound (map fst (grid 6 4 (\<lambda>face corner. (faceCorners ?h ! face ! corner, faceNormals ! face, cornerUvs ! corner))))
      (concat (map face_triangles [0..<6])) (createCube ml edge)"
    unfolding createCube_def Let_def
  proof (rule build_corners_sound)
    show "map unat (concat (map face_indices [0..<6])) = concat (map face_triangles [0..<6])" by code_simp
    show "3 dvd length (concat (map face_triangles [0..<6]))"
      by (rule triples_concat) (simp add: face_triangles_def list_all_iff)
  qed (simp_all add: grid_def upt_rec face_triangles_def)
  moreover have "map fst (grid 6 4 (\<lambda>face corner. (faceCorners ?h ! face ! corner, faceNormals ! face, cornerUvs ! corner))) =
      map (signed_point ?h) (concat cube_signs)"
    by (simp add: map_grid grid_def upt_rec faceCorners_def cube_signs_def signed_point_def Let_def)
  ultimately show ?thesis by simp
qed

lemma plane_sound:
  "mesh_sound (let h = fmul edge kHalf in [vec (fneg h) (f_of_int 0) (fneg h), vec (fneg h) (f_of_int 0) h,
     vec h (f_of_int 0) h, vec h (f_of_int 0) (fneg h)]) [0, 1, 2, 2, 3, 0] (createPlane ml edge)"
proof -
  have "3 dvd length [0, 1, 2, 2, 3, 0 :: nat]" by (rule dvdI [of _ _ 2]) simp
  then show ?thesis unfolding createPlane_def Let_def by (intro build_mesh_sound) simp_all
qed

text \<open>C39. The meshes are what they are meant to be. Every shape builds, its vertices are, in order, the points meant, and
  its index buffer holds exactly the triangles meant: no index is changed by being cut to the 16 bits of the buffer
  (32 for the terrain), and every one is the number of a vertex. A capsule has the points of two half spheres by
  latitude and longitude, and two triangles for each cell of that grid; a sphere is one of height 0. (This needs at most
  65536 vertices, which the sizes in use are far below.) A cube has four corners for each of its six faces,
  counterclockwise around the outward normal, and two triangles for each face; the plane has its four corners and two triangles.
  The terrain drawn has in each of its 513 by 513 grid points the height of the
  function that characters stand on, and two triangles for each cell.\<close>

theorem meshes_sound:
  assumes "capsule_rings rings * (segments + 1) \<le> 65536"
  shows "mesh_sound (grid (2 * rings + 2) (segments + 1) (capsule_point lm (ml_pi ml) radius halfHeight segments rings))
      (concat (grid (2 * rings + 1) segments (capsule_triangles (segments + 1))))
      (createCapsule lm fm ml radius halfHeight segments rings) \<and>
    mesh_sound (grid (2 * rings + 2) (segments + 1) (capsule_point lm (ml_pi ml) radius (f_of_int 0) segments rings))
      (concat (grid (2 * rings + 1) segments (capsule_triangles (segments + 1))))
      (createSphere lm fm ml radius segments rings) \<and>
    (\<exists>faces. cube_faces faces \<and> mesh_sound (map (signed_point (fmul edge kHalf)) (concat faces))
      (concat (map face_triangles [0..<6])) (createCube ml edge)) \<and>
    mesh_sound (let h = fmul edge kHalf in [vec (fneg h) (f_of_int 0) (fneg h), vec (fneg h) (f_of_int 0) h,
        vec h (f_of_int 0) h, vec h (f_of_int 0) (fneg h)]) [0, 1, 2, 2, 3, 0] (createPlane ml edge) \<and>
    mesh_sound (grid 513 513 (\<lambda>row column.
        let x = fadd (fneg kHalfWorld) (fmul (f_of_int (int column)) kStep);
            z = fadd (fneg kHalfWorld) (fmul (f_of_int (int row)) kStep)
        in vec x (heightAt x z) z))
      (concat (grid 512 512 (terrain_triangles 513))) (createTerrain ml)"
proof -
  have "capsule_rings rings = 2 * rings + 2" "capsule_rings rings - 1 = 2 * rings + 1"
    by (simp_all add: capsule_rings_def)
  then show ?thesis
    using capsule_sound [OF assms, of lm fm ml radius halfHeight] capsule_sound [OF assms, of lm fm ml radius "f_of_int 0"]
      terrain_sound [of ml, unfolded terrain_at_def] cube_signs_faces cube_sound [of edge ml] plane_sound [of edge ml]
    unfolding capsule_corner_point createSphere_def Let_def by (metis (no_types, lifting))
qed

theorem meshes_sound_witness:
  "\<forall>lm fm ml radius. \<exists>m. createSphere lm fm ml radius 24 12 = Some m \<and> length (vertexBuffer m) = 650 \<and> length (indexBuffer m) = 3600 \<and>
     list_all (\<lambda>i. unat i < 650) (indexBuffer m)"
proof (intro allI)
  fix lm fm ml radius
  have "capsule_rings 12 * (24 + 1) \<le> 65536" by (simp add: capsule_rings_def)
  from mesh_soundD [OF meshes_sound [OF this, THEN conjunct2, THEN conjunct1, of lm ml radius fm]]
  obtain m where m: "createSphere lm fm ml radius 24 12 = Some m" "length (vertexBuffer m) = (2 * 12 + 2) * (24 + 1)"
      "length (indexBuffer m) = length (concat (grid (2 * 12 + 1) 24 (capsule_triangles (24 + 1))))"
      "list_all (\<lambda>i. unat i < (2 * 12 + 2) * (24 + 1)) (indexBuffer m)"
    unfolding length_grid by blast
  have "length (concat (grid (2 * 12 + 1) 24 (capsule_triangles (24 + 1)))) = 6 * ((2 * 12 + 1) * 24)"
    by (subst length_concat_triples) (auto simp: list_all_iff set_grid capsule_triangles_def Let_def)
  with m show "\<exists>m. createSphere lm fm ml radius 24 12 = Some m \<and> length (vertexBuffer m) = 650 \<and> length (indexBuffer m) = 3600 \<and>
      list_all (\<lambda>i. unat i < 650) (indexBuffer m)"
    by (intro exI [of _ m]) simp
qed

end
