(* ===== verification/Tools.thy ===== *)
theory Tools
  imports AdminConsole
begin

text \<open>
  \<^verbatim>\<open>server/tools/src/authcli.cpp\<close> and \<^verbatim>\<open>worldcli.cpp\<close>: the test clients. Each is one function of what the operating system
  answers: the environment, whether sockets start, the \<open>Network\<close> of each connection attempt, the readings of the clock, the arguments. A run
  ends with an exit code, what was printed to standard output, and the connections it used; standard error is
  left out. The property says exactly which datagrams \<^verbatim>\<open>worldcli\<close> sends, a hello and the consecutively numbered inputs of its script, and
  that it reports exactly the snapshots that arrived.
\<close>

section \<open>A run of a tool\<close>

datatype tool_line =
    Printed string
  | Moving f64 EntityState
  | Everyone "(u32 \<times> bool \<times> Vec3) list" u32 u32 Vec3 f32 f64
  | Totals int int int u32 u32 int

record ToolRun =
  tool_exit :: int
  tool_output :: "tool_line list"
  tool_auth :: "MessageStream option"
  tool_world :: "MessageStream option"
  tool_udp :: "UdpSocket option"

definition tool_run :: ToolRun where
  "tool_run = \<lparr>tool_exit = 0, tool_output = [], tool_auth = None, tool_world = None, tool_udp = None\<rparr>"

definition tool_exits :: "int \<Rightarrow> ToolRun \<Rightarrow> ToolRun" where
  "tool_exits code r = r\<lparr>tool_exit := code\<rparr>"

definition tool_prints :: "tool_line list \<Rightarrow> ToolRun \<Rightarrow> ToolRun" where
  "tool_prints ls r = r\<lparr>tool_output := tool_output r @ ls\<rparr>"

text \<open>\<open>awaitMessage\<close>, in slices of 50 ms; unlike the console's loop it looks once more at the end.\<close>

fun await_message :: "nat \<Rightarrow> MessageStream \<Rightarrow> Message option \<times> MessageStream" where
  "await_message 0 stream = next_message stream"
| "await_message (Suc n) stream = (case next_message stream of
      (Some message, stream) \<Rightarrow> (Some message, stream)
    | (None, stream) \<Rightarrow> (case pump stream of
        (False, stream) \<Rightarrow> (None, stream)
      | (True, stream) \<Rightarrow> await_message n stream))"

definition tool_auth_socket :: "environment \<Rightarrow> Network \<Rightarrow> TcpSocket option" where
  "tool_auth_socket env net =
     connectTo net (envString env ''AUTH_HOST'' ''127.0.0.1'') (envPort env ''AUTH_SERVER_PORT'' 7001)"

section \<open>Registering and logging in\<close>

definition read_authcli_login :: "(ByteReader, string \<times> string \<times> u16 \<times> u64) state" where
  "read_authcli_login = do {
     _ \<leftarrow> reader_u8;
     token \<leftarrow> reader_string;
     host \<leftarrow> reader_string;
     port \<leftarrow> reader_u16;
     accountId \<leftarrow> reader_u64;
     State_Monad.return (token, host, port, accountId)
   }"

definition authcli_answer :: "string \<Rightarrow> Message \<Rightarrow> ToolRun \<Rightarrow> ToolRun" where
  "authcli_answer command message r =
     (let result = reply_result message; success = (if result = AuthSuccess then 0 else 1) in
      if command = ''register'' then tool_exits success (tool_prints [Printed (''register: '' @ toString result)] r)
      else (case read_all read_authcli_login (msg_payload message) of (good, token, host, port, accountId) \<Rightarrow>
        if \<not> good then tool_exits 1 r
        else tool_exits success (tool_prints (Printed (''login: '' @ toString result) #
          (if result = AuthSuccess
           then [Printed (''  account id : '' @ to_string (unat accountId)), Printed (''  token      : '' @ c_str token),
             Printed (''  world      : '' @ c_str host @ '':'' @ to_string (unat port))] else [])) r)))"

definition authcli :: "environment \<Rightarrow> bool \<Rightarrow> Network \<Rightarrow> string list \<Rightarrow> ToolRun" where
  "authcli env started net args = (case args of
      [command, username, password] \<Rightarrow>
        if command \<noteq> ''register'' \<and> command \<noteq> ''login'' then tool_exits 2 tool_run
        else if \<not> started then tool_exits 1 tool_run
        else (case tool_auth_socket env net of
            None \<Rightarrow> tool_exits 1 tool_run
          | Some socket \<Rightarrow>
              (let ty = (if command = ''login'' then AuthMessage_code LoginRequest else AuthMessage_code RegisterRequest);
                   payload = writes [writer_u32 kProtocolVersion, writer_string username, writer_string password] []
               in case await_message (10000 div 50) (send ty payload (message_stream socket)) of
                 (None, stream) \<Rightarrow> tool_exits 1 (tool_run\<lparr>tool_auth := Some stream\<rparr>)
               | (Some message, stream) \<Rightarrow> authcli_answer command message (tool_run\<lparr>tool_auth := Some stream\<rparr>)))
    | _ \<Rightarrow> tool_exits 2 tool_run)"

section \<open>Listening to the world\<close>

record ToolView =
  tv_udp :: UdpSocket
  tv_inputSequence :: u32
  tv_received :: int
  tv_lastSequence :: u32
  tv_outOfOrder :: int
  tv_firstTick :: u32
  tv_lastTick :: u32
  tv_output :: "tool_line list"

definition tool_view :: "UdpSocket \<Rightarrow> ToolView" where
  "tool_view udp = \<lparr>tv_udp = udp, tv_inputSequence = 1, tv_received = 0, tv_lastSequence = 0, tv_outOfOrder = 0,
     tv_firstTick = 0, tv_lastTick = 0, tv_output = []\<rparr>"

definition tool_input :: "u64 \<Rightarrow> f32 \<Rightarrow> f32 \<Rightarrow> f32 \<Rightarrow> bool \<Rightarrow> u32 \<Rightarrow> bytes" where
  "tool_input playerId forward right yaw jump sequence = writes
     [writer_u64 playerId, writer_u32 sequence, writer_f32 forward, writer_f32 right, writer_f32 yaw,
      writer_u8 (if jump then kInputJump else 0)] (writeUdpHeader [] (WorldMessage_code ClientInput) sequence)"

definition tool_send :: "Address \<Rightarrow> u64 \<Rightarrow> f32 \<Rightarrow> bool \<Rightarrow> ToolView \<Rightarrow> ToolView" where
  "tool_send udpTarget playerId forward jump v =
     v\<lparr>tv_udp := snd (sendTo (tool_input playerId forward (f_of_int 0) (f_of_int 0) jump (tv_inputSequence v)) udpTarget (tv_udp v)),
       tv_inputSequence := tv_inputSequence v + 1\<rparr>"

text \<open>The movement script: walk, or jump once a second after the start.\<close>

definition tool_act :: "string \<Rightarrow> Address \<Rightarrow> u64 \<Rightarrow> f64 \<Rightarrow> ToolView \<Rightarrow> ToolView" where
  "tool_act action udpTarget playerId elapsed v =
     (if action = ''move'' then tool_send udpTarget playerId (f_of_int 1) False v
      else if action = ''jump''
      then tool_send udpTarget playerId (f_of_int 0) (dlt (d_of_int 1) elapsed \<and> dlt elapsed (d_ratio 11 10)) v
      else v)"

text \<open>What is printed of a snapshot; \<open>atan2f\<close> is the C library's.\<close>

definition tool_sample :: "(f32 \<Rightarrow> f32 \<Rightarrow> f32) \<Rightarrow> string \<Rightarrow> u32 \<Rightarrow> f64 \<Rightarrow> int \<Rightarrow> Snapshot \<Rightarrow> tool_line list" where
  "tool_sample atan2f action ownEntityId elapsed counted snapshot =
     (if counted mod 15 = 0 \<and> action \<noteq> []
      then map (Moving elapsed) (filter (\<lambda>p. ent_id p = ownEntityId) (snap_entities snapshot))
      else if counted mod 30 = 0 \<and> action = [] \<and> snap_entities snapshot \<noteq> []
      then (let e = hd (snap_entities snapshot) in
        [Everyone (map (\<lambda>p. (ent_id p, ent_type p = EntityType_code PlayerEntity, ent_position p)) (snap_entities snapshot))
           (snap_tick snapshot) (ent_id e) (ent_position e) (vec_x (ent_velocity e))
           (dmul (d_of_int 2) (d_of_f (atan2f (quat_y (ent_rotation e)) (quat_w (ent_rotation e)))))])
      else [])"

definition tool_snapshot :: "(f32 \<Rightarrow> f32 \<Rightarrow> f32) \<Rightarrow> string \<Rightarrow> u32 \<Rightarrow> f64 \<Rightarrow> u32 \<Rightarrow> Snapshot \<Rightarrow> ToolView \<Rightarrow> ToolView" where
  "tool_snapshot atan2f action ownEntityId elapsed sequence snapshot v =
     v\<lparr>tv_outOfOrder := (if tv_received v > 0 \<and> sequence < tv_lastSequence v then tv_outOfOrder v + 1 else tv_outOfOrder v),
       tv_lastSequence := sequence,
       tv_firstTick := (if tv_received v = 0 then snap_tick snapshot else tv_firstTick v),
       tv_lastTick := snap_tick snapshot,
       tv_output := tv_output v @ tool_sample atan2f action ownEntityId elapsed (tv_received v) snapshot,
       tv_received := tv_received v + 1\<rparr>"

definition tool_datagram :: "(f32 \<Rightarrow> f32 \<Rightarrow> f32) \<Rightarrow> string \<Rightarrow> u32 \<Rightarrow> f64 \<Rightarrow> bytes \<Rightarrow> ToolView \<Rightarrow> ToolView" where
  "tool_datagram atan2f action ownEntityId elapsed data v =
     (case readUdpHeader data (length data) \<lparr>hdr_type = 0, hdr_sequence = 0\<rparr> 0 of (ok, header, bodyOffset) \<Rightarrow>
      if \<not> ok then v
      else if WorldMessage_of (hdr_type header) \<noteq> SnapshotMessage then v
      else (case decodeSnapshot (drop bodyOffset data) (length data - bodyOffset)
          \<lparr>snap_tick = 0, snap_serverTimeMs = 0, snap_timeOfDay = 0, snap_entities = []\<rparr> of (ok, snapshot) \<Rightarrow>
        if \<not> ok then v else tool_snapshot atan2f action ownEntityId elapsed (hdr_sequence header) snapshot v))"

definition tool_turn :: "(f32 \<Rightarrow> f32 \<Rightarrow> f32) \<Rightarrow> string \<Rightarrow> Address \<Rightarrow> u64 \<Rightarrow> u32 \<Rightarrow> int \<Rightarrow> ToolView \<Rightarrow> ToolView" where
  "tool_turn atan2f action udpTarget playerId ownEntityId now v =
     (let elapsed = ddiv (d_of_int now) (d_of_int 1000000000);
          v = tool_act action udpTarget playerId elapsed v
      in case udp_drain 2048 (tv_udp v) of (datagrams, udp) \<Rightarrow>
        fold (\<lambda>(data, source). tool_datagram atan2f action ownEntityId elapsed data) datagrams (v\<lparr>tv_udp := udp\<rparr>))"

text \<open>The clock is read twice a turn, before it and after the wait, in nanoseconds since the start. A run whose readings end before
  the deadline was cut off there.\<close>

fun tool_turns :: "(f32 \<Rightarrow> f32 \<Rightarrow> f32) \<Rightarrow> string \<Rightarrow> Address \<Rightarrow> u64 \<Rightarrow> u32 \<Rightarrow> int \<Rightarrow> (int \<times> int) list \<Rightarrow> ToolView \<Rightarrow> ToolView" where
  "tool_turns atan2f action udpTarget playerId ownEntityId seconds [] v = v"
| "tool_turns atan2f action udpTarget playerId ownEntityId seconds ((before, now) # clock) v =
     (if before < seconds * 1000000000
      then tool_turns atan2f action udpTarget playerId ownEntityId seconds clock
        (tool_turn atan2f action udpTarget playerId ownEntityId now v)
      else v)"

section \<open>The whole run\<close>

definition read_worldcli_login :: "(ByteReader, AuthResult \<times> string \<times> string \<times> u16) state" where
  "read_worldcli_login = do {
     result \<leftarrow> reader_u8;
     token \<leftarrow> reader_string;
     host \<leftarrow> reader_string;
     port \<leftarrow> reader_u16;
     State_Monad.return (AuthResult_of result, token, host, port)
   }"

text \<open>What the operating system gives a run: the network at the two connection attempts, the answer to the last name
  resolution and the UDP socket.\<close>

record ToolWorld =
  os_started :: bool
  os_auth :: Network
  os_world :: Network
  os_open :: "UdpSocket option"
  os_target :: "string \<Rightarrow> sockaddr_in option"
  os_clock :: "(int \<times> int) list"
  os_atan2f :: "f32 \<Rightarrow> f32 \<Rightarrow> f32"

definition worldcli_logout :: "int \<Rightarrow> ToolView \<Rightarrow> MessageStream \<Rightarrow> ToolRun \<Rightarrow> ToolRun" where
  "worldcli_logout seconds v world r =
     (let r = (tool_prints (tv_output v @ [Totals (tv_received v) seconds
             (tv_received v div (if seconds > 0 then seconds else 1)) (tv_firstTick v) (tv_lastTick v) (tv_outOfOrder v)]) r)
           \<lparr>tool_udp := Some (tv_udp v)\<rparr>
      in case await_message (3000 div 50) (send (WorldMessage_code LogoutRequest) [] world) of (answer, world) \<Rightarrow>
        tool_exits (if tv_received v > 0 then 0 else 1)
          (tool_prints (if answer = None then [] else [Printed ''logged out'']) (r\<lparr>tool_world := Some world\<rparr>)))"

definition worldcli_listen :: "ToolWorld \<Rightarrow> string \<Rightarrow> int \<Rightarrow> string \<Rightarrow> string \<Rightarrow> Message \<Rightarrow> MessageStream \<Rightarrow> ToolRun \<Rightarrow> ToolRun" where
  "worldcli_listen os action seconds token host message world r =
     (let r = r\<lparr>tool_world := Some world\<rparr> in
      case reply_of read_join_response message of (joinResult, playerId, udpPort, worldUsername, ownEntityId) \<Rightarrow>
        if joinResult \<noteq> JoinSuccess then tool_exits 1 r
        else (let r = tool_prints [Printed (''joined as player '' @ to_string (unat playerId) @ '' ('' @ quoted (c_str worldUsername) @
               ''), entity '' @ to_string (unat ownEntityId) @ '', udp port '' @ to_string (unat udpPort))] r in
          case os_open os of
            None \<Rightarrow> tool_exits 1 r
          | Some udp \<Rightarrow> (case resolve (os_target os host) udpPort of
              None \<Rightarrow> tool_exits 1 (r\<lparr>tool_udp := Some udp\<rparr>)
            | Some udpTarget \<Rightarrow>
                (let udp = snd (sendTo (hello_packet playerId token) udpTarget udp);
                     v = tool_turns (os_atan2f os) action udpTarget playerId ownEntityId seconds (os_clock os) (tool_view udp)
                 in worldcli_logout seconds v world
                      (tool_prints [Printed ''sent UDP hello, listening for snapshots...'', Printed []] r)))))"

definition worldcli_join :: "ToolWorld \<Rightarrow> string \<Rightarrow> int \<Rightarrow> Message \<Rightarrow> ToolRun \<Rightarrow> ToolRun" where
  "worldcli_join os action seconds message r =
     (case reply_of read_worldcli_login message of (authResult, token, host, port) \<Rightarrow>
        if authResult \<noteq> AuthSuccess then tool_exits 1 r
        else (let r = tool_prints [Printed (''login ok, world at '' @ c_str host @ '':'' @ to_string (unat port))] r in
          case connectTo (os_world os) host port of
            None \<Rightarrow> tool_exits 1 r
          | Some socket \<Rightarrow>
              (let payload = writes [writer_u32 kProtocolVersion, writer_string token] [] in
               case await_message (10000 div 50) (send (WorldMessage_code JoinRequest) payload (message_stream socket)) of
                 (None, world) \<Rightarrow> tool_exits 1 (r\<lparr>tool_world := Some world\<rparr>)
               | (Some message, world) \<Rightarrow> worldcli_listen os action seconds token host message world r)))"

definition worldcli :: "environment \<Rightarrow> ToolWorld \<Rightarrow> string list \<Rightarrow> ToolRun" where
  "worldcli env os args =
     (if length args < 2 then tool_exits 2 tool_run
      else
        (let username = args ! 0; password = args ! 1;
             seconds = (if length args > 2 then sint (atoi (args ! 2)) else 3);
             action = (if length args > 3 then args ! 3 else [])
         in if \<not> os_started os then tool_exits 1 tool_run
            else (case tool_auth_socket env (os_auth os) of
                None \<Rightarrow> tool_exits 1 tool_run
              | Some socket \<Rightarrow>
                  (let payload = writes [writer_u32 kProtocolVersion, writer_string username, writer_string password] [] in
                   case await_message (10000 div 50) (send (AuthMessage_code LoginRequest) payload (message_stream socket)) of
                     (None, auth) \<Rightarrow> tool_exits 1 (tool_run\<lparr>tool_auth := Some auth\<rparr>)
                   | (Some message, auth) \<Rightarrow> worldcli_join os action seconds message (tool_run\<lparr>tool_auth := Some auth\<rparr>)))))"

section \<open>What a run sends and reports\<close>

text \<open>The snapshot in a datagram and its sequence number, if it is one.\<close>

definition snapshot_in :: "bytes \<Rightarrow> (u32 \<times> Snapshot) option" where
  "snapshot_in data = (case readUdpHeader data (length data) \<lparr>hdr_type = 0, hdr_sequence = 0\<rparr> 0 of (ok, header, bodyOffset) \<Rightarrow>
     if ok \<and> WorldMessage_of (hdr_type header) = SnapshotMessage
     then (case decodeSnapshot (drop bodyOffset data) (length data - bodyOffset)
         \<lparr>snap_tick = 0, snap_serverTimeMs = 0, snap_timeOfDay = 0, snap_entities = []\<rparr> of (ok, snapshot) \<Rightarrow>
       if ok then Some (hdr_sequence header, snapshot) else None)
     else None)"

text \<open>The snapshots among what the kernel handed over, in order.\<close>

definition snapshots_in :: "bytes list \<Rightarrow> (u32 \<times> Snapshot) list" where
  "snapshots_in datagrams = concat (map (\<lambda>data. case snapshot_in data of None \<Rightarrow> [] | Some x \<Rightarrow> [x]) datagrams)"

definition kernel_gave :: "(bytes \<times> sockaddr_in) syscall list \<Rightarrow> bytes list" where
  "kernel_gave answers = concat (map (\<lambda>answer. case answer of Ret (data, source) \<Rightarrow> [take 2048 data] | Err e \<Rightarrow> []) answers)"

text \<open>How often a number is followed by a smaller one.\<close>

fun descents :: "u32 list \<Rightarrow> nat" where
  "descents (a # b # rest) = (if b < a then 1 else 0) + descents (b # rest)"
| "descents _ = 0"

definition measured :: "(u32 \<times> Snapshot) list \<Rightarrow> ToolView \<Rightarrow> bool" where
  "measured h v \<longleftrightarrow> tv_received v = int (length h) \<and> tv_outOfOrder v = int (descents (map fst h)) \<and>
     tv_lastSequence v = (if h = [] then 0 else fst (last h)) \<and>
     tv_firstTick v = (if h = [] then 0 else snap_tick (snd (hd h))) \<and> tv_lastTick v = (if h = [] then 0 else snap_tick (snd (last h)))"

text \<open>Inputs under consecutive numbers, as a script acts.\<close>

fun inputs_of :: "u64 \<Rightarrow> u32 \<Rightarrow> (f32 \<times> bool) list \<Rightarrow> bytes list" where
  "inputs_of playerId k [] = []"
| "inputs_of playerId k ((forward, jump) # acts) =
     tool_input playerId forward (f_of_int 0) (f_of_int 0) jump k # inputs_of playerId (k + 1) acts"

definition script_act :: "string \<Rightarrow> f64 \<Rightarrow> (f32 \<times> bool) list" where
  "script_act action elapsed =
     (if action = ''move'' then [(f_of_int 1, False)]
      else if action = ''jump'' then [(f_of_int 0, dlt (d_of_int 1) elapsed \<and> dlt elapsed (d_ratio 11 10))]
      else [])"

text \<open>What a script does over the turns that begin before the deadline.\<close>

definition script_acts :: "string \<Rightarrow> int \<Rightarrow> (int \<times> int) list \<Rightarrow> (f32 \<times> bool) list" where
  "script_acts action seconds clock =
     concat (map (\<lambda>(before, now). script_act action (ddiv (d_of_int now) (d_of_int 1000000000)))
       (takeWhile (\<lambda>(before, now). before < seconds * 1000000000) clock))"

text \<open>Of the datagrams offered to the kernel one after another, those it took, by its answers.\<close>

fun accepted :: "'a list \<Rightarrow> unit syscall list \<Rightarrow> 'a list" where
  "accepted (d # ds) (Ret _ # answers) = d # accepted ds answers"
| "accepted (d # ds) (Err e # answers) = accepted ds answers"
| "accepted _ _ = []"

lemma accepted_append: "accepted (ds @ ds') answers = accepted ds answers @ accepted ds' (drop (length ds) answers)"
proof (induction ds arbitrary: answers)
  case Nil
  show ?case by simp
next
  case (Cons d ds)
  show ?case
  proof (cases answers)
    case Nil
    have "accepted l [] = []" for l :: "'a list" by (cases l) simp_all
    with Nil show ?thesis by simp
  next
    case answer: (Cons a as)
    with Cons.IH [of as] show ?thesis by (cases a) simp_all
  qed
qed

lemma sendTo_accepted:
  "udp_sent (snd (sendTo data to u)) = udp_sent u @ accepted [(toSockaddr to, data)] (udp_sends u)"
  "udp_sends (snd (sendTo data to u)) = drop 1 (udp_sends u)"
  "udp_recvs (snd (sendTo data to u)) = udp_recvs u"
  by (auto simp: sendTo_def split: list.split syscall.split)

lemma length_inputs_of [simp]: "length (inputs_of playerId k acts) = length acts"
  by (induction acts arbitrary: k) auto

lemma descents_snoc: "descents (l @ [b]) = descents l + (if l \<noteq> [] \<and> b < last l then 1 else 0)"
  by (induction l rule: descents.induct) simp_all

lemma snapshots_in_append [simp]: "snapshots_in (c @ c') = snapshots_in c @ snapshots_in c'"
  by (simp add: snapshots_in_def)

lemma kernel_gave_append [simp]: "kernel_gave (c @ c') = kernel_gave c @ kernel_gave c'"
  by (simp add: kernel_gave_def)

lemma inputs_of_append: "inputs_of playerId k (acts @ acts') = inputs_of playerId k acts @ inputs_of playerId (k + word_of_nat (length acts)) acts'"
  by (induction acts arbitrary: k) (auto simp: algebra_simps)

lemma tool_datagram_eq:
  "tool_datagram atan2f action own elapsed data v =
     (case snapshot_in data of None \<Rightarrow> v | Some (sequence, snapshot) \<Rightarrow> tool_snapshot atan2f action own elapsed sequence snapshot v)"
  by (simp add: tool_datagram_def snapshot_in_def split: prod.split)

lemma measured_snapshot: "measured h v \<Longrightarrow> measured (h @ [(sequence, snapshot)]) (tool_snapshot atan2f action own elapsed sequence snapshot v)"
  by (auto simp: measured_def tool_snapshot_def descents_snoc last_map)

text \<open>A step of the loop on the socket and the counts: what it takes from the socket is what it counts.\<close>

definition tallies :: "ToolView \<Rightarrow> ToolView \<Rightarrow> bool" where
  "tallies v v' \<longleftrightarrow> (\<exists>c. udp_recvs (tv_udp v) = c @ udp_recvs (tv_udp v') \<and>
     (\<forall>h. measured h v \<longrightarrow> measured (h @ snapshots_in (kernel_gave c)) v'))"

lemma tallies_trans: "tallies v v' \<Longrightarrow> tallies v' v'' \<Longrightarrow> tallies v v''"
  unfolding tallies_def by (metis append_assoc kernel_gave_append snapshots_in_append)

lemma fold_datagrams:
  assumes "measured h v"
  shows "measured (h @ snapshots_in (map fst datagrams)) (fold (\<lambda>(data, source). tool_datagram atan2f action own elapsed data) datagrams v)"
  using assms
proof (induction datagrams arbitrary: h v)
  case (Cons d datagrams)
  obtain data source where d: "d = (data, source)" by fastforce
  have "measured (h @ snapshots_in [data]) (tool_datagram atan2f action own elapsed data v)"
    using Cons.prems by (auto simp: snapshots_in_def tool_datagram_eq measured_snapshot split: option.split)
  from Cons.IH [OF this] show ?case by (simp add: d snapshots_in_def)
qed (simp add: snapshots_in_def)

lemma fold_datagrams_fields:
  "tv_udp (fold (\<lambda>(data, source). tool_datagram atan2f action own elapsed data) datagrams v) = tv_udp v \<and>
   tv_inputSequence (fold (\<lambda>(data, source). tool_datagram atan2f action own elapsed data) datagrams v) = tv_inputSequence v"
proof (induction datagrams arbitrary: v)
  case (Cons d datagrams)
  obtain data source where d: "d = (data, source)" by fastforce
  have "tv_udp (tool_datagram atan2f action own elapsed data v) = tv_udp v"
    "tv_inputSequence (tool_datagram atan2f action own elapsed data v) = tv_inputSequence v"
    by (simp_all add: tool_datagram_eq tool_snapshot_def split: option.split prod.split)
  with Cons.IH show ?case by (simp add: d)
qed simp

text \<open>An empty datagram, which ends the drain, holds no snapshot.\<close>

lemma snapshot_in_Nil: "snapshot_in [] = None"
  by code_simp

lemma udp_drain_consumes:
  assumes "udp_drain 2048 udp = (datagrams, udp')"
  shows "\<exists>c. udp_recvs udp = c @ udp_recvs udp' \<and> snapshots_in (map fst datagrams) = snapshots_in (kernel_gave c) \<and>
    udp_sent udp' = udp_sent udp \<and> udp_sends udp' = udp_sends udp"
  using assms
proof (induction "2048 :: nat" udp arbitrary: datagrams rule: udp_drain.induct)
  case (1 udp)
  show ?case
  proof (cases "udp_recvs udp")
    case Nil
    with "1.prems" show ?thesis
      by (subst (asm) udp_drain.simps) (auto simp: receiveFrom_def kernel_gave_def snapshots_in_def split: bool.splits)
  next
    case (Cons answer rest)
    let ?next = "udp\<lparr>udp_recvs := rest\<rparr>"
    show ?thesis
    proof (cases answer)
      case (Err e)
      with Cons "1.prems" have "datagrams = [] \<and> udp' = ?next"
        by (subst (asm) udp_drain.simps) (auto simp: receiveFrom_def split: bool.splits)
      then show ?thesis by (intro exI [of _ "[answer]"]) (simp add: Cons Err kernel_gave_def snapshots_in_def)
    next
      case (Ret d)
      obtain data source where d: "d = (data, source)" by fastforce
      have r: "receiveFrom 2048 udp = (True, Some (take 2048 data, fromSockaddr source), ?next)"
        by (simp add: receiveFrom_def Cons Ret d)
      show ?thesis
      proof (cases "data = []")
        case True
        with "1.prems" r have "datagrams = [] \<and> udp' = ?next" by (subst (asm) udp_drain.simps) simp
        with True show ?thesis
          by (intro exI [of _ "[answer]"]) (simp add: Cons Ret d kernel_gave_def snapshots_in_def snapshot_in_Nil)
      next
        case False
        obtain more_data udp'' where again: "udp_drain 2048 ?next = (more_data, udp'')" by fastforce
        have some: "take 2048 data \<noteq> []" using False by simp
        from False "1.prems" r again have got: "datagrams = (take 2048 data, fromSockaddr source) # more_data" "udp' = udp''"
          by (subst (asm) udp_drain.simps, simp)+
        from "1.hyps" [OF r [symmetric] refl refl refl refl some again [folded got(2)]] obtain c where c:
          "udp_recvs ?next = c @ udp_recvs udp'" "snapshots_in (map fst more_data) = snapshots_in (kernel_gave c)"
          "udp_sent udp' = udp_sent ?next" "udp_sends udp' = udp_sends ?next"
          by blast
        then show ?thesis
          using snapshots_in_append [of "[take 2048 data]" "map fst more_data"]
            snapshots_in_append [of "[take 2048 data]" "kernel_gave c"]
          by (intro exI [of _ "answer # c"]) (simp add: Cons Ret d got(1) kernel_gave_def)
      qed
    qed
  qed
qed

text \<open>Part of a run with the acts of the script in it: the inputs are numbered on and offered to the kernel in order.\<close>

definition listens :: "Address \<Rightarrow> u64 \<Rightarrow> (f32 \<times> bool) list \<Rightarrow> ToolView \<Rightarrow> ToolView \<Rightarrow> bool" where
  "listens target playerId acts v v' \<longleftrightarrow> tallies v v' \<and>
     tv_inputSequence v' = tv_inputSequence v + word_of_nat (length acts) \<and>
     udp_sends (tv_udp v') = drop (length acts) (udp_sends (tv_udp v)) \<and>
     udp_sent (tv_udp v') = udp_sent (tv_udp v) @
       accepted (map (Pair (toSockaddr target)) (inputs_of playerId (tv_inputSequence v) acts)) (udp_sends (tv_udp v))"

lemma listens_refl: "listens target playerId [] v v"
  by (auto simp: listens_def tallies_def kernel_gave_def snapshots_in_def intro: exI [of _ "[]"])

lemma listens_trans:
  assumes "listens target playerId acts v v'" and "listens target playerId acts' v' v''"
  shows "listens target playerId (acts @ acts') v v''"
  using assms tallies_trans [of v v' v'']
  by (simp add: listens_def inputs_of_append accepted_append add.commute)

lemma send_tallies: "tallies v (tool_send target playerId forward jump v)"
  by (auto simp: tallies_def tool_send_def measured_def sendTo_accepted kernel_gave_def snapshots_in_def)

lemma send_listens: "listens target playerId [(forward, jump)] v (tool_send target playerId forward jump v)"
  by (simp add: listens_def send_tallies) (simp add: tool_send_def sendTo_accepted)

lemma act_listens: "listens target playerId (script_act action elapsed) v (tool_act action target playerId elapsed v)"
  by (simp add: tool_act_def script_act_def send_listens listens_refl)

lemma drain_listens:
  assumes "udp_drain 2048 (tv_udp v) = (datagrams, udp)"
  shows "listens target playerId [] v
    (fold (\<lambda>(data, source). tool_datagram atan2f action own elapsed data) datagrams (v\<lparr>tv_udp := udp\<rparr>))"
proof -
  obtain c where c: "udp_recvs (tv_udp v) = c @ udp_recvs udp" "snapshots_in (map fst datagrams) = snapshots_in (kernel_gave c)"
      "udp_sent udp = udp_sent (tv_udp v)" "udp_sends udp = udp_sends (tv_udp v)"
    using udp_drain_consumes [OF assms] by blast
  have "measured h (v\<lparr>tv_udp := udp\<rparr>)" if "measured h v" for h using that by (simp add: measured_def)
  then have "measured (h @ snapshots_in (kernel_gave c))
      (fold (\<lambda>(data, source). tool_datagram atan2f action own elapsed data) datagrams (v\<lparr>tv_udp := udp\<rparr>))" if "measured h v" for h
    using that fold_datagrams [of h "v\<lparr>tv_udp := udp\<rparr>" datagrams] by (simp add: c(2))
  with c(1,3,4) show ?thesis by (auto simp: listens_def tallies_def fold_datagrams_fields)
qed

lemma turn_listens:
  "listens target playerId (script_act action (ddiv (d_of_int now) (d_of_int 1000000000))) v
     (tool_turn atan2f action target playerId own now v)"
proof -
  let ?elapsed = "ddiv (d_of_int now) (d_of_int 1000000000)"
  obtain datagrams udp where d: "udp_drain 2048 (tv_udp (tool_act action target playerId ?elapsed v)) = (datagrams, udp)" by fastforce
  from listens_trans [OF act_listens drain_listens [OF d]] show ?thesis
    by (simp add: tool_turn_def Let_def d)
qed

lemma turns_listen:
  "listens target playerId (script_acts action seconds clock) v (tool_turns atan2f action target playerId own seconds clock v)"
proof (induction clock arbitrary: v)
  case Nil
  then show ?case by (simp add: script_acts_def listens_refl)
next
  case (Cons reading clock)
  obtain before now where r: "reading = (before, now)" by fastforce
  show ?case
  proof (cases "before < seconds * 1000000000")
    case True
    from listens_trans [OF turn_listens Cons.IH] True show ?thesis
      by (simp add: r script_acts_def)
  next
    case False
    then show ?thesis by (simp add: r script_acts_def listens_refl)
  qed
qed

text \<open>What the servers answered a run that joined: the token and the world server's name the login was answered with, the
  player and the UDP port the join with that token was answered with.\<close>

definition granted :: "environment \<Rightarrow> ToolWorld \<Rightarrow> string \<Rightarrow> string \<Rightarrow> Message \<Rightarrow> string \<Rightarrow> string \<Rightarrow> u16 \<Rightarrow> bool" where
  "granted env os username password message token host port \<longleftrightarrow> (\<exists>socket.
     tool_auth_socket env (os_auth os) = Some socket \<and>
     fst (await_message 200 (send (AuthMessage_code LoginRequest)
       (writes [writer_u32 kProtocolVersion, writer_string username, writer_string password] []) (message_stream socket))) = Some message \<and>
     reply_of read_worldcli_login message = (AuthSuccess, token, host, port))"

definition admitted_as :: "ToolWorld \<Rightarrow> string \<Rightarrow> string \<Rightarrow> u16 \<Rightarrow> u64 \<Rightarrow> u16 \<Rightarrow> bool" where
  "admitted_as os token host port playerId udpPort \<longleftrightarrow> (\<exists>socket message name own.
     connectTo (os_world os) host port = Some socket \<and>
     fst (await_message 200 (send (WorldMessage_code JoinRequest)
       (writes [writer_u32 kProtocolVersion, writer_string token] []) (message_stream socket))) = Some message \<and>
     reply_of read_join_response message = (JoinSuccess, playerId, udpPort, name, own))"

text \<open>The line of totals for the snapshots received.\<close>

definition totals_of :: "int \<Rightarrow> (u32 \<times> Snapshot) list \<Rightarrow> tool_line" where
  "totals_of seconds h = Totals (int (length h)) seconds (int (length h) div (if seconds > 0 then seconds else 1))
     (if h = [] then 0 else snap_tick (snd (hd h))) (if h = [] then 0 else snap_tick (snd (last h))) (int (descents (map fst h)))"

definition plain :: "tool_line \<Rightarrow> bool" where
  "plain line = (case line of Totals counted seconds rate firstTick lastTick outOfOrder \<Rightarrow> False | _ \<Rightarrow> True)"

lemma plain_simps [simp]: "plain (Printed t)" "plain (Moving elapsed e)" "plain (Everyone es tick k p x yaw)"
  by (simp_all add: plain_def)

lemma no_totals: "list_all plain ls \<Longrightarrow> filter (\<lambda>l. \<not> plain l) ls = []"
  by (simp add: list_all_iff filter_empty_conv)

lemma datagrams_plain:
  "list_all plain (tv_output v) \<Longrightarrow>
   list_all plain (tv_output (fold (\<lambda>(data, source). tool_datagram atan2f action own elapsed data) datagrams v))"
proof (induction datagrams arbitrary: v)
  case (Cons d datagrams)
  obtain data source where d: "d = (data, source)" by fastforce
  have "list_all plain (tv_output (tool_datagram atan2f action own elapsed data v))"
    using Cons.prems by (auto simp: tool_datagram_eq tool_snapshot_def tool_sample_def Let_def list_all_iff split: option.split)
  from Cons.IH [OF this] show ?case by (simp add: d)
qed simp

lemma turn_plain: "list_all plain (tv_output v) \<Longrightarrow> list_all plain (tv_output (tool_turn atan2f action target playerId own now v))"
proof -
  let ?v = "tool_act action target playerId (ddiv (d_of_int now) (d_of_int 1000000000)) v"
  assume "list_all plain (tv_output v)"
  then have "list_all plain (tv_output (?v\<lparr>tv_udp := udp\<rparr>))" for udp by (simp add: tool_act_def tool_send_def)
  then show ?thesis by (simp add: tool_turn_def Let_def datagrams_plain split: prod.split)
qed

lemma turns_plain:
  "list_all plain (tv_output v) \<Longrightarrow> list_all plain (tv_output (tool_turns atan2f action target playerId own seconds clock v))"
  by (induction clock arbitrary: v) (auto simp: turn_plain)

lemma logout_outcome:
  assumes "list_all plain (tool_output r)" and "list_all plain (tv_output v)" and "measured h v"
  shows "tool_udp (worldcli_logout seconds v world r) = Some (tv_udp v) \<and>
    filter (\<lambda>l. \<not> plain l) (tool_output (worldcli_logout seconds v world r)) = [totals_of seconds h] \<and>
    tool_exit (worldcli_logout seconds v world r) = (if h = [] then 1 else 0)"
proof -
  have "Totals (tv_received v) seconds (tv_received v div (if seconds > 0 then seconds else 1))
      (tv_firstTick v) (tv_lastTick v) (tv_outOfOrder v) = totals_of seconds h"
    using assms(3) by (simp add: totals_of_def measured_def)
  moreover have "\<not> plain (totals_of seconds h)" by (simp add: plain_def totals_of_def)
  moreover have "tv_received v > 0 \<longleftrightarrow> h \<noteq> []" using assms(3) by (simp add: measured_def)
  ultimately show ?thesis
    using no_totals [OF assms(1)] no_totals [OF assms(2)]
    by (auto simp: worldcli_logout_def Let_def tool_prints_def tool_exits_def split: prod.split)
qed

text \<open>What a run of \<^verbatim>\<open>worldcli\<close> that joined and opened its UDP socket has to have done. Without an address there is nothing to
  do; otherwise \<open>c\<close> is what it took from the socket.\<close>

definition worldcli_run_ok ::
    "string \<Rightarrow> int \<Rightarrow> (int \<times> int) list \<Rightarrow> Address option \<Rightarrow> u64 \<Rightarrow> string \<Rightarrow> UdpSocket \<Rightarrow> UdpSocket \<Rightarrow> ToolRun \<Rightarrow> bool" where
  "worldcli_run_ok action seconds clock address playerId token udp udp' r \<longleftrightarrow> (case address of
      None \<Rightarrow> udp' = udp \<and> filter (\<lambda>l. \<not> plain l) (tool_output r) = [] \<and> tool_exit r = 1
    | Some target \<Rightarrow>
        udp_sent udp' = udp_sent udp @ accepted (map (Pair (toSockaddr target))
          (hello_packet playerId token # inputs_of playerId 1 (script_acts action seconds clock))) (udp_sends udp) \<and>
        (\<exists>c. udp_recvs udp = c @ udp_recvs udp' \<and>
          filter (\<lambda>l. \<not> plain l) (tool_output r) = [totals_of seconds (snapshots_in (kernel_gave c))] \<and>
          tool_exit r = (if snapshots_in (kernel_gave c) = [] then 1 else 0)))"

lemma listen_outcome:
  assumes "list_all plain (tool_output r)" and "tool_udp r = None" and "os_open os = Some udp"
    and "tool_udp (worldcli_listen os action seconds token host message world r) = Some udp'"
  shows "\<exists>playerId udpPort name own. reply_of read_join_response message = (JoinSuccess, playerId, udpPort, name, own) \<and>
    worldcli_run_ok action seconds (os_clock os) (resolve (os_target os host) udpPort) playerId token udp udp'
      (worldcli_listen os action seconds token host message world r)"
proof -
  obtain joinResult playerId udpPort name own where answer: "reply_of read_join_response message = (joinResult, playerId, udpPort, name, own)"
    by (metis prod_cases5)
  have joined: "joinResult = JoinSuccess"
  proof (rule ccontr)
    assume "joinResult \<noteq> JoinSuccess"
    with assms(2,4) show False by (simp add: worldcli_listen_def answer tool_exits_def)
  qed
  let ?r = "tool_prints [Printed (''joined as player '' @ to_string (unat playerId) @ '' ('' @ quoted (c_str name) @
               ''), entity '' @ to_string (unat own) @ '', udp port '' @ to_string (unat udpPort))] (r\<lparr>tool_world := Some world\<rparr>)"
  have plain: "list_all plain (tool_output ?r)" using assms(1) by (simp add: tool_prints_def)
  have "worldcli_run_ok action seconds (os_clock os) (resolve (os_target os host) udpPort) playerId token udp udp'
      (worldcli_listen os action seconds token host message world r)"
  proof (cases "resolve (os_target os host) udpPort")
    case None
    then have run: "worldcli_listen os action seconds token host message world r = tool_exits 1 (?r\<lparr>tool_udp := Some udp\<rparr>)"
      by (simp add: worldcli_listen_def answer joined assms(3))
    moreover from this assms(4) have "udp' = udp" by (simp add: tool_exits_def)
    ultimately show ?thesis
      using no_totals [OF plain] by (simp add: worldcli_run_ok_def None tool_exits_def)
  next
    case (Some target)
    let ?udp = "snd (sendTo (hello_packet playerId token) target udp)"
    let ?v = "tool_turns (os_atan2f os) action target playerId own seconds (os_clock os) (tool_view ?udp)"
    let ?listening = "tool_prints [Printed ''sent UDP hello, listening for snapshots...'', Printed []] ?r"
    let ?inputs = "inputs_of playerId 1 (script_acts action seconds (os_clock os))"
    have run: "worldcli_listen os action seconds token host message world r = worldcli_logout seconds ?v world ?listening"
      by (simp add: worldcli_listen_def answer joined assms(3) Some Let_def)
    have acts: "listens target playerId (script_acts action seconds (os_clock os)) (tool_view ?udp) ?v"
      by (rule turns_listen)
    obtain c where c: "udp_recvs ?udp = c @ udp_recvs (tv_udp ?v)"
        "\<And>h. measured h (tool_view ?udp) \<Longrightarrow> measured (h @ snapshots_in (kernel_gave c)) ?v"
      using acts by (auto simp: listens_def tallies_def tool_view_def)
    have "measured [] (tool_view ?udp)" by (simp add: measured_def tool_view_def)
    from c(2) [OF this] have measured: "measured (snapshots_in (kernel_gave c)) ?v" by simp
    have "list_all plain (tool_output ?listening)" using plain by (simp add: tool_prints_def)
    from logout_outcome [OF this turns_plain measured, of seconds world]
    have out: "tool_udp (worldcli_logout seconds ?v world ?listening) = Some (tv_udp ?v)"
      "filter (\<lambda>l. \<not> plain l) (tool_output (worldcli_logout seconds ?v world ?listening)) = [totals_of seconds (snapshots_in (kernel_gave c))]"
      "tool_exit (worldcli_logout seconds ?v world ?listening) = (if snapshots_in (kernel_gave c) = [] then 1 else 0)"
      by (auto simp: tool_view_def)
    have "udp_sent (tv_udp ?v) = udp_sent ?udp @ accepted (map (Pair (toSockaddr target)) ?inputs) (udp_sends ?udp)"
      using acts by (simp add: listens_def tool_view_def)
    also have "\<dots> = udp_sent udp @ accepted ([(toSockaddr target, hello_packet playerId token)] @ map (Pair (toSockaddr target)) ?inputs) (udp_sends udp)"
      unfolding accepted_append by (simp only: sendTo_accepted append_assoc list.size One_nat_def add_0 plus_nat.add_Suc)
    finally have sent: "udp_sent (tv_udp ?v) = udp_sent udp @
        accepted (map (Pair (toSockaddr target)) (hello_packet playerId token # ?inputs)) (udp_sends udp)" by simp
    have same: "udp' = tv_udp ?v" using out(1) assms(4) run by simp
    have taken: "udp_recvs udp = c @ udp_recvs (tv_udp ?v)" using c(1) by (simp add: sendTo_accepted)
    show ?thesis
      unfolding worldcli_run_ok_def run same Some option.case using taken sent out(2,3) by blast
  qed
  with answer joined show ?thesis by blast
qed

lemma join_outcome:
  assumes "list_all plain (tool_output r)" and "tool_udp r = None" and "os_open os = Some udp"
    and "tool_udp (worldcli_join os action seconds message r) = Some udp'"
  shows "\<exists>token host port playerId udpPort. reply_of read_worldcli_login message = (AuthSuccess, token, host, port) \<and>
    admitted_as os token host port playerId udpPort \<and>
    worldcli_run_ok action seconds (os_clock os) (resolve (os_target os host) udpPort) playerId token udp udp'
      (worldcli_join os action seconds message r)"
proof -
  obtain authResult token host port where answer: "reply_of read_worldcli_login message = (authResult, token, host, port)"
    by (metis prod_cases4)
  have granted: "authResult = AuthSuccess"
  proof (rule ccontr)
    assume "authResult \<noteq> AuthSuccess"
    with assms(2,4) show False by (simp add: worldcli_join_def answer tool_exits_def)
  qed
  define r' where "r' = tool_prints [Printed (''login ok, world at '' @ c_str host @ '':'' @ to_string (unat port))] r"
  have r': "list_all plain (tool_output r')" "tool_udp r' = None" using assms(1,2) by (simp_all add: r'_def tool_prints_def)
  have step: "worldcli_join os action seconds message r = (case connectTo (os_world os) host port of
      None \<Rightarrow> tool_exits 1 r'
    | Some socket \<Rightarrow> (case await_message (10000 div 50) (send (WorldMessage_code JoinRequest)
        (writes [writer_u32 kProtocolVersion, writer_string token] []) (message_stream socket)) of
        (None, world) \<Rightarrow> tool_exits 1 (r'\<lparr>tool_world := Some world\<rparr>)
      | (Some message, world) \<Rightarrow> worldcli_listen os action seconds token host message world r'))"
    by (simp only: worldcli_join_def answer granted r'_def Let_def prod.case simp_thms if_False)
  obtain socket where socket: "connectTo (os_world os) host port = Some socket"
    using assms(4) r'(2) by (cases "connectTo (os_world os) host port") (simp_all add: step tool_exits_def)
  obtain reply world where reply: "await_message (10000 div 50) (send (WorldMessage_code JoinRequest)
        (writes [writer_u32 kProtocolVersion, writer_string token] []) (message_stream socket)) = (reply, world)" by fastforce
  obtain message' where m: "reply = Some message'"
    using assms(4) r'(2) unfolding step socket option.case reply prod.case
    by (cases reply) (simp_all add: tool_exits_def)
  have run: "worldcli_join os action seconds message r = worldcli_listen os action seconds token host message' world r'"
    unfolding step socket option.case reply prod.case m by simp
  from listen_outcome [OF r' assms(3), of action seconds token host message' world udp'] assms(4) [unfolded run]
  obtain playerId udpPort name own where
    j: "reply_of read_join_response message' = (JoinSuccess, playerId, udpPort, name, own)" and
    ok: "worldcli_run_ok action seconds (os_clock os) (resolve (os_target os host) udpPort) playerId token udp udp'
      (worldcli_listen os action seconds token host message' world r')" by blast
  have div: "10000 div 50 = (200 :: nat)" by simp
  have "admitted_as os token host port playerId udpPort"
    unfolding admitted_as_def using socket reply [unfolded div] m j by (metis fst_conv)
  with answer granted ok show ?thesis unfolding run by blast
qed

section \<open>The properties\<close>

text \<open>A run of one turn in which both servers accept and one snapshot arrives.\<close>

definition sample_sock :: "u16 \<Rightarrow> bytes \<Rightarrow> TcpSocket" where
  "sample_sock ty payload = \<lparr>sock_recvs = [Ret (frame \<lparr>msg_type = ty, msg_payload = payload\<rparr>)], sock_sends = [Ret 99, Ret 99], sock_sent = []\<rparr>"

definition sample_answer :: "u16 \<Rightarrow> bytes \<Rightarrow> Network" where
  "sample_answer ty payload = \<lparr>net_resolve = (\<lambda>host. Some \<lparr>sin_port = 0, sin_addr = 1\<rparr>),
     net_connect = (\<lambda>address. Some (sample_sock ty payload)), net_writable = True, net_connected = True, net_open = (\<lambda>n. None)\<rparr>"

definition sample_heard :: UdpSocket where
  "sample_heard = \<lparr>udp_recvs = [Ret (encodeSnapshot \<lparr>snap_tick = 7, snap_serverTimeMs = 0, snap_timeOfDay = 0, snap_entities = []\<rparr>
       (writeUdpHeader [] (WorldMessage_code SnapshotMessage) 4), \<lparr>sin_port = 0, sin_addr = 1\<rparr>)],
     udp_sends = [Ret (), Ret ()], udp_sent = []\<rparr>"

definition sample_granted :: Message where
  "sample_granted = \<lparr>msg_type = AuthMessage_code LoginResponse,
     msg_payload = writes [writer_u8 0, writer_string ''t'', writer_string ''w'', writer_u16 8, writer_u64 1] []\<rparr>"

definition sample_joined :: Message where
  "sample_joined = \<lparr>msg_type = WorldMessage_code JoinResponse,
     msg_payload = writes [writer_u8 0, writer_u64 5, writer_u16 9, writer_string ''a'', writer_u32 9] []\<rparr>"

definition sample_tool_world :: ToolWorld where
  "sample_tool_world = \<lparr>os_started = True, os_auth = sample_answer (msg_type sample_granted) (msg_payload sample_granted),
     os_world = sample_answer (msg_type sample_joined) (msg_payload sample_joined),
     os_open = Some sample_heard, os_target = (\<lambda>host. Some \<lparr>sin_port = 0, sin_addr = 1\<rparr>), os_clock = [(0, 1)],
     os_atan2f = (\<lambda>y x. 0)\<rparr>"

definition sample_run :: ToolRun where
  "sample_run = worldcli (\<lambda>name. None) sample_tool_world [''a'', ''p'', ''1'', ''move'']"

lemma sample_network:
  "tool_auth_socket (\<lambda>name. None) (os_auth sample_tool_world) = Some (sample_sock (msg_type sample_granted) (msg_payload sample_granted))"
  "connectTo (os_world sample_tool_world) host port = Some (sample_sock (msg_type sample_joined) (msg_payload sample_joined))"
  by (simp_all add: tool_auth_socket_def connectTo_def sample_tool_world_def sample_answer_def resolve_def)

lemma sample_awaited:
  "fst (await_message 200 (send (AuthMessage_code LoginRequest) (writes [writer_u32 kProtocolVersion, writer_string ''a'', writer_string ''p''] [])
     (message_stream (sample_sock (msg_type sample_granted) (msg_payload sample_granted))))) = Some sample_granted"
  "fst (await_message 200 (send (WorldMessage_code JoinRequest) (writes [writer_u32 kProtocolVersion, writer_string ''t''] [])
     (message_stream (sample_sock (msg_type sample_joined) (msg_payload sample_joined))))) = Some sample_joined"
  by code_simp+

lemma sample_read:
  "reply_of read_worldcli_login sample_granted = (AuthSuccess, ''t'', ''w'', 8)"
  "reply_of read_join_response sample_joined = (JoinSuccess, 5, 9, ''a'', 9)"
  by code_simp+

lemma sample_turn:
  "(\<lambda>u. (udp_recvs u, length (udp_sent u))) (tv_udp (tool_turns (\<lambda>x y. 0) ''move'' \<lparr>addr_ip = 0x1000000, addr_port = 9\<rparr> 5 9 1 [(0, 1)] (tool_view
     (snd (sendTo (hello_packet 5 ''t'') \<lparr>addr_ip = 0x1000000, addr_port = 9\<rparr> sample_heard))))) = ([], 2)"
  by code_simp

lemma logout_udp: "tool_udp (worldcli_logout seconds v world r) = Some (tv_udp v)"
  by (simp add: worldcli_logout_def Let_def tool_exits_def tool_prints_def split: prod.split)

lemma sample_arguments:
  "[''a'', ''p'', ''1'', ''move''] ! 0 = ''a''" "[''a'', ''p'', ''1'', ''move''] ! 1 = ''p''" "[''a'', ''p'', ''1'', ''move''] ! 2 = ''1''"
  "[''a'', ''p'', ''1'', ''move''] ! 3 = ''move''" "(2 < length [''a'', ''p'', ''1'', ''move'']) = True"
  "(3 < length [''a'', ''p'', ''1'', ''move'']) = True" "(length [''a'', ''p'', ''1'', ''move''] < 2) = False" "sint (atoi ''1'') = 1"
  by (simp_all add: nth_Cons_numeral nth_Cons' flip: One_nat_def) code_simp

lemma sample_run_udp: "map_option (\<lambda>u. (udp_recvs u, length (udp_sent u))) (tool_udp sample_run) = Some ([], 2)"
proof -
  obtain auth world where replies:
    "await_message 200 (send (AuthMessage_code LoginRequest) (writes [writer_u32 kProtocolVersion, writer_string ''a'', writer_string ''p''] [])
       (message_stream (sample_sock (msg_type sample_granted) (msg_payload sample_granted)))) = (Some sample_granted, auth)"
    "await_message 200 (send (WorldMessage_code JoinRequest) (writes [writer_u32 kProtocolVersion, writer_string ''t''] [])
       (message_stream (sample_sock (msg_type sample_joined) (msg_payload sample_joined)))) = (Some sample_joined, world)"
    using sample_awaited by (metis prod.collapse)
  have "htonl 1 = 0x1000000" by code_simp
  then have os: "os_started sample_tool_world" "os_open sample_tool_world = Some sample_heard" "os_clock sample_tool_world = [(0, 1)]"
    "os_atan2f sample_tool_world = (\<lambda>x y. 0)" "resolve (os_target sample_tool_world host) port = Some \<lparr>addr_ip = 0x1000000, addr_port = port\<rparr>" for host port
    by (simp_all add: sample_tool_world_def resolve_def)
  have div: "10000 div 50 = (200 :: nat)" by simp
  have start: "sample_run = worldcli_join sample_tool_world ''move'' 1 sample_granted (tool_run\<lparr>tool_auth := Some auth\<rparr>)"
    by (simp only: sample_run_def worldcli_def Let_def div sample_network option.case sample_arguments replies prod.case if_True if_False os(1) simp_thms)
  have run: "tool_udp sample_run = tool_udp (worldcli_listen sample_tool_world ''move'' 1 ''t'' ''w'' sample_joined world
     (tool_prints [Printed (''login ok, world at '' @ c_str ''w'' @ '':'' @ to_string (unat (8::u16)))] (tool_run\<lparr>tool_auth := Some auth\<rparr>)))"
    unfolding start worldcli_join_def sample_read prod.case Let_def div sample_network option.case replies by simp
  show ?thesis
    unfolding run worldcli_listen_def sample_read prod.case Let_def os option.case using sample_turn by (simp add: logout_udp)
qed

text \<open>C40. The test client sends and reports what it should. If a run of \<^verbatim>\<open>worldcli\<close> got as far as its UDP socket, the login was
  granted with a token and the join with that token was accepted for a player. When the world server's name resolves, the run then offers
  the kernel exactly one hello, for that player and with that token, and after it the inputs of its script, one for each turn begun before the deadline,
  numbered from 1 without a gap, all to the address and UDP port the servers named; what is sent is what the kernel took, by its own answers.
  It prints one line of totals, for exactly the snapshots among
  the datagrams it took from its socket: how many, the first and last tick, and how many came directly after one with a larger number; and it ends with exit
  code 0 if there was one, else 1. When the name does not resolve, it sends and reports nothing and ends with 1.\<close>

theorem worldcli_sends_and_reports:
  assumes "os_open os = Some udp" and "tool_udp (worldcli env os args) = Some udp'"
  shows "\<exists>message token host port playerId udpPort. granted env os (args ! 0) (args ! 1) message token host port \<and>
    admitted_as os token host port playerId udpPort \<and>
    worldcli_run_ok (if length args > 3 then args ! 3 else []) (if length args > 2 then sint (atoi (args ! 2)) else 3)
      (os_clock os) (resolve (os_target os host) udpPort) playerId token udp udp' (worldcli env os args)"
proof -
  let ?action = "if length args > 3 then args ! 3 else []" and ?seconds = "if length args > 2 then sint (atoi (args ! 2)) else 3"
  have "length args \<ge> 2" "os_started os" using assms(2) by (auto simp: worldcli_def tool_exits_def tool_run_def split: if_splits)
  moreover obtain socket where socket: "tool_auth_socket env (os_auth os) = Some socket"
    using assms(2) by (auto simp: worldcli_def tool_exits_def tool_run_def Let_def split: if_splits option.splits)
  ultimately obtain message auth where login: "await_message 200 (send (AuthMessage_code LoginRequest)
        (writes [writer_u32 kProtocolVersion, writer_string (args ! 0), writer_string (args ! 1)] []) (message_stream socket)) = (Some message, auth)"
      and run: "worldcli env os args = worldcli_join os ?action ?seconds message (tool_run\<lparr>tool_auth := Some auth\<rparr>)"
    using assms(2) by (auto simp: worldcli_def tool_exits_def tool_run_def Let_def split: prod.splits option.splits)
  have "list_all plain (tool_output (tool_run\<lparr>tool_auth := Some auth\<rparr>))" "tool_udp (tool_run\<lparr>tool_auth := Some auth\<rparr>) = None"
    by (simp_all add: tool_run_def)
  from join_outcome [OF this assms(1), of ?action ?seconds message udp'] assms(2) [unfolded run]
  obtain token host port playerId udpPort where j: "reply_of read_worldcli_login message = (AuthSuccess, token, host, port)"
    "admitted_as os token host port playerId udpPort"
    "worldcli_run_ok ?action ?seconds (os_clock os) (resolve (os_target os host) udpPort) playerId token udp udp'
      (worldcli_join os ?action ?seconds message (tool_run\<lparr>tool_auth := Some auth\<rparr>))" by blast
  have "granted env os (args ! 0) (args ! 1) message token host port"
    unfolding granted_def using socket login j(1) by (metis fst_conv)
  with j(2,3) show ?thesis unfolding run by blast
qed

theorem worldcli_sends_and_reports_witness:
  "\<exists>udp' token host port playerId udpPort. tool_udp sample_run = Some udp' \<and> udp_recvs udp' = [] \<and> length (udp_sent udp') = 2 \<and>
     admitted_as sample_tool_world token host port playerId udpPort \<and>
     worldcli_run_ok ''move'' 1 [(0, 1)] (resolve (os_target sample_tool_world host) udpPort) playerId token sample_heard udp' sample_run"
proof -
  obtain udp' where udp: "tool_udp sample_run = Some udp'" "udp_recvs udp' = []" "length (udp_sent udp') = 2"
    using sample_run_udp by auto
  have os: "os_open sample_tool_world = Some sample_heard" "os_clock sample_tool_world = [(0, 1)]" by (simp_all add: sample_tool_world_def)
  from worldcli_sends_and_reports [OF os(1) udp(1) [unfolded sample_run_def]] obtain token host port playerId udpPort where
    "admitted_as sample_tool_world token host port playerId udpPort"
    "worldcli_run_ok ''move'' 1 [(0, 1)] (resolve (os_target sample_tool_world host) udpPort) playerId token sample_heard udp' sample_run"
    by (simp only: sample_arguments if_True os(2) sample_run_def [symmetric]) blast
  with udp show ?thesis by blast
qed

end
