(* ===== verification/Sockets.thy ===== *)
theory Sockets
  imports Udp
begin

text \<open>
  The descriptors behind the socket classes of \<^verbatim>\<open>common/net/src/socket.cpp\<close>, in its POSIX branches: what \<open>listen\<close>,
  \<open>accept\<close>, \<open>connect\<close>, \<open>open\<close>, \<open>close\<close>, moving and destroying do to the descriptor an object holds, and the wait for
  readiness. The kernel is the table of open descriptors with what was set on each; what its calls
  answer is the record \<open>Answers\<close>. A descriptor it hands out is a non-negative number that is not open. Closing a descriptor that is not open, which would
  hit whoever got the number next, counts as a fault. \<open>Framing\<close> and \<open>Udp\<close> hold the data that flows
  through a socket once it is open.
\<close>

section \<open>The kernel\<close>

record KernelSocket =
  ks_bound :: "sockaddr_in option"
  ks_backlog :: "int option"
  ks_peer :: "sockaddr_in option"
  ks_nonblocking :: bool
  ks_reuse :: bool
  ks_nodelay :: bool

definition fresh_socket :: KernelSocket where
  "fresh_socket = \<lparr>ks_bound = None, ks_backlog = None, ks_peer = None, ks_nonblocking = False, ks_reuse = False, ks_nodelay = False\<rparr>"

record Os =
  os_table :: "int \<rightharpoonup> KernelSocket"
  os_faults :: nat

record Answers =
  an_descriptor :: "int option"
  an_getfl :: bool
  an_setfl :: bool
  an_bind :: bool
  an_listen :: bool
  an_connect :: "unit syscall"
  an_peer :: sockaddr_in
  an_soerror :: "int option"

definition kInvalidSocket :: int where "kInvalidSocket = - 1"

definition sys_new :: "Answers \<Rightarrow> KernelSocket \<Rightarrow> Os \<Rightarrow> int \<times> Os" where
  "sys_new an k os = (case an_descriptor an of
      None \<Rightarrow> (kInvalidSocket, os)
    | Some fd \<Rightarrow> if fd < 0 \<or> os_table os fd \<noteq> None then (kInvalidSocket, os) else (fd, os\<lparr>os_table := (os_table os)(fd \<mapsto> k)\<rparr>))"

definition sys_set :: "int \<Rightarrow> (KernelSocket \<Rightarrow> KernelSocket) \<Rightarrow> Os \<Rightarrow> Os" where
  "sys_set fd f os = (case os_table os fd of None \<Rightarrow> os | Some k \<Rightarrow> os\<lparr>os_table := (os_table os)(fd \<mapsto> f k)\<rparr>)"

definition closeHandle :: "int \<Rightarrow> Os \<Rightarrow> Os" where
  "closeHandle fd os =
     (if os_table os fd = None then os\<lparr>os_faults := os_faults os + 1\<rparr> else os\<lparr>os_table := (os_table os)(fd := None)\<rparr>)"

text \<open>\<^verbatim>\<open>bind\<close> and \<^verbatim>\<open>listen\<close> fail without an effect.\<close>

definition sys_bind :: "Answers \<Rightarrow> int \<Rightarrow> sockaddr_in \<Rightarrow> Os \<Rightarrow> bool \<times> Os" where
  "sys_bind an fd addr os = (an_bind an, if an_bind an then sys_set fd (\<lambda>k. k\<lparr>ks_bound := Some addr\<rparr>) os else os)"

definition sys_listen :: "Answers \<Rightarrow> int \<Rightarrow> int \<Rightarrow> Os \<Rightarrow> bool \<times> Os" where
  "sys_listen an fd backlog os = (an_listen an, if an_listen an then sys_set fd (\<lambda>k. k\<lparr>ks_backlog := Some backlog\<rparr>) os else os)"

definition setNonBlocking :: "Answers \<Rightarrow> int \<Rightarrow> Os \<Rightarrow> bool \<times> Os" where
  "setNonBlocking an fd os =
     (if \<not> an_getfl an then (False, os)
      else (an_setfl an, if an_setfl an then sys_set fd (\<lambda>k. k\<lparr>ks_nonblocking := True\<rparr>) os else os))"

section \<open>The socket classes\<close>

text \<open>An object is the descriptor it holds; each operation gives the object back.\<close>

definition sock_close :: "int \<Rightarrow> Os \<Rightarrow> int \<times> Os" where
  "sock_close mHandle os = (if mHandle \<noteq> kInvalidSocket then (kInvalidSocket, closeHandle mHandle os) else (mHandle, os))"

definition any_address :: "u16 \<Rightarrow> sockaddr_in" where
  "any_address port = \<lparr>sin_port = htons port, sin_addr = htonl 0\<rparr>"

definition tcp_listen :: "Answers \<Rightarrow> u16 \<Rightarrow> int \<Rightarrow> int \<Rightarrow> Os \<Rightarrow> bool \<times> int \<times> Os" where
  "tcp_listen an port backlog mHandle os =
     (case sock_close mHandle os of (mHandle, os) \<Rightarrow> case sys_new an fresh_socket os of (mHandle, os) \<Rightarrow>
      if mHandle = kInvalidSocket then (False, mHandle, os)
      else
        (let os = sys_set mHandle (\<lambda>k. k\<lparr>ks_reuse := True\<rparr>) os in
         case sys_bind an mHandle (any_address port) os of
           (False, os) \<Rightarrow> (False, sock_close mHandle os)
         | (True, os) \<Rightarrow> (case sys_listen an mHandle backlog os of
             (False, os) \<Rightarrow> (False, sock_close mHandle os)
           | (True, os) \<Rightarrow> (case setNonBlocking an mHandle os of
               (False, os) \<Rightarrow> (False, sock_close mHandle os)
             | (True, os) \<Rightarrow> (True, mHandle, os)))))"

text \<open>The new object and, where there was a connection, its peer.\<close>

definition tcp_accept :: "Answers \<Rightarrow> int \<Rightarrow> Os \<Rightarrow> int \<times> Address option \<times> Os" where
  "tcp_accept an mHandle os =
     (case sys_new an (fresh_socket\<lparr>ks_peer := Some (an_peer an)\<rparr>) os of (handle, os) \<Rightarrow>
      if handle = kInvalidSocket then (kInvalidSocket, None, os)
      else (case setNonBlocking an handle os of (_, os) \<Rightarrow>
        (handle, Some (fromSockaddr (an_peer an)), sys_set handle (\<lambda>k. k\<lparr>ks_nodelay := True\<rparr>) os)))"

definition tcp_connect :: "Answers \<Rightarrow> Address \<Rightarrow> int \<Rightarrow> Os \<Rightarrow> bool \<times> int \<times> Os" where
  "tcp_connect an address mHandle os =
     (case sock_close mHandle os of (mHandle, os) \<Rightarrow> case sys_new an fresh_socket os of (mHandle, os) \<Rightarrow>
      if mHandle = kInvalidSocket then (False, mHandle, os)
      else (case setNonBlocking an mHandle os of (_, os) \<Rightarrow>
        (let os = sys_set mHandle (\<lambda>k. k\<lparr>ks_nodelay := True\<rparr>) os;
             pending = sys_set mHandle (\<lambda>k. k\<lparr>ks_peer := Some (toSockaddr address)\<rparr>) os
         in case an_connect an of
              Ret _ \<Rightarrow> (True, mHandle, pending)
            | Err error \<Rightarrow> if error \<noteq> EINPROGRESS \<and> error \<noteq> EWOULDBLOCK then (False, sock_close mHandle os) else (True, mHandle, pending))))"

text \<open>\<^verbatim>\<open>SO_ERROR\<close>, where asking for it succeeds.\<close>

definition connectResult :: "Answers \<Rightarrow> bool" where
  "connectResult an = (case an_soerror an of None \<Rightarrow> False | Some error \<Rightarrow> error = 0)"

definition udp_open :: "Answers \<Rightarrow> u16 \<Rightarrow> int \<Rightarrow> Os \<Rightarrow> bool \<times> int \<times> Os" where
  "udp_open an port mHandle os =
     (case sock_close mHandle os of (mHandle, os) \<Rightarrow> case sys_new an fresh_socket os of (mHandle, os) \<Rightarrow>
      if mHandle = kInvalidSocket then (False, mHandle, os)
      else (case sys_bind an mHandle (any_address port) os of
          (False, os) \<Rightarrow> (False, sock_close mHandle os)
        | (True, os) \<Rightarrow> (case setNonBlocking an mHandle os of
            (False, os) \<Rightarrow> (False, sock_close mHandle os)
          | (True, os) \<Rightarrow> (True, mHandle, os))))"

text \<open>Moving: the new object and what is left of the other one.\<close>

definition move_construct :: "int \<Rightarrow> int \<times> int" where
  "move_construct other = (other, kInvalidSocket)"

definition move_assign :: "int \<Rightarrow> int \<Rightarrow> Os \<Rightarrow> int \<times> int \<times> Os" where
  "move_assign mHandle other os = (case sock_close mHandle os of (mHandle, os) \<Rightarrow> (other, kInvalidSocket, os))"

section \<open>Waiting\<close>

definition POLLIN :: u16 where "POLLIN = 0x001"
definition POLLOUT :: u16 where "POLLOUT = 0x004"
definition POLLERR :: u16 where "POLLERR = 0x008"
definition POLLHUP :: u16 where "POLLHUP = 0x010"

text \<open>\<^verbatim>\<open>poll\<close> is given the descriptors and the event asked for; it answers a count and, for each descriptor, what happened.\<close>

definition waitFor :: "(int list \<Rightarrow> u16 \<Rightarrow> int \<Rightarrow> int \<times> (nat \<Rightarrow> u16)) \<Rightarrow> int list \<Rightarrow> int \<Rightarrow> bool \<Rightarrow> int \<times> bool list" where
  "waitFor sys_poll sockets timeoutMs forWrite =
     (let ready = map (\<lambda>handle. False) sockets in
      if sockets = [] then (0, ready)
      else (let event = (if forWrite then POLLOUT else POLLIN) in
        case sys_poll sockets event timeoutMs of (counted, revents) \<Rightarrow>
          (counted, if counted > 0
             then (let mask = event OR POLLHUP OR POLLERR in map (\<lambda>i. revents i AND mask \<noteq> 0) [0..<length sockets])
             else ready)))"

definition waitReadable :: "(int list \<Rightarrow> u16 \<Rightarrow> int \<Rightarrow> int \<times> (nat \<Rightarrow> u16)) \<Rightarrow> int list \<Rightarrow> int \<Rightarrow> int \<times> bool list" where
  "waitReadable sys_poll sockets timeoutMs = waitFor sys_poll sockets timeoutMs False"

definition waitWritable :: "(int list \<Rightarrow> u16 \<Rightarrow> int \<Rightarrow> int \<times> (nat \<Rightarrow> u16)) \<Rightarrow> int list \<Rightarrow> int \<Rightarrow> int \<times> bool list" where
  "waitWritable sys_poll sockets timeoutMs = waitFor sys_poll sockets timeoutMs True"

section \<open>A process and its sockets\<close>

text \<open>The socket objects of a process, of either class, in the order they were made; a destroyed one is \<open>None\<close>. A call on
  an object that does not exist is not one C++ can make, and does nothing.\<close>

record Process =
  pr_os :: Os
  pr_objects :: "int option list"

definition new_process :: Process where
  "new_process = \<lparr>pr_os = \<lparr>os_table = (\<lambda>fd. None), os_faults = 0\<rparr>, pr_objects = []\<rparr>"

datatype socket_call =
    NewSocket
  | ListenOn nat Answers u16 int
  | AcceptOn nat Answers
  | ConnectWith nat Answers Address
  | OpenUdp nat Answers u16
  | CloseSocket nat
  | MoveFrom nat
  | MoveInto nat nat
  | DestroySocket nat

definition alive :: "nat \<Rightarrow> Process \<Rightarrow> bool" where
  "alive i p \<longleftrightarrow> i < length (pr_objects p) \<and> pr_objects p ! i \<noteq> None"

definition handle_in :: "int option list \<Rightarrow> nat \<Rightarrow> int" where
  "handle_in objects i = (if i < length objects then case objects ! i of None \<Rightarrow> kInvalidSocket | Some h \<Rightarrow> h else kInvalidSocket)"

abbreviation handle_of :: "Process \<Rightarrow> nat \<Rightarrow> int" where
  "handle_of p \<equiv> handle_in (pr_objects p)"

definition put :: "nat \<Rightarrow> int \<times> Os \<Rightarrow> Process \<Rightarrow> Process" where
  "put i r p = p\<lparr>pr_objects := (pr_objects p)[i := Some (fst r)], pr_os := snd r\<rparr>"

definition do_call :: "socket_call \<Rightarrow> Process \<Rightarrow> Process" where
  "do_call call p = (case call of
      NewSocket \<Rightarrow> p\<lparr>pr_objects := pr_objects p @ [Some kInvalidSocket]\<rparr>
    | ListenOn i an port backlog \<Rightarrow> if alive i p then put i (snd (tcp_listen an port backlog (handle_of p i) (pr_os p))) p else p
    | AcceptOn i an \<Rightarrow> if alive i p
        then (case tcp_accept an (handle_of p i) (pr_os p) of (handle, who, os) \<Rightarrow>
          p\<lparr>pr_objects := pr_objects p @ [Some handle], pr_os := os\<rparr>)
        else p
    | ConnectWith i an address \<Rightarrow> if alive i p then put i (snd (tcp_connect an address (handle_of p i) (pr_os p))) p else p
    | OpenUdp i an port \<Rightarrow> if alive i p then put i (snd (udp_open an port (handle_of p i) (pr_os p))) p else p
    | CloseSocket i \<Rightarrow> if alive i p then put i (sock_close (handle_of p i) (pr_os p)) p else p
    | MoveFrom j \<Rightarrow> if alive j p
        then (case move_construct (handle_of p j) of (made, left) \<Rightarrow>
          p\<lparr>pr_objects := (pr_objects p)[j := Some left] @ [Some made]\<rparr>)
        else p
    | MoveInto i j \<Rightarrow> if alive i p \<and> alive j p \<and> i \<noteq> j
        then (case move_assign (handle_of p i) (handle_of p j) (pr_os p) of (made, left, os) \<Rightarrow>
          p\<lparr>pr_objects := (pr_objects p)[i := Some made, j := Some left], pr_os := os\<rparr>)
        else p
    | DestroySocket i \<Rightarrow> if alive i p
        then p\<lparr>pr_objects := (pr_objects p)[i := None], pr_os := snd (sock_close (handle_of p i) (pr_os p))\<rparr>
        else p)"

section \<open>Every open descriptor has exactly one owner\<close>

definition owns :: "(nat \<Rightarrow> int) \<Rightarrow> Os \<Rightarrow> bool" where
  "owns h os \<longleftrightarrow> os_faults os = 0 \<and> kInvalidSocket \<notin> dom (os_table os) \<and>
     bij_betw h {i. h i \<noteq> kInvalidSocket} (dom (os_table os))"

text \<open>An operation of one object: the descriptor \<open>fd\<close> it held is closed, and the object holds \<open>fd'\<close>, open since, or nothing.\<close>

definition replaces :: "int \<Rightarrow> Os \<Rightarrow> int \<Rightarrow> Os \<Rightarrow> bool" where
  "replaces fd os fd' os' \<longleftrightarrow> os_faults os' = os_faults os \<and> dom (os_table os') = dom (os_table os) - {fd} \<union> ({fd'} - {kInvalidSocket}) \<and>
     (fd' \<noteq> kInvalidSocket \<longrightarrow> fd' \<notin> dom (os_table os) - {fd})"

definition held :: "int \<Rightarrow> Os \<Rightarrow> bool" where
  "held fd os \<longleftrightarrow> kInvalidSocket \<notin> dom (os_table os) \<and> (fd \<noteq> kInvalidSocket \<longrightarrow> fd \<in> dom (os_table os))"

lemma owns_held: "owns h os \<Longrightarrow> held (h i) os"
  by (auto simp: owns_def held_def bij_betw_def)

lemma bij_betw_replace:
  assumes "bij_betw h {i. h i \<noteq> k} D" and "k \<notin> D" and "x \<noteq> k \<longrightarrow> x \<notin> D - {h i}"
  shows "bij_betw (h(i := x)) {j. (h(i := x)) j \<noteq> k} (D - {h i} \<union> ({x} - {k}))"
  using assms unfolding bij_betw_def inj_on_def by (auto simp: image_iff)

lemma owns_replaces: "owns h os \<Longrightarrow> replaces (h i) os fd os' \<Longrightarrow> owns (h(i := fd)) os'"
  using bij_betw_replace [of h kInvalidSocket "dom (os_table os)" fd i] by (auto simp: owns_def replaces_def)

lemma owns_move:
  assumes "owns h os" and "h i = kInvalidSocket" and "i \<noteq> j"
  shows "owns (h(j := kInvalidSocket, i := h j)) os"
proof (cases "h j = kInvalidSocket")
  case True
  with assms show ?thesis by (metis fun_upd_triv)
next
  case False
  let ?D = "dom (os_table os)" and ?g = "h(j := kInvalidSocket)"
  have h: "bij_betw h {l. h l \<noteq> kInvalidSocket} ?D" "kInvalidSocket \<notin> ?D" using assms(1) by (simp_all add: owns_def)
  then have "h j \<in> ?D" using False by (auto simp: bij_betw_def)
  have "bij_betw ?g {l. ?g l \<noteq> kInvalidSocket} (?D - {h j})"
    using bij_betw_replace [OF h, of kInvalidSocket j] by simp
  moreover have "kInvalidSocket \<notin> ?D - {h j}" using h(2) by simp
  ultimately have "bij_betw (?g(i := h j)) {l. (?g(i := h j)) l \<noteq> kInvalidSocket} (?D - {h j} - {?g i} \<union> ({h j} - {kInvalidSocket}))"
    by (rule bij_betw_replace) simp
  moreover have "?D - {h j} - {?g i} \<union> ({h j} - {kInvalidSocket}) = ?D"
    using assms(2,3) h(2) \<open>h j \<in> ?D\<close> False by auto
  ultimately show ?thesis using assms(1) by (simp add: owns_def)
qed

text \<open>What a kernel call leaves as it is: which descriptors are open, and the faults.\<close>

definition open_now :: "Os \<Rightarrow> int set \<times> nat" where
  "open_now os = (dom (os_table os), os_faults os)"

lemma open_now_set [simp]: "open_now (sys_set fd f os) = open_now os"
  by (auto simp: open_now_def sys_set_def split: option.split)

lemma open_now_calls:
  "sys_bind an fd addr os = (ok, os') \<Longrightarrow> open_now os' = open_now os"
  "sys_listen an fd backlog os = (ok, os') \<Longrightarrow> open_now os' = open_now os"
  "setNonBlocking an fd os = (ok, os') \<Longrightarrow> open_now os' = open_now os"
  by (auto simp: sys_bind_def sys_listen_def setNonBlocking_def split: if_splits)

lemma held_replaces:
  "held fd os \<Longrightarrow> replaces fd os fd' os' \<Longrightarrow> held fd' os'"
  by (auto simp: held_def replaces_def)

lemma close_replaces:
  "held fd os \<Longrightarrow> sock_close fd os = (fd', os') \<Longrightarrow> fd' = kInvalidSocket \<and> replaces fd os fd' os'"
  by (auto simp: held_def sock_close_def closeHandle_def replaces_def split: if_splits)

lemma new_replaces:
  "held kInvalidSocket os \<Longrightarrow> sys_new an k os = (fd, os') \<Longrightarrow> replaces kInvalidSocket os fd os'"
  by (auto simp: held_def sys_new_def replaces_def kInvalidSocket_def split: option.splits if_splits)

lemma replaces_trans:
  "replaces fd os kInvalidSocket os' \<Longrightarrow> replaces kInvalidSocket os' fd'' os'' \<Longrightarrow> kInvalidSocket \<notin> dom (os_table os) \<Longrightarrow> replaces fd os fd'' os''"
  by (auto simp: replaces_def)

lemma replaces_kept: "replaces fd os fd' os' \<Longrightarrow> open_now os'' = open_now os' \<Longrightarrow> replaces fd os fd' os''"
  by (auto simp: replaces_def open_now_def)

text \<open>What opens a socket: it lets go of the old descriptor, takes a new one, and closes that again on any failure.\<close>

lemma reopened:
  assumes "held fd os" and "sock_close fd os = (fd1, os1)" and "sys_new an k os1 = (fd2, os2)"
  shows "replaces fd os fd2 os2"
proof -
  from close_replaces [OF assms(1,2)] have c: "fd1 = kInvalidSocket" "replaces fd os kInvalidSocket os1" by auto
  from held_replaces [OF assms(1) c(2)] new_replaces [OF _ assms(3)] have "replaces kInvalidSocket os1 fd2 os2" by blast
  with replaces_trans c(2) assms(1) show ?thesis by (auto simp: held_def)
qed

lemma given_up:
  assumes "held fd os" and "replaces fd os fd2 os2" and "open_now os3 = open_now os2" and "sock_close fd2 os3 = (fd', os')"
  shows "replaces fd os fd' os'"
proof -
  have r: "replaces fd os fd2 os3" using replaces_kept [OF assms(2,3)] .
  from close_replaces [OF held_replaces [OF assms(1) r] assms(4)] have "fd' = kInvalidSocket" "replaces fd2 os3 fd' os'" by auto
  with r assms(1) show ?thesis by (auto simp: replaces_def held_def)
qed

lemma opens_anew:
  assumes "held fd os" and "sock_close fd os = (fd1, os1)" and "sys_new an k os1 = (fd2, os2)" and "open_now os3 = open_now os2"
  shows "replaces fd os fd2 os3" and "sock_close fd2 os3 = (fd', os') \<Longrightarrow> replaces fd os fd' os'"
  using replaces_kept [OF reopened [OF assms(1-3)] assms(4)] given_up [OF assms(1) reopened [OF assms(1-3)] assms(4)] by blast+

lemma listen_replaces: "held fd os \<Longrightarrow> tcp_listen an port backlog fd os = (ok, fd', os') \<Longrightarrow> replaces fd os fd' os'"
  unfolding tcp_listen_def Let_def
  by (auto dest!: open_now_calls split: prod.splits if_splits bool.splits intro: opens_anew(1) opens_anew(2) [rotated 4]) 

lemma connect_replaces: "held fd os \<Longrightarrow> tcp_connect an address fd os = (ok, fd', os') \<Longrightarrow> replaces fd os fd' os'"
  unfolding tcp_connect_def Let_def
  by (auto dest!: open_now_calls split: prod.splits if_splits syscall.splits intro: opens_anew(1) opens_anew(2) [rotated 4]) 

lemma open_replaces: "held fd os \<Longrightarrow> udp_open an port fd os = (ok, fd', os') \<Longrightarrow> replaces fd os fd' os'"
  unfolding udp_open_def
  by (auto dest!: open_now_calls split: prod.splits if_splits bool.splits intro: opens_anew(1) opens_anew(2) [rotated 4]) 

lemma accept_replaces: "held kInvalidSocket os \<Longrightarrow> tcp_accept an fd os = (fd', who, os') \<Longrightarrow> replaces kInvalidSocket os fd' os'"
  unfolding tcp_accept_def
  by (auto dest!: open_now_calls split: prod.splits if_splits intro: replaces_kept new_replaces)

text \<open>What a success and a failure leave behind. A server that listens is bound to its port on every address and does
  not block; after a failure the object holds nothing.\<close>

lemma listen_result:
  "tcp_listen an port backlog fd os = (ok, fd', os') \<Longrightarrow>
     (if ok then os_table os' fd' = Some \<lparr>ks_bound = Some \<lparr>sin_port = htons port, sin_addr = 0\<rparr>, ks_backlog = Some backlog, ks_peer = None,
        ks_nonblocking = True, ks_reuse = True, ks_nodelay = False\<rparr>
      else fd' = kInvalidSocket)"
  by (auto simp: tcp_listen_def sys_new_def sys_bind_def sys_listen_def setNonBlocking_def sys_set_def sock_close_def fresh_socket_def
      any_address_def htonl_def Let_def split: prod.splits if_splits option.splits)

lemma open_result:
  "udp_open an port fd os = (ok, fd', os') \<Longrightarrow>
     (if ok then os_table os' fd' = Some \<lparr>ks_bound = Some \<lparr>sin_port = htons port, sin_addr = 0\<rparr>, ks_backlog = None, ks_peer = None,
        ks_nonblocking = True, ks_reuse = False, ks_nodelay = False\<rparr>
      else fd' = kInvalidSocket)"
  by (auto simp: udp_open_def sys_new_def sys_bind_def setNonBlocking_def sys_set_def sock_close_def fresh_socket_def
      any_address_def htonl_def split: prod.splits if_splits option.splits)

lemma connect_result:
  "tcp_connect an address fd os = (ok, fd', os') \<Longrightarrow>
     (if ok then os_table os' fd' = Some \<lparr>ks_bound = None, ks_backlog = None, ks_peer = Some (toSockaddr address),
        ks_nonblocking = (an_getfl an \<and> an_setfl an), ks_reuse = False, ks_nodelay = True\<rparr>
      else fd' = kInvalidSocket)"
  by (auto simp: tcp_connect_def sys_new_def setNonBlocking_def sys_set_def sock_close_def fresh_socket_def Let_def
      split: prod.splits if_splits option.splits syscall.splits)

lemma length_waitFor: "length (snd (waitFor sys_poll sockets timeoutMs forWrite)) = length sockets"
  by (simp add: waitFor_def Let_def split: prod.split)

text \<open>A connection attempt that failed is reported to whoever waits to write, as an error is reported to whoever waits to read.\<close>

lemma waitFor_error:
  assumes "sys_poll sockets (if forWrite then POLLOUT else POLLIN) timeoutMs = (counted, revents)" and "counted > 0"
    and "i < length sockets" and "bit (revents i) 3 \<or> bit (revents i) 4"
  shows "snd (waitFor sys_poll sockets timeoutMs forWrite) ! i"
proof -
  have bits: "bit POLLERR 3" "bit POLLHUP 4" by code_simp+
  have "revents i AND ((if forWrite then POLLOUT else POLLIN) OR POLLHUP OR POLLERR) \<noteq> 0"
  proof
    assume z: "revents i AND ((if forWrite then POLLOUT else POLLIN) OR POLLHUP OR POLLERR) = 0"
    then have "\<not> bit (revents i AND ((if forWrite then POLLOUT else POLLIN) OR POLLHUP OR POLLERR)) n" for n by simp
    from this [of 3] this [of 4] assms(4) bits show False by (auto simp: bit_simps)
  qed
  then show ?thesis using assms(1-3) by (auto simp: waitFor_def Let_def)
qed

subsection \<open>The process\<close>

definition owned_once :: "Process \<Rightarrow> bool" where
  "owned_once p \<longleftrightarrow> owns (handle_of p) (pr_os p)"

lemma handle_in_append: "handle_in (objects @ [Some h]) = (handle_in objects)(length objects := h)"
  by (auto simp: handle_in_def fun_eq_iff nth_append)

lemma handle_in_update:
  "i < length objects \<Longrightarrow> handle_in (objects[i := x]) = (handle_in objects)(i := case x of None \<Rightarrow> kInvalidSocket | Some h \<Rightarrow> h)"
  by (auto simp: handle_in_def fun_eq_iff nth_list_update)

lemma handle_in_beyond [simp]: "handle_in objects (length objects) = kInvalidSocket"
  by (simp add: handle_in_def)

lemma handle_in_append_none: "handle_in (objects @ [Some kInvalidSocket]) = handle_in objects"
  by (auto simp: handle_in_def fun_eq_iff nth_append)

lemma alive_length: "alive i p \<Longrightarrow> i < length (pr_objects p)"
  by (simp add: alive_def)

lemma owned_put:
  assumes "owned_once p" and "alive i p" and "replaces (handle_of p i) (pr_os p) (fst r) (snd r)"
  shows "owned_once (put i r p)"
  using owns_replaces [of "handle_of p" "pr_os p" i "fst r" "snd r"] assms
  by (simp add: owned_once_def put_def handle_in_update alive_length)

lemma owned_append:
  assumes "owned_once p" and "replaces kInvalidSocket (pr_os p) h os"
  shows "owned_once (p\<lparr>pr_objects := pr_objects p @ [Some h], pr_os := os\<rparr>)"
  using owns_replaces [of "handle_of p" "pr_os p" "length (pr_objects p)" h os] assms
  by (simp add: owned_once_def handle_in_append)

lemma owned_held: "owned_once p \<Longrightarrow> held (handle_of p i) (pr_os p)" "owned_once p \<Longrightarrow> held kInvalidSocket (pr_os p)"
  using owns_held [of "handle_of p" "pr_os p" i] by (auto simp: owned_once_def held_def)

lemma owned_move_from:
  assumes "owned_once p" and "alive j p"
  shows "owned_once (p\<lparr>pr_objects := (pr_objects p)[j := Some kInvalidSocket] @ [Some (handle_of p j)]\<rparr>)"
  using owns_move [of "handle_of p" "pr_os p" "length (pr_objects p)" j] assms alive_length [OF assms(2)]
  by (simp add: owned_once_def handle_in_append handle_in_update)

lemma owned_move_into:
  assumes "owned_once p" and "alive i p" and "alive j p" and "i \<noteq> j" and "sock_close (handle_of p i) (pr_os p) = (h, os)"
  shows "owned_once (p\<lparr>pr_objects := (pr_objects p)[i := Some (handle_of p j), j := Some kInvalidSocket], pr_os := os\<rparr>)"
proof -
  let ?h = "(handle_of p)(i := kInvalidSocket)"
  from close_replaces [OF owned_held(1) [OF assms(1)] assms(5)] have "replaces (handle_of p i) (pr_os p) kInvalidSocket os" by auto
  then have "owns ?h os" using owns_replaces assms(1) by (simp add: owned_once_def)
  then have "owns (?h(j := kInvalidSocket, i := ?h j)) os" using assms(4) by (intro owns_move) simp_all
  moreover have "?h(j := kInvalidSocket, i := ?h j) = handle_in ((pr_objects p)[i := Some (handle_of p j), j := Some kInvalidSocket])"
    using assms(4) by (auto simp: handle_in_update alive_length [OF assms(2)] alive_length [OF assms(3)] fun_eq_iff)
  ultimately show ?thesis by (simp add: owned_once_def)
qed

lemma owned_destroy:
  assumes "owned_once p" and "alive i p"
  shows "owned_once (p\<lparr>pr_objects := (pr_objects p)[i := None], pr_os := snd (sock_close (handle_of p i) (pr_os p))\<rparr>)"
proof -
  obtain h os where c: "sock_close (handle_of p i) (pr_os p) = (h, os)" by fastforce
  from close_replaces [OF owned_held(1) [OF assms(1)] c] have "replaces (handle_of p i) (pr_os p) kInvalidSocket os" by auto
  then have "owns ((handle_of p)(i := kInvalidSocket)) os" using owns_replaces assms(1) by (simp add: owned_once_def)
  then show ?thesis by (simp add: c owned_once_def handle_in_update alive_length [OF assms(2)])
qed

text \<open>The operations that open a socket, at an object of a process that owns its descriptors.\<close>

lemma opened_owned:
  assumes "owned_once p" and "alive i p"
  shows "owned_once (put i (snd (tcp_listen an port backlog (handle_of p i) (pr_os p))) p)"
    and "owned_once (put i (snd (tcp_connect an address (handle_of p i) (pr_os p))) p)"
    and "owned_once (put i (snd (udp_open an port (handle_of p i) (pr_os p))) p)"
    and "owned_once (put i (sock_close (handle_of p i) (pr_os p)) p)"
proof -
  note held = owned_held(1) [OF assms(1), of i]
  show "owned_once (put i (snd (tcp_listen an port backlog (handle_of p i) (pr_os p))) p)"
    using listen_replaces [OF held] by (intro owned_put assms) (metis prod.collapse)
  show "owned_once (put i (snd (tcp_connect an address (handle_of p i) (pr_os p))) p)"
    using connect_replaces [OF held] by (intro owned_put assms) (metis prod.collapse)
  show "owned_once (put i (snd (udp_open an port (handle_of p i) (pr_os p))) p)"
    using open_replaces [OF held] by (intro owned_put assms) (metis prod.collapse)
  show "owned_once (put i (sock_close (handle_of p i) (pr_os p)) p)"
    using close_replaces [OF held] by (intro owned_put assms) (metis prod.collapse)
qed

lemma owned_accept:
  assumes "owned_once p" and "tcp_accept an fd (pr_os p) = (h, who, os)"
  shows "owned_once (p\<lparr>pr_objects := pr_objects p @ [Some h], pr_os := os\<rparr>)"
  using owned_append [OF assms(1)] accept_replaces [OF owned_held(2) [OF assms(1)] assms(2)] by blast

lemma owned_call: "owned_once p \<Longrightarrow> owned_once (do_call call p)"
  by (cases call)
    (simp_all add: do_call_def opened_owned owned_accept owned_move_from owned_move_into owned_destroy move_construct_def move_assign_def
      owned_once_def [of "p\<lparr>pr_objects := pr_objects p @ [Some kInvalidSocket]\<rparr>"] handle_in_append_none split: prod.split,
     simp add: owned_once_def)

lemma owned_new: "owned_once new_process"
  by (simp add: owned_once_def owns_def new_process_def handle_in_def bij_betw_def)

lemma owned_run: "owned_once p \<Longrightarrow> owned_once (fold do_call calls p)"
  by (induction calls arbitrary: p) (simp_all add: owned_call)

lemma destroyed:
  "pr_objects (fold do_call (map DestroySocket is) p) = fold (\<lambda>i objects. objects[i := None]) is (pr_objects p)"
proof (induction "is" arbitrary: p)
  case (Cons i "is")
  have "pr_objects (do_call (DestroySocket i) p) = (pr_objects p)[i := None]"
    using list_update_id [of "pr_objects p" i] list_update_beyond [of "pr_objects p" i None]
    by (cases "i < length (pr_objects p)"; cases "pr_objects p ! i") (simp_all add: do_call_def alive_def)
  with Cons show ?case by simp
qed simp

lemma cleared: "fold (\<lambda>i objects. objects[i := None]) [0..<n] objects = replicate (min n (length objects)) None @ drop n objects"
proof (induction n)
  case (Suc n)
  then show ?case
    by (cases "n < length objects") (simp_all add: list_update_append Cons_nth_drop_Suc [symmetric] replicate_append_same min_def not_less list_update_beyond)
qed simp

text \<open>C20. Every open descriptor has one owner. However a process makes, opens, connects, accepts, closes, moves and destroys
  socket objects, and whatever the kernel answers, successes and failures half way through an opening included: the
  descriptors open in the kernel are those of its objects, one for one, so none is leaked and no two
  objects share one; none was ever closed that was not open; and destroying the objects that are left closes everything.\<close>

theorem descriptors_owned_once:
  "let p = fold do_call calls new_process in
     bij_betw (handle_of p) {i. handle_of p i \<noteq> kInvalidSocket} (dom (os_table (pr_os p))) \<and> os_faults (pr_os p) = 0 \<and>
     os_table (pr_os (fold do_call (map DestroySocket [0..<length (pr_objects p)]) p)) = Map.empty"
proof -
  let ?p = "fold do_call calls new_process"
  let ?q = "fold do_call (map DestroySocket [0..<length (pr_objects ?p)]) ?p"
  have p: "owned_once ?p" using owned_run owned_new by blast
  have "pr_objects ?q = replicate (length (pr_objects ?p)) None" by (simp add: destroyed cleared)
  then have "{i. handle_of ?q i \<noteq> kInvalidSocket} = {}" by (auto simp: handle_in_def)
  with owned_run [OF p, of "map DestroySocket [0..<length (pr_objects ?p)]"] have "dom (os_table (pr_os ?q)) = {}"
    by (auto simp: owned_once_def owns_def bij_betw_def)
  with p show ?thesis by (simp add: owned_once_def owns_def Let_def)
qed

end
