(* ===== verification/Spec2Isabelle.thy ===== *)
theory Spec2Isabelle
  imports Snapshot DbServer AuthServer Simulation WorldClock WorldLoop WorldSafety Session AdminConsole ClientApp EngineObjects Mesh Tools Sockets
begin

text \<open>
  A verification development for the networked game in this repository: a client, an auth server, a world
  server and a database server that speak a common protocol. Everything below is translated
  from the C++ sources and proved in HOL; nothing is assumed beyond named hypotheses about code outside the
  repository (libsodium, libpq and Postgres, libm, the operating system).

  \<^bold>\<open>The program.\<close> A player logs in at the auth server (\<^verbatim>\<open>server/authserver\<close>), which checks the password
  against an account kept by the database server (\<^verbatim>\<open>server/dbserver\<close>) and stores a session token there.
  With the token the client joins the world server (\<^verbatim>\<open>server/worldserver\<close>), which looks the
  session up, creates a body in the simulation and, once a UDP hello with the token has arrived,
  streams snapshots sixty times a second and takes movement input. The client
  (\<^verbatim>\<open>client/src\<close>) predicts its own movement with the same rule (\<^verbatim>\<open>common/gamesim\<close>, \<^verbatim>\<open>common/terrain\<close>)
  and reconciles with the snapshots. TCP messages are framed, UDP datagrams carry a header (\<^verbatim>\<open>common/net\<close>).

  \<^bold>\<open>The theories\<close>, in the order they build on each other:

  \<^item> \<open>Prelude\<close>: words, bytes and strings, the collections of rules. \<open>ByteStream\<close>: \<^verbatim>\<open>byte_stream.h\<close>; the locale
    \<open>wire_codec\<close> is the contract of a writer and its reader and is interpreted for every primitive.
    \<open>Protocol\<close>: \<^verbatim>\<open>protocol.h\<close>. \<open>Snapshot\<close>: \<^verbatim>\<open>snapshot.cpp\<close>; both ends agree, nothing but an
    encoding is accepted, what is rejected.
  \<^item> \<open>Framing\<close>: \<^verbatim>\<open>framing.cpp\<close> over \<^verbatim>\<open>TcpSocket\<close>; messages survive every way of cutting the stream, within
    a poll and between polls.
    \<open>StdMap\<close>: \<^verbatim>\<open>std::map\<close> as an ordered association list behind a locale. \<open>TcpServer\<close>: \<^verbatim>\<open>tcp_server.cpp\<close>;
    the callbacks of a pass are exactly those the received bytes call for. \<open>Udp\<close>: the UDP half of \<^verbatim>\<open>socket.cpp\<close>.
  \<^item> \<open>CText\<close>, \<open>CFloat\<close>, \<open>Config\<close>: C number parsing and \<^verbatim>\<open>config.h\<close>.
  \<^item> \<open>DbClient\<close>: \<^verbatim>\<open>db_client.cpp\<close>; the locale \<open>ranked_service\<close> shows that nested callbacks end.
    \<open>Database\<close>: \<^verbatim>\<open>database.cpp\<close> over libpq, whose laws are the locale \<open>postgres\<close>, and the tables it stands for.
    \<open>DbServer\<close>: \<^verbatim>\<open>dbserver/src/main.cpp\<close>; a call through client, wire, server and SQL refines one
    step \<open>spec_call\<close> on the tables, and a stored session is found exactly until it expires or is ended (\<open>db_life\<close>).
  \<^item> \<open>Sodium\<close>, \<open>AuthServer\<close>: \<^verbatim>\<open>authserver/src/main.cpp\<close>; who gets a Success and who may change accounts, with
    messages and replies in any order.
  \<^item> \<open>Ieee\<close>, \<open>IeeeOrder\<close>: binary32 and binary64 arithmetic with rounding to nearest even, and its
    monotonicity. \<open>Terrain\<close>, \<open>Character\<close>, \<open>Simulation\<close>: \<^verbatim>\<open>heightfield.cpp\<close>, \<^verbatim>\<open>character.cpp\<close>,
    \<^verbatim>\<open>simulation.cpp\<close>; the ground and the jump, entity ids never given twice, the order of inputs.
  \<^item> \<open>WorldServer\<close>: \<^verbatim>\<open>worldserver/src/main.cpp\<close> and its console. \<open>WorldLoop\<close>: the fixed-step loop ends, and when a turn does.
    \<open>WorldClock\<close>: the time of day. \<open>WorldSafety\<close>: the step relation \<open>world_reach\<close> and the safety of
    everything reachable, over histories that pair each reply of the database with the lookup it answers.
  \<^item> \<open>Prediction\<close>: \<^verbatim>\<open>client/src/prediction.cpp\<close> against the simulation. \<open>NetClient\<close>: \<^verbatim>\<open>client/src/net_client.cpp\<close>.
    \<open>Session\<close>: client and servers together, message by message.
  \<^item> \<open>AdminConsole\<close>: \<^verbatim>\<open>tools/src/console.cpp\<close>; each command line is one request to the right server, read there as typed.
  \<^item> \<open>Font\<close>: \<^verbatim>\<open>ui/font.cpp\<close>, the glyph atlas, whose pixel writes are checked. \<open>UiRenderer\<close>: \<^verbatim>\<open>ui/ui_renderer.cpp\<close>, the
    batch of a frame and what reaches the graphics engine. \<open>Widgets\<close>: \<^verbatim>\<open>ui/widgets.cpp\<close> and \<^verbatim>\<open>screens.cpp\<close>; what a
    text field accepts, and that nothing shown depends on the password.
  \<^item> \<open>Scene\<close>: \<^verbatim>\<open>sky.cpp\<close> and \<^verbatim>\<open>scene.cpp\<close>, the engine objects of the world as a set with their references; none is
    misused or left behind. \<open>ClientApp\<close>: \<^verbatim>\<open>application.cpp\<close> and \<^verbatim>\<open>camera_controller.cpp\<close>; the step relation
    \<open>app_reach\<close> over window events and frames, in which network, prediction, scene and screens stay in step.
    \<open>EngineObjects\<close>: the engine objects of overlay and application from start-up, its failures included, to the destructor,
    with every object destroyed while another still holds it.
    \<open>Mesh\<close>: \<^verbatim>\<open>mesh.cpp\<close>; the points and triangles of every shape, every index naming a vertex and within the width of its buffer.
  \<^item> \<open>Sockets\<close>: the descriptors behind the classes of \<^verbatim>\<open>socket.cpp\<close>, a process as a sequence of socket calls; each open
    descriptor has one owner. \<open>Tools\<close>: the test clients \<^verbatim>\<open>authcli.cpp\<close> and \<^verbatim>\<open>worldcli.cpp\<close>, as functions of what the
    operating system answers.
  \<^item> This theory: registration, login and session over the whole server side.

  \<^bold>\<open>How code becomes definitions.\<close> A class is a record with the source's member names, a method a
  function on it, an output parameter a component of the result. A lambda handed to the database client is a
  constructor of a tag type carrying what it captures, and the service's \<open>run\<close> function is the
  lambdas' bodies; so callbacks that run later, in another order or never are ordinary data. Kernel answers
  (partial reads and writes, errors, accepted connections, datagrams, clocks) are part of the state
  or arguments, so a theorem speaks about every behaviour of the kernel. Enumerations keep a constructor for
  values outside them, which the wire can carry. Floats are their bit patterns.

  \<^bold>\<open>Bounds and fuel.\<close> Every loop that follows data is a terminating function. The reconnect loop of the services has no bound in
  the source: \<open>db_reconnect\<close> is a partial function whose \<open>None\<close> is the loop that never ends, and \<open>WorldLoop\<close> says exactly when a
  turn of the world server ends. Two places use fuel:
  nested database callbacks (\<open>kAuthDepth\<close> and \<open>kWorldDepth\<close>, both 2: a callback makes at most one
  further call whose callback makes none, shown by the ranks in the interpretations of
  \<open>ranked_service\<close>), and the catch-up loops of world server and client (\<open>kTickFuel\<close>, 15: the accumulator is capped at a quarter
  second, which \<open>WorldLoop\<close> shows is used up after at most fifteen ticks in binary64). \<open>settle\<close>
  below counts calls; three are more than a login makes.

  \<^bold>\<open>What is not modelled\<close>: log output; signal handling and start-up retries; the Windows branches of the socket
  layer, of which the POSIX ones are modelled; the upload of buffers and materials
  and everything Filament does with what it is handed: of the engine the models keep which objects exist, which
  are shown, and the values set; window handles (\<^verbatim>\<open>native_window.cpp\<close>); the formatting of printed decimals; the vendored \<^verbatim>\<open>stb_truetype.h\<close>, whose
  answers are a parameter.
\<close>

section \<open>An account, from registration to a session\<close>

text \<open>The auth server with its database behind it: every call is answered by what the database service
  stands for and its callback runs, until no call is left or the given number is used up.\<close>

fun settle :: "nat \<Rightarrow> 'r sodium \<Rightarrow> AuthConfig \<Rightarrow> (db_call \<times> auth_tag) list \<Rightarrow> tables \<times> 'r auth_state \<Rightarrow> tables \<times> 'r auth_state" where
  "settle 0 lib cfg calls st = st"
| "settle (Suc n) lib cfg [] st = st"
| "settle (Suc n) lib cfg ((call, k) # calls) (t, s) =
     (case spec_call call t of (reply, t') \<Rightarrow> case auth_run lib cfg k reply s of (s', new) \<Rightarrow>
        settle n lib cfg (calls @ new) (t', s'))"

lemma c_str_clean: "CHR 0x00 \<notin> set s \<Longrightarrow> c_str s = s"
  unfolding c_str_def by (intro takeWhile_eq_all_conv [THEN iffD2]) auto

lemma c_str_again [simp]: "c_str (c_str s) = c_str s"
  by (rule c_str_clean) (auto simp: c_str_def dest: set_takeWhileD)

lemma valid_name:
  assumes "validUsername username"
  shows "string_fits username" "c_str username = username"
proof -
  show "string_fits username"
    using assms by (simp add: validUsername_def string_fits_def kMaxUsernameLength_def kMaxStringLength_def)
  have "\<not> allowed_char (CHR 0x00)" by code_simp
  then show "c_str username = username"
    using assms by (intro c_str_clean) (auto simp: validUsername_def list_all_iff)
qed

lemma token_clean: "c_str (token_of_bytes raw) = token_of_bytes raw"
proof (rule c_str_clean)
  have "list_all (\<lambda>n. hex_digit (word_of_nat n) \<noteq> CHR 0x00) [0..<16]" by code_simp
  then have small: "hex_digit b \<noteq> CHR 0x00" if "unat b < 16" for b
  proof -
    have "hex_digit (word_of_nat (unat b)) \<noteq> CHR 0x00"
      using \<open>list_all _ _\<close> that unfolding list_all_iff by (elim ballE [of _ _ "unat b"]) simp_all
    then show ?thesis by simp
  qed
  have "unat (drop_bit 4 b) < 16" for b :: byte
    using unsigned_less [of b, where ?'a = nat] by (simp add: drop_bit_eq_div unat_div less_mult_imp_div_less)
  moreover have "unat (b AND 0x0F) < 16" for b :: byte
  proof -
    have "b AND 0x0F \<le> 0x0F" by (rule word_and_le1)
    then show ?thesis by (simp add: word_le_nat_alt)
  qed
  ultimately show "CHR 0x00 \<notin> set (token_of_bytes raw)"
    using small by (auto simp: token_of_bytes_def dest: sym)
qed

lemma new_account:
  assumes "find_named username t = None" and "next_account_id t < 2 ^ 63" and "c_str username = username"
  shows "spec_call (CreateAccount username h) t = (CreateReply True DbOk (word_of_nat (next_account_id t)),
      t\<lparr>next_account_id := next_account_id t + 1, accounts := accounts t @ [\<lparr>row_id = next_account_id t,
        row_username = username, row_hash = c_str h, row_level = 0, row_last_login = None\<rparr>]\<rparr>)"
proof -
  have "filter (named username) (accounts t) = []" using assms(1) by (simp add: find_named_def find_NoneD)
  then have "\<not> list_ex (named username) (accounts t)" by (simp add: list_ex_iff filter_empty_conv)
  with assms show ?thesis by (simp add: spec_create_def insert_account_def Let_def)
qed

lemma filter_unique: "distinct (map f xs) \<Longrightarrow> x \<in> set xs \<Longrightarrow> filter (\<lambda>a. f a = f x) xs = [x]"
  by (induction xs) (auto simp: filter_empty_conv dest: sym)

lemma session_of_account:
  assumes "tables_ok t" and "row \<in> set (accounts t)" and "token \<notin> set (map row_token (sessions t))" and "0 < ttl"
    and "c_str token = token" and "spec_call (CreateSession (word_of_nat (row_id row)) token ttl) t = (reply, t')"
  shows "reply = ResultReply True DbOk \<and> fst (spec_call (LookupSession token) t') = SessionReply True (session_lookup_of row)"
proof -
  have row: "row_id row < next_account_id t" "next_account_id t \<le> 2 ^ 63" "distinct (map row_id (accounts t))"
    using assms(1,2) by (auto simp: tables_ok_def list_all_iff)
  then have small: "unat (word_of_nat (row_id row) :: u64) = row_id row" by (simp add: unat_of_nat)
  let ?new = "\<lparr>row_token = token, row_account = row_id row, row_expires = clock t + int (unat ttl)\<rparr>"
  let ?t = "touch_login (row_id row) (t\<lparr>sessions := sessions t @ [?new]\<rparr>)"
  have inserted: "insert_session token (row_id row) (unat ttl) t = (command 1, t\<lparr>sessions := sessions t @ [?new]\<rparr>)"
    using assms(2,3) row by (auto simp: insert_session_def)
  then have t': "reply = ResultReply True DbOk" "t' = ?t"
    using assms(5,6) small by (simp_all add: command_def)
  let ?row = "row\<lparr>row_last_login := Some (clock t)\<rparr>"
  have "filter (\<lambda>s. row_token s = token \<and> row_expires s > clock t) (sessions t @ [?new]) = [?new]"
  proof -
    have "0 < uint ttl" using assms(4) by (simp add: word_less_def)
    then show ?thesis using assms(3) by (auto simp: filter_empty_conv)
  qed
  moreover have "filter (\<lambda>a. row_id a = row_id row) (accounts ?t) = [?row]"
  proof -
    have "filter (\<lambda>a. row_id a = row_id row) (accounts t) = [row]"
      using row(3) assms(2) by (rule filter_unique)
    then show ?thesis by (simp add: touch_login_def filter_map comp_def if_distrib cong: if_cong)
  qed
  ultimately have "live_session token ?t = [?row]"
    by (simp add: live_session_def touch_login_def)
  then show ?thesis
    using t' assms(5) by (simp add: find_session_def session_lookup_of_def)
qed

text \<open>A new account is found under its name, as it was inserted.\<close>

lemma new_account_found:
  assumes "tables_ok t" and "find_named username t = None" and "next_account_id t < 2 ^ 63" and "length h \<le> 128"
  defines "row \<equiv> \<lparr>row_id = next_account_id t, row_username = username, row_hash = h, row_level = 0, row_last_login = None\<rparr>"
  defines "t' \<equiv> t\<lparr>next_account_id := next_account_id t + 1, accounts := accounts t @ [row]\<rparr>"
  shows "row \<in> set (accounts t')" and "tables_ok t'"
    and "find_named username t' = Some row" and "lookup_of row = \<lparr>lookup_found = True, lookup_accountId = word_of_nat (next_account_id t),
      lookup_passwordHash = h, lookup_permissionLevel = 0\<rparr>"
proof -
  show "row \<in> set (accounts t')" "tables_ok t'"
    using tables_ok_insert_account [OF assms(1), of username h] assms(2,3)
    by (simp_all add: row_def t'_def insert_account_def find_named_def list_ex_iff find_None_iff)
  have "List.find (named username) (accounts t) = None" using assms(2) by (simp add: find_named_def)
  then show "find_named username t' = Some row"
    using find_NoneD [of "named username" "accounts t"] by (simp add: find_named_def find_filter named_def row_def t'_def)
  show "lookup_of row = \<lparr>lookup_found = True, lookup_accountId = word_of_nat (next_account_id t), lookup_passwordHash = h, lookup_permissionLevel = 0\<rparr>"
    using assms(4) by (simp add: lookup_of_def kMaxStringLength_def row_def)
qed

text \<open>C4. Registering an account makes it usable. For every name and password the rules allow and no account
  with that name, the auth server over its database answers the registration with Success, answers a
  following login with the same credentials with Success, and from then on a lookup of the
  token in that response finds a session of exactly that account, with the name as registered and
  level 0. What is asked of libsodium is that a hash it made verifies against the password it was
  made from and is no longer than its documented 128 bytes, and that the 32 random bytes are not those of a token in use.\<close>

theorem register_then_login:
  assumes "validUsername username" and "kMinPasswordLength \<le> length password" and "string_fits password"
    and "tables_ok t" and "find_named username t = None" and "next_account_id t < 2 ^ 63" and "0 < sessionTtl cfg"
    and "\<forall>p r h r'. pwhash_str lib p r = (Some h, r') \<longrightarrow> pwhash_str_verify lib (c_str h) p \<and> length (c_str h) \<le> 128"
    and "pwhash_str lib password (rng s) = (Some h, r1)"
    and "randombytes lib kTokenBytes r1 = (raw, r2)" and "token = token_of_bytes raw" and "token \<notin> set (map row_token (sessions t))"
    and "on_register_request lib a (login_request username password) s = (s1, calls1)" and "settle 3 lib cfg calls1 (t, s1) = (t1, s2)"
    and "on_login_request b (login_request username password) s2 = (s3, calls2)" and "settle 3 lib cfg calls2 (t1, s3) = (t2, s4)"
  shows "outbox s4 = outbox s @
      [Send a (AuthMessage_code RegisterResponse) (writes [writer_u8 (AuthResult_code AuthSuccess)] []),
       Send b (AuthMessage_code LoginResponse)
         (login_response AuthSuccess token (worldHost cfg) (worldPort cfg) (word_of_nat (next_account_id t)) 0)] \<and>
    fst (spec_call (LookupSession token) t2) = SessionReply True \<lparr>session_found = True,
      session_accountId = word_of_nat (next_account_id t), session_username = username, session_permissionLevel = 0\<rparr>"
proof -
  note name = valid_name [OF assms(1)]
  note request = read_login_request [OF name(1) assms(3)]
  let ?row = "\<lparr>row_id = next_account_id t, row_username = username, row_hash = c_str h, row_level = 0, row_last_login = None\<rparr>"
  let ?t = "t\<lparr>next_account_id := next_account_id t + 1, accounts := accounts t @ [?row]\<rparr>"
  have hashed: "pwhash_str_verify lib (c_str h) password" "length (c_str h) \<le> 128"
    using assms(8,9) by blast+
  have made: "spec_call (CreateAccount username (c_str h)) t = (CreateReply True DbOk (word_of_nat (next_account_id t)), ?t)"
    using new_account [OF assms(5,6) name(2), of "c_str h"] by simp
  have calls1: "calls1 = [(CreateAccount username (c_str h), RegisterCreate a)]" "s1 = s\<lparr>rng := r1\<rparr>"
    using assms(1,2,9,13) by (simp_all add: on_register_request_def request hashPassword_def)
  have registered: "t1 = ?t" "s2 = sendRegisterResponse a AuthSuccess (s\<lparr>rng := r1\<rparr>)"
    using assms(14) made
    by (simp_all add: calls1 numeral_3_eq_3 auth_run_def on_register_create_def del: spec_call.simps)
  note found = new_account_found [OF assms(4,5,6) hashed(2)]
  have looked: "spec_call (LookupAccount username) ?t = (AccountReply True \<lparr>lookup_found = True,
      lookup_accountId = word_of_nat (next_account_id t), lookup_passwordHash = c_str h, lookup_permissionLevel = 0\<rparr>, ?t)"
    using found(3,4) by (simp add: name(2))
  obtain reply t' where stored: "spec_call (CreateSession (word_of_nat (next_account_id t)) token (sessionTtl cfg)) ?t = (reply, t')"
    by fastforce
  have session: "reply = ResultReply True DbOk" "fst (spec_call (LookupSession token) t') = SessionReply True (session_lookup_of ?row)"
    using session_of_account [OF found(2,1), of token "sessionTtl cfg" reply t'] stored assms(7,11,12) token_clean by simp_all
  have random: "generateToken lib s2 = (token, s2\<lparr>rng := r2\<rparr>)"
    using assms(10,11) registered(2) by (simp add: generateToken_def sendRegisterResponse_def post_def)
  have calls2: "calls2 = [(LookupAccount username, LoginLookup b password username)]" "s3 = s2"
    using assms(15) by (simp_all add: on_login_request_def request)
  have settled: "t2 = t'" "s4 = on_login_session cfg b token (word_of_nat (next_account_id t)) 0 True DbOk (s2\<lparr>rng := r2\<rparr>)"
    using assms(16) looked stored session(1) hashed
    by (simp_all add: calls2 registered(1) numeral_3_eq_3 auth_run_def on_login_lookup_def verifyPassword_def random
        del: spec_call.simps)
  have "length username \<le> kMaxStringLength"
    using name(1) by (simp add: string_fits_def)
  with settled session(2) show ?thesis
    by (simp add: registered(2) on_login_session_def sendLoginResponse_def sendRegisterResponse_def post_def session_lookup_of_def
        del: spec_call.simps)
qed

definition sample_lib :: "nat sodium" where
  "sample_lib = \<lparr>randombytes = (\<lambda>n r. (replicate n (word_of_nat r), r + 1)), pwhash_str = (\<lambda>p r. (Some (''$'' @ take 100 (c_str p)), r + 1)),
     pwhash_str_verify = (\<lambda>h p. h = ''$'' @ take 100 (c_str p))\<rparr>"

theorem register_then_login_witness:
  "\<exists>s1 calls1 t1 s2 s3 calls2 t2 s4.
    on_register_request sample_lib 1 (login_request ''bob'' ''secret'') \<lparr>outbox = [], rng = 0\<rparr> = (s1, calls1) \<and>
    settle 3 sample_lib (auth_config (\<lambda>_. None)) calls1 (sample_tables, s1) = (t1, s2) \<and>
    on_login_request 2 (login_request ''bob'' ''secret'') s2 = (s3, calls2) \<and>
    settle 3 sample_lib (auth_config (\<lambda>_. None)) calls2 (t1, s3) = (t2, s4) \<and>
    fst (spec_call (LookupSession (token_of_bytes (replicate 32 1))) t2) = SessionReply True \<lparr>session_found = True,
      session_accountId = 4, session_username = ''bob'', session_permissionLevel = 0\<rparr>"
proof -
  let ?cfg = "auth_config (\<lambda>_. None)" and ?s = "\<lparr>outbox = [], rng = 0 :: nat\<rparr>"
  obtain s1 calls1 where 1: "on_register_request sample_lib 1 (login_request ''bob'' ''secret'') ?s = (s1, calls1)" by fastforce
  obtain t1 s2 where 2: "settle 3 sample_lib ?cfg calls1 (sample_tables, s1) = (t1, s2)" by fastforce
  obtain s3 calls2 where 3: "on_login_request 2 (login_request ''bob'' ''secret'') s2 = (s3, calls2)" by fastforce
  obtain t2 s4 where 4: "settle 3 sample_lib ?cfg calls2 (t1, s3) = (t2, s4)" by fastforce
  have law: "\<forall>p r h r'. pwhash_str sample_lib p r = (Some h, r') \<longrightarrow> pwhash_str_verify sample_lib (c_str h) p \<and> length (c_str h) \<le> 128"
  proof (intro allI impI)
    fix p r h r' assume "pwhash_str sample_lib p r = (Some h, r')"
    then have h: "h = ''$'' @ take 100 (c_str p)" by (simp add: sample_lib_def)
    have "c_str h = h" unfolding h by (rule c_str_clean) (auto simp: c_str_def dest!: in_set_takeD set_takeWhileD)
    then show "pwhash_str_verify sample_lib (c_str h) p \<and> length (c_str h) \<le> 128" using h by (simp add: sample_lib_def)
  qed
  have name: "validUsername ''bob''" by code_simp
  have password: "kMinPasswordLength \<le> length ''secret''" "string_fits ''secret''"
    by (simp_all add: kMinPasswordLength_def string_fits_def kMaxStringLength_def)
  have tables: "tables_ok sample_tables" "find_named ''bob'' sample_tables = None" "next_account_id sample_tables < 2 ^ 63"
    "0 < sessionTtl ?cfg"
    by (simp_all add: tables_ok_def sample_tables_def find_named_def named_def lower_def auth_config_def envUint_def)
  have hashes: "pwhash_str sample_lib ''secret'' (rng ?s) = (Some (''$'' @ take 100 (c_str ''secret'')), 1)"
    and random: "randombytes sample_lib kTokenBytes 1 = (replicate 32 1, 2)"
    by (simp_all add: sample_lib_def kTokenBytes_def)
  have fresh: "token_of_bytes (replicate 32 1) \<notin> set (map row_token (sessions sample_tables))" by (simp add: sample_tables_def)
  have "fst (spec_call (LookupSession (token_of_bytes (replicate 32 1))) t2) = SessionReply True \<lparr>session_found = True,
      session_accountId = 4, session_username = ''bob'', session_permissionLevel = 0\<rparr>"
    using register_then_login [OF name password tables law hashes random refl fresh 1 2 3 4]
    by (simp add: sample_tables_def)
  with 1 2 3 4 show ?thesis by blast
qed

end
